(* ===== verification/Prelude.thy ===== *)
theory Prelude
  imports Complex_Main "HOL-Library.Char_ord" "HOL-Library.List_Lexorder" "HOL-Library.Product_Lexorder"
    "HOL-Library.Sublist" "HOL-Library.AList"
begin

section \<open>Prelude: the Python fragment the components share\<close>

text \<open>
  What every component of the development uses: the exceptions of the program, the result
  type of code that may raise, the string and integer operations of Python's standard
  library that the sources call, and generic facts about them.

  Conventions of the model.
  \<^item> A Python \<open>str\<close> is a \<open>string\<close>, one \<open>char\<close> per code point; code points above U+00FF are
    outside the model, and an operation that would produce one raises \<open>NotModelled\<close>,
    which no handler of the program catches. \<open>OutOfFuel\<close> is the value of a recursion that
    was given too little fuel; each place that supplies fuel is shown never to return it.
  \<^item> A Python \<open>bytes\<close> value is a \<open>string\<close> too, one \<open>char\<close> per byte.
  \<^item> A Python \<open>int\<close> is an \<open>int\<close>, a \<open>Fraction\<close> is a \<open>rat\<close>.
  \<^item> Code that may raise returns \<open>'a res\<close>: \<open>Inl e\<close> for the exception \<open>e\<close>, \<open>Inr x\<close> for the
    value \<open>x\<close>. Messages of exceptions are dropped, their classes and codes are kept.
  \<^item> Checks of the form \<open>type(x) is T\<close> on arguments whose type the model fixes are discharged
    by that type; on decoded JSON they are real case distinctions.
\<close>

named_theorems res_simps \<open>rewriting of results of code that may raise\<close>
named_theorems py_defs \<open>definitions of the string helpers, for evaluation\<close>

subsection \<open>Exceptions\<close>

datatype FrozenPackageErrorCode =
    INVALID_ARGUMENT | MANIFEST_MISSING | MANIFEST_NON_CANONICAL | MANIFEST_HASH_INVALID
  | MANIFEST_HASH_MISMATCH | UNSUPPORTED_VERSION | MEMBER_SET_MISMATCH | MEMBER_HASH_MISMATCH
  | MEMBER_HASH_INVALID | SYMLINK_FORBIDDEN | PATH_INVALID | RECORD_INVALID | RUN_MISMATCH

datatype py_exc =
    TypeError | ValueError | KeyError | AttributeError | IndexError | OverflowError
  | ZeroDivisionError | RuntimeError | UnicodeDecodeError | JSONDecodeError | InvalidOperation
  | ExactError | ExactPrecisionError | ExactOverflowError | ExactDivisionError
  | DecimalRenderingError | ReconstructionError | IdentityBindError | DepthRejected | VwapError
  | FrozenPackageError FrozenPackageErrorCode
  | EvidenceRejected string | CaptureRejected string | GrantError string | LiveAuthorityError string
  | P3OperatorError string | CompatibilityError string
  | PublicConfigError | AnalyzerConfigError | OSError | FileExistsError | BadZipFile | OutOfFuel
  | CodedValueError string
  | NotModelled

text \<open>
  The class hierarchy, as far as handlers look at it: \<open>is_value_error\<close> holds of
  \<open>ValueError\<close> and its subclasses, \<open>is_exact_error\<close> of \<open>ExactError\<close> and its subclasses.
  \<open>CodedValueError\<close> is a plain \<open>ValueError\<close> whose message the code reads back.
\<close>

fun is_exact_error :: "py_exc \<Rightarrow> bool" where
  "is_exact_error ExactError = True"
| "is_exact_error ExactPrecisionError = True"
| "is_exact_error ExactOverflowError = True"
| "is_exact_error ExactDivisionError = True"
| "is_exact_error _ = False"

fun is_value_error :: "py_exc \<Rightarrow> bool" where
  "is_value_error TypeError = False"
| "is_value_error KeyError = False"
| "is_value_error AttributeError = False"
| "is_value_error IndexError = False"
| "is_value_error OverflowError = False"
| "is_value_error ZeroDivisionError = False"
| "is_value_error RuntimeError = False"
| "is_value_error InvalidOperation = False"
| "is_value_error PublicConfigError = False"
| "is_value_error AnalyzerConfigError = False"
| "is_value_error OSError = False"
| "is_value_error FileExistsError = False"
| "is_value_error BadZipFile = False"
| "is_value_error NotModelled = False"
| "is_value_error OutOfFuel = False"
| "is_value_error _ = True"

lemma exact_error_is_value_error [simp]: "is_exact_error e \<Longrightarrow> is_value_error e"
  by (cases e) auto

type_synonym 'a res = "py_exc + 'a"

subsection \<open>Results\<close>

definition rbind :: "'a res \<Rightarrow> ('a \<Rightarrow> 'b res) \<Rightarrow> 'b res" where
  "rbind m f = (case m of Inl e \<Rightarrow> Inl e | Inr x \<Rightarrow> f x)"

text \<open>\<open>if not ok: raise e\<close>, followed by the rest of the function.\<close>

definition require :: "bool \<Rightarrow> py_exc \<Rightarrow> 'a res \<Rightarrow> 'a res" where
  "require ok e rest = (if ok then rest else Inl e)"

text \<open>\<open>try: m except <p>: raise e\<close>.\<close>

definition reraise :: "(py_exc \<Rightarrow> bool) \<Rightarrow> py_exc \<Rightarrow> 'a res \<Rightarrow> 'a res" where
  "reraise p e m = (case m of Inl x \<Rightarrow> Inl (if p x then e else x) | Inr y \<Rightarrow> Inr y)"

text \<open>A comprehension whose element expression may raise: left to right, first error wins.\<close>

primrec rmap :: "('a \<Rightarrow> 'b res) \<Rightarrow> 'a list \<Rightarrow> 'b list res" where
  "rmap f [] = Inr []"
| "rmap f (x # xs) = rbind (f x) (\<lambda>y. rbind (rmap f xs) (\<lambda>ys. Inr (y # ys)))"

text \<open>A loop over a list whose body may raise: the state is threaded, the first error wins.\<close>

primrec rfold :: "('s \<Rightarrow> 'a \<Rightarrow> 's res) \<Rightarrow> 's \<Rightarrow> 'a list \<Rightarrow> 's res" where
  "rfold f s [] = Inr s"
| "rfold f s (x # xs) = rbind (f s x) (\<lambda>s'. rfold f s' xs)"

lemma rbind_simps [simp, res_simps]:
  "rbind (Inl e) f = Inl e"
  "rbind (Inr x) f = f x"
  by (simp_all add: rbind_def)

lemma rbind_eq_Inr [res_simps]: "rbind m f = Inr y \<longleftrightarrow> (\<exists>x. m = Inr x \<and> f x = Inr y)"
  by (cases m) auto

lemma rbind_eq_Inl [res_simps]:
  "rbind m f = Inl e \<longleftrightarrow> m = Inl e \<or> (\<exists>x. m = Inr x \<and> f x = Inl e)"
  by (cases m) auto

lemma rbind_InrE [elim]:
  assumes "rbind m f = Inr y"
  obtains x where "m = Inr x" and "f x = Inr y"
  using assms by (auto simp: rbind_eq_Inr)

lemma require_simps [simp, res_simps]:
  "require True e r = r"
  "require False e r = Inl e"
  by (simp_all add: require_def)

lemma require_eq_Inr [res_simps]: "require b e r = Inr y \<longleftrightarrow> b \<and> r = Inr y"
  by (simp add: require_def)

lemma require_eq_Inl [res_simps]: "require b e r = Inl x \<longleftrightarrow> (\<not> b \<and> x = e) \<or> (b \<and> r = Inl x)"
  by (auto simp: require_def)

lemma reraise_simps [simp, res_simps]:
  "reraise p e (Inr y) = Inr y"
  "reraise p e (Inl x) = Inl (if p x then e else x)"
  by (simp_all add: reraise_def)

lemma reraise_eq_Inr [simp]: "reraise p e m = Inr y \<longleftrightarrow> m = Inr y"
  by (cases m) auto

lemma rmap_eq_Inr: "rmap f xs = Inr ys \<longleftrightarrow> list_all2 (\<lambda>x y. f x = Inr y) xs ys"
  by (induction xs arbitrary: ys) (auto simp: rbind_eq_Inr list_all2_Cons1)

lemma rmap_cong [fundef_cong]:
  "xs = ys \<Longrightarrow> (\<And>x. x \<in> set ys \<Longrightarrow> f x = g x) \<Longrightarrow> rmap f xs = rmap g ys"
  by (induction ys arbitrary: xs) auto

lemma rmap_total: "(\<And>x. x \<in> set xs \<Longrightarrow> f x = Inr (g x)) \<Longrightarrow> rmap f xs = Inr (map g xs)"
  by (induction xs) auto

lemma rmap_Inr_length: "rmap f xs = Inr ys \<Longrightarrow> length ys = length xs"
  by (auto simp: rmap_eq_Inr dest: list_all2_lengthD)

lemma rmap_Inr_set: "rmap f xs = Inr ys \<Longrightarrow> y \<in> set ys \<Longrightarrow> \<exists>x \<in> set xs. f x = Inr y"
  by (auto simp: rmap_eq_Inr list_all2_conv_all_nth in_set_conv_nth) (metis nth_mem)

lemma rmap_eq_Inl: "rmap f xs = Inl e \<Longrightarrow> \<exists>x \<in> set xs. f x = Inl e"
  by (induction xs) (auto simp: rbind_eq_Inl)

lemma rfold_append: "rfold f s (xs @ ys) = rbind (rfold f s xs) (\<lambda>s'. rfold f s' ys)"
  by (induction xs arbitrary: s) (auto simp: rbind_def split: sum.splits)

lemma rfold_invariant:
  assumes "rfold f s xs = Inr s'" and "I [] s"
    and "\<And>done x t t'. I done t \<Longrightarrow> f t x = Inr t' \<Longrightarrow> x \<in> set xs \<Longrightarrow> I (done @ [x]) t'"
  shows "I xs s'"
  using assms
proof (induction xs arbitrary: s' rule: rev_induct)
  case (snoc x xs)
  then obtain t where "rfold f s xs = Inr t" and "f t x = Inr s'"
    by (auto simp: rfold_append rbind_eq_Inr)
  then show ?case using snoc by simp
qed simp

subsection \<open>Which exceptions a computation may raise\<close>

definition only_raises :: "py_exc set \<Rightarrow> 'a res \<Rightarrow> bool" where
  "only_raises E m \<longleftrightarrow> (\<forall>e. m = Inl e \<longrightarrow> e \<in> E)"

named_theorems raises \<open>rules that bound the exceptions of a computation\<close>

lemma only_raisesD: "only_raises E m \<Longrightarrow> m = Inl e \<Longrightarrow> e \<in> E"
  by (simp add: only_raises_def)

lemma only_raises_mono: "only_raises E m \<Longrightarrow> E \<subseteq> F \<Longrightarrow> only_raises F m"
  by (auto simp: only_raises_def)

lemma only_raises_Inr [simp]: "only_raises E (Inr x)"
  by (simp add: only_raises_def)

lemma only_raises_Inl [simp]: "only_raises E (Inl e) \<longleftrightarrow> e \<in> E"
  by (simp add: only_raises_def)

lemma only_raises_rbind [raises]:
  "only_raises E m \<Longrightarrow> (\<And>x. m = Inr x \<Longrightarrow> only_raises E (f x)) \<Longrightarrow> only_raises E (rbind m f)"
  by (cases m) (auto simp: only_raises_def)

lemma only_raises_require [raises]:
  "(b \<Longrightarrow> only_raises E r) \<Longrightarrow> (\<not> b \<Longrightarrow> e \<in> E) \<Longrightarrow> only_raises E (require b e r)"
  by (simp add: require_def)

lemma only_raises_if [raises]:
  "(b \<Longrightarrow> only_raises E m) \<Longrightarrow> (\<not> b \<Longrightarrow> only_raises E n) \<Longrightarrow> only_raises E (if b then m else n)"
  by simp

lemma only_raises_rmap [raises]: "(\<And>x. x \<in> set xs \<Longrightarrow> only_raises E (f x)) \<Longrightarrow> only_raises E (rmap f xs)"
  by (induction xs) (auto intro!: only_raises_rbind)

lemma only_raises_rfold [raises]: "(\<And>s x. x \<in> set xs \<Longrightarrow> only_raises E (f s x)) \<Longrightarrow> only_raises E (rfold f s xs)"
  by (induction xs arbitrary: s) (auto intro!: only_raises_rbind)

lemma only_raises_reraise:
  "only_raises F m \<Longrightarrow> (\<And>e'. e' \<in> F \<Longrightarrow> \<not> p e' \<Longrightarrow> e' \<in> E) \<Longrightarrow> e \<in> E \<Longrightarrow> only_raises E (reraise p e m)"
  by (cases m) (auto simp: only_raises_def reraise_def split: if_splits)

lemma only_raises_option [raises]:
  "(x = None \<Longrightarrow> only_raises E m) \<Longrightarrow> (\<And>y. x = Some y \<Longrightarrow> only_raises E (f y)) \<Longrightarrow>
     only_raises E (case x of None \<Rightarrow> m | Some y \<Rightarrow> f y)"
  by (cases x) auto

lemma only_raises_prod [raises]: "(\<And>a b. x = (a, b) \<Longrightarrow> only_raises E (f a b)) \<Longrightarrow> only_raises E (case x of (a, b) \<Rightarrow> f a b)"
  by (cases x) auto

lemma only_raises_list [raises]:
  "(xs = [] \<Longrightarrow> only_raises E m) \<Longrightarrow> (\<And>y ys. xs = y # ys \<Longrightarrow> only_raises E (f y ys)) \<Longrightarrow>
     only_raises E (case xs of [] \<Rightarrow> m | y # ys \<Rightarrow> f y ys)"
  by (cases xs) auto

lemma only_raises_Let [raises]: "only_raises E (f x) \<Longrightarrow> only_raises E (let y = x in f y)"
  by simp

subsection \<open>Dictionaries and sorting\<close>

text \<open>
  A dictionary in insertion order is an association list; \<open>d[k] = v\<close> is \<open>AList.update\<close>, which
  replaces in place or appends, and \<open>del d[k]\<close> is \<open>AList.delete\<close>.
\<close>

lemma AList_update_new: "k \<notin> fst ` set d \<Longrightarrow> AList.update k v d = d @ [(k, v)]"
  by (induction d) auto

lemma map_sort_key: "map f (sort_key f xs) = sort (map f xs)"
proof -
  have "map f (insort_key f x xs) = insort (f x) (map f xs)" for x xs by (induction xs) auto
  then show ?thesis by (induction xs) auto
qed

lemma sort_key_map: "sort_key f (map g xs) = map g (sort_key (\<lambda>x. f (g x)) xs)"
proof -
  have "insort_key f (g x) (map g xs) = map g (insort_key (\<lambda>x. f (g x)) x xs)" for x xs
    by (induction xs) auto
  then show ?thesis by (induction xs) auto
qed

subsection \<open>Characters and strings\<close>

abbreviation code :: "char \<Rightarrow> nat" where
  "code c \<equiv> of_char c"

definition is_ascii_digit :: "char \<Rightarrow> bool" where
  "is_ascii_digit c \<longleftrightarrow> 48 \<le> code c \<and> code c \<le> 57"

text \<open>
  \<open>str.isdigit\<close> holds of the ASCII digits and, below U+0100, of the superscripts two, three
  and one; \<open>int\<close> refuses those three.
\<close>

definition is_digit_char :: "char \<Rightarrow> bool" where
  "is_digit_char c \<longleftrightarrow> is_ascii_digit c \<or> code c = 178 \<or> code c = 179 \<or> code c = 185"

definition isdigit :: "string \<Rightarrow> bool" where
  "isdigit s \<longleftrightarrow> s \<noteq> [] \<and> list_all is_digit_char s"

definition is_space :: "char \<Rightarrow> bool" where
  "is_space c \<longleftrightarrow> (9 \<le> code c \<and> code c \<le> 13) \<or> (28 \<le> code c \<and> code c \<le> 32)
     \<or> code c = 133 \<or> code c = 160"

definition strip :: "string \<Rightarrow> string" where
  "strip s = rev (dropWhile is_space (rev (dropWhile is_space s)))"

text \<open>\<open>s.split(c)\<close> for a one-character separator.\<close>

fun split_on :: "char \<Rightarrow> string \<Rightarrow> string list" where
  "split_on c [] = [[]]"
| "split_on c (x # xs) =
     (if x = c then [] # split_on c xs
      else (case split_on c xs of [] \<Rightarrow> [[x]] | p # ps \<Rightarrow> (x # p) # ps))"

text \<open>
  \<open>str.casefold\<close> below U+0100: ASCII and Latin-1 capitals fold to their small letters, the
  sharp s to two letters. (The micro sign folds outside the range; it is left alone, which
  keeps the comparison of two folded strings of the model exact.)
\<close>

definition fold_char :: "char \<Rightarrow> string" where
  "fold_char c =
     (if 65 \<le> code c \<and> code c \<le> 90 then [char_of (code c + 32)]
      else if 192 \<le> code c \<and> code c \<le> 222 \<and> code c \<noteq> 215 then [char_of (code c + 32)]
      else if code c = 223 then ''ss''
      else [c])"

definition casefold :: "string \<Rightarrow> string" where
  "casefold s = concat (map fold_char s)"

definition is_hex_lower :: "char \<Rightarrow> bool" where
  "is_hex_lower c \<longleftrightarrow> c \<in> set ''0123456789abcdef''"

lemmas char_defs [py_defs] = is_ascii_digit_def is_digit_char_def isdigit_def is_space_def
  strip_def fold_char_def casefold_def is_hex_lower_def

lemma split_on_nonempty [simp]: "split_on c s \<noteq> []"
  by (induction s) (auto split: list.splits)

lemma split_on_none: "c \<notin> set s \<Longrightarrow> split_on c s = [s]"
  by (induction s) auto

lemma split_on_append: "c \<notin> set p \<Longrightarrow> split_on c (p @ c # s) = p # split_on c s"
  by (induction p) auto

lemma split_on_join: "split_on c s = [p] \<Longrightarrow> s = p"
proof (induction s arbitrary: p)
  case (Cons x xs)
  then show ?case by (cases "split_on c xs") (auto split: if_splits)
qed auto

lemma split_on_join2: "split_on c s = [p, q] \<Longrightarrow> s = p @ c # q"
proof (induction s arbitrary: p)
  case (Cons x xs)
  show ?case
  proof (cases "x = c")
    case True
    with Cons.prems have "p = []" and "split_on c xs = [q]" by auto
    then show ?thesis using True by (auto dest: split_on_join)
  next
    case False
    obtain r rs where r: "split_on c xs = r # rs" by (cases "split_on c xs") auto
    with Cons.prems False have "p = x # r" and "rs = [q]" by auto
    with r Cons.IH [of r] show ?thesis by simp
  qed
qed auto

lemma dropWhile_hd: "s = [] \<or> \<not> P (hd s) \<Longrightarrow> dropWhile P s = s"
  by (cases s) auto

lemma strip_id: "s = [] \<or> (\<not> is_space (hd s) \<and> \<not> is_space (last s)) \<Longrightarrow> strip s = s"
  by (auto simp: strip_def dropWhile_hd hd_rev)

subsection \<open>Decimal digits and integers\<close>

definition digit_char :: "nat \<Rightarrow> char" where
  "digit_char d = char_of (48 + d)"

definition digit_val :: "char \<Rightarrow> nat" where
  "digit_val c = code c - 48"

fun nat_str :: "nat \<Rightarrow> string" where
  "nat_str n = (if n < 10 then [digit_char n] else nat_str (n div 10) @ [digit_char (n mod 10)])"

declare nat_str.simps [simp del]

definition digits_val :: "string \<Rightarrow> nat" where
  "digits_val s = foldl (\<lambda>n c. 10 * n + digit_val c) 0 s"

definition int_str :: "int \<Rightarrow> string" where
  "int_str i = (if i < 0 then CHR ''-'' # nat_str (nat (- i)) else nat_str (nat i))"

text \<open>
  \<open>int(s)\<close> on a nonempty string of digits: a digit that is not decimal, or more digits than
  CPython's conversion limit, is a \<open>ValueError\<close>.
\<close>

definition max_str_digits :: nat where
  "max_str_digits = 4300"

definition int_of_digits :: "string \<Rightarrow> int res" where
  "int_of_digits s =
     (if list_all is_ascii_digit s \<and> s \<noteq> [] \<and> length s \<le> max_str_digits
      then Inr (int (digits_val s)) else Inl ValueError)"

text \<open>Faster equations for evaluation: membership in a set of characters, tables of digits.\<close>

lemma char_range_code:
  assumes "list_all (\<lambda>n. char_of n \<in> set s) [a..<Suc b]" and "list_all (\<lambda>c. a \<le> code c \<and> code c \<le> b) s"
  shows "a \<le> code c \<and> code c \<le> b \<longleftrightarrow> c \<in> set s"
proof
  assume "a \<le> code c \<and> code c \<le> b"
  then have "code c \<in> set [a..<Suc b]" by auto
  then have "char_of (code c) \<in> set s" using assms(1) unfolding list_all_iff by blast
  then show "c \<in> set s" by simp
next
  assume "c \<in> set s"
  then show "a \<le> code c \<and> code c \<le> b" using assms(2) by (simp add: list_all_iff)
qed

lemma is_ascii_digit_code [code]: "is_ascii_digit c \<longleftrightarrow> c \<in> set ''0123456789''"
  unfolding is_ascii_digit_def by (rule char_range_code) code_simp+

lemma is_space_code [code]:
  "is_space c \<longleftrightarrow> c \<in> set [CHR 0x09, CHR 0x0A, CHR 0x0B, CHR 0x0C, CHR 0x0D]
     \<or> c \<in> set [CHR 0x1C, CHR 0x1D, CHR 0x1E, CHR 0x1F, CHR 0x20] \<or> c = CHR 0x85 \<or> c = CHR 0xA0"
proof -
  have "9 \<le> code c \<and> code c \<le> 13 \<longleftrightarrow> c \<in> set [CHR 0x09, CHR 0x0A, CHR 0x0B, CHR 0x0C, CHR 0x0D]"
    and "28 \<le> code c \<and> code c \<le> 32 \<longleftrightarrow> c \<in> set [CHR 0x1C, CHR 0x1D, CHR 0x1E, CHR 0x1F, CHR 0x20]"
    by (rule char_range_code; code_simp)+
  moreover have "code c = 133 \<longleftrightarrow> c = CHR 0x85" "code c = 160 \<longleftrightarrow> c = CHR 0xA0"
    using of_char_eq_iff [of c "CHR 0x85", where 'a = nat] of_char_eq_iff [of c "CHR 0xA0", where 'a = nat] by simp_all
  ultimately show ?thesis unfolding is_space_def by blast
qed

lemma is_digit_char_code [code]:
  "is_digit_char c \<longleftrightarrow> c \<in> set ''0123456789'' \<or> c = CHR 0xB2 \<or> c = CHR 0xB3 \<or> c = CHR 0xB9"
  using of_char_eq_iff [of c "CHR 0xB2", where 'a = nat] of_char_eq_iff [of c "CHR 0xB3", where 'a = nat]
    of_char_eq_iff [of c "CHR 0xB9", where 'a = nat]
  unfolding is_digit_char_def is_ascii_digit_code by simp

lemma is_upper_code: "65 \<le> code c \<and> code c \<le> 90 \<longleftrightarrow> c \<in> set ''ABCDEFGHIJKLMNOPQRSTUVWXYZ''"
  by (rule char_range_code) code_simp+

lemma fold_char_code [code]:
  "fold_char c =
     (if c \<in> set ''abcdefghijklmnopqrstuvwxyz'' then [c]
      else if c \<in> set ''ABCDEFGHIJKLMNOPQRSTUVWXYZ'' then [char_of (code c + 32)]
      else if 192 \<le> code c \<and> code c \<le> 222 \<and> code c \<noteq> 215 then [char_of (code c + 32)]
      else if code c = 223 then ''ss''
      else [c])"
proof -
  have "97 \<le> code c \<and> code c \<le> 122 \<longleftrightarrow> c \<in> set ''abcdefghijklmnopqrstuvwxyz''"
    by (rule char_range_code) code_simp+
  then show ?thesis unfolding fold_char_def is_upper_code [symmetric] by auto
qed

lemma digit_val_code [code]:
  "digit_val c = (case map_of (zip ''0123456789'' [0, 1, 2, 3, 4, 5, 6, 7, 8, 9]) c of
     Some d \<Rightarrow> d | None \<Rightarrow> code c - 48)"
  by (auto simp: digit_val_def)

lemma int_of_digits_code [code]:
  "int_of_digits s = (if list_all is_ascii_digit s \<and> s \<noteq> [] \<and> int (length s) \<le> 4300
      then Inr (int (digits_val s)) else Inl ValueError)"
  by (simp add: int_of_digits_def max_str_digits_def)

text \<open>\<open>int(s)\<close> on any string: surrounding white space, a sign, single underscores.\<close>

fun drop_underscores :: "string \<Rightarrow> string option" where
  "drop_underscores [] = None"
| "drop_underscores [c] = (if is_ascii_digit c then Some [c] else None)"
| "drop_underscores (c # d # s) =
     (if \<not> is_ascii_digit c then None
      else if d = CHR ''_'' then map_option ((#) c) (drop_underscores s)
      else map_option ((#) c) (drop_underscores (d # s)))"

definition int_of_str :: "string \<Rightarrow> int res" where
  "int_of_str raw =
     (let s = strip raw;
          neg = (s \<noteq> [] \<and> hd s = CHR ''-'');
          body = (if s \<noteq> [] \<and> (hd s = CHR ''-'' \<or> hd s = CHR ''+'') then tl s else s)
      in case drop_underscores body of
           None \<Rightarrow> Inl ValueError
         | Some ds \<Rightarrow> rbind (int_of_digits ds) (\<lambda>n. Inr (if neg then - n else n)))"

lemmas digit_defs [py_defs] = digit_val_def digits_val_def int_str_def
  max_str_digits_def int_of_digits_def int_of_str_def Let_def

lemma digit_char_eval [py_defs]:
  "digit_char 0 = CHR ''0''" "digit_char 1 = CHR ''1''" "digit_char (Suc 0) = CHR ''1''"
  "digit_char 2 = CHR ''2''" "digit_char 3 = CHR ''3''" "digit_char 4 = CHR ''4''"
  "digit_char 5 = CHR ''5''" "digit_char 6 = CHR ''6''" "digit_char 7 = CHR ''7''"
  "digit_char 8 = CHR ''8''" "digit_char 9 = CHR ''9''"
  by code_simp+

lemma nat_str_eval [py_defs]:
  "nat_str 0 = [digit_char 0]" "nat_str 1 = [digit_char 1]" "nat_str (Suc 0) = [digit_char 1]"
  "nat_str (numeral k) =
     (if numeral k < (10::nat) then [digit_char (numeral k)]
      else nat_str (numeral k div 10) @ [digit_char (numeral k mod 10)])"
  by (subst nat_str.simps; simp)+

lemma replicate_eval [py_defs]: "replicate (numeral k) x = x # replicate (pred_numeral k) x"
  by (simp add: numeral_eq_Suc)

lemma code_digit_char [simp]: "d < 10 \<Longrightarrow> code (digit_char d) = 48 + d"
  by (simp add: digit_char_def)

lemma is_ascii_digit_char [simp]: "d < 10 \<Longrightarrow> is_ascii_digit (digit_char d)"
  by (simp add: is_ascii_digit_def)

lemma digit_val_char [simp]: "d < 10 \<Longrightarrow> digit_val (digit_char d) = d"
  by (simp add: digit_val_def)

lemma ascii_digit_is_digit [simp]: "is_ascii_digit c \<Longrightarrow> is_digit_char c"
  by (simp add: is_digit_char_def)

lemma digit_val_less [simp]: "is_ascii_digit c \<Longrightarrow> digit_val c < 10"
  by (auto simp: is_ascii_digit_def digit_val_def)

lemma nat_str_not_Nil [simp]: "nat_str n \<noteq> []"
  by (subst nat_str.simps) simp

lemma nat_str_digits: "list_all is_ascii_digit (nat_str n)"
proof (induction n rule: nat_str.induct)
  case (1 n)
  then show ?case by (subst nat_str.simps) simp
qed

lemma isdigit_nat_str [simp]: "isdigit (nat_str n)"
  using nat_str_digits [of n] by (auto simp: isdigit_def list_all_iff)

lemma digits_val_Nil [simp]: "digits_val [] = 0"
  by (simp add: digits_val_def)

lemma digits_val_snoc [simp]: "digits_val (s @ [c]) = 10 * digits_val s + digit_val c"
  by (simp add: digits_val_def)

lemma digits_val_append: "digits_val (s @ t) = digits_val s * 10 ^ length t + digits_val t"
proof (induction t rule: rev_induct)
  case (snoc c t)
  have "digits_val (s @ t @ [c]) = 10 * digits_val (s @ t) + digit_val c"
    using digits_val_snoc [of "s @ t" c] by simp
  then show ?case using snoc by (simp add: algebra_simps)
qed simp

lemma digits_val_less: "list_all is_ascii_digit s \<Longrightarrow> digits_val s < 10 ^ length s"
proof (induction s rule: rev_induct)
  case (snoc c s)
  then have "digits_val s < 10 ^ length s" and "digit_val c < 10" by auto
  then show ?case by simp
qed simp

lemma digits_val_nat_str [simp]: "digits_val (nat_str n) = n"
proof (induction n rule: nat_str.induct)
  case (1 n)
  then show ?case by (subst nat_str.simps) (auto simp: digits_val_def)
qed

lemma digits_val_zeros [simp]: "digits_val (replicate k CHR ''0'') = 0"
  by (induction k) (auto simp: digits_val_def digit_val_def)

lemma digits_val_pad: "digits_val (replicate k CHR ''0'' @ s) = digits_val s"
  by (simp add: digits_val_append)

lemma length_nat_str_le: "0 < k \<Longrightarrow> n < 10 ^ k \<Longrightarrow> length (nat_str n) \<le> k"
proof (induction n arbitrary: k rule: nat_str.induct)
  case (1 n)
  show ?case
  proof (cases "n < 10")
    case True
    then show ?thesis using "1.prems" by (subst nat_str.simps) simp
  next
    case False
    obtain j where j: "k = Suc j" using "1.prems" by (cases k) auto
    with False "1.prems" have "0 < j" by (cases j) auto
    moreover have "n div 10 < 10 ^ j" using "1.prems" j by (simp add: div_less_iff_less_mult mult.commute)
    ultimately have "length (nat_str (n div 10)) \<le> j" using "1.IH" False by blast
    then show ?thesis using False j by (subst nat_str.simps) simp
  qed
qed

lemma hd_nat_str: "is_ascii_digit (hd (nat_str n))"
  using nat_str_digits [of n] by (cases "nat_str n") auto

lemma nat_str_inject [simp]: "nat_str m = nat_str n \<longleftrightarrow> m = n"
  by (metis digits_val_nat_str)

lemma int_of_digits_nat_str [simp]:
  "length (nat_str n) \<le> max_str_digits \<Longrightarrow> int_of_digits (nat_str n) = Inr (int n)"
  using nat_str_digits [of n] by (simp add: int_of_digits_def)

end
