(* ===== verification/PyDecimal.thy ===== *)
theory PyDecimal
  imports Prelude
begin

section \<open>Python's \<open>decimal.Decimal\<close>\<close>

text \<open>
  The part of the standard library's decimal type that the sources use: construction from a
  string, from a tuple and from an integer, comparison, \<open>format(value, "f")\<close> and one division
  in a context of 28 digits that rounds half to even. A finite decimal is a sign, a coefficient
  and an exponent. Exponents beyond the implementation's limits and signalling NaNs are
  outside the model (\<open>NotModelled\<close>).
\<close>

datatype pydec = DFin bool nat int | DInf bool | DNaN

definition dec_limit :: int where
  "dec_limit = 999999999999999999"

fun is_finite :: "pydec \<Rightarrow> bool" where
  "is_finite (DFin _ _ _) = True"
| "is_finite _ = False"

text \<open>The value of a finite decimal; the other two kinds have none.\<close>

definition pow10 :: "int \<Rightarrow> rat" where
  "pow10 e = (if 0 \<le> e then 10 ^ nat e else 1 / 10 ^ nat (- e))"

fun dec_val :: "pydec \<Rightarrow> rat" where
  "dec_val (DFin s c e) = (if s then - 1 else 1) * of_nat c * pow10 e"
| "dec_val _ = 0"

subsection \<open>Comparison\<close>

text \<open>Numeric equality: a quiet NaN is equal to nothing.\<close>

fun dec_eq :: "pydec \<Rightarrow> pydec \<Rightarrow> bool" where
  "dec_eq (DFin s c e) (DFin s' c' e') = (dec_val (DFin s c e) = dec_val (DFin s' c' e'))"
| "dec_eq (DInf s) (DInf s') = (s = s')"
| "dec_eq _ _ = False"

fun dec_lt :: "pydec \<Rightarrow> pydec \<Rightarrow> bool" where
  "dec_lt (DFin s c e) (DFin s' c' e') = (dec_val (DFin s c e) < dec_val (DFin s' c' e'))"
| "dec_lt (DFin _ _ _) (DInf s') = (\<not> s')"
| "dec_lt (DInf s) (DFin _ _ _) = s"
| "dec_lt (DInf s) (DInf s') = (s \<and> \<not> s')"
| "dec_lt _ _ = False"

text \<open>An ordering comparison with a NaN raises; otherwise it is the order of the values.\<close>

definition dec_le0 :: "pydec \<Rightarrow> bool res" where
  "dec_le0 x = (if x = DNaN then Inl InvalidOperation
                else Inr (dec_lt x (DFin False 0 0) \<or> dec_eq x (DFin False 0 0)))"

abbreviation dec_pos :: "pydec \<Rightarrow> bool" where
  "dec_pos x \<equiv> dec_lt (DFin False 0 0) x"

subsection \<open>Rendering and reading\<close>

text \<open>\<open>format(value, "f")\<close> for a finite value: no exponent, the digits in place.\<close>

definition format_f :: "bool \<Rightarrow> nat \<Rightarrow> int \<Rightarrow> string" where
  "format_f s c e0 =
     (let e = (if c = 0 \<and> 0 < e0 then 0 else e0);
          ds = nat_str c;
          dot = int (length ds) + e;
          ip = (if dot < 0 then ''0''
                else if int (length ds) < dot then ds @ replicate (nat e) CHR ''0''
                else if dot = 0 then ''0'' else take (nat dot) ds);
          fp = (if dot < 0 then replicate (nat (- dot)) CHR ''0'' @ ds
                else if int (length ds) < dot then [] else drop (nat dot) ds)
      in (if s then ''-'' else []) @ ip @ (if fp = [] then [] else CHR ''.'' # fp))"

text \<open>
  \<open>Decimal(text)\<close>: white space is stripped and underscores are dropped; then a sign, digits
  with at most one point, and an exponent, or a spelling of infinity or NaN, in any case.
  Anything else is \<open>InvalidOperation\<close>.
\<close>

definition lower_ascii :: "string \<Rightarrow> string" where
  "lower_ascii s = map (\<lambda>c. if 65 \<le> code c \<and> code c \<le> 90 then char_of (code c + 32) else c) s"

lemma lower_ascii_code [code]:
  "lower_ascii s = map (\<lambda>c. if c \<in> set ''ABCDEFGHIJKLMNOPQRSTUVWXYZ'' then char_of (code c + 32) else c) s"
  unfolding lower_ascii_def is_upper_code ..

definition dec_number :: "bool \<Rightarrow> string \<Rightarrow> int \<Rightarrow> pydec res" where
  "dec_number neg mant ex =
     (case split_on CHR ''.'' mant of
        [w] \<Rightarrow> if w \<noteq> [] \<and> list_all is_ascii_digit w then Inr (DFin neg (digits_val w) ex)
               else Inl InvalidOperation
      | [w, f] \<Rightarrow> if w @ f \<noteq> [] \<and> list_all is_ascii_digit (w @ f)
               then Inr (DFin neg (digits_val (w @ f)) (ex - int (length f)))
               else Inl InvalidOperation
      | _ \<Rightarrow> Inl InvalidOperation)"

definition dec_exponent :: "string \<Rightarrow> int res" where
  "dec_exponent t =
     (let neg = (t \<noteq> [] \<and> hd t = CHR ''-'');
          ds = (if t \<noteq> [] \<and> (hd t = CHR ''-'' \<or> hd t = CHR ''+'') then tl t else t)
      in if ds = [] \<or> \<not> list_all is_ascii_digit ds then Inl InvalidOperation
         else if 18 < length ds then Inl NotModelled
         else Inr (if neg then - int (digits_val ds) else int (digits_val ds)))"

definition dec_of_str :: "string \<Rightarrow> pydec res" where
  "dec_of_str raw =
     (let s = lower_ascii (filter (\<lambda>c. c \<noteq> CHR ''_'') (strip raw));
          neg = (s \<noteq> [] \<and> hd s = CHR ''-'');
          t = (if s \<noteq> [] \<and> (hd s = CHR ''-'' \<or> hd s = CHR ''+'') then tl s else s)
      in if t = ''inf'' \<or> t = ''infinity'' then Inr (DInf neg)
         else if take 3 t = ''nan'' \<and> list_all is_ascii_digit (drop 3 t) then Inr DNaN
         else if take 4 t = ''snan'' \<and> list_all is_ascii_digit (drop 4 t) then Inl NotModelled
         else (case split_on CHR ''e'' t of
             [m] \<Rightarrow> dec_number neg m 0
           | [m, x] \<Rightarrow> rbind (dec_exponent x) (dec_number neg m)
           | _ \<Rightarrow> Inl InvalidOperation))"

subsection \<open>Division to 28 significant digits, half to even\<close>

definition prec :: nat where
  "prec = 28"

definition round_half_even :: "nat \<Rightarrow> nat \<Rightarrow> nat" where
  "round_half_even n d =
     (let q = n div d; r = n mod d
      in if 2 * r < d \<or> (2 * r = d \<and> even q) then q else q + 1)"

text \<open>
  The sources divide only where the quotient has no finite decimal expansion, so the case of
  an exact quotient, whose trailing zeros the library would drop, does not arise.
  The exponent of the quotient \<open>n / d\<close>: the one that gives a coefficient of exactly \<open>prec\<close>
  digits. The number of digits of the operands determines it up to one.
\<close>

definition scale_ok :: "nat \<Rightarrow> nat \<Rightarrow> int \<Rightarrow> bool" where
  "scale_ok n d e \<longleftrightarrow> (if 0 \<le> e then 10 ^ (prec - 1) * (d * 10 ^ nat e) \<le> n
                       else 10 ^ (prec - 1) * d \<le> n * 10 ^ nat (- e))"

definition quot_exponent :: "nat \<Rightarrow> nat \<Rightarrow> int" where
  "quot_exponent n d =
     (let e = int (length (nat_str n)) - int (length (nat_str d)) - int prec + 1
      in if scale_ok n d e then e else e - 1)"

definition dec_divide :: "bool \<Rightarrow> nat \<Rightarrow> nat \<Rightarrow> pydec res" where
  "dec_divide s n d =
     (if d = 0 then Inl InvalidOperation
      else if n = 0 then Inr (DFin s 0 0)
      else
        let e = quot_exponent n d;
            c = (if 0 \<le> e then round_half_even n (d * 10 ^ nat e)
                 else round_half_even (n * 10 ^ nat (- e)) d);
            c' = (if c = 10 ^ prec then 10 ^ (prec - 1) else c);
            e' = (if c = 10 ^ prec then e + 1 else e)
        in if e' + int prec - 1 > dec_limit then Inl InvalidOperation
           else if e' + int prec - 1 < - dec_limit then Inl NotModelled
           else Inr (DFin s c' e'))"

subsection \<open>Powers of ten and the rounded quotient\<close>

lemma pow10_powi: "pow10 e = 10 powi e"
  by (auto simp: pow10_def power_int_def field_simps)

lemma pow10_pos [simp]: "0 < pow10 e"
  by (simp add: pow10_def)

lemma pow10_add: "pow10 (a + b) = pow10 a * pow10 b"
  by (simp add: pow10_powi power_int_add)

lemma pow10_nat [simp]: "pow10 (int k) = 10 ^ k"
  by (simp add: pow10_def)

lemma pow10_neg: "pow10 (- e) = 1 / pow10 e"
  using pow10_add [of e "- e"] by (simp add: pow10_def)

lemma pow10_mono: "a \<le> b \<Longrightarrow> pow10 a \<le> pow10 b"
  by (simp add: pow10_powi power_int_mono_iff power_int_increasing)

lemma round_half_even_error:
  assumes "0 < d"
  shows "\<bar>rat_of_nat (round_half_even n d) - rat_of_nat n / rat_of_nat d\<bar> \<le> 1 / 2"
proof -
  let ?q = "n div d" and ?r = "n mod d"
  have "rat_of_nat n = of_nat (d * ?q + ?r)" by simp
  also have "\<dots> = of_nat d * of_nat ?q + of_nat ?r" by (simp only: of_nat_add of_nat_mult)
  finally have n: "rat_of_nat n / of_nat d = of_nat ?q + of_nat ?r / of_nat d"
    using assms by (simp add: add_divide_distrib)
  have lo: "0 \<le> rat_of_nat ?r / of_nat d" by simp
  have hi: "rat_of_nat ?r / of_nat d < 1" using assms by (simp add: divide_less_eq)
  show ?thesis
  proof (cases "2 * ?r < d \<or> (2 * ?r = d \<and> even ?q)")
    case True
    then have "2 * rat_of_nat ?r \<le> of_nat d" by (metis nat_less_le of_nat_le_iff of_nat_mult of_nat_numeral order.refl)
    then have "rat_of_nat ?r / of_nat d \<le> 1 / 2" using assms by (simp add: field_simps)
    then show ?thesis using True n lo by (simp add: round_half_even_def)
  next
    case False
    then have "d \<le> 2 * ?r" by auto
    then have "rat_of_nat d \<le> 2 * of_nat ?r" by (metis of_nat_le_iff of_nat_mult of_nat_numeral)
    then have "1 / 2 \<le> rat_of_nat ?r / of_nat d" using assms by (simp add: field_simps)
    moreover have "round_half_even n d = ?q + 1" using False by (auto simp: round_half_even_def Let_def)
    ultimately show ?thesis using n hi by simp
  qed
qed

lemma round_half_even_range:
  assumes "0 < d" and "k * d \<le> n" and "n < m * d"
  shows "k \<le> round_half_even n d" and "round_half_even n d \<le> m"
proof -
  have "k \<le> n div d" using assms by (simp add: less_eq_div_iff_mult_less_eq)
  moreover have "n div d < m" using assms by (simp add: div_less_iff_less_mult)
  ultimately show "k \<le> round_half_even n d" and "round_half_even n d \<le> m"
    by (auto simp: round_half_even_def Let_def)
qed

lemma nat_str_length_bounds:
  assumes "0 < n"
  shows "10 ^ (length (nat_str n) - 1) \<le> n" and "n < 10 ^ length (nat_str n)"
proof -
  show "n < 10 ^ length (nat_str n)"
    using digits_val_less [OF nat_str_digits [of n]] by simp
  show "10 ^ (length (nat_str n) - 1) \<le> n"
    using assms
  proof (induction n rule: nat_str.induct)
    case (1 n)
    show ?case
    proof (cases "n < 10")
      case True
      with 1 show ?thesis by (subst nat_str.simps) simp
    next
      case False
      then have "10 ^ (length (nat_str (n div 10)) - 1) \<le> n div 10" using 1 by simp
      then have "10 ^ (length (nat_str (n div 10)) - 1) * 10 \<le> n" by simp
      moreover have "length (nat_str (n div 10)) \<noteq> 0" by simp
      then obtain k where "length (nat_str (n div 10)) = Suc k" using not0_implies_Suc by blast
      ultimately show ?thesis using False by (subst nat_str.simps) simp
    qed
  qed
qed

lemma nat_str_pow10:
  assumes "0 < n"
  shows "pow10 (int (length (nat_str n)) - 1) \<le> of_nat n" and "of_nat n < pow10 (int (length (nat_str n)))"
proof -
  have "0 < length (nat_str n)" by simp
  then have e: "int (length (nat_str n)) - 1 = int (length (nat_str n) - 1)" by linarith
  have "rat_of_nat (10 ^ (length (nat_str n) - 1)) \<le> of_nat n"
    unfolding of_nat_le_iff by (rule nat_str_length_bounds(1) [OF assms])
  then show "pow10 (int (length (nat_str n)) - 1) \<le> of_nat n" unfolding e pow10_nat by simp
  have "rat_of_nat n < of_nat (10 ^ length (nat_str n))"
    unfolding of_nat_less_iff by (rule nat_str_length_bounds(2) [OF assms])
  then show "of_nat n < pow10 (int (length (nat_str n)))" unfolding pow10_nat by simp
qed

definition quot :: "nat \<Rightarrow> nat \<Rightarrow> rat" where
  "quot n d = of_nat n / of_nat d"

lemma scale_ok_iff:
  assumes "0 < d"
  shows "scale_ok n d e \<longleftrightarrow> pow10 (int prec - 1 + e) \<le> quot n d"
proof -
  have p: "pow10 (int prec - 1 + e) = 10 ^ (prec - 1) * pow10 e"
    using pow10_add [of "int (prec - 1)" e] by (simp only: pow10_nat) (simp add: prec_def)
  have d: "0 < rat_of_nat d" using assms by simp
  show ?thesis
  proof (cases "0 \<le> e")
    case True
    have "scale_ok n d e \<longleftrightarrow> rat_of_nat (10 ^ (prec - 1) * (d * 10 ^ nat e)) \<le> of_nat n"
      using True by (simp only: scale_ok_def if_True of_nat_le_iff)
    also have "\<dots> \<longleftrightarrow> 10 ^ (prec - 1) * pow10 e * of_nat d \<le> of_nat n"
      using True by (simp add: pow10_def mult.assoc mult.commute mult.left_commute)
    also have "\<dots> \<longleftrightarrow> pow10 (int prec - 1 + e) \<le> quot n d"
      unfolding p quot_def using d by (simp only: pos_le_divide_eq)
    finally show ?thesis .
  next
    case False
    have "scale_ok n d e \<longleftrightarrow> rat_of_nat (10 ^ (prec - 1) * d) \<le> of_nat (n * 10 ^ nat (- e))"
      using False by (simp only: scale_ok_def if_False of_nat_le_iff)
    also have "\<dots> \<longleftrightarrow> 10 ^ (prec - 1) * pow10 e * of_nat d \<le> of_nat n"
      using False by (simp add: pow10_def field_simps)
    also have "\<dots> \<longleftrightarrow> pow10 (int prec - 1 + e) \<le> quot n d"
      unfolding p quot_def using d by (simp only: pos_le_divide_eq)
    finally show ?thesis .
  qed
qed

lemma quot_length_bounds:
  assumes "0 < n" and "0 < d"
  defines "k \<equiv> int (length (nat_str n)) - int (length (nat_str d))"
  shows "pow10 (k - 1) \<le> quot n d" and "quot n d < pow10 (k + 1)"
proof -
  let ?a = "length (nat_str n)" and ?b = "length (nat_str d)"
  have pos: "0 < ?a" "0 < ?b" by simp_all
  have n1: "pow10 (int ?a - 1) \<le> of_nat n" and n2: "of_nat n < pow10 (int ?a)"
    using nat_str_pow10 [OF assms(1)] by simp_all
  have d1: "pow10 (int ?b - 1) \<le> of_nat d" and d2: "of_nat d < pow10 (int ?b)"
    using nat_str_pow10 [OF assms(2)] by simp_all
  have d0: "0 < rat_of_nat d" using assms by simp
  have "pow10 (k - 1) * of_nat d \<le> pow10 (k - 1) * pow10 (int ?b)" using d2 by simp
  also have "\<dots> = pow10 (int ?a - 1)" unfolding pow10_add [symmetric] by (simp add: k_def)
  also have "\<dots> \<le> of_nat n" by (rule n1)
  finally show "pow10 (k - 1) \<le> quot n d" using d0 by (simp add: quot_def pos_le_divide_eq)
  have "rat_of_nat n < pow10 (int ?a)" by (rule n2)
  also have "\<dots> = pow10 (k + 1) * pow10 (int ?b - 1)" unfolding pow10_add [symmetric] by (simp add: k_def)
  also have "\<dots> \<le> pow10 (k + 1) * of_nat d" using d1 by simp
  finally show "quot n d < pow10 (k + 1)" using d0 by (simp add: quot_def pos_divide_less_eq)
qed

lemma quot_exponent_range:
  assumes "0 < n" and "0 < d"
  shows "pow10 (int prec - 1 + quot_exponent n d) \<le> quot n d"
    and "quot n d < pow10 (int prec + quot_exponent n d)"
proof -
  let ?e = "int (length (nat_str n)) - int (length (nat_str d)) - int prec + 1"
  note b = quot_length_bounds [OF assms]
  have "pow10 (int prec - 1 + (?e - 1)) \<le> quot n d"
    using b(1) by (simp add: algebra_simps)
  then show "pow10 (int prec - 1 + quot_exponent n d) \<le> quot n d"
    using scale_ok_iff [OF assms(2), of n ?e] by (simp add: quot_exponent_def Let_def)
  show "quot n d < pow10 (int prec + quot_exponent n d)"
    using scale_ok_iff [OF assms(2), of n ?e] b(2)
    by (auto simp: quot_exponent_def Let_def algebra_simps)
qed

text \<open>
  The rounded quotient: a 28-digit coefficient whose value is off by at most half a unit
  of its last place.
\<close>

lemma dec_divide_error:
  assumes n: "0 < n" and d: "0 < d" and r: "dec_divide s n d = Inr v"
  shows "\<exists>c e. v = DFin s c e \<and> 10 ^ (prec - 1) \<le> c \<and> c < 10 ^ prec
           \<and> \<bar>of_nat c * pow10 e - quot n d\<bar> \<le> pow10 e / 2"
proof -
  define e where "e = quot_exponent n d"
  define N where "N = (if 0 \<le> e then n else n * 10 ^ nat (- e))"
  define D where "D = (if 0 \<le> e then d * 10 ^ nat e else d)"
  let ?c = "round_half_even N D"
  have D0: "0 < D" using d by (simp add: D_def)
  have q: "rat_of_nat N / of_nat D * pow10 e = quot n d"
    by (simp add: N_def D_def quot_def pow10_def)
  have p: "pow10 (int prec - 1 + e) = 10 ^ (prec - 1) * pow10 e" "pow10 (int prec + e) = 10 ^ prec * pow10 e"
    using pow10_add [of "int (prec - 1)" e] pow10_add [of "int prec" e]
    by (simp_all only: pow10_nat) (simp_all add: prec_def)
  have "10 ^ (prec - 1) * pow10 e \<le> rat_of_nat N / of_nat D * pow10 e"
    using quot_exponent_range(1) [OF n d] unfolding e_def [symmetric] p q .
  then have "rat_of_nat (10 ^ (prec - 1) * D) \<le> of_nat N" using D0 by (simp add: pos_le_divide_eq)
  then have lo: "10 ^ (prec - 1) * D \<le> N" by (simp only: of_nat_le_iff)
  have "rat_of_nat N / of_nat D * pow10 e < 10 ^ prec * pow10 e"
    using quot_exponent_range(2) [OF n d] unfolding e_def [symmetric] p q .
  then have "rat_of_nat N < of_nat (10 ^ prec * D)" using D0 by (simp add: pos_divide_less_eq)
  then have hi: "N < 10 ^ prec * D" by (simp only: of_nat_less_iff)
  note rg = round_half_even_range [OF D0 lo hi]
  have "of_nat ?c * pow10 e - quot n d = (of_nat ?c - rat_of_nat N / of_nat D) * pow10 e"
    unfolding q [symmetric] by (rule left_diff_distrib [symmetric])
  then have "\<bar>of_nat ?c * pow10 e - quot n d\<bar> = \<bar>of_nat ?c - rat_of_nat N / of_nat D\<bar> * pow10 e"
    by (simp only: abs_mult abs_of_pos [OF pow10_pos])
  also have "\<dots> \<le> 1 / 2 * pow10 e"
    by (intro mult_right_mono round_half_even_error [OF D0] less_imp_le pow10_pos)
  finally have err: "\<bar>of_nat ?c * pow10 e - quot n d\<bar> \<le> pow10 e / 2" by simp
  have c: "(if 0 \<le> e then round_half_even n (d * 10 ^ nat e) else round_half_even (n * 10 ^ nat (- e)) d) = ?c"
    by (simp add: N_def D_def)
  show ?thesis
  proof (cases "?c = 10 ^ prec")
    case True
    have v: "v = DFin s (10 ^ (prec - 1)) (e + 1)"
      using r n d True by (simp add: dec_divide_def Let_def c flip: e_def split: if_splits)
    have t: "pow10 (e + 1) = 10 * pow10 e" using pow10_add [of e 1] by (simp add: pow10_def)
    then have "of_nat (10 ^ (prec - 1)) * pow10 (e + 1) = of_nat ?c * pow10 e"
      unfolding True by (simp add: prec_def)
    moreover have "pow10 e / 2 \<le> pow10 (e + 1) / 2" by (simp add: t)
    ultimately have "\<bar>of_nat (10 ^ (prec - 1)) * pow10 (e + 1) - quot n d\<bar> \<le> pow10 (e + 1) / 2"
      using err by linarith
    then show ?thesis using v by (auto simp: prec_def)
  next
    case False
    have "v = DFin s ?c e"
      using r n d False by (simp add: dec_divide_def Let_def c flip: e_def split: if_splits)
    then show ?thesis using False rg err by auto
  qed
qed

end
