(* ===== verification/Exact.thy ===== *)
theory Exact
  imports PyDecimal
begin

section \<open>The exact money and size kernel (\<open>liqvera_contracts/exact.py\<close>)\<close>

text \<open>
  \<open>ExactDecimal\<close> is an integer scaled by \<open>10^8\<close> that must fit a signed 64-bit integer; every
  operation that would leave that range raises. The functions on fractions convert between
  \<open>Fraction\<close> and \<open>Decimal\<close>. The lemmas show that parsing inverts printing, that an accepted text
  has the value Python's own \<open>Decimal\<close> gives it, that arithmetic never wraps and rounds
  towards minus infinity by less than one unit, and that a terminating fraction is rendered
  exactly and any other one to 28 digits with half-even rounding.
\<close>

subsection \<open>\<open>ExactDecimal\<close>\<close>

datatype ExactDecimal = ExactDecimal (scaled: int)

definition DECIMALS :: nat where
  "DECIMALS = 8"

definition SCALE :: int where
  "SCALE = 100000000"

definition MIN_SCALED :: int where
  "MIN_SCALED = -9223372036854775808"

definition MAX_SCALED :: int where
  "MAX_SCALED = 9223372036854775807"

definition exact_init :: "int \<Rightarrow> ExactDecimal res" where
  "exact_init n =
     (if n < MIN_SCALED \<or> n > MAX_SCALED then Inl ExactOverflowError else Inr (ExactDecimal n))"

definition exact_parse :: "string \<Rightarrow> ExactDecimal res" where
  "exact_parse raw =
     require (\<not> (raw = [] \<or> strip raw \<noteq> raw)) ExactError (
     let sign = (if hd raw = CHR ''-'' then -1 else 1);
         txt = (if hd raw = CHR ''-'' \<or> hd raw = CHR ''+'' then tl raw else raw)
     in require (\<not> (txt = [] \<or> (\<exists>m \<in> set ''eEnN''. m \<in> set txt))) ExactError (
     let parts = split_on CHR ''.'' txt
     in require (\<not> (length parts > 2 \<or> parts ! 0 = [])) ExactError (
     require (\<not> (length parts = 2 \<and> (parts ! 1 = [] \<or> \<not> isdigit (parts ! 1)))) ExactError (
     require (\<not> (\<not> isdigit (parts ! 0) \<or> (length parts = 2 \<and> \<not> isdigit (parts ! 1)))) ExactError (
     require (\<not> (length parts = 2 \<and> length (parts ! 1) > DECIMALS)) ExactPrecisionError (
     rbind (int_of_digits (parts ! 0)) (\<lambda>w.
     rbind (if length parts = 2
            then int_of_digits (parts ! 1 @ replicate (DECIMALS - length (parts ! 1)) CHR ''0'')
            else Inr 0) (\<lambda>f.
     exact_init (sign * (w * SCALE + f))))))))))"

definition exact_from_decimal :: "pydec \<Rightarrow> ExactDecimal res" where
  "exact_from_decimal v =
     (case v of DFin s c e \<Rightarrow> exact_parse (format_f s c e) | _ \<Rightarrow> Inl ExactError)"

text \<open>\<open>f"{fraction:08d}".rstrip("0")\<close>\<close>

definition pad8 :: "nat \<Rightarrow> string" where
  "pad8 n = replicate (DECIMALS - length (nat_str n)) CHR ''0'' @ nat_str n"

definition rstrip0 :: "string \<Rightarrow> string" where
  "rstrip0 s = rev (dropWhile (\<lambda>c. c = CHR ''0'') (rev s))"

definition exact_str :: "ExactDecimal \<Rightarrow> string" where
  "exact_str x =
     (let sign = (if scaled x < 0 then ''-'' else []);
          magnitude = \<bar>scaled x\<bar>;
          whole = magnitude div SCALE;
          fraction = magnitude mod SCALE
      in if fraction = 0 then sign @ int_str whole
         else sign @ int_str whole @ ''.'' @ rstrip0 (pad8 (nat fraction)))"

definition exact_eq :: "ExactDecimal \<Rightarrow> ExactDecimal \<Rightarrow> bool" where
  "exact_eq a b = (scaled a = scaled b)"

definition exact_lt :: "ExactDecimal \<Rightarrow> ExactDecimal \<Rightarrow> bool" where
  "exact_lt a b = (scaled a < scaled b)"

definition exact_le :: "ExactDecimal \<Rightarrow> ExactDecimal \<Rightarrow> bool" where
  "exact_le a b = (scaled a \<le> scaled b)"

definition exact_add :: "ExactDecimal \<Rightarrow> ExactDecimal \<Rightarrow> ExactDecimal res" where
  "exact_add a b = exact_init (scaled a + scaled b)"

definition exact_sub :: "ExactDecimal \<Rightarrow> ExactDecimal \<Rightarrow> ExactDecimal res" where
  "exact_sub a b = exact_init (scaled a - scaled b)"

definition exact_mul :: "ExactDecimal \<Rightarrow> ExactDecimal \<Rightarrow> ExactDecimal res" where
  "exact_mul a b = (let product = (scaled a * scaled b) div SCALE in exact_init product)"

definition exact_div :: "ExactDecimal \<Rightarrow> ExactDecimal \<Rightarrow> ExactDecimal res" where
  "exact_div a b =
     require (scaled b \<noteq> 0) ExactDivisionError (
     let quotient = (scaled a * SCALE) div scaled b in exact_init quotient)"

definition exact_is_zero :: "ExactDecimal \<Rightarrow> bool" where
  "exact_is_zero a = (scaled a = 0)"

subsection \<open>Fractions\<close>

definition numer :: "rat \<Rightarrow> int" where
  "numer v = fst (quotient_of v)"

definition denom :: "rat \<Rightarrow> int" where
  "denom v = snd (quotient_of v)"

definition fraction_from_decimal :: "pydec \<Rightarrow> rat res" where
  "fraction_from_decimal value =
     (case value of
        DFin sign c exponent \<Rightarrow>
          (let digits = map digit_val (nat_str c);
               coefficient = foldl (\<lambda>acc digit. acc * 10 + int digit) 0 digits;
               signed = (if sign then - coefficient else coefficient)
           in if 0 \<le> exponent then Inr (of_int (signed * 10 ^ nat exponent))
              else Inr (of_int signed / of_int (10 ^ nat (- exponent))))
      | _ \<Rightarrow> Inl TypeError)"

text \<open>\<open>while denominator % p == 0: denominator //= p; count += 1\<close>\<close>

function factor_out :: "int \<Rightarrow> int \<Rightarrow> nat \<Rightarrow> int \<times> nat" where
  "factor_out p d k =
     (if 1 < p \<and> 0 < d \<and> d mod p = 0 then factor_out p (d div p) (k + 1) else (d, k))"
  by pat_completeness auto
termination
proof (relation "measure (\<lambda>(p, d, k). nat d)", goal_cases)
  case (2 p d k)
  then have "d div p < d" by (simp add: int_div_less_self)
  with 2 show ?case by simp
qed simp

declare factor_out.simps [simp del]

definition rounded_decimal :: "rat \<Rightarrow> pydec res" where
  "rounded_decimal value =
     rbind (reraise (\<lambda>e. e = InvalidOperation) DecimalRenderingError
              (dec_divide (numer value < 0) (nat \<bar>numer value\<bar>) (nat (denom value))))
       (\<lambda>rendered.
         require (is_finite rendered \<and> \<not> (value \<noteq> 0 \<and> dec_val rendered = 0))
           DecimalRenderingError (Inr rendered))"

definition decimal_from_fraction :: "rat \<Rightarrow> pydec res" where
  "decimal_from_fraction value =
     (let (d2, twos) = factor_out 2 (denom value) 0;
          (d5, fives) = factor_out 5 d2 0
      in if d5 = 1 then
           let scale = max twos fives;
               coefficient = numer value * 2 ^ (scale - twos) * 5 ^ (scale - fives);
               digits = nat_str (nat \<bar>coefficient\<bar>)
           in if max_str_digits < length digits then Inl ValueError
              else Inr (DFin (coefficient < 0) (digits_val digits) (- int scale))
         else rounded_decimal value)"

definition is_terminating_fraction :: "rat \<Rightarrow> bool" where
  "is_terminating_fraction value =
     (fst (factor_out 5 (fst (factor_out 2 (denom value) 0)) 0) = 1)"

definition fraction_lcm :: "rat \<Rightarrow> rat \<Rightarrow> rat" where
  "fraction_lcm left right =
     (let denominator = lcm (denom left) (denom right);
          left_integer = numer left * (denominator div denom left);
          right_integer = numer right * (denominator div denom right)
      in of_int (lcm left_integer right_integer) / of_int denominator)"

definition round_up_to_multiple :: "rat \<Rightarrow> rat \<Rightarrow> rat res" where
  "round_up_to_multiple value lot =
     require (lot \<noteq> 0) ZeroDivisionError (
     let units = value / lot
     in Inr (of_int ((numer units + denom units - 1) div denom units) * lot))"

definition is_multiple :: "rat \<Rightarrow> rat \<Rightarrow> bool res" where
  "is_multiple value step =
     require (step \<noteq> 0) ZeroDivisionError (Inr (denom (value / step) = 1))"

subsection \<open>Range\<close>

definition exact_wf :: "ExactDecimal \<Rightarrow> bool" where
  "exact_wf x \<longleftrightarrow> MIN_SCALED \<le> scaled x \<and> scaled x \<le> MAX_SCALED"

definition exact_val :: "ExactDecimal \<Rightarrow> rat" where
  "exact_val x = of_int (scaled x) / of_int SCALE"

lemma exact_init_Inr [simp]: "exact_init n = Inr x \<longleftrightarrow> x = ExactDecimal n \<and> exact_wf x"
  by (auto simp: exact_init_def exact_wf_def)

lemma exact_init_wf: "exact_wf (ExactDecimal n) \<Longrightarrow> exact_init n = Inr (ExactDecimal n)"
  by simp

lemma exact_init_Inl: "exact_init n = Inl e \<longleftrightarrow> e = ExactOverflowError \<and> \<not> exact_wf (ExactDecimal n)"
  by (auto simp: exact_init_def exact_wf_def)

lemma SCALE_pos [simp]: "0 < SCALE"
  by (simp add: SCALE_def)

subsection \<open>Parsing\<close>

lemma ascii_digit_not:
  assumes "is_ascii_digit c"
  shows "\<not> is_space c" and "c \<noteq> CHR ''.''" and "c \<noteq> CHR ''-''" and "c \<noteq> CHR ''+''"
    and "c \<notin> set ''eEnN''" and "c \<noteq> CHR ''_''" and "\<not> (65 \<le> code c \<and> code c \<le> 90)"
    and "c \<noteq> CHR ''e''" and "c \<noteq> CHR ''i''" and "c \<noteq> CHR ''n''" and "c \<noteq> CHR ''s''"
  using assms by (auto simp: is_ascii_digit_def is_space_def)

lemma ascii_digit_zeros [simp]: "list_all is_ascii_digit (replicate k CHR ''0'')"
  by (induction k) (auto simp: is_ascii_digit_def)

text \<open>The texts that \<open>parse\<close> accepts, and the number each of them writes.\<close>

definition plain_digits :: "string \<Rightarrow> bool" where
  "plain_digits s \<longleftrightarrow> s \<noteq> [] \<and> list_all is_ascii_digit s"

definition sign_text :: "string \<Rightarrow> int \<Rightarrow> bool" where
  "sign_text sg k \<longleftrightarrow> (sg = [] \<and> k = 1) \<or> (sg = ''+'' \<and> k = 1) \<or> (sg = ''-'' \<and> k = -1)"

lemma plain_digits_isdigit: "plain_digits s \<Longrightarrow> isdigit s"
  by (auto simp: plain_digits_def isdigit_def list_all_iff)

lemma plain_digits_set: "plain_digits s \<Longrightarrow> c \<in> set s \<Longrightarrow> is_ascii_digit c"
  by (auto simp: plain_digits_def list_all_iff)

lemma signed_text_strip:
  assumes "sign_text sg k" and "t \<noteq> []" and "is_ascii_digit (hd t)" and "is_ascii_digit (last t)"
  shows "strip (sg @ t) = sg @ t"
  using assms by (intro strip_id) (auto simp: sign_text_def is_space_def is_ascii_digit_def)

lemma signed_text_split:
  assumes "sign_text sg k" and "t \<noteq> []" and "is_ascii_digit (hd t)"
  shows "(if hd (sg @ t) = CHR ''-'' then -1 else 1) = k"
    and "(if hd (sg @ t) = CHR ''-'' \<or> hd (sg @ t) = CHR ''+'' then tl (sg @ t) else sg @ t) = t"
  using assms by (auto simp: sign_text_def dest: ascii_digit_not)

lemma int_of_digits_plain: "plain_digits s \<Longrightarrow> length s \<le> max_str_digits \<Longrightarrow> int_of_digits s = Inr (int (digits_val s))"
  by (simp add: plain_digits_def int_of_digits_def)

lemma exact_parse_whole:
  assumes sg: "sign_text sg k" and w: "plain_digits w" and len: "length w \<le> max_str_digits"
  shows "exact_parse (sg @ w) = exact_init (k * (int (digits_val w) * SCALE))"
proof -
  have nn: "w \<noteq> []" and hw: "is_ascii_digit (hd w)" and lw: "is_ascii_digit (last w)"
    using w by (auto simp: plain_digits_def list_all_iff)
  have mk: "\<not> (w = [] \<or> (\<exists>m \<in> set ''eEnN''. m \<in> set w))"
    using nn plain_digits_set [OF w] ascii_digit_not(5) by blast
  have "CHR ''.'' \<notin> set w" using plain_digits_set [OF w] ascii_digit_not(2) by blast
  then have sp: "split_on CHR ''.'' w = [w]" by (rule split_on_none)
  have r0: "\<not> (sg @ w = [] \<or> strip (sg @ w) \<noteq> sg @ w)"
    using signed_text_strip [OF sg nn hw lw] nn by simp
  show ?thesis
    unfolding exact_parse_def Let_def signed_text_split [OF sg nn hw] sp
    using r0 mk nn plain_digits_isdigit [OF w] int_of_digits_plain [OF w len]
    by simp
qed

lemma exact_parse_point:
  assumes sg: "sign_text sg k" and w: "plain_digits w" and len: "length w \<le> max_str_digits"
    and f: "plain_digits f" and flen: "length f \<le> DECIMALS"
  shows "exact_parse (sg @ w @ CHR ''.'' # f) =
         exact_init (k * (int (digits_val w) * SCALE + int (digits_val f) * 10 ^ (DECIMALS - length f)))"
proof -
  let ?t = "w @ CHR ''.'' # f"
  have nn: "?t \<noteq> []" and hw: "is_ascii_digit (hd ?t)" and lw: "is_ascii_digit (last ?t)"
    using w f by (auto simp: plain_digits_def list_all_iff)
  have mk: "\<not> (?t = [] \<or> (\<exists>m \<in> set ''eEnN''. m \<in> set ?t))"
    using plain_digits_set [OF w] plain_digits_set [OF f] ascii_digit_not(5) by auto
  have "CHR ''.'' \<notin> set w" and "CHR ''.'' \<notin> set f"
    using plain_digits_set [OF w] plain_digits_set [OF f] ascii_digit_not(2) by blast+
  then have sp: "split_on CHR ''.'' ?t = [w, f]"
    by (simp add: split_on_append split_on_none)
  have r0: "\<not> (sg @ ?t = [] \<or> strip (sg @ ?t) \<noteq> sg @ ?t)"
    using signed_text_strip [OF sg nn hw lw] nn by simp
  let ?z = "replicate (DECIMALS - length f) CHR ''0''"
  have pz: "plain_digits (f @ ?z)" and lz: "length (f @ ?z) \<le> max_str_digits"
    using f flen by (auto simp: plain_digits_def DECIMALS_def max_str_digits_def)
  have vz: "digits_val (f @ ?z) = digits_val f * 10 ^ (DECIMALS - length f)"
    by (simp add: digits_val_append)
  have "w \<noteq> []" and "f \<noteq> []" using w f by (auto simp: plain_digits_def)
  then show ?thesis
    unfolding exact_parse_def Let_def signed_text_split [OF sg nn hw] sp
    using r0 mk flen plain_digits_isdigit [OF w] plain_digits_isdigit [OF f]
      int_of_digits_plain [OF w len] int_of_digits_plain [OF pz lz] vz
    by simp
qed

subsection \<open>Printing, and the round trip\<close>

lemma rstrip0_append_zeros: "\<exists>k. s = rstrip0 s @ replicate k CHR ''0''"
proof -
  let ?r = "rev s"
  have "?r = takeWhile (\<lambda>c. c = CHR ''0'') ?r @ dropWhile (\<lambda>c. c = CHR ''0'') ?r" by simp
  moreover have "takeWhile (\<lambda>c. c = CHR ''0'') ?r = replicate (length (takeWhile (\<lambda>c. c = CHR ''0'') ?r)) CHR ''0''"
    by (rule replicate_eqI) (auto dest: set_takeWhileD)
  ultimately have "s = rev (dropWhile (\<lambda>c. c = CHR ''0'') ?r) @ rev (replicate (length (takeWhile (\<lambda>c. c = CHR ''0'') ?r)) CHR ''0'')"
    by (metis rev_append rev_rev_ident)
  then show ?thesis by (auto simp: rstrip0_def)
qed

lemma rstrip0_digits_val:
  "digits_val s = digits_val (rstrip0 s) * 10 ^ (length s - length (rstrip0 s))"
proof -
  obtain k where k: "s = rstrip0 s @ replicate k CHR ''0''" using rstrip0_append_zeros by blast
  then have "length s - length (rstrip0 s) = k" by (metis add_diff_cancel_left' length_append length_replicate)
  moreover have "digits_val s = digits_val (rstrip0 s) * 10 ^ k"
    by (subst k) (simp add: digits_val_append)
  ultimately show ?thesis by simp
qed

lemma length_rstrip0: "length (rstrip0 s) \<le> length s"
  using rstrip0_append_zeros [of s] by (metis le_add1 length_append)

lemma rstrip0_digits: "list_all is_ascii_digit s \<Longrightarrow> list_all is_ascii_digit (rstrip0 s)"
  using rstrip0_append_zeros [of s] by (metis list_all_append)

lemma pad8_facts:
  assumes "n < 10 ^ 8"
  shows "length (pad8 n) = 8" and "digits_val (pad8 n) = n" and "list_all is_ascii_digit (pad8 n)"
proof -
  have "length (nat_str n) \<le> 8" using assms by (intro length_nat_str_le) auto
  then show "length (pad8 n) = 8" by (simp add: pad8_def DECIMALS_def)
  show "digits_val (pad8 n) = n" by (simp add: pad8_def digits_val_pad)
  show "list_all is_ascii_digit (pad8 n)"
    using nat_str_digits [of n] by (simp add: pad8_def)
qed

lemma frac_text:
  assumes "0 < n" and "n < 10 ^ 8"
  shows "plain_digits (rstrip0 (pad8 n))" and "length (rstrip0 (pad8 n)) \<le> DECIMALS"
    and "digits_val (rstrip0 (pad8 n)) * 10 ^ (DECIMALS - length (rstrip0 (pad8 n))) = n"
proof -
  note p = pad8_facts [OF assms(2)]
  show v: "digits_val (rstrip0 (pad8 n)) * 10 ^ (DECIMALS - length (rstrip0 (pad8 n))) = n"
    using rstrip0_digits_val [of "pad8 n"] p by (simp add: DECIMALS_def)
  show "length (rstrip0 (pad8 n)) \<le> DECIMALS"
    using length_rstrip0 [of "pad8 n"] p by (simp add: DECIMALS_def)
  have "rstrip0 (pad8 n) \<noteq> []" using v assms(1) by (metis digits_val_Nil mult_0 less_irrefl)
  then show "plain_digits (rstrip0 (pad8 n))"
    using rstrip0_digits [OF p(3)] by (simp add: plain_digits_def)
qed

lemma plain_digits_nat_str [simp]: "plain_digits (nat_str n)"
  using nat_str_digits [of n] by (simp add: plain_digits_def)

lemma exact_str_cases:
  assumes "exact_wf x"
  obtains (whole) sg k w where "exact_str x = sg @ w" and "sign_text sg k" and "plain_digits w"
      and "length w \<le> 11" and "scaled x = k * (int (digits_val w) * SCALE)"
    | (point) sg k w f where "exact_str x = sg @ w @ CHR ''.'' # f" and "sign_text sg k"
      and "plain_digits w" and "length w \<le> 11" and "plain_digits f" and "length f \<le> DECIMALS"
      and "scaled x = k * (int (digits_val w) * SCALE + int (digits_val f) * 10 ^ (DECIMALS - length f))"
proof -
  let ?m = "\<bar>scaled x\<bar>" and ?k = "if scaled x < 0 then -1 else 1::int"
    and ?sg = "if scaled x < 0 then ''-'' else []"
  let ?w = "nat_str (nat (?m div SCALE))" and ?n = "nat (?m mod SCALE)"
  have sg: "sign_text ?sg ?k" by (simp add: sign_text_def)
  have "?m div SCALE < 10 ^ 11"
    using assms by (auto simp: exact_wf_def MIN_SCALED_def MAX_SCALED_def SCALE_def)
  then have "nat (?m div SCALE) < 10 ^ 11" by (simp add: nat_less_iff SCALE_def)
  then have lw: "length ?w \<le> 11" by (intro length_nat_str_le) auto
  have dm: "?m div SCALE * SCALE + ?m mod SCALE = ?m" by simp
  have istr: "int_str (?m div SCALE) = ?w" by (simp add: int_str_def SCALE_def pos_imp_zdiv_neg_iff)
  have sx: "scaled x = ?k * ?m" by simp
  have wv: "int (digits_val ?w) = ?m div SCALE" by (simp add: SCALE_def)
  show thesis
  proof (cases "?m mod SCALE = 0")
    case True
    have "exact_str x = ?sg @ ?w" using True istr by (simp add: exact_str_def Let_def)
    moreover have "scaled x = ?k * (int (digits_val ?w) * SCALE)" using sx dm True wv by simp
    ultimately show thesis using whole sg lw by (metis plain_digits_nat_str)
  next
    case False
    have n: "0 < ?n" "?n < 10 ^ 8" using False by (auto simp: SCALE_def nat_less_iff)
    note ft = frac_text [OF n]
    let ?f = "rstrip0 (pad8 ?n)"
    have "exact_str x = ?sg @ ?w @ CHR ''.'' # ?f" using False istr by (simp add: exact_str_def Let_def)
    moreover have "int (digits_val ?f) * 10 ^ (DECIMALS - length ?f) = ?m mod SCALE"
      using ft(3) n(1) by (metis of_nat_mult of_nat_numeral of_nat_power nat_0_le less_imp_le zero_less_nat_eq)
    then have "scaled x = ?k * (int (digits_val ?w) * SCALE + int (digits_val ?f) * 10 ^ (DECIMALS - length ?f))"
      using sx dm wv by simp
    ultimately show thesis using point sg lw ft(1,2) by (metis plain_digits_nat_str)
  qed
qed

lemma exact_parse_str:
  assumes "exact_wf x"
  shows "exact_parse (exact_str x) = Inr x"
  using assms
proof (cases rule: exact_str_cases)
  case (whole sg k w)
  then have "exact_parse (exact_str x) = exact_init (scaled x)"
    using exact_parse_whole [of sg k w] by (simp add: max_str_digits_def)
  then show ?thesis using assms exact_init_wf by (cases x) simp
next
  case (point sg k w f)
  then have "exact_parse (exact_str x) = exact_init (scaled x)"
    using exact_parse_point [of sg k w f] by (simp add: max_str_digits_def)
  then show ?thesis using assms exact_init_wf by (cases x) simp
qed

lemma int_of_digits_InrD: "int_of_digits s = Inr n \<Longrightarrow> plain_digits s \<and> length s \<le> max_str_digits \<and> n = int (digits_val s)"
  by (auto simp: int_of_digits_def plain_digits_def split: if_splits)

text \<open>What an accepted text looks like: a sign, digits, and at most eight digits after a point.\<close>

lemma sign_text_take:
  assumes "raw \<noteq> []"
  obtains sg where "sign_text sg (if hd raw = CHR ''-'' then -1 else 1)"
    and "raw = sg @ (if hd raw = CHR ''-'' \<or> hd raw = CHR ''+'' then tl raw else raw)"
proof (cases "hd raw = CHR ''-'' \<or> hd raw = CHR ''+''")
  case True
  then show thesis using that [of "[hd raw]"] assms by (auto simp: sign_text_def)
next
  case False
  then show thesis using that [of "[]"] by (simp add: sign_text_def)
qed

lemma exact_parse_InrE:
  assumes "exact_parse raw = Inr x"
  obtains (whole) sg k w where "raw = sg @ w" and "sign_text sg k" and "plain_digits w"
      and "x = ExactDecimal (k * (int (digits_val w) * SCALE))"
    | (point) sg k w f where "raw = sg @ w @ CHR ''.'' # f" and "sign_text sg k"
      and "plain_digits w" and "plain_digits f" and "length f \<le> DECIMALS"
      and "x = ExactDecimal (k * (int (digits_val w) * SCALE + int (digits_val f) * 10 ^ (DECIMALS - length f)))"
proof -
  let ?k = "if hd raw = CHR ''-'' then -1 else 1::int"
  let ?t = "if hd raw = CHR ''-'' \<or> hd raw = CHR ''+'' then tl raw else raw"
  let ?p = "split_on CHR ''.'' ?t"
  have ne: "raw \<noteq> []" using assms by (auto simp: exact_parse_def require_eq_Inr)
  then obtain sg where sg: "sign_text sg ?k" and raw: "raw = sg @ ?t" by (rule sign_text_take)
  have r: "\<not> (length ?p > 2 \<or> ?p ! 0 = [])"
    and r2: "\<not> (length ?p = 2 \<and> length (?p ! 1) > DECIMALS)"
    using assms by (simp_all add: exact_parse_def require_eq_Inr Let_def)
  obtain wv fv where w: "int_of_digits (?p ! 0) = Inr wv"
    and f: "(if length ?p = 2 then int_of_digits (?p ! 1 @ replicate (DECIMALS - length (?p ! 1)) CHR ''0'')
            else Inr 0) = Inr fv" and x: "exact_init (?k * (wv * SCALE + fv)) = Inr x"
    using assms by (auto simp: exact_parse_def require_eq_Inr rbind_eq_Inr Let_def)
  note wp = int_of_digits_InrD [OF w]
  from r consider (one) a where "?p = [a]" | (two) a b where "?p = [a, b]"
    by (cases ?p; cases "tl ?p"; cases "tl (tl ?p)") auto
  then show thesis
  proof cases
    case one
    then show thesis using whole [of sg ?t ?k] raw sg split_on_join [OF one] wp f x by simp
  next
    case two
    have fp: "plain_digits (b @ replicate (DECIMALS - length b) CHR ''0'')"
      and fv: "fv = int (digits_val b * 10 ^ (DECIMALS - length b))"
      using int_of_digits_InrD [of "b @ replicate (DECIMALS - length b) CHR ''0''" fv] f two
      by (simp_all add: digits_val_append)
    have "b \<noteq> []" using assms two by (simp add: exact_parse_def require_eq_Inr Let_def)
    then have "plain_digits b" using fp by (simp add: plain_digits_def)
    then show thesis using point [of sg a b ?k] raw sg split_on_join2 [OF two] wp fv x two r2
      by simp
  qed
qed

lemma exact_parse_wf: "exact_parse raw = Inr x \<Longrightarrow> exact_wf x"
  by (auto simp: exact_parse_def require_eq_Inr rbind_eq_Inr Let_def)

lemma sign_text_neg: "sign_text sg k \<Longrightarrow> t \<noteq> [] \<Longrightarrow> is_ascii_digit (hd t) \<Longrightarrow>
    (sg @ t \<noteq> [] \<and> hd (sg @ t) = CHR ''-'') = (k = -1)"
  by (auto simp: sign_text_def dest: ascii_digit_not)

lemma lower_ascii_id: "(\<And>c. c \<in> set s \<Longrightarrow> \<not> (65 \<le> code c \<and> code c \<le> 90)) \<Longrightarrow> lower_ascii s = s"
  by (induction s) (auto simp: lower_ascii_def)

text \<open>A sign and a text of digits and points is read by \<open>Decimal\<close> as a number.\<close>

lemma dec_of_str_plain:
  assumes sg: "sign_text sg k" and nn: "t \<noteq> []" and h: "is_ascii_digit (hd t)" and l: "is_ascii_digit (last t)"
    and cs: "\<And>c. c \<in> set t \<Longrightarrow> is_ascii_digit c \<or> c = CHR ''.''"
  shows "dec_of_str (sg @ t) = dec_number (k = -1) t 0"
proof -
  have a: "c \<in> set (sg @ t) \<Longrightarrow> c \<noteq> CHR ''_'' \<and> \<not> (65 \<le> code c \<and> code c \<le> 90)" for c
    using sg cs [of c] by (auto simp: sign_text_def is_ascii_digit_def)
  then have f: "filter (\<lambda>c. c \<noteq> CHR ''_'') (sg @ t) = sg @ t"
    by (intro filter_True) blast
  have lo: "lower_ascii (sg @ t) = sg @ t" using a by (intro lower_ascii_id) blast
  have e: "CHR ''e'' \<notin> set t" using cs [of "CHR ''e''"] by (auto simp: is_ascii_digit_def)
  have n: "hd t \<noteq> CHR ''i''" "hd t \<noteq> CHR ''n''" "hd t \<noteq> CHR ''s''" using h by (auto simp: is_ascii_digit_def)
  then have i: "t \<noteq> ''inf''" "t \<noteq> ''infinity''" "take 3 t \<noteq> ''nan''" "take 4 t \<noteq> ''snan''"
    by (cases t; auto)+
  have sp: "(if sg @ t \<noteq> [] \<and> (hd (sg @ t) = CHR ''-'' \<or> hd (sg @ t) = CHR ''+'') then tl (sg @ t) else sg @ t) = t"
    using signed_text_split(2) [OF sg nn h] nn by simp
  show ?thesis
    unfolding dec_of_str_def Let_def signed_text_strip [OF sg nn h l] f lo sp sign_text_neg [OF sg nn h]
      split_on_none [OF e]
    using i by simp
qed

lemma scale_cancel:
  "a \<noteq> 0 \<Longrightarrow> b \<noteq> 0 \<Longrightarrow> k * (w * (a * b) + f * a) / (a * b) = k * (w * b + f) / (b :: rat)"
  by (simp add: field_simps)

lemma exact_parse_decimal:
  assumes "exact_parse raw = Inr x"
  shows "\<exists>d. dec_of_str raw = Inr d \<and> is_finite d \<and> dec_val d = exact_val x"
  using assms
proof (cases rule: exact_parse_InrE)
  case (whole sg k w)
  have "CHR ''.'' \<notin> set w" using plain_digits_set [OF whole(3)] ascii_digit_not(2) by blast
  then have "dec_of_str raw = Inr (DFin (k = -1) (digits_val w) 0)"
    using whole dec_of_str_plain [of sg k w]
    by (simp add: dec_number_def split_on_none plain_digits_def list_all_iff)
  then show ?thesis using whole by (auto simp: exact_val_def pow10_def sign_text_def SCALE_def)
next
  case (point sg k w f)
  have nd: "CHR ''.'' \<notin> set w" "CHR ''.'' \<notin> set f"
    using plain_digits_set [OF point(3)] plain_digits_set [OF point(4)] ascii_digit_not(2) by blast+
  have "dec_of_str raw = dec_number (k = -1) (w @ CHR ''.'' # f) 0"
    using point dec_of_str_plain [of sg k "w @ CHR ''.'' # f"]
    by (auto simp: plain_digits_def list_all_iff)
  also have "\<dots> = Inr (DFin (k = -1) (digits_val (w @ f)) (- int (length f)))"
    using nd point(3,4) by (simp add: dec_number_def split_on_append split_on_none plain_digits_def)
  finally have d: "dec_of_str raw = \<dots>" .
  have "(10::rat) ^ DECIMALS = 10 ^ (DECIMALS - length f) * 10 ^ length f"
    using point(5) by (simp flip: power_add)
  moreover have "(of_int SCALE :: rat) = 10 ^ DECIMALS" by (simp add: SCALE_def DECIMALS_def)
  ultimately have S: "(of_int SCALE :: rat) = 10 ^ (DECIMALS - length f) * 10 ^ length f" by simp
  have "exact_val x = of_int k * (of_nat (digits_val w) * 10 ^ length f + of_nat (digits_val f)) / 10 ^ length f"
    using scale_cancel [of "10 ^ (DECIMALS - length f)" "10 ^ length f" "of_int k"]
    by (simp add: exact_val_def point(6) S)
  also have "\<dots> = dec_val (DFin (k = -1) (digits_val (w @ f)) (- int (length f)))"
    using point(2) by (auto simp: sign_text_def digits_val_append pow10_def)
  finally show ?thesis using d by auto
qed

subsection \<open>Arithmetic\<close>

lemma exact_val_inj: "exact_val a = exact_val b \<longleftrightarrow> a = b"
  by (cases a; cases b) (auto simp: exact_val_def SCALE_def)

lemma floor_div_iff:
  fixes n d q :: int
  assumes "d \<noteq> 0"
  shows "n div d = q \<longleftrightarrow> of_int q \<le> (of_int n / of_int d :: rat) \<and> (of_int n / of_int d :: rat) < of_int q + 1"
proof -
  have "n div d = \<lfloor>of_int n / of_int d :: rat\<rfloor>" by (simp add: floor_divide_of_int_eq)
  then show ?thesis by (simp add: floor_eq_iff)
qed

lemma exact_mul_iff:
  "exact_mul a b = Inr c \<longleftrightarrow> exact_wf c \<and> exact_val c \<le> exact_val a * exact_val b
     \<and> exact_val a * exact_val b < exact_val c + 1 / of_int SCALE"
proof -
  have "exact_mul a b = Inr c \<longleftrightarrow> exact_wf c \<and> (scaled a * scaled b) div SCALE = scaled c"
    by (cases c) (auto simp: exact_mul_def Let_def)
  also have "\<dots> \<longleftrightarrow> exact_wf c \<and> rat_of_int (scaled c) \<le> of_int (scaled a * scaled b) / of_int SCALE
      \<and> of_int (scaled a * scaled b) / of_int SCALE < rat_of_int (scaled c) + 1"
    by (simp only: floor_div_iff [of SCALE] SCALE_pos less_imp_neq [OF SCALE_pos, symmetric] not_False_eq_True simp_thms)
  also have "\<dots> \<longleftrightarrow> exact_wf c \<and> exact_val c \<le> exact_val a * exact_val b
     \<and> exact_val a * exact_val b < exact_val c + 1 / of_int SCALE"
    by (simp add: exact_val_def SCALE_def field_simps)
  finally show ?thesis .
qed

lemma exact_div_iff:
  "exact_div a b = Inr c \<longleftrightarrow> scaled b \<noteq> 0 \<and> exact_wf c \<and> exact_val c \<le> exact_val a / exact_val b
     \<and> exact_val a / exact_val b < exact_val c + 1 / of_int SCALE"
proof (cases "scaled b = 0")
  case True
  then show ?thesis by (simp add: exact_div_def)
next
  case False
  have "exact_div a b = Inr c \<longleftrightarrow> exact_wf c \<and> (scaled a * SCALE) div scaled b = scaled c"
    using False by (cases c) (auto simp: exact_div_def Let_def)
  also have "\<dots> \<longleftrightarrow> exact_wf c \<and> rat_of_int (scaled c) \<le> of_int (scaled a * SCALE) / of_int (scaled b)
      \<and> of_int (scaled a * SCALE) / of_int (scaled b) < rat_of_int (scaled c) + 1"
    by (simp only: floor_div_iff [OF False])
  also have "rat_of_int (scaled a * SCALE) / of_int (scaled b) = exact_val a / exact_val b * of_int SCALE"
    by (simp add: exact_val_def SCALE_def)
  finally show ?thesis using False
    by (simp add: exact_val_def [of c] SCALE_def field_simps)
qed

lemma exact_add_iff:
  "exact_add a b = Inr c \<longleftrightarrow> exact_wf c \<and> exact_val c = exact_val a + exact_val b"
  by (cases c) (auto simp: exact_add_def exact_val_def SCALE_def simp flip: of_int_add add_divide_distrib)

lemma exact_sub_iff:
  "exact_sub a b = Inr c \<longleftrightarrow> exact_wf c \<and> exact_val c = exact_val a - exact_val b"
  by (cases c) (auto simp: exact_sub_def exact_val_def SCALE_def simp flip: of_int_diff diff_divide_distrib)

subsection \<open>Fractions\<close>

lemma denom_pos [simp]: "0 < denom v"
  by (simp add: denom_def quotient_of_denom_pos')

lemma frac_eq: "v = of_int (numer v) / of_int (denom v)"
  by (metis denom_def numer_def prod.collapse quotient_of_div)

lemma coprime_frac: "coprime (numer v) (denom v)"
  by (metis denom_def numer_def prod.collapse quotient_of_coprime)

lemma denom_dvd_iff: "denom v dvd k \<longleftrightarrow> v * of_int k \<in> \<int>"
proof
  assume "denom v dvd k"
  then obtain j where "k = denom v * j" by blast
  then have "v * of_int k = of_int (numer v * j)"
    using frac_eq [of v] denom_pos [of v] by (simp add: field_simps)
  then show "v * of_int k \<in> \<int>" by simp
next
  assume "v * of_int k \<in> \<int>"
  then obtain j where "v * of_int k = of_int j" by (auto elim: Ints_cases)
  moreover have "rat_of_int (denom v) \<noteq> 0" using denom_pos [of v] by (simp del: denom_pos)
  moreover have "v * of_int (denom v) = of_int (numer v)"
    using frac_eq [of v] denom_pos [of v] by (metis nonzero_divide_eq_eq of_int_0_eq_iff less_irrefl)
  ultimately have "of_int (numer v * k) = rat_of_int (j * denom v)"
    by (metis mult.commute mult.left_commute of_int_mult)
  then have "numer v * k = j * denom v" by (simp only: of_int_eq_iff)
  then have "denom v dvd numer v * k" by simp
  then show "denom v dvd k" using coprime_frac [of v]
    by (simp add: coprime_commute coprime_dvd_mult_right_iff)
qed

lemma denom_one_iff: "denom v = 1 \<longleftrightarrow> v \<in> \<int>"
  using denom_dvd_iff [of v 1] denom_pos [of v] by (metis mult.right_neutral of_int_1 zdvd1_eq zdvd_antisym_nonneg less_imp_le zero_le_one one_dvd)

text \<open>The two loops strip every factor two and every factor five.\<close>

lemma factor_out_spec:
  assumes "1 < p" and "0 < d" and "factor_out p d k = (d', k')"
  shows "k \<le> k' \<and> d = d' * p ^ (k' - k) \<and> \<not> p dvd d' \<and> 0 < d'"
  using assms
proof (induction p d k rule: factor_out.induct)
  case (1 p d k)
  show ?case
  proof (cases "d mod p = 0")
    case True
    then have dv: "d = d div p * p" using mult_div_mod_eq [of p d] by (simp add: mult.commute)
    have "0 < d div p" using 1(2,3) True dv by (metis mult_eq_0_iff mult_less_0_iff not_less_iff_gr_or_eq zero_less_mult_pos2 less_trans zero_less_one)
    moreover have "factor_out p (d div p) (k + 1) = (d', k')"
      using 1(2-4) True by (subst (asm) factor_out.simps) simp
    ultimately have ih: "k + 1 \<le> k' \<and> d div p = d' * p ^ (k' - (k + 1)) \<and> \<not> p dvd d' \<and> 0 < d'"
      using 1 True by simp
    then have "Suc (k' - (k + 1)) = k' - k" by linarith
    then have "d = d' * p ^ (k' - k)" using ih dv by (metis mult.assoc power_Suc2)
    then show ?thesis using ih by simp
  next
    case False
    then have "d' = d" "k' = k" using 1(4) by (subst (asm) factor_out.simps; simp)+
    then show ?thesis using False 1(3) by (simp add: dvd_eq_mod_eq_0)
  qed
qed


lemma coprime_five:
  fixes b :: int
  assumes "\<not> 5 dvd b"
  shows "coprime b 5"
proof -
  have "b mod 5 \<noteq> 0" "0 \<le> b mod 5" "b mod 5 < 5" using assms by (auto simp: dvd_eq_mod_eq_0)
  then have "b mod 5 \<in> {1, 2, 3, 4}" by auto
  moreover have "gcd (1::int) 5 = 1" "gcd (2::int) 5 = 1" "gcd (3::int) 5 = 1" "gcd (4::int) 5 = 1"
    by code_simp+
  ultimately have "gcd (b mod 5) 5 = 1" by (elim insertE) (simp_all only: empty_iff)
  then show ?thesis by (metis coprime_iff_gcd_eq_1 gcd_red_int gcd.commute)
qed

lemma terminating_iff:
  "is_terminating_fraction v \<longleftrightarrow> (\<exists>k. v * 10 ^ k \<in> \<int>)"
proof -
  obtain a i where a: "factor_out 2 (denom v) 0 = (a, i)" by fastforce
  obtain b j where b: "factor_out 5 a 0 = (b, j)" by fastforce
  note fa = factor_out_spec [OF _ denom_pos a, simplified]
  then have a0: "0 < a" by simp
  note fb = factor_out_spec [OF _ a0 b, simplified]
  have d: "denom v = b * 5 ^ j * 2 ^ i" using fa fb by simp
  have n2: "\<not> 2 dvd b" using fa fb by auto
  have t: "is_terminating_fraction v \<longleftrightarrow> b = 1" by (simp add: is_terminating_fraction_def a b)
  show ?thesis
  proof
    assume "is_terminating_fraction v"
    then have "denom v = 5 ^ j * 2 ^ i" using t d by simp
    moreover have "(5::int) ^ j * 2 ^ i dvd 5 ^ max i j * 2 ^ max i j"
      by (intro mult_dvd_mono le_imp_power_dvd) auto
    ultimately have "denom v dvd 10 ^ max i j" by (simp flip: power_mult_distrib)
    then have "v * of_int (10 ^ max i j) \<in> \<int>" by (simp only: denom_dvd_iff)
    then show "\<exists>k. v * 10 ^ k \<in> \<int>" by auto
  next
    assume "\<exists>k. v * 10 ^ k \<in> \<int>"
    then obtain k where "v * of_int (10 ^ k) \<in> \<int>" by auto
    then have "denom v dvd 10 ^ k" by (simp only: denom_dvd_iff)
    then have "b dvd 10 ^ k" using d by (metis dvd_mult_left mult.assoc)
    moreover have "coprime b (2 * 5)"
      using n2 fb coprime_five [of b] by (simp only: coprime_mult_right_iff coprime_right_2_iff_odd simp_thms)
    then have "coprime b (10 ^ k)" by simp
    ultimately have "is_unit b" by (metis coprime_self dvd_refl coprime_absorb_left)
    then show "is_terminating_fraction v" using t fb by simp
  qed
qed

lemma decimal_from_fraction_terminating:
  assumes "is_terminating_fraction v" and "decimal_from_fraction v = Inr d"
  shows "is_finite d \<and> dec_val d = v"
proof -
  obtain a i where a: "factor_out 2 (denom v) 0 = (a, i)" by fastforce
  obtain b j where b: "factor_out 5 a 0 = (b, j)" by fastforce
  note fa = factor_out_spec [OF _ denom_pos a, simplified]
  then have a0: "0 < a" by simp
  note fb = factor_out_spec [OF _ a0 b, simplified]
  have b1: "b = 1" using assms(1) by (simp add: is_terminating_fraction_def a b)
  then have d: "denom v = 5 ^ j * 2 ^ i" using fa fb by simp
  let ?s = "max i j"
  let ?c = "numer v * 2 ^ (?s - i) * 5 ^ (?s - j)"
  have dd: "d = DFin (?c < 0) (nat \<bar>?c\<bar>) (- int ?s)"
    using assms(2) b1 by (simp add: decimal_from_fraction_def a b Let_def split: if_splits)
  have "(10::rat) ^ ?s = (2 ^ (?s - i) * 2 ^ i) * (5 ^ (?s - j) * 5 ^ j)"
    by (simp flip: power_add power_mult_distrib)
  then have "rat_of_int ?c / 10 ^ ?s = of_int (numer v) / of_int (denom v)"
    unfolding d by (simp add: field_simps)
  moreover have "dec_val d = of_int ?c / 10 ^ ?s"
    by (simp add: dd pow10_neg abs_if)
  ultimately show ?thesis using frac_eq [of v] by (simp add: dd)
qed

lemma decimal_from_fraction_rounded:
  assumes "\<not> is_terminating_fraction v" and "decimal_from_fraction v = Inr d"
  shows "\<exists>c e. d = DFin (v < 0) c e \<and> 10 ^ 27 \<le> c \<and> c < 10 ^ 28 \<and> \<bar>dec_val d - v\<bar> \<le> pow10 e / 2"
proof -
  have v0: "v \<noteq> 0" using assms(1) terminating_iff [of v] by (metis Ints_0 mult_zero_left)
  have r: "rounded_decimal v = Inr d"
    using assms by (auto simp: decimal_from_fraction_def is_terminating_fraction_def Let_def split: prod.splits)
  let ?n = "nat \<bar>numer v\<bar>" and ?d = "nat (denom v)"
  have q: "dec_divide (numer v < 0) ?n ?d = Inr d"
    using r by (auto simp: rounded_decimal_def rbind_eq_Inr require_eq_Inr)
  have "numer v \<noteq> 0" using v0 frac_eq [of v] by auto
  then have n0: "0 < ?n" by simp
  have sgn: "(numer v < 0) = (v < 0)"
    using frac_eq [of v] denom_pos [of v] by (metis divide_less_0_iff of_int_0_less_iff of_int_less_0_iff order_less_asym)
  have av: "quot ?n ?d = \<bar>v\<bar>"
    using frac_eq [of v] denom_pos [of v]
    by (metis abs_divide abs_of_pos nat_0_le of_int_0_less_iff of_int_abs of_int_of_nat_eq quot_def abs_ge_zero less_imp_le)
  obtain c e where *: "d = DFin (v < 0) c e" "10 ^ (prec - 1) \<le> c" "c < 10 ^ prec"
      "\<bar>of_nat c * pow10 e - \<bar>v\<bar>\<bar> \<le> pow10 e / 2"
    using dec_divide_error [OF n0 _ q] unfolding sgn av by auto
  then have "\<bar>dec_val d - v\<bar> \<le> pow10 e / 2" by (auto simp: abs_if split: if_splits)
  then show ?thesis using * by (auto simp: prec_def)
qed

lemma fraction_from_decimal_val [simp]:
  "fraction_from_decimal (DFin s c e) = Inr (dec_val (DFin s c e))"
proof -
  have "foldl (\<lambda>acc digit. acc * 10 + int digit) (int n) (map digit_val t) =
        int (foldl (\<lambda>n c. 10 * n + digit_val c) n t)" for n t
  proof (induction t arbitrary: n)
    case (Cons a t)
    show ?case using Cons [of "10 * n + digit_val a"] by (simp add: mult.commute)
  qed simp
  from this [of 0] have "foldl (\<lambda>acc digit. acc * 10 + int digit) 0 (map digit_val (nat_str c)) = int c"
    using digits_val_nat_str [of c] by (simp add: digits_val_def)
  then show ?thesis by (simp add: fraction_from_decimal_def pow10_def Let_def)
qed

lemma round_up_div:
  fixes n d :: int
  assumes "0 < d"
  shows "(n + d - 1) div d = \<lceil>of_int n / of_int d :: rat\<rceil>"
proof -
  let ?z = "(n + d - 1) div d"
  have "n + d - 1 = ?z * d + (n + d - 1) mod d" by simp
  moreover have "0 \<le> (n + d - 1) mod d" and "(n + d - 1) mod d < d" using assms by simp_all
  ultimately have "?z * d \<le> n + d - 1" and "n + d - 1 < ?z * d + d" by linarith+
  then have "?z * d - d < n" and "n \<le> ?z * d" by (simp_all add: algebra_simps)
  then have "rat_of_int ((?z - 1) * d) < of_int n" and "rat_of_int n \<le> of_int (?z * d)"
    unfolding of_int_less_iff of_int_le_iff by (simp_all add: algebra_simps)
  then have "rat_of_int ?z - 1 < of_int n / of_int d" and "of_int n / of_int d \<le> rat_of_int ?z"
    using assms by (simp_all add: pos_less_divide_eq pos_divide_le_eq)
  then show ?thesis by (intro ceiling_unique [symmetric]) auto
qed

lemma round_up_ceiling:
  "lot \<noteq> 0 \<Longrightarrow> round_up_to_multiple v lot = Inr (of_int \<lceil>v / lot\<rceil> * lot)"
  using round_up_div [OF denom_pos, of "numer (v / lot)" "v / lot"] frac_eq [of "v / lot"]
  by (simp add: round_up_to_multiple_def Let_def)

lemma is_multiple_iff: "step \<noteq> 0 \<Longrightarrow> is_multiple v step = Inr (\<exists>k. v = of_int k * step)"
  by (auto simp: is_multiple_def denom_one_iff Ints_def field_simps)

lemma round_up_to_multiple_least:
  assumes "0 < lot"
  shows "\<exists>m. round_up_to_multiple v lot = Inr m \<and> v \<le> m \<and> m < v + lot \<and> is_multiple m lot = Inr True
           \<and> (\<forall>k. v \<le> of_int k * lot \<longrightarrow> m \<le> of_int k * lot)"
proof -
  let ?m = "of_int \<lceil>v / lot\<rceil> * lot"
  have "v / lot \<le> of_int \<lceil>v / lot\<rceil>" and "of_int \<lceil>v / lot\<rceil> < v / lot + 1"
    by (simp_all add: ceiling_correct) linarith
  then have "v / lot * lot \<le> ?m" and "?m < (v / lot + 1) * lot"
    using assms by (simp_all only: mult_less_cancel_right_pos mult_le_cancel_right_pos)
  then have "v \<le> ?m" and "?m < v + lot" using assms by (simp_all add: distrib_right)
  moreover have "?m \<le> of_int k * lot" if "v \<le> of_int k * lot" for k
  proof -
    have "v / lot \<le> of_int k" using that assms by (simp add: pos_divide_le_eq)
    then have "\<lceil>v / lot\<rceil> \<le> k" by (simp add: ceiling_le_iff)
    then show ?thesis using assms by simp
  qed
  ultimately show ?thesis using assms by (auto simp: round_up_ceiling is_multiple_iff)
qed

lemma fraction_lcm_least:
  assumes "0 < l" and "0 < r"
  shows "0 < fraction_lcm l r"
    and "is_multiple (fraction_lcm l r) l = Inr True" and "is_multiple (fraction_lcm l r) r = Inr True"
    and "is_multiple w l = Inr True \<Longrightarrow> is_multiple w r = Inr True \<Longrightarrow> is_multiple w (fraction_lcm l r) = Inr True"
proof -
  define D where "D = lcm (denom l) (denom r)"
  define L where "L = numer l * (D div denom l)"
  define R where "R = numer r * (D div denom r)"
  have D: "0 < D" by (simp add: D_def lcm_pos_int less_imp_neq [OF denom_pos, symmetric])
  have m: "rat_of_int (numer x * (D div denom x)) = x * of_int D" if "denom x dvd D" for x
  proof -
    obtain j where j: "D = denom x * j" using \<open>denom x dvd D\<close> ..
    have "denom x \<noteq> 0" using denom_pos [of x] by (metis less_irrefl)
    then have "rat_of_int (numer x * (D div denom x)) = of_int (numer x) * of_int j" using j by simp
    also have "of_int (numer x) = x * of_int (denom x)"
      using frac_eq [of x] \<open>denom x \<noteq> 0\<close> by (metis nonzero_divide_eq_eq of_int_0_eq_iff)
    finally show ?thesis by (simp add: j)
  qed
  have L: "rat_of_int L = l * of_int D" and R: "rat_of_int R = r * of_int D"
    unfolding L_def R_def by (rule m; simp add: D_def)+
  have "0 < rat_of_int L" "0 < rat_of_int R" unfolding L R using D assms by simp_all
  then have L0: "0 < L" and R0: "0 < R" by simp_all
  have f: "fraction_lcm l r = of_int (lcm L R) / of_int D"
    by (simp add: fraction_lcm_def Let_def D_def L_def R_def)
  have lc: "0 < lcm L R" using L0 R0 by (simp add: lcm_pos_int)
  then show pos: "0 < fraction_lcm l r" using D f by simp
  have "\<exists>k. fraction_lcm l r = of_int k * x" if "rat_of_int X = x * of_int D" "X dvd lcm L R" for x X
  proof -
    obtain j where "lcm L R = X * j" using \<open>X dvd lcm L R\<close> ..
    then have "fraction_lcm l r = of_int j * x" using D f that(1) by simp
    then show ?thesis ..
  qed
  from this [OF L] this [OF R] show "is_multiple (fraction_lcm l r) l = Inr True" and "is_multiple (fraction_lcm l r) r = Inr True"
    using assms by (simp_all add: is_multiple_iff)
  assume "is_multiple w l = Inr True" and "is_multiple w r = Inr True"
  then have "\<exists>a. w = of_int a * l" and "\<exists>b. w = of_int b * r"
    using assms by (simp_all add: is_multiple_iff)
  then obtain a b where a: "w = of_int a * l" and b: "w = of_int b * r" by blast
  have "w * of_int D = of_int (a * L)" using L a by simp
  moreover have "w * of_int D = of_int (b * R)" using R b by simp
  ultimately have "a * L = b * R" by (simp only: of_int_eq_iff)
  then have "lcm L R dvd a * L" by (metis dvd_triv_right lcm_least)
  then obtain j where "a * L = lcm L R * j" ..
  then have "w * of_int D = of_int (lcm L R) * of_int j" using \<open>w * of_int D = of_int (a * L)\<close> by (metis of_int_mult)
  then have "w = of_int j * fraction_lcm l r" using D unfolding f by (simp add: nonzero_eq_divide_eq)
  then show "is_multiple w (fraction_lcm l r) = Inr True" using pos by (auto simp: is_multiple_iff)
qed

subsection \<open>From a \<open>Decimal\<close>\<close>

text \<open>The text of \<open>format(value, "f")\<close>: sign, integer digits, fraction digits; their number.\<close>

definition plain_text :: "bool \<Rightarrow> string \<Rightarrow> string \<Rightarrow> string" where
  "plain_text s ip fp = (if s then ''-'' else []) @ ip @ (if fp = [] then [] else CHR ''.'' # fp)"

lemma format_f_parts:
  obtains ip fp where "format_f s c e = plain_text s ip fp"
    and "plain_digits ip" and "list_all is_ascii_digit fp"
    and "rat_of_nat (digits_val (ip @ fp)) = of_nat c * pow10 (e + int (length fp))"
proof (cases "c = 0 \<and> 0 < e")
  case True
  moreover have "nat_str 0 = ''0''" by code_simp
  ultimately have "format_f s c e = plain_text s ''0'' []"
    by (simp add: format_f_def plain_text_def)
  then show thesis using that [of "''0''" "[]"] True
    by (simp add: plain_digits_def is_ascii_digit_def digits_val_def digit_val_def)
next
  case False
  let ?ds = "nat_str c"
  let ?dot = "int (length ?ds) + e"
  note dig = nat_str_digits [of c]
  have z: "plain_digits ''0''" "digits_val ''0'' = 0"
    by (simp_all add: plain_digits_def is_ascii_digit_def digits_val_def digit_val_def)
  have f: "format_f s c e = plain_text s
      (if ?dot < 0 then ''0'' else if int (length ?ds) < ?dot then ?ds @ replicate (nat e) CHR ''0''
       else if ?dot = 0 then ''0'' else take (nat ?dot) ?ds)
      (if ?dot < 0 then replicate (nat (- ?dot)) CHR ''0'' @ ?ds
       else if int (length ?ds) < ?dot then [] else drop (nat ?dot) ?ds)"
    unfolding format_f_def plain_text_def Let_def if_not_P [OF False] by simp
  consider (neg) "?dot < 0" | (zero) "?dot = 0" | (big) "0 < e" | (mid) "0 < ?dot" "e \<le> 0"
    by linarith
  then show thesis
  proof cases
    case neg
    let ?fp = "replicate (nat (- ?dot)) CHR ''0'' @ ?ds"
    have "format_f s c e = plain_text s ''0'' ?fp" using f neg by simp
    moreover have "e + int (length ?fp) = 0" using neg by simp
    moreover have "digits_val (''0'' @ ?fp) = c" using z by (simp add: digits_val_append [of "''0''"] digits_val_pad del: append_Cons)
    ultimately show thesis using that [of "''0''" ?fp] z dig by (simp add: pow10_def)
  next
    case zero
    then have "format_f s c e = plain_text s ''0'' ?ds" using f by simp
    moreover have "digits_val (''0'' @ ?ds) = c" using z by (simp add: digits_val_append [of "''0''"] del: append_Cons)
    ultimately show thesis using that [of "''0''" ?ds] z dig zero by (simp add: pow10_def)
  next
    case big
    let ?ip = "?ds @ replicate (nat e) CHR ''0''"
    have "format_f s c e = plain_text s ?ip []" using f big by simp
    then show thesis using that [of ?ip "[]"] dig big
      by (simp add: plain_digits_def digits_val_append pow10_def)
  next
    case mid
    have "format_f s c e = plain_text s (take (nat ?dot) ?ds) (drop (nat ?dot) ?ds)" using f mid by simp
    moreover have "e + int (length (drop (nat ?dot) ?ds)) = 0" using mid by simp
    moreover have "list_all is_ascii_digit (take (nat ?dot) ?ds)" "list_all is_ascii_digit (drop (nat ?dot) ?ds)"
      using dig by (auto simp: list_all_iff dest: in_set_takeD in_set_dropD)
    ultimately show thesis using that [of "take (nat ?dot) ?ds" "drop (nat ?dot) ?ds"] mid
      by (simp add: plain_digits_def pow10_def)
  qed
qed

lemma plain_text_parse:
  assumes "plain_digits ip" and "list_all is_ascii_digit fp" and "exact_parse (plain_text s ip fp) = Inr x"
  shows "exact_val x = (if s then -1 else 1) * of_nat (digits_val (ip @ fp)) / 10 ^ length fp"
proof -
  let ?t = "ip @ (if fp = [] then [] else CHR ''.'' # fp)"
  let ?sg = "if s then ''-'' else []" and ?k = "if s then -1 else 1::int"
  obtain d where d: "dec_of_str (?sg @ ?t) = Inr d" "dec_val d = exact_val x"
    using exact_parse_decimal [OF assms(3)] by (auto simp: plain_text_def)
  have sg: "sign_text ?sg ?k" by (simp add: sign_text_def)
  have nd: "CHR ''.'' \<notin> set ip" "CHR ''.'' \<notin> set fp"
    using assms(1,2) ascii_digit_not(2) by (auto simp: plain_digits_def list_all_iff)
  have "dec_of_str (?sg @ ?t) = dec_number (?k = -1) ?t 0"
    using assms(1,2) by (intro dec_of_str_plain [OF sg]) (auto simp: plain_digits_def list_all_iff split: if_splits)
  also have "\<dots> = Inr (DFin s (digits_val (ip @ fp)) (- int (length fp)))"
    using nd assms(1,2) by (auto simp: dec_number_def split_on_append split_on_none plain_digits_def)
  finally show ?thesis using d by (auto simp: pow10_neg)
qed

lemma exact_from_decimal_val:
  assumes "exact_from_decimal v = Inr x"
  shows "is_finite v \<and> exact_wf x \<and> exact_val x = dec_val v"
proof (cases v)
  case (DFin s c e)
  then have p: "exact_parse (format_f s c e) = Inr x" using assms by (simp add: exact_from_decimal_def)
  obtain ip fp where t: "format_f s c e = plain_text s ip fp" "plain_digits ip" "list_all is_ascii_digit fp"
    and v: "rat_of_nat (digits_val (ip @ fp)) = of_nat c * pow10 (e + int (length fp))"
    by (rule format_f_parts)
  have "exact_val x = dec_val v"
    using plain_text_parse [OF t(2,3)] p t(1) v DFin by (simp add: pow10_add)
  then show ?thesis using exact_parse_wf [OF p] DFin by simp
qed (use assms in \<open>auto simp: exact_from_decimal_def\<close>)


subsection \<open>Back to the kernel from \<open>Decimal(str(x))\<close>\<close>

lemma format_f_digits:
  assumes "e \<le> 0"
  obtains ip fp where "format_f s c e = plain_text s ip fp" and "plain_digits ip" and "list_all is_ascii_digit fp"
    and "length fp = nat (- e)" and "length ip \<le> max 1 (length (nat_str c))"
    and "digits_val (ip @ fp) = c"
proof -
  let ?ds = "nat_str c" and ?z = "''0''"
  let ?dot = "int (length ?ds) + e"
  note dig = nat_str_digits [of c]
  have z: "plain_digits ?z" "digits_val ?z = 0"
    by (simp_all add: plain_digits_def is_ascii_digit_def digits_val_def digit_val_def)
  have zv: "digits_val (?z @ t) = digits_val t" for t using z(2) by (simp only: digits_val_append)
  consider (neg) "?dot < 0" | (zero) "?dot = 0" | (mid) "0 < ?dot" by linarith
  then show thesis
  proof cases
    case neg
    let ?fp = "replicate (nat (- ?dot)) CHR ''0'' @ ?ds"
    have "format_f s c e = plain_text s ?z ?fp" using neg assms by (simp add: format_f_def plain_text_def Let_def)
    moreover have "length ?fp = nat (- e)" using neg by simp
    moreover have "digits_val (?z @ ?fp) = c" unfolding zv by (simp add: digits_val_pad)
    ultimately show thesis using that [of ?z ?fp] z dig by simp
  next
    case zero
    then have "format_f s c e = plain_text s ?z ?ds" using assms by (simp add: format_f_def plain_text_def Let_def)
    moreover have "digits_val (?z @ ?ds) = c" unfolding zv by simp
    ultimately show thesis using that [of ?z ?ds] z dig zero by simp
  next
    case mid
    then have "format_f s c e = plain_text s (take (nat ?dot) ?ds) (drop (nat ?dot) ?ds)"
      using assms by (simp add: format_f_def plain_text_def Let_def)
    moreover have "list_all is_ascii_digit (take (nat ?dot) ?ds)" "list_all is_ascii_digit (drop (nat ?dot) ?ds)"
      using dig by (auto simp: list_all_iff dest: in_set_takeD in_set_dropD)
    moreover have "length (drop (nat ?dot) ?ds) = nat (- e)" using mid assms by simp
    ultimately show thesis using that [of "take (nat ?dot) ?ds" "drop (nat ?dot) ?ds"] mid
      by (simp add: plain_digits_def)
  qed
qed

lemma plain_text_parse_ok:
  assumes "plain_digits ip" and "length ip \<le> max_str_digits" and "list_all is_ascii_digit fp" and "length fp \<le> DECIMALS"
  shows "exact_parse (plain_text s ip fp) =
    exact_init ((if s then -1 else 1) * (int (digits_val ip) * SCALE + int (digits_val fp) * 10 ^ (DECIMALS - length fp)))"
proof -
  have sg: "sign_text (if s then ''-'' else []) (if s then -1 else 1)" by (simp add: sign_text_def)
  show ?thesis
  proof (cases "fp = []")
    case True
    then show ?thesis using exact_parse_whole [OF sg assms(1,2)] by (simp add: plain_text_def)
  next
    case False
    then have "plain_digits fp" using assms(3) by (simp add: plain_digits_def)
    then show ?thesis using exact_parse_point [OF sg assms(1,2) _ assms(4)] False by (simp add: plain_text_def)
  qed
qed

lemma scaled_digits:
  assumes "length fp \<le> DECIMALS"
  shows "int (digits_val ip) * SCALE + int (digits_val fp) * 10 ^ (DECIMALS - length fp)
       = int (digits_val (ip @ fp)) * 10 ^ (DECIMALS - length fp)"
proof -
  have "(10::int) ^ length fp * 10 ^ (DECIMALS - length fp) = SCALE"
    using assms by (simp add: SCALE_def DECIMALS_def flip: power_add)
  then show ?thesis by (simp add: digits_val_append distrib_right mult.assoc)
qed

text \<open>\<open>Decimal(str(x))\<close> converts back to \<open>x\<close>.\<close>

lemma exact_from_decimal_str:
  assumes "exact_wf x" and "dec_of_str (exact_str x) = Inr d"
  shows "exact_from_decimal d = Inr x"
proof -
  have core: "exact_from_decimal (DFin (k = -1) c (- int l)) = exact_init (k * (int c * 10 ^ (DECIMALS - l)))"
    if k: "k = 1 \<or> k = -1" and l: "l \<le> DECIMALS" and c: "c < 10 ^ 19" for k c l
  proof -
    obtain ip fp where t: "format_f (k = -1) c (- int l) = plain_text (k = -1) ip fp" "plain_digits ip"
        "list_all is_ascii_digit fp" "length fp = l" "length ip \<le> max 1 (length (nat_str c))" "digits_val (ip @ fp) = c"
      by (rule format_f_digits [of "- int l" "k = -1" c]) auto
    have "length (nat_str c) \<le> 19" using c by (intro length_nat_str_le) auto
    then have "length ip \<le> max_str_digits" using t(5) by (simp add: max_str_digits_def)
    then show ?thesis using plain_text_parse_ok [OF t(2) _ t(3), of "k = -1"] scaled_digits [of fp ip] t(1,4,6) l k
      by (auto simp: exact_from_decimal_def)
  qed
  have sc: "exact_init (scaled x) = Inr x" using assms(1) by (cases x) simp
  show ?thesis
    using assms(1)
  proof (cases rule: exact_str_cases)
    case (whole sg k w)
    have "CHR ''.'' \<notin> set w" using plain_digits_set [OF whole(3)] ascii_digit_not(2) by blast
    then have d: "d = DFin (k = -1) (digits_val w) (- int 0)"
      using assms(2) whole dec_of_str_plain [of sg k w]
      by (simp add: dec_number_def split_on_none plain_digits_def list_all_iff)
    have "digits_val w < 10 ^ length w" using whole(3) by (intro digits_val_less) (simp add: plain_digits_def)
    also have "\<dots> \<le> 10 ^ 19" using whole(4) by (intro power_increasing) auto
    finally have "digits_val w < 10 ^ 19" .
    moreover have "k = 1 \<or> k = -1" using whole(2) by (auto simp: sign_text_def)
    ultimately have "exact_from_decimal d = exact_init (k * (int (digits_val w) * 10 ^ DECIMALS))"
      unfolding d using core [of k 0] by simp
    moreover have "(10::int) ^ DECIMALS = SCALE" by (simp add: SCALE_def DECIMALS_def)
    ultimately show ?thesis using sc unfolding whole(5) by (simp only:)
  next
    case (point sg k w f)
    have nd: "CHR ''.'' \<notin> set w" "CHR ''.'' \<notin> set f"
      using plain_digits_set [OF point(3)] plain_digits_set [OF point(5)] ascii_digit_not(2) by blast+
    have "dec_of_str (exact_str x) = dec_number (k = -1) (w @ CHR ''.'' # f) 0"
      using point dec_of_str_plain [of sg k "w @ CHR ''.'' # f"] by (auto simp: plain_digits_def list_all_iff)
    then have d: "d = DFin (k = -1) (digits_val (w @ f)) (- int (length f))"
      using nd point(3,5) assms(2) by (simp add: dec_number_def split_on_append split_on_none plain_digits_def)
    have "digits_val (w @ f) < 10 ^ length (w @ f)"
      using point(3,5) by (intro digits_val_less) (simp add: plain_digits_def)
    also have "\<dots> \<le> 10 ^ 19" using point(4,6) by (intro power_increasing) (auto simp: DECIMALS_def)
    finally have "digits_val (w @ f) < 10 ^ 19" .
    moreover have "k = 1 \<or> k = -1" using point(2) by (auto simp: sign_text_def)
    ultimately have "exact_from_decimal d = exact_init (k * (int (digits_val (w @ f)) * 10 ^ (DECIMALS - length f)))"
      unfolding d using core [of k "length f"] point(6) by simp
    then show ?thesis using sc unfolding point(7) scaled_digits [OF point(6), of w] by (simp only:)
  qed
qed

lemma dec_of_exact_str:
  assumes "exact_wf x" and "dec_of_str (exact_str x) = Inr d"
  shows "is_finite d" and "dec_val d = exact_val x"
  using exact_from_decimal_val [OF exact_from_decimal_str [OF assms]] by simp_all

subsection \<open>Properties\<close>

text \<open>
  C30. Printing and parsing are inverse on every representable value: \<open>parse(str(x))\<close> returns
  \<open>x\<close>, and whatever \<open>parse\<close> returns is representable.
\<close>

theorem exact_parse_print:
  assumes "exact_wf x" and "exact_parse t = Inr y"
  shows "exact_parse (exact_str x) = Inr x \<and> exact_parse (exact_str y) = Inr y"
  using exact_parse_str [OF assms(1)] exact_parse_str [OF exact_parse_wf [OF assms(2)]] by simp

lemmas exact_eval = exact_parse_def DECIMALS_def exact_init_def SCALE_def MIN_SCALED_def MAX_SCALED_def

lemma exact_parse_print_witness:
  "exact_parse (exact_str (ExactDecimal (-150000000))) = Inr (ExactDecimal (-150000000))
   \<and> exact_parse (exact_str (ExactDecimal 225000000)) = Inr (ExactDecimal 225000000)"
proof (rule exact_parse_print)
  show "exact_wf (ExactDecimal (-150000000))"
    by (simp add: exact_wf_def MIN_SCALED_def MAX_SCALED_def)
  show "exact_parse ''+2.25'' = Inr (ExactDecimal 225000000)"
    by (simp add: exact_eval py_defs)
qed

text \<open>
  C31. A text that \<open>parse\<close> accepts denotes the number that \<open>Decimal(text)\<close> denotes, and a
  \<open>Decimal\<close> that \<open>from_decimal\<close> accepts keeps its value: the kernel introduces no rounding
  at its boundary, and the result fits the signed 64-bit range.
\<close>

theorem exact_boundary_lossless:
  assumes "exact_parse t = Inr x" and "exact_from_decimal v = Inr y"
  shows "(exact_wf x \<and> (\<exists>d. dec_of_str t = Inr d \<and> is_finite d \<and> dec_val d = exact_val x))
    \<and> exact_wf y \<and> is_finite v \<and> dec_val v = exact_val y"
  using exact_parse_decimal [OF assms(1)] exact_parse_wf [OF assms(1)] exact_from_decimal_val [OF assms(2)]
  by auto

lemma exact_boundary_lossless_witness:
  "(exact_wf (ExactDecimal 225000000)
     \<and> (\<exists>d. dec_of_str ''+2.25'' = Inr d \<and> is_finite d \<and> dec_val d = exact_val (ExactDecimal 225000000)))
   \<and> exact_wf (ExactDecimal 150000000) \<and> is_finite (DFin False 15 (-1))
   \<and> dec_val (DFin False 15 (-1)) = exact_val (ExactDecimal 150000000)"
proof -
  have "exact_parse ''+2.25'' = Inr (ExactDecimal 225000000)"
    by (simp add: exact_eval py_defs)
  moreover have "format_f False 15 (-1) = ''1.5''"
    by (simp add: format_f_def Let_def nat_str_eval digit_char_eval)
  then have "exact_from_decimal (DFin False 15 (-1)) = Inr (ExactDecimal 150000000)"
    by (simp add: exact_from_decimal_def exact_eval py_defs)
  ultimately show ?thesis by (rule exact_boundary_lossless)
qed

text \<open>
  C32. Arithmetic never wraps: each operation returns a value exactly when the mathematical
  result (for products and quotients, its floor at the eighth decimal) is representable,
  and then that value is exact for sums and differences and below the exact
  product or quotient by less than one unit of the eighth decimal.
\<close>

theorem exact_arithmetic:
  "(exact_add a b = Inr c \<longleftrightarrow> exact_wf c \<and> exact_val c = exact_val a + exact_val b)
   \<and> (exact_sub a b = Inr c \<longleftrightarrow> exact_wf c \<and> exact_val c = exact_val a - exact_val b)
   \<and> (exact_mul a b = Inr c \<longleftrightarrow> exact_wf c \<and> exact_val c \<le> exact_val a * exact_val b
        \<and> exact_val a * exact_val b < exact_val c + 1 / of_int SCALE)
   \<and> (exact_div a b = Inr c \<longleftrightarrow> scaled b \<noteq> 0 \<and> exact_wf c \<and> exact_val c \<le> exact_val a / exact_val b
        \<and> exact_val a / exact_val b < exact_val c + 1 / of_int SCALE)"
  using exact_add_iff exact_sub_iff exact_mul_iff exact_div_iff by blast

text \<open>
  C33. \<open>decimal_from_fraction\<close> is exact on a fraction with a finite decimal expansion (which
  \<open>is_terminating_fraction\<close> decides), and otherwise gives 28 significant digits, at most
  half a unit of the last one away from the fraction.
\<close>

theorem decimal_from_fraction_correct:
  assumes "decimal_from_fraction v = Inr d"
  shows "(is_terminating_fraction v \<longleftrightarrow> (\<exists>k. v * 10 ^ k \<in> \<int>))
    \<and> (is_terminating_fraction v \<longrightarrow> is_finite d \<and> dec_val d = v)
    \<and> (\<not> is_terminating_fraction v \<longrightarrow>
         (\<exists>c e. d = DFin (v < 0) c e \<and> 10 ^ 27 \<le> c \<and> c < 10 ^ 28 \<and> \<bar>dec_val d - v\<bar> \<le> pow10 e / 2))"
  using terminating_iff decimal_from_fraction_terminating [OF _ assms] decimal_from_fraction_rounded [OF _ assms]
  by blast

lemma decimal_from_fraction_witness:
  "\<exists>c e. DFin True 6666666666666666666666666667 (-28) = DFin ((-2/3 :: rat) < 0) c e \<and> 10 ^ 27 \<le> c \<and> c < 10 ^ 28
     \<and> \<bar>dec_val (DFin True 6666666666666666666666666667 (-28)) - (-2/3)\<bar> \<le> pow10 e / 2"
proof -
  have nd: "numer (-2/3) = -2" "denom (-2/3) = 3" by code_simp+
  have "\<not> is_terminating_fraction (-2/3)"
    unfolding is_terminating_fraction_def nd by (simp add: factor_out.simps)
  moreover have "decimal_from_fraction (-2/3) = Inr (DFin True 6666666666666666666666666667 (-28))"
    unfolding decimal_from_fraction_def rounded_decimal_def nd
    by (simp add: factor_out.simps dec_divide_def quot_exponent_def Let_def nat_str_eval
        scale_ok_def prec_def round_half_even_def dec_limit_def pow10_def)
  ultimately show ?thesis using decimal_from_fraction_correct by blast
qed

text \<open>
  \<open>round_up_to_multiple\<close> returns the least multiple of a positive lot that is not below
  the value, and \<open>fraction_lcm\<close> the common multiple of two positive lots that divides every
  other common multiple.
\<close>

theorem lot_rounding_least:
  assumes "0 < l" and "0 < r"
  shows "(\<exists>m. round_up_to_multiple v l = Inr m \<and> v \<le> m \<and> m < v + l \<and> is_multiple m l = Inr True
           \<and> (\<forall>k. v \<le> of_int k * l \<longrightarrow> m \<le> of_int k * l))
    \<and> 0 < fraction_lcm l r
    \<and> is_multiple (fraction_lcm l r) l = Inr True \<and> is_multiple (fraction_lcm l r) r = Inr True
    \<and> (is_multiple w l = Inr True \<and> is_multiple w r = Inr True \<longrightarrow> is_multiple w (fraction_lcm l r) = Inr True)"
  using round_up_to_multiple_least [OF assms(1)] fraction_lcm_least [OF assms] by blast

lemma lot_rounding_least_witness:
  "0 < fraction_lcm (3/10) (1/4) \<and> is_multiple (fraction_lcm (3/10) (1/4)) (3/10) = Inr True
   \<and> fraction_lcm (3/10) (1/4) = 3/2 \<and> is_multiple 3 (fraction_lcm (3/10) (1/4)) = Inr True"
proof -
  have "is_multiple 3 (3/10) = Inr True" "is_multiple 3 (1/4) = Inr True" "fraction_lcm (3/10) (1/4) = 3/2"
    by code_simp+
  then show ?thesis using lot_rounding_least [of "3/10" "1/4" 0 3] by simp
qed

text \<open>
  The documented contract of \<open>parse\<close> is to reject with \<open>ExactError\<close>; a superscript digit
  passes \<open>str.isdigit\<close> and makes \<open>int\<close> raise a plain \<open>ValueError\<close>.
\<close>

lemma exact_parse_superscript:
  "exact_parse [CHR 0xB2] = Inl ValueError \<and> \<not> is_exact_error ValueError"
  by (simp add: exact_eval py_defs)

end
