(* ===== verification/Market.thy ===== *)
theory Market
  imports Exact
begin

section \<open>Markets and order books (\<open>liqvera_contracts/market.py\<close>)\<close>

text \<open>
  Instrument identities with their field-wise order, the checked constructors of venue
  markets, book levels and snapshots, and the discovery of markets that several venues
  list. A frozen dataclass with a \<open>__post_init__\<close> is a record and a constructor that raises;
  Python dictionaries are association lists in insertion order.
\<close>

subsection \<open>Data\<close>

datatype InstrumentIdentity = InstrumentIdentity
  (base_asset: string) (quote_asset: string) (product_kind: string)
  (settlement_asset: string) (payoff_kind: string)

definition identity_key :: "InstrumentIdentity \<Rightarrow> string \<times> string \<times> string \<times> string \<times> string" where
  "identity_key i = (base_asset i, quote_asset i, product_kind i, settlement_asset i, payoff_kind i)"

lemma identity_key_inj: "identity_key i = identity_key j \<Longrightarrow> i = j"
  by (cases i; cases j) (simp add: identity_key_def)

text \<open>\<open>@dataclass(order=True)\<close>: comparison of the tuples of fields.\<close>

instantiation InstrumentIdentity :: linorder
begin

definition less_eq_InstrumentIdentity :: "InstrumentIdentity \<Rightarrow> InstrumentIdentity \<Rightarrow> bool" where
  "i \<le> j \<longleftrightarrow> identity_key i \<le> identity_key j"

definition less_InstrumentIdentity :: "InstrumentIdentity \<Rightarrow> InstrumentIdentity \<Rightarrow> bool" where
  "i < j \<longleftrightarrow> identity_key i < identity_key j"

instance
  by standard (auto simp: less_eq_InstrumentIdentity_def less_InstrumentIdentity_def identity_key_inj)

end

record VenueMarket =
  venue :: string
  symbol :: string
  identity :: InstrumentIdentity
  contract_multiplier :: pydec
  displayed_size_unit :: string
  quantity_step :: pydec
  price_tick :: "pydec option"
  min_notional :: pydec
  equivalence_evidence :: string
  price_decimals :: "int option"
  max_price_significant_digits :: "int option"
  min_quantity :: "pydec option"

definition check_positive :: "pydec option \<Rightarrow> 'a res \<Rightarrow> 'a res" where
  "check_positive x rest =
     (case x of None \<Rightarrow> rest
      | Some d \<Rightarrow> rbind (dec_le0 d) (\<lambda>le. require (\<not> le) ValueError rest))"

text \<open>
  \<open>VenueMarket.__post_init__\<close>. The three \<open>any\<close> expressions look at all fields before the next
  one starts; a finite value compares with zero without raising.
\<close>

definition venue_market :: "VenueMarket \<Rightarrow> VenueMarket res" where
  "venue_market m =
     (let positive_fields = [contract_multiplier m, quantity_step m, min_notional m]
      in require (displayed_size_unit m \<noteq> []) ValueError (
         require (list_all is_finite positive_fields) ValueError (
         require (list_all dec_pos positive_fields) ValueError (
         check_positive (price_tick m) (
         check_positive (min_quantity m) (
         require (case price_decimals m of None \<Rightarrow> True | Some d \<Rightarrow> \<not> d < 0) ValueError (
         require (case max_price_significant_digits m of None \<Rightarrow> True | Some d \<Rightarrow> \<not> d \<le> 0) ValueError (
         require (\<not> (price_tick m = None \<and> price_decimals m = None \<and> max_price_significant_digits m = None))
           ValueError (Inr m)))))))))"

record CommonMarket =
  cm_identity :: InstrumentIdentity
  cm_markets :: "VenueMarket list"

record BookLevel =
  price :: pydec
  quantity :: pydec

definition book_level :: "pydec \<Rightarrow> pydec \<Rightarrow> BookLevel res" where
  "book_level p q =
     rbind (dec_le0 p) (\<lambda>a.
     rbind (if a then Inr True else dec_le0 q) (\<lambda>b.
     require (\<not> b) ValueError (Inr \<lparr>price = p, quantity = q\<rparr>)))"

fun strictly_descending :: "BookLevel list \<Rightarrow> bool" where
  "strictly_descending (previous # current # rest) =
     (dec_lt (price current) (price previous) \<and> strictly_descending (current # rest))"
| "strictly_descending _ = True"

fun strictly_ascending :: "BookLevel list \<Rightarrow> bool" where
  "strictly_ascending (previous # current # rest) =
     (dec_lt (price previous) (price current) \<and> strictly_ascending (current # rest))"
| "strictly_ascending _ = True"

record OrderBookSnapshot =
  ob_venue :: string
  ob_symbol :: string
  sequence :: "int option"
  exchange_timestamp_ms :: int
  received_timestamp_ms :: int
  bids :: "BookLevel list"
  asks :: "BookLevel list"

text \<open>
  \<open>OrderBookSnapshot.__post_init__\<close>. Levels come from \<open>book_level\<close>, so no price is a NaN and
  the comparisons do not raise.
\<close>

definition order_book_snapshot :: "OrderBookSnapshot \<Rightarrow> OrderBookSnapshot res" where
  "order_book_snapshot s =
     require (\<not> (bids s = [] \<or> asks s = [])) ValueError (
     require (strictly_descending (bids s)) ValueError (
     require (strictly_ascending (asks s)) ValueError (
     require (dec_lt (price (bids s ! 0)) (price (asks s ! 0))) ValueError (Inr s))))"

definition best_bid :: "OrderBookSnapshot \<Rightarrow> BookLevel" where
  "best_bid s = bids s ! 0"

definition best_ask :: "OrderBookSnapshot \<Rightarrow> BookLevel" where
  "best_ask s = asks s ! 0"

definition age_at_receive_ms :: "OrderBookSnapshot \<Rightarrow> int" where
  "age_at_receive_ms s = received_timestamp_ms s - exchange_timestamp_ms s"

subsection \<open>Discovery\<close>

type_synonym grouped = "(InstrumentIdentity \<times> (string \<times> VenueMarket) list) list"

definition group_get :: "grouped \<Rightarrow> InstrumentIdentity \<Rightarrow> (string \<times> VenueMarket) list" where
  "group_get g i = (case map_of g i of None \<Rightarrow> [] | Some d \<Rightarrow> d)"

definition group_step :: "grouped \<Rightarrow> VenueMarket \<Rightarrow> grouped res" where
  "group_step g item =
     (if strip (equivalence_evidence item) = [] then Inr g
      else if venue item \<in> set (map fst (group_get g (identity item))) then Inl ValueError
      else Inr (AList.update (identity item)
                  (AList.update (venue item) item (group_get g (identity item))) g))"

definition common_of :: "InstrumentIdentity \<times> (string \<times> VenueMarket) list \<Rightarrow> CommonMarket" where
  "common_of e = \<lparr>cm_identity = fst e,
     cm_markets = map (\<lambda>v. the (map_of (snd e) v)) (sort (map fst (snd e)))\<rparr>"

definition discover_common_markets :: "VenueMarket list \<Rightarrow> int \<Rightarrow> CommonMarket list res" where
  "discover_common_markets markets minimum_venues =
     require (\<not> minimum_venues < 2) ValueError (
     rbind (rfold group_step [] markets) (\<lambda>g.
     Inr (sort_key cm_identity
            (map common_of (filter (\<lambda>e. int (length (snd e)) \<ge> minimum_venues) g)))))"

subsection \<open>What discovery computes\<close>

definition has_evidence :: "VenueMarket \<Rightarrow> bool" where
  "has_evidence m \<longleftrightarrow> strip (equivalence_evidence m) \<noteq> []"

text \<open>The markets with evidence for one identity, in the order of the input.\<close>

definition listed :: "VenueMarket list \<Rightarrow> InstrumentIdentity \<Rightarrow> VenueMarket list" where
  "listed ms i = filter (\<lambda>m. has_evidence m \<and> identity m = i) ms"

definition unambiguous :: "VenueMarket list \<Rightarrow> bool" where
  "unambiguous ms \<longleftrightarrow> (\<forall>i. distinct (map venue (listed ms i)))"

definition group_inv :: "VenueMarket list \<Rightarrow> grouped \<Rightarrow> bool" where
  "group_inv done g \<longleftrightarrow> distinct (map fst g) \<and> (\<forall>e \<in> set g. snd e \<noteq> [])
     \<and> (\<forall>i. group_get g i = map (\<lambda>m. (venue m, m)) (listed done i)) \<and> unambiguous done"

lemma listed_snoc: "listed (ms @ [m]) i = listed ms i @ (if has_evidence m \<and> identity m = i then [m] else [])"
  by (simp add: listed_def)

lemma AList_update_nonempty: "AList.update k v d \<noteq> []"
  by (cases d) (auto split: if_splits)

lemma group_get_update: "group_get (AList.update k d g) i = (if i = k then d else group_get g i)"
  by (simp add: group_get_def update_conv')

lemma set_update_subset: "e \<in> set (AList.update k v d) \<Longrightarrow> e = (k, v) \<or> e \<in> set d"
  by (induction d) (auto split: if_splits)

lemma unambiguous_snoc:
  "unambiguous (done @ [m]) \<longleftrightarrow>
     unambiguous done \<and> (has_evidence m \<longrightarrow> venue m \<notin> venue ` set (listed done (identity m)))"
  by (auto simp: unambiguous_def listed_snoc)

lemma group_step_inv:
  assumes "group_inv done g" and "group_step g m = Inr g'"
  shows "group_inv (done @ [m]) g'"
proof (cases "has_evidence m")
  case True
  have gg: "group_get g (identity m) = map (\<lambda>m. (venue m, m)) (listed done (identity m))"
    using assms(1) by (simp add: group_inv_def)
  have nv: "venue m \<notin> fst ` set (group_get g (identity m))"
    and g': "g' = AList.update (identity m) (group_get g (identity m) @ [(venue m, m)]) g"
    using assms(2) True by (auto simp: group_step_def has_evidence_def AList_update_new split: if_splits)
  have "\<forall>e \<in> set g'. snd e \<noteq> []"
    using assms(1) unfolding g' group_inv_def by (auto dest!: set_update_subset)
  moreover have "unambiguous (done @ [m])"
    using assms(1) nv True by (auto simp: unambiguous_snoc group_inv_def image_image)
  ultimately show ?thesis
    using assms(1) True gg unfolding g' group_inv_def
    by (auto simp: distinct_update group_get_update listed_snoc)
next
  case False
  then have "g' = g" using assms(2) by (simp add: group_step_def has_evidence_def)
  then show ?thesis using assms(1) False
    by (auto simp: group_inv_def unambiguous_snoc listed_snoc)
qed

lemma group_markets_inv: "rfold group_step [] ms = Inr g \<Longrightarrow> group_inv ms g"
  by (erule rfold_invariant) (auto simp: group_step_inv, simp add: group_inv_def group_get_def listed_def unambiguous_def)

lemma group_step_fails:
  assumes "group_inv done g"
  shows "group_step g m = (if unambiguous (done @ [m]) then group_step g m else Inl ValueError)"
  using assms by (auto simp: group_step_def group_inv_def unambiguous_snoc has_evidence_def image_image)

lemma group_step_total:
  assumes "group_inv done g" and "unambiguous (done @ [m])"
  shows "\<exists>g'. group_step g m = Inr g'"
  using assms by (auto simp: group_step_def group_inv_def unambiguous_snoc has_evidence_def image_image)

lemma unambiguous_prefix: "unambiguous (xs @ ys) \<Longrightarrow> unambiguous xs"
  by (auto simp: unambiguous_def listed_def)

lemma group_markets_result:
  "if unambiguous ms then \<exists>g. rfold group_step [] ms = Inr g \<and> group_inv ms g
   else rfold group_step [] ms = Inl ValueError"
proof (induction ms rule: rev_induct)
  case Nil
  then show ?case by (simp add: unambiguous_def listed_def group_inv_def group_get_def)
next
  case (snoc m ms)
  show ?case
  proof (cases "unambiguous ms")
    case True
    then obtain g where g: "rfold group_step [] ms = Inr g" "group_inv ms g" using snoc by auto
    then show ?thesis
      using group_step_total [OF g(2), of m] group_step_fails [OF g(2), of m] group_step_inv [OF g(2), of m]
      by (auto simp: rfold_append split: if_splits)
  next
    case False
    then show ?thesis using snoc unambiguous_prefix by (auto simp: rfold_append)
  qed
qed

lemma venues_sorted:
  assumes "distinct (map venue l)"
  shows "map (\<lambda>v. the (map_of (map (\<lambda>m. (venue m, m)) l) v)) (sort (map venue l)) = sort_key venue l"
proof -
  have d: "distinct (map fst (map (\<lambda>m. (venue m, m)) l))" using assms by (simp add: comp_def)
  have "the (map_of (map (\<lambda>m. (venue m, m)) l) (venue m)) = m" if "m \<in> set l" for m
    using map_of_is_SomeI [OF d, of "venue m" m] that by simp
  then have "map (\<lambda>m. the (map_of (map (\<lambda>m. (venue m, m)) l) (venue m))) (sort_key venue l) = sort_key venue l"
    by (intro map_idI) simp
  then show ?thesis unfolding map_sort_key [symmetric] map_map comp_def .
qed

definition common_spec :: "VenueMarket list \<Rightarrow> InstrumentIdentity \<Rightarrow> CommonMarket" where
  "common_spec ms i = \<lparr>cm_identity = i, cm_markets = sort_key venue (listed ms i)\<rparr>"

lemma group_entry:
  assumes "group_inv ms g" and "e \<in> set g"
  shows "snd e = map (\<lambda>m. (venue m, m)) (listed ms (fst e))" and "common_of e = common_spec ms (fst e)"
proof -
  have "map_of g (fst e) = Some (snd e)" using assms by (simp add: group_inv_def)
  then have "group_get g (fst e) = snd e" by (simp add: group_get_def)
  then show s: "snd e = map (\<lambda>m. (venue m, m)) (listed ms (fst e))"
    using assms(1) by (simp add: group_inv_def)
  have "distinct (map venue (listed ms (fst e)))" using assms(1) by (simp add: group_inv_def unambiguous_def)
  then show "common_of e = common_spec ms (fst e)"
    by (simp add: common_of_def common_spec_def s comp_def venues_sorted)
qed

lemma group_domain:
  assumes "group_inv ms g" and "2 \<le> n"
  shows "fst ` set (filter (\<lambda>e. int (length (snd e)) \<ge> n) g) = {i. int (length (listed ms i)) \<ge> n}"
proof (intro set_eqI iffI)
  fix i assume "i \<in> fst ` set (filter (\<lambda>e. int (length (snd e)) \<ge> n) g)"
  then obtain e where "e \<in> set g" "int (length (snd e)) \<ge> n" "i = fst e" by auto
  then show "i \<in> {i. int (length (listed ms i)) \<ge> n}" using group_entry(1) [OF assms(1)] by simp
next
  fix i assume i: "i \<in> {i. int (length (listed ms i)) \<ge> n}"
  then have "group_get g i \<noteq> []" using assms by (auto simp: group_inv_def)
  then obtain d where "(i, d) \<in> set g" by (auto simp: group_get_def split: option.splits dest: map_of_SomeD)
  moreover from this have "d = map (\<lambda>m. (venue m, m)) (listed ms i)" using group_entry(1) [OF assms(1)] by fastforce
  ultimately show "i \<in> fst ` set (filter (\<lambda>e. int (length (snd e)) \<ge> n) g)" using i by force
qed

lemma sort_by_distinct_key:
  assumes "distinct (map fst g)" and "\<And>e. e \<in> set g \<Longrightarrow> f e = h (fst e)" and "\<And>i. cm_identity (h i) = i"
  shows "sort_key cm_identity (map f g) = map h (sorted_list_of_set (fst ` set g))"
proof -
  have m: "map f g = map h (map fst g)" using assms(2) by simp
  have "map cm_identity (sort_key cm_identity (map f g)) = sort (map fst g)"
    unfolding map_sort_key m by (simp add: comp_def assms(3))
  also have "\<dots> = sorted_list_of_set (fst ` set g)"
    using assms(1) by (simp add: sorted_list_of_set_sort_remdups distinct_remdups_id flip: set_map)
  finally have "map h (map cm_identity (sort_key cm_identity (map f g))) = map h (sorted_list_of_set (fst ` set g))"
    by simp
  moreover have "h (cm_identity c) = c" if "c \<in> set (map f g)" for c using that assms(2,3) by auto
  then have "map (\<lambda>c. h (cm_identity c)) (sort_key cm_identity (map f g)) = sort_key cm_identity (map f g)"
    by (intro map_idI) simp
  ultimately show ?thesis by (simp add: comp_def)
qed

text \<open>
  \<open>discover_common_markets\<close> raises exactly when fewer than two venues are asked for or one
  venue lists an instrument twice; otherwise it returns, in the order of their identities and
  each once, all identities that at least \<open>minimum_venues\<close> venues list with evidence, with
  precisely their markets in the order of the venues.
\<close>

theorem discover_common_markets_correct:
  "discover_common_markets ms n =
     (if 2 \<le> n \<and> unambiguous ms
      then Inr (map (common_spec ms) (sorted_list_of_set {i. int (length (listed ms i)) \<ge> n}))
      else Inl ValueError)"
proof (cases "2 \<le> n \<and> unambiguous ms")
  case False
  then show ?thesis using group_markets_result [of ms]
    by (auto simp: discover_common_markets_def require_def)
next
  case True
  then obtain g where g: "rfold group_step [] ms = Inr g" and inv: "group_inv ms g"
    using group_markets_result [of ms] by auto
  let ?h = "filter (\<lambda>e. int (length (snd e)) \<ge> n) g"
  have "distinct (map fst ?h)" using inv by (simp add: group_inv_def distinct_map_filter)
  then have "sort_key cm_identity (map common_of ?h) = map (common_spec ms) (sorted_list_of_set (fst ` set ?h))"
    using group_entry(2) [OF inv] by (intro sort_by_distinct_key) (auto simp: common_spec_def)
  then show ?thesis using True g group_domain [OF inv]
    by (simp add: discover_common_markets_def)
qed

subsection \<open>Order books\<close>

lemma dec_lt_trans: "dec_lt x y \<Longrightarrow> dec_lt y z \<Longrightarrow> dec_lt x z"
  by (cases x; cases y; cases z) (auto split: if_splits)

lemma dec_lt_irrefl [simp]: "\<not> dec_lt x x"
  by (cases x) auto

definition level_wf :: "BookLevel \<Rightarrow> bool" where
  "level_wf l \<longleftrightarrow> dec_pos (price l) \<and> dec_pos (quantity l)"

lemma dec_val_zero: "dec_val (DFin s 0 e) = 0"
  by simp

lemma dec_le0_iff: "dec_le0 x = Inr False \<longleftrightarrow> dec_pos x"
  by (cases x) (auto simp: dec_le0_def dec_val_zero simp del: dec_val.simps)

lemma book_level_Inr: "book_level p q = Inr l \<longleftrightarrow> l = \<lparr>price = p, quantity = q\<rparr> \<and> level_wf l"
  unfolding book_level_def level_wf_def dec_le0_iff [symmetric]
  by (cases "dec_le0 p"; cases "dec_le0 q") (auto simp: require_def)

lemma strictly_ascending_sorted: "strictly_ascending ls \<longleftrightarrow> sorted_wrt (\<lambda>a b. dec_lt (price a) (price b)) ls"
proof (induction ls rule: strictly_ascending.induct)
  case (1 a b ls)
  then show ?case by (auto intro: dec_lt_trans)
qed auto

lemma strictly_descending_sorted: "strictly_descending ls \<longleftrightarrow> sorted_wrt (\<lambda>a b. dec_lt (price b) (price a)) ls"
proof (induction ls rule: strictly_descending.induct)
  case (1 a b ls)
  then show ?case by (auto intro: dec_lt_trans)
qed auto

definition snapshot_wf :: "OrderBookSnapshot \<Rightarrow> bool" where
  "snapshot_wf s \<longleftrightarrow> bids s \<noteq> [] \<and> asks s \<noteq> []
     \<and> sorted_wrt (\<lambda>a b. dec_lt (price b) (price a)) (bids s)
     \<and> sorted_wrt (\<lambda>a b. dec_lt (price a) (price b)) (asks s)
     \<and> (\<forall>b \<in> set (bids s). \<forall>a \<in> set (asks s). dec_lt (price b) (price a))"

lemma best_first:
  assumes "sorted_wrt R ls" and "l \<in> set ls"
  shows "l = ls ! 0 \<or> R (ls ! 0) l"
  using assms by (cases ls) auto

lemma order_book_snapshot_Inr: "order_book_snapshot s = Inr t \<longleftrightarrow> t = s \<and> snapshot_wf s"
proof -
  have "(\<forall>b \<in> set (bids s). \<forall>a \<in> set (asks s). dec_lt (price b) (price a))"
    if "sorted_wrt (\<lambda>a b. dec_lt (price b) (price a)) (bids s)"
      and "sorted_wrt (\<lambda>a b. dec_lt (price a) (price b)) (asks s)"
      and "dec_lt (price (bids s ! 0)) (price (asks s ! 0))"
  proof (intro ballI)
    fix b a assume "b \<in> set (bids s)" and "a \<in> set (asks s)"
    from best_first [OF that(1) this(1)] best_first [OF that(2) this(2)] that(3)
    show "dec_lt (price b) (price a)" by (auto intro: dec_lt_trans)
  qed
  then show ?thesis
    by (auto simp: order_book_snapshot_def require_eq_Inr snapshot_wf_def strictly_ascending_sorted
        strictly_descending_sorted)
qed

text \<open>
  A snapshot is accepted exactly when both sides are nonempty, bids strictly fall, asks
  strictly rise and every bid is below every ask; so the best bid is the highest, the best
  ask the lowest, and the book is neither crossed nor locked at any level.
\<close>

theorem order_book_snapshot_wf: "order_book_snapshot s = Inr t \<longleftrightarrow> t = s \<and> snapshot_wf s"
  by (rule order_book_snapshot_Inr)

end
