(* ===== verification/Provenance.thy ===== *)
theory Provenance
  imports Market
begin

section \<open>Fees and reviewed mappings (\<open>liqvera_contracts/provenance.py\<close>)\<close>

text \<open>
  The entry-cost model of the two taker legs and the reviewed evidence that binds an active
  market to its contract. Optional fields are options; a check of the form
  \<open>type(x) is T\<close> on a field that may be \<open>None\<close> is the \<open>None\<close> case.
\<close>

subsection \<open>Checks\<close>

definition is_timestamp :: "int \<Rightarrow> bool" where
  "is_timestamp v \<longleftrightarrow> v \<ge> 0"

definition is_sha256 :: "string \<Rightarrow> bool" where
  "is_sha256 v \<longleftrightarrow> length v = 64 \<and> list_all is_hex_lower v"

definition nonempty_ascii :: "string \<Rightarrow> bool" where
  "nonempty_ascii v \<longleftrightarrow> v \<noteq> [] \<and> list_all (\<lambda>c. 33 \<le> code c \<and> code c \<le> 126 \<and> code c \<noteq> 92) v"

definition nonnegative_decimal :: "pydec \<Rightarrow> bool" where
  "nonnegative_decimal v \<longleftrightarrow> is_finite v \<and> \<not> dec_lt v (DFin False 0 0)"

text \<open>\<open>type(x) is T and p(x)\<close> on an optional field.\<close>

definition has :: "('a \<Rightarrow> bool) \<Rightarrow> 'a option \<Rightarrow> bool" where
  "has p x = (case x of None \<Rightarrow> False | Some v \<Rightarrow> p v)"

definition require_printable_ascii :: "string \<Rightarrow> unit res" where
  "require_printable_ascii v =
     require (\<not> (v = [] \<or> list_ex (\<lambda>c. code c = 92 \<or> \<not> (33 \<le> code c \<and> code c \<le> 126)) v))
       ValueError (Inr ())"

definition require_sha256 :: "string \<Rightarrow> unit res" where
  "require_sha256 v =
     require (\<not> (length v \<noteq> 64 \<or> list_ex (\<lambda>c. \<not> is_hex_lower c) v)) ValueError (Inr ())"

definition require_timestamp :: "int \<Rightarrow> unit res" where
  "require_timestamp v = require (is_timestamp v) TypeError (Inr ())"

definition require_positive_decimal :: "pydec \<Rightarrow> unit res" where
  "require_positive_decimal v =
     require (is_finite v) ValueError (
     rbind (dec_le0 v) (\<lambda>le. require (\<not> le) ValueError (Inr ())))"

definition require_optional_positive_decimal :: "pydec option \<Rightarrow> unit res" where
  "require_optional_positive_decimal v =
     (case v of None \<Rightarrow> Inr () | Some d \<Rightarrow> require_positive_decimal d)"

definition require_optional_nonnegative_int :: "int option \<Rightarrow> unit res" where
  "require_optional_nonnegative_int v =
     (case v of None \<Rightarrow> Inr () | Some i \<Rightarrow> require (\<not> i < 0) TypeError (Inr ()))"

definition require_optional_positive_int :: "int option \<Rightarrow> unit res" where
  "require_optional_positive_int v =
     (case v of None \<Rightarrow> Inr () | Some i \<Rightarrow> require (\<not> i \<le> 0) TypeError (Inr ()))"

subsection \<open>Entry costs\<close>

definition SUPPORTED_ADDITIONAL_COST_COMPONENTS :: "(string \<times> string) list" where
  "SUPPORTED_ADDITIONAL_COST_COMPONENTS =
     [(''GAS'', ''documented-entry-cost/v1''), (''ENTRY_STRESS'', ''synthetic-entry-stress/v1'')]"

datatype LiquidityRole = TAKER

datatype FeeRoundingRule = EXACT_QUOTE

record FeeEvidence =
  fe_venue :: string
  liquidity_role :: LiquidityRole
  fee_rate_bps :: "pydec option"
  fee_currency :: "string option"
  fee_tier :: "string option"
  fee_scenario :: "string option"
  schedule_as_of_ms :: "int option"
  schedule_sha256 :: "string option"
  rounding_rule :: "FeeRoundingRule option"
  minimum_fee_quote :: "pydec option"

record CostComponent =
  component_type :: string
  amount_quote :: "pydec option"
  currency :: "string option"
  cc_model_version :: "string option"
  as_of_ms :: "int option"
  cc_evidence_sha256 :: "string option"

record EntryCostModel =
  model_version :: string
  buy_fee :: FeeEvidence
  sell_fee :: FeeEvidence
  additional_costs :: "CostComponent list"

record ExactEntryCosts =
  buy_fee_quote :: rat
  sell_fee_quote :: rat
  additional_cost_quote :: rat

definition fee_evidence_ok :: "FeeEvidence \<Rightarrow> string \<Rightarrow> string \<Rightarrow> int \<Rightarrow> bool" where
  "fee_evidence_ok evidence vn quote_currency evaluated_at_ms \<longleftrightarrow>
     nonempty_ascii (fe_venue evidence) \<and> fe_venue evidence = vn
     \<and> liquidity_role evidence = TAKER
     \<and> has nonempty_ascii (fee_currency evidence) \<and> fee_currency evidence = Some quote_currency
     \<and> rounding_rule evidence = Some EXACT_QUOTE
     \<and> has nonnegative_decimal (fee_rate_bps evidence)
     \<and> has nonnegative_decimal (minimum_fee_quote evidence)
     \<and> has nonempty_ascii (fee_tier evidence) \<and> has nonempty_ascii (fee_scenario evidence)
     \<and> has (\<lambda>t. is_timestamp t \<and> t \<le> evaluated_at_ms) (schedule_as_of_ms evidence)
     \<and> has is_sha256 (schedule_sha256 evidence)"

definition fee_cost :: "FeeEvidence \<Rightarrow> string \<Rightarrow> string \<Rightarrow> int \<Rightarrow> rat \<Rightarrow> rat option res" where
  "fee_cost evidence vn quote_currency evaluated_at_ms notional =
     (if \<not> fee_evidence_ok evidence vn quote_currency evaluated_at_ms then Inr None
      else rbind (fraction_from_decimal (the (fee_rate_bps evidence))) (\<lambda>rate.
           let rate_fee = notional * rate / 10000
           in rbind (fraction_from_decimal (the (minimum_fee_quote evidence))) (\<lambda>minimum.
              Inr (Some (max rate_fee minimum)))))"

definition component_ok :: "CostComponent \<Rightarrow> string \<Rightarrow> int \<Rightarrow> bool" where
  "component_ok component quote_currency evaluated_at_ms \<longleftrightarrow>
     nonempty_ascii (component_type component)
     \<and> has nonnegative_decimal (amount_quote component)
     \<and> has nonempty_ascii (currency component) \<and> currency component = Some quote_currency
     \<and> has nonempty_ascii (cc_model_version component)
     \<and> (component_type component, the (cc_model_version component))
         \<in> set SUPPORTED_ADDITIONAL_COST_COMPONENTS
     \<and> has (\<lambda>t. is_timestamp t \<and> t \<le> evaluated_at_ms) (as_of_ms component)
     \<and> has is_sha256 (cc_evidence_sha256 component)"

fun additional_cost :: "CostComponent list \<Rightarrow> string \<Rightarrow> int \<Rightarrow> rat \<Rightarrow> rat option res" where
  "additional_cost [] quote_currency evaluated_at_ms result = Inr (Some result)"
| "additional_cost (component # rest) quote_currency evaluated_at_ms result =
     (if \<not> component_ok component quote_currency evaluated_at_ms then Inr None
      else rbind (fraction_from_decimal (the (amount_quote component))) (\<lambda>amount.
           additional_cost rest quote_currency evaluated_at_ms (result + amount)))"

definition calculate_entry_costs ::
  "EntryCostModel \<Rightarrow> int \<Rightarrow> string \<Rightarrow> string \<Rightarrow> string \<Rightarrow> rat \<Rightarrow> rat \<Rightarrow> ExactEntryCosts option res" where
  "calculate_entry_costs model evaluated_at_ms quote_currency buy_venue sell_venue buy_notional sell_notional =
     (if model_version model \<noteq> ''displayed-taker-entry-cost/v1''
         \<or> \<not> is_timestamp evaluated_at_ms
         \<or> \<not> nonempty_ascii quote_currency \<or> \<not> nonempty_ascii buy_venue \<or> \<not> nonempty_ascii sell_venue
         \<or> buy_notional < 0 \<or> sell_notional < 0
      then Inr None
      else rbind (fee_cost (buy_fee model) buy_venue quote_currency evaluated_at_ms buy_notional) (\<lambda>b.
           rbind (fee_cost (sell_fee model) sell_venue quote_currency evaluated_at_ms sell_notional) (\<lambda>s.
           rbind (additional_cost (additional_costs model) quote_currency evaluated_at_ms 0) (\<lambda>a.
           case (b, s, a) of
             (Some bf, Some sf, Some ac) \<Rightarrow>
               Inr (Some \<lparr>buy_fee_quote = bf, sell_fee_quote = sf, additional_cost_quote = ac\<rparr>)
           | _ \<Rightarrow> Inr None))))"

subsection \<open>Reviewed mappings\<close>

datatype MappingDecision = APPROVED | REJECTED

record MarketMappingEvidence =
  mapping_id :: string
  mapping_version :: string
  decision :: MappingDecision
  me_venue :: string
  me_symbol :: string
  me_identity :: InstrumentIdentity
  evidence_sha256 :: string
  evidence_reference :: string
  valid_from_ms :: int
  valid_until_ms :: "int option"
  reviewed_contract_multiplier :: pydec
  me_displayed_size_unit :: string
  me_quantity_step :: pydec
  me_price_tick :: "pydec option"
  me_price_decimals :: "int option"
  me_max_price_significant_digits :: "int option"
  me_min_quantity :: "pydec option"
  me_min_notional :: pydec
  lighter_market_index :: "int option"

definition rseq :: "unit res list \<Rightarrow> 'a res \<Rightarrow> 'a res" where
  "rseq checks rest = foldr (\<lambda>c r. rbind c (\<lambda>_. r)) checks rest"

definition market_mapping_evidence :: "MarketMappingEvidence \<Rightarrow> MarketMappingEvidence res" where
  "market_mapping_evidence e =
     rseq (map require_printable_ascii [mapping_id e, mapping_version e, me_venue e, me_symbol e,
             evidence_reference e, me_displayed_size_unit e]) (
     rseq [require_sha256 (evidence_sha256 e), require_timestamp (valid_from_ms e)] (
     rseq (case valid_until_ms e of None \<Rightarrow> []
           | Some u \<Rightarrow> [require_timestamp u, require (\<not> u < valid_from_ms e) ValueError (Inr ())]) (
     rseq (map require_positive_decimal
             [reviewed_contract_multiplier e, me_quantity_step e, me_min_notional e]) (
     rseq [require_optional_positive_decimal (me_price_tick e),
           require_optional_positive_decimal (me_min_quantity e),
           require_optional_nonnegative_int (me_price_decimals e),
           require_optional_positive_int (me_max_price_significant_digits e)] (
     require (\<not> (me_price_tick e = None \<and> me_price_decimals e = None
                 \<and> me_max_price_significant_digits e = None)) ValueError (
     require (case lighter_market_index e of None \<Rightarrow> True | Some i \<Rightarrow> \<not> i < 0) ValueError (Inr e)))))))"

text \<open>\<open>==\<close> on optional decimals: \<open>None\<close> equals only \<open>None\<close>.\<close>

fun dec_opt_eq :: "pydec option \<Rightarrow> pydec option \<Rightarrow> bool" where
  "dec_opt_eq None None = True"
| "dec_opt_eq (Some x) (Some y) = dec_eq x y"
| "dec_opt_eq _ _ = False"

definition valid_for :: "MarketMappingEvidence \<Rightarrow> VenueMarket \<Rightarrow> int \<Rightarrow> bool" where
  "valid_for e market evaluated_at_ms =
     (if \<not> is_timestamp evaluated_at_ms then False
      else if decision e \<noteq> APPROVED then False
      else if evaluated_at_ms < valid_from_ms e then False
      else if (case valid_until_ms e of None \<Rightarrow> False | Some u \<Rightarrow> evaluated_at_ms > u) then False
      else me_venue e = venue market \<and> me_symbol e = symbol market
        \<and> me_identity e = identity market
        \<and> dec_eq (reviewed_contract_multiplier e) (contract_multiplier market)
        \<and> me_displayed_size_unit e = displayed_size_unit market
        \<and> dec_eq (me_quantity_step e) (quantity_step market)
        \<and> dec_opt_eq (me_price_tick e) (price_tick market)
        \<and> me_price_decimals e = price_decimals market
        \<and> me_max_price_significant_digits e = max_price_significant_digits market
        \<and> dec_opt_eq (me_min_quantity e) (min_quantity market)
        \<and> dec_eq (me_min_notional e) (min_notional market))"

definition validate_mapping_pair ::
  "int \<Rightarrow> VenueMarket \<Rightarrow> MarketMappingEvidence option \<Rightarrow> VenueMarket \<Rightarrow> MarketMappingEvidence option \<Rightarrow> bool" where
  "validate_mapping_pair evaluated_at_ms buy_market buy_mapping sell_market sell_mapping =
     (case (buy_mapping, sell_mapping) of
        (Some b, Some s) \<Rightarrow> mapping_id b \<noteq> mapping_id s
          \<and> valid_for b buy_market evaluated_at_ms \<and> valid_for s sell_market evaluated_at_ms
      | _ \<Rightarrow> False)"

subsection \<open>Entry costs are complete or absent\<close>

definition entry_costs_complete ::
  "EntryCostModel \<Rightarrow> int \<Rightarrow> string \<Rightarrow> string \<Rightarrow> string \<Rightarrow> rat \<Rightarrow> rat \<Rightarrow> bool" where
  "entry_costs_complete m t q bv sv bn sn \<longleftrightarrow>
     model_version m = ''displayed-taker-entry-cost/v1'' \<and> is_timestamp t
     \<and> list_all nonempty_ascii [q, bv, sv] \<and> 0 \<le> bn \<and> 0 \<le> sn
     \<and> fee_evidence_ok (buy_fee m) bv q t \<and> fee_evidence_ok (sell_fee m) sv q t
     \<and> list_all (\<lambda>c. component_ok c q t) (additional_costs m)"

definition fee_spec :: "FeeEvidence \<Rightarrow> rat \<Rightarrow> rat" where
  "fee_spec e notional =
     max (notional * dec_val (the (fee_rate_bps e)) / 10000) (dec_val (the (minimum_fee_quote e)))"

definition costs_spec :: "CostComponent list \<Rightarrow> rat" where
  "costs_spec cs = (\<Sum>c \<leftarrow> cs. dec_val (the (amount_quote c)))"

lemma has_iff: "has p x \<longleftrightarrow> (\<exists>v. x = Some v \<and> p v)"
  by (cases x) (auto simp: has_def)

lemma fraction_from_decimal_finite: "is_finite d \<Longrightarrow> fraction_from_decimal d = Inr (dec_val d)"
  by (cases d) auto

lemma nonnegative_decimalD: "nonnegative_decimal d \<Longrightarrow> is_finite d \<and> 0 \<le> dec_val d"
  by (cases d) (auto simp: nonnegative_decimal_def not_less dec_val_zero simp del: dec_val.simps)

lemma fee_cost_eq:
  "fee_cost e v q t n = Inr (if fee_evidence_ok e v q t then Some (fee_spec e n) else None)"
  by (auto simp: fee_cost_def fee_evidence_ok_def has_iff fee_spec_def fraction_from_decimal_finite
      dest!: nonnegative_decimalD)

lemma fee_spec_bounds:
  assumes "fee_evidence_ok e v q t" and "0 \<le> n"
  shows "0 \<le> dec_val (the (minimum_fee_quote e))" and "dec_val (the (minimum_fee_quote e)) \<le> fee_spec e n"
    and "n * dec_val (the (fee_rate_bps e)) / 10000 \<le> fee_spec e n" and "0 \<le> fee_spec e n"
  using assms by (auto simp: fee_evidence_ok_def has_iff fee_spec_def le_max_iff_disj dest!: nonnegative_decimalD)

lemma additional_cost_eq:
  "additional_cost cs q t r =
     Inr (if list_all (\<lambda>c. component_ok c q t) cs then Some (r + costs_spec cs) else None)"
proof (induction cs arbitrary: r)
  case (Cons c cs)
  have "component_ok c q t \<Longrightarrow> fraction_from_decimal (the (amount_quote c)) = Inr (dec_val (the (amount_quote c)))"
    by (auto simp: component_ok_def has_iff fraction_from_decimal_finite dest!: nonnegative_decimalD)
  then show ?case using Cons by (simp add: costs_spec_def add.assoc)
qed (simp add: costs_spec_def)

lemma costs_spec_nonneg: "list_all (\<lambda>c. component_ok c q t) cs \<Longrightarrow> 0 \<le> costs_spec cs"
  by (induction cs) (auto simp: costs_spec_def component_ok_def has_iff dest!: nonnegative_decimalD)

text \<open>
  \<open>calculate_entry_costs\<close> never raises. It returns costs exactly when the model version,
  the venues, the currencies, the timestamps and the evidence of both fees and of every
  extra cost are complete; then each fee is the larger of rate times notional and the
  minimum fee, the extra costs are summed exactly, and no component is negative.
\<close>

theorem entry_costs_correct:
  "calculate_entry_costs m t q bv sv bn sn =
     Inr (if entry_costs_complete m t q bv sv bn sn
          then Some \<lparr>buy_fee_quote = fee_spec (buy_fee m) bn, sell_fee_quote = fee_spec (sell_fee m) sn,
                     additional_cost_quote = costs_spec (additional_costs m)\<rparr>
          else None)
   \<and> (entry_costs_complete m t q bv sv bn sn \<longrightarrow>
        0 \<le> fee_spec (buy_fee m) bn \<and> 0 \<le> fee_spec (sell_fee m) sn \<and> 0 \<le> costs_spec (additional_costs m))"
  using fee_spec_bounds(4) [of "buy_fee m" bv q t bn] fee_spec_bounds(4) [of "sell_fee m" sv q t sn]
    costs_spec_nonneg [of q t "additional_costs m"]
  by (auto simp: calculate_entry_costs_def entry_costs_complete_def fee_cost_eq additional_cost_eq)

subsection \<open>What a valid mapping guarantees\<close>

lemma rseq_Inr: "rseq cs r = Inr y \<longleftrightarrow> list_all (\<lambda>c. c = Inr ()) cs \<and> r = Inr y"
  by (induction cs) (auto simp: rseq_def rbind_eq_Inr)

lemma require_positive_decimal_Inr [simp]:
  "require_positive_decimal d = Inr () \<longleftrightarrow> is_finite d \<and> dec_pos d"
  unfolding dec_le0_iff [symmetric] require_positive_decimal_def
  by (auto simp: require_eq_Inr rbind_eq_Inr)

lemma require_optional_positive_decimal_Inr [simp]:
  "require_optional_positive_decimal x = Inr () \<longleftrightarrow> (\<forall>d. x = Some d \<longrightarrow> is_finite d \<and> dec_pos d)"
  by (cases x) (auto simp: require_optional_positive_decimal_def)

lemma dec_eq_transfer: "dec_eq x y \<Longrightarrow> is_finite x \<Longrightarrow> is_finite y \<and> dec_val y = dec_val x"
  by (cases x; cases y) auto

lemma dec_pos_val: "is_finite x \<Longrightarrow> dec_pos x \<longleftrightarrow> 0 < dec_val x"
  by (cases x) (auto simp: dec_val_zero simp del: dec_val.simps)

lemma dec_eq_pos: "dec_eq x y \<Longrightarrow> is_finite x \<Longrightarrow> dec_pos x \<Longrightarrow> is_finite y \<and> dec_pos y"
  using dec_eq_transfer [of x y] by (auto simp: dec_pos_val)

lemma dec_opt_eq_pos:
  "dec_opt_eq x y \<Longrightarrow> \<forall>d. x = Some d \<longrightarrow> is_finite d \<and> dec_pos d \<Longrightarrow> \<forall>d. y = Some d \<longrightarrow> is_finite d \<and> dec_pos d"
  by (cases x; cases y) (auto dest: dec_eq_pos)

lemma check_positive_Inr: "\<forall>d. x = Some d \<longrightarrow> is_finite d \<and> dec_pos d \<Longrightarrow> check_positive x r = r"
  by (auto simp: check_positive_def dec_le0_iff [symmetric] split: option.splits)

lemma dec_opt_eq_None: "dec_opt_eq x y \<Longrightarrow> x = None \<longleftrightarrow> y = None"
  by (cases x; cases y) auto

lemma mapping_evidence_facts:
  assumes "market_mapping_evidence e = Inr e'"
  shows "e' = e" and "list_all (\<lambda>d. is_finite d \<and> dec_pos d) [reviewed_contract_multiplier e, me_quantity_step e, me_min_notional e]"
    and "\<forall>d. me_price_tick e = Some d \<longrightarrow> is_finite d \<and> dec_pos d"
    and "\<forall>d. me_min_quantity e = Some d \<longrightarrow> is_finite d \<and> dec_pos d"
    and "\<forall>i. me_price_decimals e = Some i \<longrightarrow> 0 \<le> i" and "\<forall>i. me_max_price_significant_digits e = Some i \<longrightarrow> 0 < i"
    and "\<not> (me_price_tick e = None \<and> me_price_decimals e = None \<and> me_max_price_significant_digits e = None)"
    and "me_displayed_size_unit e \<noteq> []"
  using assms unfolding market_mapping_evidence_def rseq_Inr
  by (auto simp: require_eq_Inr require_optional_nonnegative_int_def require_optional_positive_int_def
      require_printable_ascii_def split: option.splits)

text \<open>
  A reviewed mapping that \<open>valid_for\<close> accepts for a market at a time is approved, is in
  its validity interval, and pins the market: the market passes every check of its own
  constructor, with a finite tick and minimum quantity, and carries the reviewed numbers.
\<close>

theorem valid_mapping_pins_market:
  assumes "market_mapping_evidence e = Inr e" and "valid_for e m t"
  shows "decision e = APPROVED \<and> valid_from_ms e \<le> t \<and> (\<forall>u. valid_until_ms e = Some u \<longrightarrow> t \<le> u)
    \<and> venue_market m = Inr m
    \<and> (\<forall>d. price_tick m = Some d \<or> min_quantity m = Some d \<longrightarrow> is_finite d \<and> dec_pos d)
    \<and> dec_val (contract_multiplier m) = dec_val (reviewed_contract_multiplier e)
    \<and> dec_val (quantity_step m) = dec_val (me_quantity_step e)
    \<and> dec_val (min_notional m) = dec_val (me_min_notional e)"
proof -
  note f = mapping_evidence_facts [OF assms(1)]
  have v: "decision e = APPROVED" "valid_from_ms e \<le> t" "\<forall>u. valid_until_ms e = Some u \<longrightarrow> t \<le> u"
    "dec_eq (reviewed_contract_multiplier e) (contract_multiplier m)"
    "dec_eq (me_quantity_step e) (quantity_step m)" "dec_eq (me_min_notional e) (min_notional m)"
    "dec_opt_eq (me_price_tick e) (price_tick m)" "dec_opt_eq (me_min_quantity e) (min_quantity m)"
    "me_price_decimals e = price_decimals m" "me_max_price_significant_digits e = max_price_significant_digits m"
    "me_displayed_size_unit e = displayed_size_unit m"
    using assms(2) by (auto simp: valid_for_def split: if_splits option.splits)
  have fin: "list_all (\<lambda>d. is_finite d \<and> dec_pos d) [contract_multiplier m, quantity_step m, min_notional m]"
    using f(2) dec_eq_pos [OF v(4)] dec_eq_pos [OF v(5)] dec_eq_pos [OF v(6)] by simp
  have tick: "\<forall>d. price_tick m = Some d \<longrightarrow> is_finite d \<and> dec_pos d"
    and minq: "\<forall>d. min_quantity m = Some d \<longrightarrow> is_finite d \<and> dec_pos d"
    using dec_opt_eq_pos [OF v(7) f(3)] dec_opt_eq_pos [OF v(8) f(4)] by blast+
  have "venue_market m = Inr m"
    using f(5-8) v(9-11) fin dec_opt_eq_None [OF v(7)]
    by (auto simp: venue_market_def check_positive_Inr [OF tick] check_positive_Inr [OF minq] require_eq_Inr
        split: option.splits)
  then show ?thesis
    using v(1-3) tick minq f(2) dec_eq_transfer [OF v(4)] dec_eq_transfer [OF v(5)] dec_eq_transfer [OF v(6)]
    by simp
qed


subsection \<open>A sample of each\<close>

definition sample_identity :: InstrumentIdentity where
  "sample_identity = InstrumentIdentity ''BTC'' ''USD'' ''PERP'' ''USDC'' ''LINEAR''"

definition sample_market :: VenueMarket where
  "sample_market = \<lparr>venue = ''lighter'', symbol = ''BTC'', identity = sample_identity,
     contract_multiplier = DFin False 1 0, displayed_size_unit = ''BTC'', quantity_step = DFin False 1 (-5),
     price_tick = Some (DFin False 1 (-1)), min_notional = DFin False 10 0, equivalence_evidence = ''doc'',
     price_decimals = None, max_price_significant_digits = None, min_quantity = None\<rparr>"

definition sample_sha :: string where
  "sample_sha = replicate 64 CHR ''a''"

definition sample_mapping :: MarketMappingEvidence where
  "sample_mapping = \<lparr>mapping_id = ''m1'', mapping_version = ''v1'', decision = APPROVED, me_venue = ''lighter'',
     me_symbol = ''BTC'', me_identity = sample_identity, evidence_sha256 = sample_sha, evidence_reference = ''ref'',
     valid_from_ms = 5, valid_until_ms = Some 50, reviewed_contract_multiplier = DFin False 10 (-1),
     me_displayed_size_unit = ''BTC'', me_quantity_step = DFin False 1 (-5), me_price_tick = Some (DFin False 10 (-2)),
     me_price_decimals = None, me_max_price_significant_digits = None, me_min_quantity = None,
     me_min_notional = DFin False 10 0, lighter_market_index = Some 1\<rparr>"

definition sample_fee :: FeeEvidence where
  "sample_fee = \<lparr>fe_venue = ''lighter'', liquidity_role = TAKER, fee_rate_bps = Some (DFin False 25 (-1)),
     fee_currency = Some ''USD'', fee_tier = Some ''base'', fee_scenario = Some ''v1'', schedule_as_of_ms = Some 1,
     schedule_sha256 = Some sample_sha, rounding_rule = Some EXACT_QUOTE, minimum_fee_quote = Some (DFin False 0 0)\<rparr>"

definition sample_cost_model :: EntryCostModel where
  "sample_cost_model = \<lparr>model_version = ''displayed-taker-entry-cost/v1'', buy_fee = sample_fee, sell_fee = sample_fee,
     additional_costs = [\<lparr>component_type = ''GAS'', amount_quote = Some (DFin False 5 (-1)), currency = Some ''USD'',
       cc_model_version = Some ''documented-entry-cost/v1'', as_of_ms = Some 2, cc_evidence_sha256 = Some sample_sha\<rparr>]\<rparr>"

lemma entry_costs_witness:
  "calculate_entry_costs sample_cost_model 10 ''USD'' ''lighter'' ''lighter'' 1000 2000 =
     Inr (Some \<lparr>buy_fee_quote = 1 / 4, sell_fee_quote = 1 / 2, additional_cost_quote = 1 / 2\<rparr>)
   \<and> 0 \<le> costs_spec (additional_costs sample_cost_model)"
proof -
  have "entry_costs_complete sample_cost_model 10 ''USD'' ''lighter'' ''lighter'' 1000 2000" by code_simp
  moreover have "fee_spec (buy_fee sample_cost_model) 1000 = 1 / 4" "fee_spec (sell_fee sample_cost_model) 2000 = 1 / 2"
    "costs_spec (additional_costs sample_cost_model) = 1 / 2" by code_simp+
  ultimately show ?thesis
    using entry_costs_correct [of sample_cost_model 10 "''USD''" "''lighter''" "''lighter''" 1000 2000] by simp
qed

lemma valid_mapping_witness:
  "venue_market sample_market = Inr sample_market
   \<and> dec_val (contract_multiplier sample_market) = dec_val (reviewed_contract_multiplier sample_mapping)"
proof -
  have "market_mapping_evidence sample_mapping = Inr sample_mapping" and "valid_for sample_mapping sample_market 20"
    by code_simp+
  then show ?thesis using valid_mapping_pins_market by blast
qed

end
