(* ===== verification/Json.thy ===== *)
theory Json
  imports Exact
begin

section \<open>JSON, UTF-8, hexadecimal and UUID texts\<close>

text \<open>
  The part of Python's standard library at the boundary of the program: \<open>json.loads\<close> and
  \<open>json.dumps(sort_keys=True, separators=(",", ":"))\<close>, the strict UTF-8 and ASCII codecs,
  \<open>bytes.fromhex\<close>, \<open>str.splitlines\<close>, \<open>uuid.UUID\<close>, and the coercions \<open>int(x)\<close> and \<open>str(x)\<close> on
  decoded values. The components' own canonical-JSON functions
  (\<open>liqvera_evidence_report/canonical.py\<close>, \<open>frozen_package/codec.py\<close>) are built on them.

  A JSON number with a fraction or an exponent, and the constants \<open>NaN\<close> and \<open>Infinity\<close>, become
  \<open>JFloat\<close> with their literal text; binary floating point is outside the model, so a
  conversion of such a value raises \<open>NotModelled\<close>. Nesting deeper than the interpreter's
  recursion limit is outside the model too.
\<close>

datatype json =
    JNull | JBool bool | JInt int | JFloat string | JStr string
  | JList "json list" | JObj "(string \<times> json) list"

subsection \<open>\<open>json.loads\<close>\<close>

definition is_ws :: "char \<Rightarrow> bool" where
  "is_ws c \<longleftrightarrow> c = CHR '' '' \<or> code c = 9 \<or> code c = 10 \<or> code c = 13"

definition skip_ws :: "string \<Rightarrow> string" where
  "skip_ws s = dropWhile is_ws s"

definition hex_val :: "char \<Rightarrow> nat option" where
  "hex_val c =
     (if 48 \<le> code c \<and> code c \<le> 57 then Some (code c - 48)
      else if 97 \<le> code c \<and> code c \<le> 102 then Some (code c - 87)
      else if 65 \<le> code c \<and> code c \<le> 70 then Some (code c - 55)
      else None)"

fun hex_num :: "string \<Rightarrow> nat \<Rightarrow> nat option" where
  "hex_num [] acc = Some acc"
| "hex_num (c # s) acc = (case hex_val c of None \<Rightarrow> None | Some d \<Rightarrow> hex_num s (16 * acc + d))"

definition simple_escape :: "char \<Rightarrow> char option" where
  "simple_escape c = map_of
     [(CHR 0x22, CHR 0x22), (CHR 0x5C, CHR 0x5C), (CHR ''/'', CHR ''/''), (CHR ''b'', CHR 0x08),
      (CHR ''f'', CHR 0x0C), (CHR ''n'', CHR 0x0A), (CHR ''r'', CHR 0x0D), (CHR ''t'', CHR 0x09)] c"

text \<open>
  The characters of a string after its opening quote, strict mode: a control character, an
  unknown escape or a missing closing quote is a \<open>JSONDecodeError\<close>.
\<close>

function (sequential) parse_string :: "string \<Rightarrow> string \<Rightarrow> (string \<times> string) res" where
  "parse_string [] acc = Inl JSONDecodeError"
| "parse_string (c # s) acc =
     (if c = CHR 0x22 then Inr (rev acc, s)
      else if code c < 32 then Inl JSONDecodeError
      else if c \<noteq> CHR 0x5C then parse_string s (c # acc)
      else case s of
          [] \<Rightarrow> Inl JSONDecodeError
        | e # s' \<Rightarrow>
            if e = CHR ''u'' then
              (if length s' < 4 then Inl JSONDecodeError
               else case hex_num (take 4 s') 0 of
                   None \<Rightarrow> Inl JSONDecodeError
                 | Some n \<Rightarrow> if n < 256 then parse_string (drop 4 s') (char_of n # acc)
                            else Inl NotModelled)
            else (case simple_escape e of
                None \<Rightarrow> Inl JSONDecodeError
              | Some x \<Rightarrow> parse_string s' (x # acc)))"
  by pat_completeness auto
termination by (relation "measure (\<lambda>(s, acc). length s)") auto

text \<open>Numbers: \<open>(-?(?:0|[1-9]\d*))(\.\d+)?([eE][-+]?\d+)?\<close>, longest match of each optional part.\<close>

definition frac_part :: "string \<Rightarrow> string" where
  "frac_part s =
     (if s \<noteq> [] \<and> hd s = CHR ''.'' \<and> takeWhile is_ascii_digit (tl s) \<noteq> []
      then CHR ''.'' # takeWhile is_ascii_digit (tl s) else [])"

definition exp_part :: "string \<Rightarrow> string" where
  "exp_part s =
     (if s \<noteq> [] \<and> (hd s = CHR ''e'' \<or> hd s = CHR ''E'') then
        (let t = tl s;
             sg = (if t \<noteq> [] \<and> (hd t = CHR ''-'' \<or> hd t = CHR ''+'') then [hd t] else []);
             ds = takeWhile is_ascii_digit (drop (length sg) t)
         in if ds \<noteq> [] then hd s # sg @ ds else [])
      else [])"

definition parse_number :: "string \<Rightarrow> (json \<times> string) res" where
  "parse_number s =
     (let sg = (if s \<noteq> [] \<and> hd s = CHR ''-'' then ''-'' else []);
          t = drop (length sg) s;
          ds = (if t \<noteq> [] \<and> hd t = CHR ''0'' then ''0'' else takeWhile is_ascii_digit t);
          u = drop (length ds) t;
          f = frac_part u;
          v = drop (length f) u;
          e = exp_part v
      in if ds = [] then Inl JSONDecodeError
         else if f = [] \<and> e = [] then
           rbind (int_of_digits ds) (\<lambda>n. Inr (JInt (if sg = [] then n else - n), u))
         else Inr (JFloat (sg @ ds @ f @ e), drop (length e) v))"

definition literals :: "(string \<times> json) list" where
  "literals = [(''null'', JNull), (''true'', JBool True), (''false'', JBool False),
     (''NaN'', JFloat ''NaN''), (''Infinity'', JFloat ''Infinity''), (''-Infinity'', JFloat ''-Infinity'')]"

text \<open>
  The hooks of the decoder: what becomes of the pairs of an object, of the text of a number with
  a fraction or an exponent, and of the constants \<open>NaN\<close> and \<open>Infinity\<close>. By default an object is
  a dictionary, in which the last value of a repeated key wins.
\<close>

record json_hooks =
  object_pairs_hook :: "(string \<times> json) list \<Rightarrow> json res"
  parse_float :: "string \<Rightarrow> json res"
  parse_constant :: "string \<Rightarrow> json res"

definition dict_of_pairs :: "(string \<times> json) list \<Rightarrow> (string \<times> json) list" where
  "dict_of_pairs kvs = foldl (\<lambda>d (k, v). AList.update k v d) [] kvs"

definition default_hooks :: json_hooks where
  "default_hooks = \<lparr>object_pairs_hook = (\<lambda>kvs. Inr (JObj (dict_of_pairs kvs))),
     parse_float = (\<lambda>t. Inr (JFloat t)), parse_constant = (\<lambda>t. Inr (JFloat t))\<rparr>"

definition hook_number :: "(string \<Rightarrow> json res) \<Rightarrow> json \<times> string \<Rightarrow> (json \<times> string) res" where
  "hook_number f vr = (case vr of (v, r) \<Rightarrow> case v of JFloat t \<Rightarrow> rbind (f t) (\<lambda>w. Inr (w, r)) | _ \<Rightarrow> Inr (v, r))"

text \<open>
  The value that a text begins with, and what is left after it. Each character costs at most
  two units of fuel, one for the value and one for the list or object around it.
\<close>

fun parse_value :: "json_hooks \<Rightarrow> nat \<Rightarrow> string \<Rightarrow> (json \<times> string) res"
and parse_elements :: "json_hooks \<Rightarrow> nat \<Rightarrow> string \<Rightarrow> json list \<Rightarrow> (json \<times> string) res"
and parse_members :: "json_hooks \<Rightarrow> nat \<Rightarrow> string \<Rightarrow> (string \<times> json) list \<Rightarrow> (json \<times> string) res" where
  "parse_value h 0 s = Inl OutOfFuel"
| "parse_value h (Suc n) s =
     (if s = [] then Inl JSONDecodeError
      else if hd s = CHR 0x22 then rbind (parse_string (tl s) []) (\<lambda>(k, r). Inr (JStr k, r))
      else if hd s = CHR ''{'' then
        (let t = skip_ws (tl s)
         in if t \<noteq> [] \<and> hd t = CHR ''}'' then rbind (object_pairs_hook h []) (\<lambda>d. Inr (d, tl t))
            else parse_members h n t [])
      else if hd s = CHR ''['' then
        (let t = skip_ws (tl s)
         in if t \<noteq> [] \<and> hd t = CHR '']'' then Inr (JList [], tl t) else parse_elements h n t [])
      else (case find (\<lambda>(w, v). take (length w) s = w) literals of
          Some (w, v) \<Rightarrow> hook_number (parse_constant h) (v, drop (length w) s)
        | None \<Rightarrow> rbind (parse_number s) (hook_number (parse_float h))))"
| "parse_elements h 0 s acc = Inl OutOfFuel"
| "parse_elements h (Suc n) s acc =
     rbind (parse_value h n s) (\<lambda>(v, r).
     let t = skip_ws r
     in if t = [] then Inl JSONDecodeError
        else if hd t = CHR '']'' then Inr (JList (acc @ [v]), tl t)
        else if hd t = CHR '','' then parse_elements h n (skip_ws (tl t)) (acc @ [v])
        else Inl JSONDecodeError)"
| "parse_members h 0 s acc = Inl OutOfFuel"
| "parse_members h (Suc n) s acc =
     (if s = [] \<or> hd s \<noteq> CHR 0x22 then Inl JSONDecodeError
      else rbind (parse_string (tl s) []) (\<lambda>(k, r).
        let t = skip_ws r
        in if t = [] \<or> hd t \<noteq> CHR '':'' then Inl JSONDecodeError
           else rbind (parse_value h n (skip_ws (tl t))) (\<lambda>(v, r').
             let u = skip_ws r'
             in if u = [] then Inl JSONDecodeError
                else if hd u = CHR ''}'' then rbind (object_pairs_hook h (acc @ [(k, v)])) (\<lambda>d. Inr (d, tl u))
                else if hd u = CHR '','' then parse_members h n (skip_ws (tl u)) (acc @ [(k, v)])
                else Inl JSONDecodeError)))"

definition loads_with :: "json_hooks \<Rightarrow> string \<Rightarrow> json res" where
  "loads_with h s =
     rbind (parse_value h (2 * length s + 2) (skip_ws s)) (\<lambda>(v, r).
     require (skip_ws r = []) JSONDecodeError (Inr v))"

definition loads :: "string \<Rightarrow> json res" where
  "loads s = loads_with default_hooks s"

subsection \<open>\<open>json.dumps\<close>\<close>

definition hex_digit :: "nat \<Rightarrow> char" where
  "hex_digit d = (if d < 10 then char_of (48 + d) else char_of (87 + d))"

text \<open>One character of a string literal; \<open>asc\<close> is the flag \<open>ensure_ascii\<close>.\<close>

definition escape_char :: "bool \<Rightarrow> char \<Rightarrow> string" where
  "escape_char asc c =
     (if c = CHR 0x22 then [CHR 0x5C, CHR 0x22]
      else if c = CHR 0x5C then [CHR 0x5C, CHR 0x5C]
      else if c = CHR 0x0A then [CHR 0x5C, CHR ''n'']
      else if c = CHR 0x0D then [CHR 0x5C, CHR ''r'']
      else if c = CHR 0x09 then [CHR 0x5C, CHR ''t'']
      else if c = CHR 0x0C then [CHR 0x5C, CHR ''f'']
      else if c = CHR 0x08 then [CHR 0x5C, CHR ''b'']
      else if code c < 32 \<or> (asc \<and> 126 < code c) then
        [CHR 0x5C, CHR ''u'', CHR ''0'', CHR ''0'', hex_digit (code c div 16), hex_digit (code c mod 16)]
      else [c])"

definition dump_string :: "bool \<Rightarrow> string \<Rightarrow> string" where
  "dump_string asc s = CHR 0x22 # concat (map (escape_char asc) s) @ [CHR 0x22]"

fun join :: "string \<Rightarrow> string list \<Rightarrow> string" where
  "join sep [] = []"
| "join sep [x] = x"
| "join sep (x # y # xs) = x @ sep @ join sep (y # xs)"

definition dump_int :: "int \<Rightarrow> string res" where
  "dump_int i = (if max_str_digits < length (nat_str (nat \<bar>i\<bar>)) then Inl ValueError else Inr (int_str i))"

lemma dump_int_code [code]:
  "dump_int i = (if 4300 < int (length (nat_str (nat \<bar>i\<bar>))) then Inl ValueError else Inr (int_str i))"
  by (auto simp: dump_int_def max_str_digits_def)

fun dumps :: "bool \<Rightarrow> json \<Rightarrow> string res" where
  "dumps asc JNull = Inr ''null''"
| "dumps asc (JBool b) = Inr (if b then ''true'' else ''false'')"
| "dumps asc (JInt i) = dump_int i"
| "dumps asc (JFloat f) = Inl NotModelled"
| "dumps asc (JStr s) = Inr (dump_string asc s)"
| "dumps asc (JList vs) =
     rbind (rmap (dumps asc) vs) (\<lambda>ts. Inr (CHR ''['' # join '','' ts @ '']''))"
| "dumps asc (JObj kvs) =
     rbind (rmap (\<lambda>(k, t). rbind t (\<lambda>t. Inr (dump_string asc k @ CHR '':'' # t)))
              (sort_key fst (map (\<lambda>(k, v). (k, dumps asc v)) kvs)))
       (\<lambda>ts. Inr (CHR ''{'' # join '','' ts @ ''}''))"

text \<open>The default form, \<open>json.dumps(v)\<close>: ASCII, keys as they were inserted, a blank after each separator.\<close>

fun dumps_default :: "json \<Rightarrow> string res" where
  "dumps_default (JList vs) =
     rbind (rmap dumps_default vs) (\<lambda>ts. Inr (CHR ''['' # join '', '' ts @ '']''))"
| "dumps_default (JObj kvs) =
     rbind (rmap (\<lambda>(k, t). rbind t (\<lambda>t. Inr (dump_string True k @ '': '' @ t))) (map (\<lambda>(k, v). (k, dumps_default v)) kvs))
       (\<lambda>ts. Inr (CHR ''{'' # join '', '' ts @ ''}''))"
| "dumps_default v = dumps True v"

subsection \<open>Canonical JSON of the two packages\<close>

text \<open>\<open>"...".encode("utf-8")\<close> below U+0100.\<close>

definition utf8_char :: "char \<Rightarrow> string" where
  "utf8_char c =
     (if code c < 128 then [c]
      else [char_of (192 + code c div 64), char_of (128 + code c mod 64)])"

definition utf8_encode :: "string \<Rightarrow> string" where
  "utf8_encode s = concat (map utf8_char s)"

text \<open>
  \<open>bytes.decode("utf-8")\<close>, strict. A well-formed sequence of a character above U+00FF is
  \<open>NotModelled\<close>, everything ill-formed is a \<open>UnicodeDecodeError\<close>.
\<close>

definition cont :: "char \<Rightarrow> bool" where
  "cont c \<longleftrightarrow> 128 \<le> code c \<and> code c \<le> 191"

definition wide_ok :: "nat \<Rightarrow> string \<Rightarrow> bool" where
  "wide_ok b s \<longleftrightarrow>
     (if b \<le> 223 then length s \<ge> 1 \<and> cont (s ! 0)
      else if b \<le> 239 then
        length s \<ge> 2 \<and> cont (s ! 0) \<and> cont (s ! 1)
        \<and> (b = 224 \<longrightarrow> 160 \<le> code (s ! 0)) \<and> (b = 237 \<longrightarrow> code (s ! 0) \<le> 159)
      else
        length s \<ge> 3 \<and> cont (s ! 0) \<and> cont (s ! 1) \<and> cont (s ! 2)
        \<and> (b = 240 \<longrightarrow> 144 \<le> code (s ! 0)) \<and> (b = 244 \<longrightarrow> code (s ! 0) \<le> 143))"

fun utf8_decode :: "string \<Rightarrow> string res" where
  "utf8_decode [] = Inr []"
| "utf8_decode (b # s) =
     (if code b < 128 then rbind (utf8_decode s) (\<lambda>t. Inr (b # t))
      else if code b < 194 \<or> 244 < code b \<or> \<not> wide_ok (code b) s then Inl UnicodeDecodeError
      else if code b \<le> 195 then
        (case s of [] \<Rightarrow> Inl UnicodeDecodeError
         | c # s' \<Rightarrow> rbind (utf8_decode s') (\<lambda>t. Inr (char_of ((code b - 192) * 64 + (code c - 128)) # t)))
      else Inl NotModelled)"

definition ascii_decode :: "string \<Rightarrow> string res" where
  "ascii_decode s = require (list_all (\<lambda>c. code c < 128) s) UnicodeDecodeError (Inr s)"

text \<open>\<open>liqvera_evidence_report/canonical.py\<close>\<close>

fun require_json_value :: "json \<Rightarrow> unit res" where
  "require_json_value (JFloat f) = Inl TypeError"
| "require_json_value JNull = Inr ()"
| "require_json_value (JBool b) = Inr ()"
| "require_json_value (JInt i) = Inr ()"
| "require_json_value (JStr s) = Inr ()"
| "require_json_value (JList vs) = rbind (rmap require_json_value vs) (\<lambda>_. Inr ())"
| "require_json_value (JObj kvs) = rbind (rmap (\<lambda>(k, v). require_json_value v) kvs) (\<lambda>_. Inr ())"

definition canonical_json_bytes :: "json \<Rightarrow> string res" where
  "canonical_json_bytes document =
     rbind (require_json_value document) (\<lambda>_.
     rbind (dumps False document) (\<lambda>txt.
     Inr (utf8_encode (txt @ [CHR 0x0A]))))"

text \<open>\<open>frozen_package/codec.py\<close>\<close>

definition package_json_bytes :: "json \<Rightarrow> string res" where
  "package_json_bytes document =
     rbind (dumps True document) (\<lambda>txt. ascii_decode (txt @ [CHR 0x0A]))"

definition decode_canonical_json :: "string \<Rightarrow> json res" where
  "decode_canonical_json payload =
     require (payload \<noteq> [] \<and> last payload = CHR 0x0A) (FrozenPackageError MANIFEST_NON_CANONICAL) (
     reraise (\<lambda>e. e = UnicodeDecodeError \<or> e = JSONDecodeError) (FrozenPackageError MANIFEST_NON_CANONICAL)
       (rbind (ascii_decode payload) loads))"

subsection \<open>Decoded values\<close>

definition jget :: "(string \<times> json) list \<Rightarrow> string \<Rightarrow> json" where
  "jget d k = (case map_of d k of None \<Rightarrow> JNull | Some v \<Rightarrow> v)"

definition jindex :: "(string \<times> json) list \<Rightarrow> string \<Rightarrow> json res" where
  "jindex d k = (case map_of d k of None \<Rightarrow> Inl KeyError | Some v \<Rightarrow> Inr v)"

text \<open>\<open>int(x)\<close> and \<open>str(x)\<close>.\<close>

fun py_int :: "json \<Rightarrow> int res" where
  "py_int (JInt i) = Inr i"
| "py_int (JBool b) = Inr (if b then 1 else 0)"
| "py_int (JStr s) = int_of_str s"
| "py_int (JFloat f) = Inl NotModelled"
| "py_int _ = Inl TypeError"

fun py_str :: "json \<Rightarrow> string res" where
  "py_str (JStr s) = Inr s"
| "py_str JNull = Inr ''None''"
| "py_str (JBool b) = Inr (if b then ''True'' else ''False'')"
| "py_str (JInt i) = dump_int i"
| "py_str _ = Inl NotModelled"

subsection \<open>Lines, hexadecimal, UUIDs\<close>

text \<open>Text-mode reading turns \<open>\r\n\<close> and \<open>\r\<close> into \<open>\n\<close>.\<close>

fun universal_newlines :: "string \<Rightarrow> string" where
  "universal_newlines [] = []"
| "universal_newlines (c # s) =
     (if c = CHR 0x0D then CHR 0x0A # (case s of [] \<Rightarrow> [] | d # s' \<Rightarrow> if d = CHR 0x0A then universal_newlines s' else universal_newlines s)
      else c # universal_newlines s)"

definition is_line_break :: "char \<Rightarrow> bool" where
  "is_line_break c \<longleftrightarrow> (10 \<le> code c \<and> code c \<le> 13) \<or> (28 \<le> code c \<and> code c \<le> 30) \<or> code c = 133"

text \<open>\<open>str.splitlines()\<close> on a text without \<open>\r\<close>: a final line break starts no line.\<close>

fun splitlines :: "string \<Rightarrow> string list" where
  "splitlines [] = []"
| "splitlines (c # s) =
     (if is_line_break c then [] # splitlines s
      else (case splitlines s of [] \<Rightarrow> [[c]] | l # ls \<Rightarrow> if s \<noteq> [] \<and> is_line_break (hd s) then [c] # ls else (c # l) # ls))"

definition is_ascii_space :: "char \<Rightarrow> bool" where
  "is_ascii_space c \<longleftrightarrow> code c = 32 \<or> (9 \<le> code c \<and> code c \<le> 13)"

fun fromhex :: "string \<Rightarrow> string res" where
  "fromhex [] = Inr []"
| "fromhex (c # s) =
     (if is_ascii_space c then fromhex s
      else case (hex_val c, s) of
          (Some h, d # s') \<Rightarrow> (case hex_val d of
              Some l \<Rightarrow> rbind (fromhex s') (\<lambda>t. Inr (char_of (16 * h + l) # t))
            | None \<Rightarrow> Inl ValueError)
        | _ \<Rightarrow> Inl ValueError)"

datatype uuid = UUID (uuid_int: nat)

text \<open>\<open>str(u)\<close>: 32 hexadecimal digits in groups of 8, 4, 4, 4 and 12.\<close>

fun hex_pad :: "nat \<Rightarrow> nat \<Rightarrow> string" where
  "hex_pad 0 n = []"
| "hex_pad (Suc k) n = hex_pad k (n div 16) @ [hex_digit (n mod 16)]"

definition uuid_str :: "uuid \<Rightarrow> string" where
  "uuid_str u =
     (let h = hex_pad 32 (uuid_int u)
      in take 8 h @ ''-'' @ take 4 (drop 8 h) @ ''-'' @ take 4 (drop 12 h) @ ''-''
         @ take 4 (drop 16 h) @ ''-'' @ drop 20 h)"

text \<open>\<open>s.replace(p, "")\<close> for a nonempty \<open>p\<close>.\<close>

function remove_all :: "string \<Rightarrow> string \<Rightarrow> string" where
  "remove_all p s =
     (if s = [] then []
      else if p \<noteq> [] \<and> take (length p) s = p then remove_all p (drop (length p) s)
      else hd s # remove_all p (tl s))"
  by pat_completeness auto
termination by (relation "measure (\<lambda>(p, s). length s)") auto

declare remove_all.simps [simp del]

text \<open>\<open>int(s, 16)\<close>: white space, a sign, a prefix \<open>0x\<close>, single underscores between digits.\<close>

fun hex_digits_us :: "string \<Rightarrow> string option" where
  "hex_digits_us [] = None"
| "hex_digits_us [c] = (if hex_val c = None then None else Some [c])"
| "hex_digits_us (c # d # s) =
     (if hex_val c = None then None
      else if d = CHR ''_'' then map_option ((#) c) (hex_digits_us s)
      else map_option ((#) c) (hex_digits_us (d # s)))"

definition int_of_hex :: "string \<Rightarrow> int res" where
  "int_of_hex raw =
     (let s = strip raw;
          neg = (s \<noteq> [] \<and> hd s = CHR ''-'');
          b = (if s \<noteq> [] \<and> (hd s = CHR ''-'' \<or> hd s = CHR ''+'') then tl s else s);
          b' = (if take 2 b = ''0x'' \<or> take 2 b = ''0X''
                then (if take 1 (drop 2 b) = ''_'' then drop 3 b else drop 2 b) else b)
      in case hex_digits_us b' of
           None \<Rightarrow> Inl ValueError
         | Some ds \<Rightarrow> (case hex_num ds 0 of None \<Rightarrow> Inl ValueError
                       | Some n \<Rightarrow> Inr (if neg then - int n else int n)))"

definition strip_braces :: "string \<Rightarrow> string" where
  "strip_braces s =
     (let p = (\<lambda>c. c = CHR ''{'' \<or> c = CHR ''}'') in rev (dropWhile p (rev (dropWhile p s))))"

definition uuid_of_str :: "string \<Rightarrow> uuid res" where
  "uuid_of_str s =
     (let h = remove_all ''-'' (strip_braces (remove_all ''uuid:'' (remove_all ''urn:'' s)))
      in require (length h = 32) ValueError (
         rbind (int_of_hex h) (\<lambda>n.
         require (0 \<le> n \<and> n < 2 ^ 128) ValueError (Inr (UUID (nat n))))))"

subsection \<open>Reading back what was written\<close>

declare parse_string.simps [simp del]

lemma hex_val_digit [simp]: "d < 16 \<Longrightarrow> hex_val (hex_digit d) = Some d"
  by (auto simp: hex_val_def hex_digit_def)

lemma rmap_map: "rmap f (map g xs) = rmap (\<lambda>x. f (g x)) xs"
  by (induction xs) auto

lemma parse_string_plain:
  "c \<noteq> CHR 0x22 \<Longrightarrow> c \<noteq> CHR 0x5C \<Longrightarrow> \<not> code c < 32 \<Longrightarrow> parse_string (c # t) acc = parse_string t (c # acc)"
  by (simp add: parse_string.simps)

lemma parse_string_simple:
  "simple_escape e = Some x \<Longrightarrow> e \<noteq> CHR ''u'' \<Longrightarrow> parse_string (CHR 0x5C # e # t) acc = parse_string t (x # acc)"
  by (simp add: parse_string.simps)

lemma parse_string_unicode:
  "hex_num [p, q, h, l] 0 = Some n \<Longrightarrow> n < 256 \<Longrightarrow>
     parse_string (CHR 0x5C # CHR ''u'' # p # q # h # l # t) acc = parse_string t (char_of n # acc)"
  by (simp add: parse_string.simps numeral_eq_Suc)

lemma parse_string_escape: "parse_string (escape_char asc c @ t) acc = parse_string t (c # acc)"
proof -
  have l: "code c < 256" by simp
  then have "code c div 16 < 16" by (simp add: div_less_iff_less_mult)
  then have u: "hex_num [CHR ''0'', CHR ''0'', hex_digit (code c div 16), hex_digit (code c mod 16)] 0 = Some (code c)"
    by (simp add: hex_val_def [of "CHR ''0''"])
  show ?thesis
    using parse_string_unicode [OF u l, of t acc]
    by (auto simp: escape_char_def parse_string_plain parse_string_simple simple_escape_def)
qed

lemma parse_string_dump:
  "parse_string (concat (map (escape_char asc) s) @ CHR 0x22 # r) acc = Inr (rev acc @ s, r)"
proof (induction s arbitrary: acc)
  case Nil
  show ?case by (subst append_Nil [symmetric]) (simp add: parse_string.simps)
next
  case (Cons c s)
  show ?case using Cons [of "c # acc"] by (simp add: parse_string_escape)
qed

lemma takeWhile_digits_app:
  "list_all is_ascii_digit s \<Longrightarrow> r = [] \<or> \<not> is_ascii_digit (hd r) \<Longrightarrow> takeWhile is_ascii_digit (s @ r) = s"
  by (induction s) (auto simp: takeWhile_eq_Nil_iff)

lemma nat_str_hd_zero: "hd (nat_str n) = CHR ''0'' \<longleftrightarrow> n = 0"
proof (induction n rule: nat_str.induct)
  case (1 n)
  show ?case
  proof (cases "n < 10")
    case True
    have "digit_char n = CHR ''0'' \<longleftrightarrow> n = 0"
      using True by (metis digit_char_eval(1) digit_val_char zero_less_numeral)
    then show ?thesis using True by (subst nat_str.simps) simp
  next
    case False
    then have "hd (nat_str n) = hd (nat_str (n div 10))" by (subst nat_str.simps) simp
    then show ?thesis using 1 False by simp
  qed
qed

definition ends :: "string \<Rightarrow> bool" where
  "ends r \<longleftrightarrow> r = [] \<or> hd r \<in> {CHR '','', CHR '']'', CHR ''}'', CHR 0x0A}"

lemma ends_facts:
  assumes "ends r"
  shows "r = [] \<or> \<not> is_ascii_digit (hd r)" and "frac_part r = []" and "exp_part r = []"
  using assms by (auto simp: ends_def is_ascii_digit_def frac_part_def exp_part_def)

lemma parse_number_int:
  assumes "length (nat_str (nat \<bar>i\<bar>)) \<le> max_str_digits" and "ends r"
  shows "parse_number (int_str i @ r) = Inr (JInt i, r)"
proof -
  let ?d = "nat_str (nat \<bar>i\<bar>)" and ?sg = "if i < 0 then ''-'' else []"
  have s: "int_str i = ?sg @ ?d" by (auto simp: int_str_def)
  have dig: "is_ascii_digit (hd ?d)" using nat_str_digits [of "nat \<bar>i\<bar>"] by (cases ?d) auto
  then have nm: "hd ?d \<noteq> CHR ''-''" by (auto simp: is_ascii_digit_def)
  have sg: "(if int_str i @ r \<noteq> [] \<and> hd (int_str i @ r) = CHR ''-'' then ''-'' else []) = ?sg"
    using nm by (cases "i < 0") (simp_all add: s)
  have z: "hd (?d @ r) = CHR ''0'' \<Longrightarrow> ?d = ''0''"
    using nat_str_hd_zero [of "nat \<bar>i\<bar>"] by (simp add: nat_str_eval digit_char_eval)
  have ds: "(if ?d @ r \<noteq> [] \<and> hd (?d @ r) = CHR ''0'' then ''0'' else takeWhile is_ascii_digit (?d @ r)) = ?d"
    using z takeWhile_digits_app [OF nat_str_digits ends_facts(1) [OF assms(2)]] by auto
  have dr: "drop (length ?sg) (int_str i @ r) = ?d @ r" by (simp add: s)
  show ?thesis
    unfolding parse_number_def Let_def sg dr ds
    using assms ends_facts(2,3) [OF assms(2)] nat_str_digits [of "nat \<bar>i\<bar>"]
    by (auto simp: int_of_digits_def)
qed

lemma skip_ws_id: "s = [] \<or> \<not> is_ws (hd s) \<Longrightarrow> skip_ws s = s"
  by (cases s) (auto simp: skip_ws_def)

fun json_ok :: "json \<Rightarrow> bool" where
  "json_ok (JFloat f) = False"
| "json_ok (JInt i) = (length (nat_str (nat \<bar>i\<bar>)) \<le> max_str_digits)"
| "json_ok (JList vs) = list_all json_ok vs"
| "json_ok (JObj kvs) = (distinct (map fst kvs) \<and> list_all (\<lambda>(k, v). json_ok v) kvs)"
| "json_ok _ = True"

fun canon :: "json \<Rightarrow> json" where
  "canon (JList vs) = JList (map canon vs)"
| "canon (JObj kvs) = JObj (sort_key fst (map (\<lambda>(k, v). (k, canon v)) kvs))"
| "canon v = v"

definition starts :: "string \<Rightarrow> bool" where
  "starts t \<longleftrightarrow> t \<noteq> [] \<and> \<not> is_ws (hd t) \<and> hd t \<noteq> CHR '']'' \<and> hd t \<noteq> CHR ''}''"

text \<open>Hooks that keep an object without repeated keys as it is; the text is read alike under all of them.\<close>

definition keeps_objects :: "json_hooks \<Rightarrow> bool" where
  "keeps_objects h \<longleftrightarrow> (\<forall>kvs. distinct (map fst kvs) \<longrightarrow> object_pairs_hook h kvs = Inr (JObj kvs))"

lemma keeps_objectsD: "keeps_objects h \<Longrightarrow> distinct (map fst kvs) \<Longrightarrow> object_pairs_hook h kvs = Inr (JObj kvs)"
  by (simp add: keeps_objects_def)

lemma dict_of_pairs_distinct: "distinct (map fst kvs) \<Longrightarrow> dict_of_pairs kvs = kvs"
proof (induction kvs rule: rev_induct)
  case (snoc kv kvs)
  then show ?case by (cases kv) (simp add: dict_of_pairs_def AList_update_new)
qed (simp add: dict_of_pairs_def)

lemma keeps_default: "keeps_objects default_hooks"
  by (simp add: keeps_objects_def default_hooks_def dict_of_pairs_distinct)

definition reads :: "string \<Rightarrow> json \<Rightarrow> bool" where
  "reads t v \<longleftrightarrow> (\<forall>h n r. keeps_objects h \<and> length t < n \<and> ends r \<longrightarrow> parse_value h n (t @ r) = Inr (v, r))"

lemma readsI:
  assumes "\<And>h m r. keeps_objects h \<Longrightarrow> length t \<le> m \<Longrightarrow> ends r \<Longrightarrow> parse_value h (Suc m) (t @ r) = Inr (v, r)"
  shows "reads t v"
  unfolding reads_def
proof (intro allI impI)
  fix h n r assume "keeps_objects h \<and> length t < n \<and> ends r"
  then show "parse_value h n (t @ r) = Inr (v, r)" using assms [of h "n - 1" r] by (cases n) auto
qed

text \<open>
  The separators of a list and an object may be followed by blanks: \<open>sp\<close> is empty in the canonical
  form and one blank in the default form of \<open>json.dumps\<close>.
\<close>

definition blank :: "string \<Rightarrow> bool" where
  "blank sp \<longleftrightarrow> list_all is_ws sp"

lemma skip_blank: "blank sp \<Longrightarrow> t \<noteq> [] \<Longrightarrow> \<not> is_ws (hd t) \<Longrightarrow> skip_ws (sp @ t @ r) = t @ r"
  by (induction sp) (auto simp: blank_def skip_ws_def dropWhile_hd)

definition member_text :: "bool \<Rightarrow> string \<Rightarrow> string \<times> string \<Rightarrow> string" where
  "member_text asc sp = (\<lambda>(k, t). dump_string asc k @ CHR '':'' # sp @ t)"

lemma parse_elements_ok:
  assumes "list_all2 (\<lambda>t v. starts t \<and> reads t v) ts vs" and "ts \<noteq> []" and sp: "blank sp" and h: "keeps_objects h"
    and "length (join (CHR '','' # sp) ts) + 2 \<le> n"
  shows "parse_elements h n (join (CHR '','' # sp) ts @ CHR '']'' # r) acc = Inr (JList (acc @ vs), r)"
  using assms(1,2,5)
proof (induction ts arbitrary: vs n acc)
  case (Cons t ts)
  obtain m where m: "n = Suc m" using Cons.prems(3) by (cases n) auto
  obtain v ws where vs: "vs = v # ws" and tv: "reads t v" and rest: "list_all2 (\<lambda>t v. starts t \<and> reads t v) ts ws"
    using Cons.prems(1) by (auto simp: list_all2_Cons1)
  show ?case
  proof (cases ts)
    case Nil
    then have "parse_value h m (t @ CHR '']'' # r) = Inr (v, CHR '']'' # r)"
      using tv h Cons.prems(3) m by (auto simp: reads_def ends_def)
    then show ?thesis using Nil rest vs m by (simp add: skip_ws_id is_ws_def)
  next
    case (Cons u us)
    let ?j = "join (CHR '','' # sp) ts"
    let ?r = "CHR '','' # sp @ ?j @ CHR '']'' # r"
    have "parse_value h m (t @ ?r) = Inr (v, ?r)"
      using tv h Cons.prems(3) m Cons by (auto simp: reads_def ends_def)
    moreover have "starts u" using rest Cons by (auto simp: list_all2_Cons1)
    then have "skip_ws (sp @ ?j @ CHR '']'' # r) = ?j @ CHR '']'' # r"
      using Cons by (intro skip_blank [OF sp]) (cases us; auto simp: starts_def)+
    moreover have "parse_elements h m (?j @ CHR '']'' # r) (acc @ [v]) = Inr (JList ((acc @ [v]) @ ws), r)"
      using Cons.IH [OF rest, of m "acc @ [v]"] Cons.prems(3) m Cons by simp
    ultimately show ?thesis using Cons vs m by (simp add: skip_ws_id is_ws_def)
  qed
qed simp

lemma parse_members_ok:
  assumes "list_all2 (\<lambda>(k, t) (k', v). k = k' \<and> starts t \<and> reads t v) kts kvs" and "kts \<noteq> []" and sp: "blank sp" and h: "keeps_objects h"
    and "distinct (map fst (acc @ kvs))"
    and "length (join (CHR '','' # sp) (map (member_text asc sp) kts)) + 2 \<le> n"
  shows "parse_members h n (join (CHR '','' # sp) (map (member_text asc sp) kts) @ CHR ''}'' # r) acc
         = Inr (JObj (acc @ kvs), r)"
  using assms(1,2,5,6)
proof (induction kts arbitrary: kvs n acc)
  case (Cons kt kts)
  let ?tx = "member_text asc sp"
  obtain m where m: "n = Suc m" using Cons.prems(4) by (cases n) auto
  obtain k t where kt: "kt = (k, t)" by fastforce
  obtain v ws where vs: "kvs = (k, v) # ws" and st: "starts t" and tv: "reads t v"
    and rest: "list_all2 (\<lambda>(k, t) (k', v). k = k' \<and> starts t \<and> reads t v) kts ws"
    using Cons.prems(1) kt by (auto simp: list_all2_Cons1)
  have up: "object_pairs_hook h (acc @ [(k, v)]) = Inr (JObj (acc @ [(k, v)]))"
    using Cons.prems(3) vs by (intro keeps_objectsD [OF h]) auto
  have key: "parse_string (tl (dump_string asc k @ x)) [] = Inr (k, x)" for x
    using parse_string_dump [of asc k x "[]"] by (simp add: dump_string_def)
  have hd: "dump_string asc k @ x \<noteq> []" "hd (dump_string asc k @ x) = CHR 0x22" for x
    by (simp_all add: dump_string_def)
  have sw: "skip_ws (sp @ t @ x) = t @ x" for x using st by (intro skip_blank [OF sp]) (simp_all add: starts_def)
  show ?case
  proof (cases kts)
    case Nil
    then have "parse_value h m (t @ CHR ''}'' # r) = Inr (v, CHR ''}'' # r)"
      using tv h Cons.prems(4) m kt by (auto simp: reads_def ends_def member_text_def)
    then show ?thesis using Nil rest vs m kt up key hd by (simp add: skip_ws_id is_ws_def sw member_text_def)
  next
    case (Cons u us)
    let ?j = "join (CHR '','' # sp) (map ?tx kts)"
    let ?r = "CHR '','' # sp @ ?j @ CHR ''}'' # r"
    have pv: "parse_value h m (t @ ?r) = Inr (v, ?r)"
      using tv h Cons.prems(4) m Cons kt by (auto simp: reads_def ends_def member_text_def)
    have sj: "skip_ws (sp @ ?j @ CHR ''}'' # r) = ?j @ CHR ''}'' # r"
      using Cons by (intro skip_blank [OF sp]) (cases u; cases us; auto simp: dump_string_def is_ws_def member_text_def)+
    have ih: "parse_members h m (?j @ CHR ''}'' # r) (acc @ [(k, v)]) = Inr (JObj ((acc @ [(k, v)]) @ ws), r)"
      using Cons.IH [OF rest, of "acc @ [(k, v)]" m] Cons.prems(3,4) m Cons vs kt by (simp add: member_text_def)
    have tx: "join (CHR '','' # sp) (map ?tx (kt # kts)) @ CHR ''}'' # r = dump_string asc k @ CHR '':'' # sp @ t @ ?r"
      using Cons kt by (simp add: member_text_def)
    show ?thesis unfolding tx m using pv sj ih up key hd vs by (simp add: skip_ws_id is_ws_def sw)
  qed
qed simp

lemma reads_string: "reads (dump_string asc s) (JStr s)"
proof (rule readsI)
  fix h m r
  show "parse_value h (Suc m) (dump_string asc s @ r) = Inr (JStr s, r)"
    using parse_string_dump [of asc s r "[]"] by (simp add: dump_string_def)
qed

lemma digit_no_delim:
  assumes "is_ascii_digit c"
  shows "c \<notin> {CHR ''n'', CHR ''t'', CHR ''f'', CHR ''N'', CHR ''I'', CHR ''-'', CHR 0x22, CHR ''{'', CHR ''['', CHR '']'', CHR ''}''}"
    and "\<not> is_ws c"
  using assms by (auto simp: is_ascii_digit_def is_ws_def)

lemma no_literal_number:
  assumes "int_str i @ r = s"
  shows "find (\<lambda>(w, v). take (length w) s = w) literals = None" and "starts s"
    and "hd s \<noteq> CHR 0x22" "hd s \<noteq> CHR ''{''" "hd s \<noteq> CHR ''[''"
proof -
  obtain c cs where c: "nat_str (nat \<bar>i\<bar>) = c # cs" by (cases "nat_str (nat \<bar>i\<bar>)") auto
  then have "is_ascii_digit c" using nat_str_digits [of "nat \<bar>i\<bar>"] by simp
  note d = digit_no_delim [OF this]
  consider "s = CHR ''-'' # c # cs @ r" | "s = c # cs @ r" using assms c by (auto simp: int_str_def split: if_splits)
  note cs = this
  show "find (\<lambda>(w, v). take (length w) s = w) literals = None"
    using cs d(1) by cases (simp_all add: literals_def)
  show "starts s" using cs d by cases (simp_all add: starts_def is_ws_def)
  show "hd s \<noteq> CHR 0x22" using cs d(1) by cases simp_all
  show "hd s \<noteq> CHR ''{''" using cs d(1) by cases simp_all
  show "hd s \<noteq> CHR ''[''" using cs d(1) by cases simp_all
qed

lemma reads_int:
  assumes "length (nat_str (nat \<bar>i\<bar>)) \<le> max_str_digits"
  shows "reads (int_str i) (JInt i)"
proof (rule readsI)
  fix h m r assume "ends r"
  note n = no_literal_number [OF refl, of i r] parse_number_int [OF assms \<open>ends r\<close>]
  have "int_str i @ r \<noteq> []" using n(2) by (simp add: starts_def)
  then show "parse_value h (Suc m) (int_str i @ r) = Inr (JInt i, r)"
    using n by (simp add: hook_number_def del: append_is_Nil_conv)
qed

lemma starts_int: "starts (int_str i)"
  using no_literal_number(2) [OF refl, of i "[]"] by simp

lemma reads_literals:
  "reads ''null'' JNull" "reads ''true'' (JBool True)" "reads ''false'' (JBool False)"
  by (rule readsI; simp add: literals_def hook_number_def)+

lemma rmap_Inr_exists:
  "(\<And>x. x \<in> set xs \<Longrightarrow> \<exists>t. f x = Inr t \<and> P x t) \<Longrightarrow> \<exists>ts. rmap f xs = Inr ts \<and> list_all2 P xs ts"
proof (induction xs)
  case (Cons x xs)
  then obtain t ts where "f x = Inr t" "P x t" "rmap f xs = Inr ts" "list_all2 P xs ts"
    by (metis list.set_intros)
  then show ?case by auto
qed simp

lemma reads_list:
  assumes "list_all2 (\<lambda>t v. starts t \<and> reads t v) ts vs" and sp: "blank sp"
  shows "reads (CHR ''['' # join (CHR '','' # sp) ts @ '']'') (JList vs)"
proof (rule readsI)
  let ?j = "join (CHR '','' # sp) ts"
  fix h m r assume h: "keeps_objects h" and m: "length (CHR ''['' # ?j @ '']'') \<le> m"
  show "parse_value h (Suc m) ((CHR ''['' # ?j @ '']'') @ r) = Inr (JList vs, r)"
  proof (cases ts)
    case Nil
    then show ?thesis using assms by (simp add: skip_ws_id is_ws_def)
  next
    case (Cons t us)
    have "starts t" using assms Cons by (auto simp: list_all2_Cons1)
    then have "starts (?j @ CHR '']'' # r)" using Cons by (cases us) (auto simp: starts_def)
    then have "skip_ws (?j @ CHR '']'' # r) = ?j @ CHR '']'' # r" and "hd (?j @ CHR '']'' # r) \<noteq> CHR '']''"
      by (auto simp: starts_def skip_ws_id)
    then show ?thesis using parse_elements_ok [OF assms(1) _ sp h, of m r "[]"] Cons m by simp
  qed
qed

lemma reads_obj:
  assumes "list_all2 (\<lambda>(k, t) (k', v). k = k' \<and> starts t \<and> reads t v) kts kvs" and "distinct (map fst kvs)" and sp: "blank sp"
  shows "reads (CHR ''{'' # join (CHR '','' # sp) (map (member_text asc sp) kts) @ ''}'') (JObj kvs)"
    (is "reads (_ # ?j @ _) _")
proof (rule readsI)
  fix h m r assume h: "keeps_objects h" and m: "length (CHR ''{'' # ?j @ ''}'') \<le> m"
  show "parse_value h (Suc m) ((CHR ''{'' # ?j @ ''}'') @ r) = Inr (JObj kvs, r)"
  proof (cases kts)
    case Nil
    then show ?thesis using assms keeps_objectsD [OF h, of "[]"] by (simp add: skip_ws_id is_ws_def)
  next
    case (Cons t us)
    then have "hd (?j @ CHR ''}'' # r) = CHR 0x22" and "?j \<noteq> []"
      by (cases t; cases us; auto simp: dump_string_def member_text_def)+
    then have "skip_ws (?j @ CHR ''}'' # r) = ?j @ CHR ''}'' # r" and "hd (?j @ CHR ''}'' # r) \<noteq> CHR ''}''"
      by (auto simp: skip_ws_id is_ws_def)
    then show ?thesis using parse_members_ok [OF assms(1) _ sp h, of "[]" asc m r] Cons m assms(2) by simp
  qed
qed

lemma dumps_reads:
  "json_ok v \<Longrightarrow> \<exists>t. dumps asc v = Inr t \<and> starts t \<and> reads t (canon v)"
proof (induction v)
  case (JInt i)
  then show ?case using reads_int [of i] starts_int [of i] by (simp add: dump_int_def)
next
  case (JBool b)
  then show ?case using reads_literals by (simp add: starts_def is_ws_def)
next
  case JNull
  then show ?case using reads_literals by (simp add: starts_def is_ws_def)
next
  case (JStr s)
  then show ?case using reads_string [of asc s] by (simp add: starts_def dump_string_def is_ws_def)
next
  case (JList vs)
  have "\<exists>t. dumps asc v = Inr t \<and> starts t \<and> reads t (canon v)" if "v \<in> set vs" for v
    using JList.IH [OF that] JList.prems that by (simp add: list_all_iff)
  then obtain ts where ts: "rmap (dumps asc) vs = Inr ts" "list_all2 (\<lambda>v t. starts t \<and> reads t (canon v)) vs ts"
    using rmap_Inr_exists [of vs "dumps asc" "\<lambda>v t. starts t \<and> reads t (canon v)"] by blast
  then have "list_all2 (\<lambda>t v. starts t \<and> reads t v) ts (map canon vs)"
    by (simp add: list_all2_conv_all_nth)
  from reads_list [OF this, of "[]"] show ?case using ts(1) by (simp add: starts_def is_ws_def blank_def)
next
  case (JObj kvs)
  let ?s = "sort_key fst kvs"
  have ih: "\<exists>t. dumps asc (snd kv) = Inr t \<and> starts t \<and> reads t (canon (snd kv))" if "kv \<in> set ?s" for kv
    using JObj.IH [of kv "snd kv"] JObj.prems that by (auto simp: list_all_iff snds.simps prod_set_simps)
  have sm: "sort_key fst (map (\<lambda>(k, v). (k, g v)) kvs) = map (\<lambda>kv. (fst kv, g (snd kv))) ?s" for g :: "json \<Rightarrow> 'b"
    using sort_key_map [of fst "\<lambda>(k, v). (k, g v)" kvs] by (simp add: case_prod_beta)
  let ?tx = "\<lambda>kt. dump_string asc (fst kt) @ CHR '':'' # snd kt"
  obtain kts where kts: "rmap (\<lambda>kv. rbind (dumps asc (snd kv)) (\<lambda>t. Inr (fst kv, t))) ?s = Inr kts"
      "list_all2 (\<lambda>kv kt. fst kt = fst kv \<and> starts (snd kt) \<and> reads (snd kt) (canon (snd kv))) ?s kts"
    using rmap_Inr_exists [of ?s "\<lambda>kv. rbind (dumps asc (snd kv)) (\<lambda>t. Inr (fst kv, t))"
        "\<lambda>kv kt. fst kt = fst kv \<and> starts (snd kt) \<and> reads (snd kt) (canon (snd kv))"] ih
    by fastforce
  have "rmap (\<lambda>kv. rbind (dumps asc (snd kv)) (\<lambda>t. Inr (?tx (fst kv, t)))) xs = Inr (map ?tx ys)"
    if "rmap (\<lambda>kv. rbind (dumps asc (snd kv)) (\<lambda>t. Inr (fst kv, t))) xs = Inr ys" for xs ys
    using that by (induction xs arbitrary: ys) (auto simp: rbind_eq_Inr)
  from this [OF kts(1)] have d: "dumps asc (JObj kvs) = Inr (CHR ''{'' # join '','' (map ?tx kts) @ ''}'')"
    by (simp add: sm) (simp add: rbind_def comp_def rmap_map)
  have "list_all2 (\<lambda>(k, t) (k', v). k = k' \<and> starts t \<and> reads t v) kts (map (\<lambda>kv. (fst kv, canon (snd kv))) ?s)"
    using kts(2) by (auto simp: list_all2_conv_all_nth case_prod_beta)
  moreover have "distinct (map fst (map (\<lambda>kv. (fst kv, canon (snd kv))) ?s))"
    using JObj.prems by (simp add: comp_def map_sort_key)
  ultimately have "reads (CHR ''{'' # join '','' (map ?tx kts) @ ''}'') (canon (JObj kvs))"
    using reads_obj [of kts "map (\<lambda>kv. (fst kv, canon (snd kv))) ?s" "[]" asc] unfolding case_prod_beta member_text_def
    by (simp add: sm blank_def flip: case_prod_beta)
  then show ?case using d by (simp add: starts_def is_ws_def)
qed (simp_all)

lemma dumps_default_reads:
  "json_ok v \<Longrightarrow> \<exists>t. dumps_default v = Inr t \<and> starts t \<and> reads t v"
proof (induction v)
  case (JList vs)
  have "\<exists>t. dumps_default v = Inr t \<and> starts t \<and> reads t v" if "v \<in> set vs" for v
    using JList.IH [OF that] JList.prems that by (simp add: list_all_iff)
  then obtain ts where ts: "rmap dumps_default vs = Inr ts" "list_all2 (\<lambda>v t. starts t \<and> reads t v) vs ts"
    using rmap_Inr_exists [of vs dumps_default "\<lambda>v t. starts t \<and> reads t v"] by blast
  then have "list_all2 (\<lambda>t v. starts t \<and> reads t v) ts vs"
    by (simp add: list_all2_conv_all_nth)
  from reads_list [OF this, of "'' ''"] show ?case using ts(1) by (simp add: starts_def is_ws_def blank_def)
next
  case (JObj kvs)
  have ih: "\<exists>t. dumps_default (snd kv) = Inr t \<and> starts t \<and> reads t (snd kv)" if "kv \<in> set kvs" for kv
    using JObj.IH [of kv "snd kv"] JObj.prems that by (auto simp: list_all_iff snds.simps prod_set_simps)
  let ?tx = "\<lambda>kt. dump_string True (fst kt) @ '': '' @ snd kt"
  obtain kts where kts: "rmap (\<lambda>kv. rbind (dumps_default (snd kv)) (\<lambda>t. Inr (fst kv, t))) kvs = Inr kts"
      "list_all2 (\<lambda>kv kt. fst kt = fst kv \<and> starts (snd kt) \<and> reads (snd kt) (snd kv)) kvs kts"
    using rmap_Inr_exists [of kvs "\<lambda>kv. rbind (dumps_default (snd kv)) (\<lambda>t. Inr (fst kv, t))"
        "\<lambda>kv kt. fst kt = fst kv \<and> starts (snd kt) \<and> reads (snd kt) (snd kv)"] ih
    by fastforce
  have "rmap (\<lambda>kv. rbind (dumps_default (snd kv)) (\<lambda>t. Inr (?tx (fst kv, t)))) xs = Inr (map ?tx ys)"
    if "rmap (\<lambda>kv. rbind (dumps_default (snd kv)) (\<lambda>t. Inr (fst kv, t))) xs = Inr ys" for xs ys
    using that by (induction xs arbitrary: ys) (auto simp: rbind_eq_Inr)
  from this [OF kts(1)] have d: "dumps_default (JObj kvs) = Inr (CHR ''{'' # join '', '' (map ?tx kts) @ ''}'')"
    by (simp add: case_prod_beta rmap_map)
  have "list_all2 (\<lambda>(k, t) (k', v). k = k' \<and> starts t \<and> reads t v) kts kvs"
    using kts(2) by (auto simp: list_all2_conv_all_nth case_prod_beta)
  from reads_obj [OF this, of "'' ''" True] have "reads (CHR ''{'' # join '', '' (map ?tx kts) @ ''}'') (JObj kvs)"
    using JObj.prems unfolding member_text_def case_prod_beta by (simp add: blank_def is_ws_def)
  then show ?case using d by (simp add: starts_def is_ws_def)
qed (use dumps_reads [of _ True] in fastforce)+

lemma loads_reads:
  assumes "starts t" and "reads t v" and "r = [] \<or> r = [CHR 0x0A]" and "keeps_objects h"
  shows "loads_with h (t @ r) = Inr v"
proof -
  have "skip_ws (t @ r) = t @ r" using assms(1) by (intro skip_ws_id) (simp add: starts_def)
  moreover have "parse_value h (2 * length (t @ r) + 2) (t @ r) = Inr (v, r)"
  proof -
    have "ends r" and "length t < 2 * length (t @ r) + 2" using assms(3) by (auto simp: ends_def)
    then show ?thesis using assms(2,4) unfolding reads_def by blast
  qed
  moreover have "skip_ws r = []" using assms(3) by (auto simp: skip_ws_def is_ws_def)
  ultimately show ?thesis by (simp add: loads_with_def)
qed

lemma loads_default:
  assumes "json_ok v" and "dumps_default v = Inr t" and "r = [] \<or> r = [CHR 0x0A]"
  shows "loads (t @ r) = Inr v"
  using dumps_default_reads [OF assms(1)] assms(2) loads_reads [OF _ _ assms(3) keeps_default] by (auto simp: loads_def)

lemma loads_with_dumps:
  assumes "json_ok v" and "dumps asc v = Inr t" and "r = [] \<or> r = [CHR 0x0A]" and "keeps_objects h"
  shows "loads_with h (t @ r) = Inr (canon v)"
  using dumps_reads [OF assms(1), of asc] assms(2) loads_reads [OF _ _ assms(3,4)] by auto

lemma loads_dumps:
  assumes "json_ok v" and "dumps asc v = Inr t" and "r = [] \<or> r = [CHR 0x0A]"
  shows "loads (t @ r) = Inr (canon v)"
  unfolding loads_def by (rule loads_with_dumps [OF assms keeps_default])

subsection \<open>Codecs\<close>

lemma utf8_decode_char: "utf8_decode (utf8_char c @ t) = rbind (utf8_decode t) (\<lambda>t. Inr (c # t))"
proof (cases "code c < 128")
  case False
  let ?h = "code c div 64" and ?l = "code c mod 64"
  have "code c < 256" by simp
  then have "?h < 4" "2 \<le> ?h" using False by (auto simp: div_less_iff_less_mult less_eq_div_iff_mult_less_eq)
  then have h: "code (char_of (192 + ?h)) = 192 + ?h" "?h = 2 \<or> ?h = 3" by auto
  have l: "code (char_of (128 + ?l)) = 128 + ?l" by simp
  have "char_of ((192 + ?h - 192) * 64 + (128 + ?l - 128)) = c" by simp
  then show ?thesis using False h l by (auto simp: utf8_char_def wide_ok_def cont_def)
qed (simp add: utf8_char_def)

lemma utf8_roundtrip: "utf8_decode (utf8_encode s) = Inr s"
proof (induction s)
  case (Cons c s)
  have "utf8_encode (c # s) = utf8_char c @ utf8_encode s" by (simp add: utf8_encode_def)
  then show ?case using Cons utf8_decode_char by simp
qed (simp add: utf8_encode_def)

definition ascii :: "string \<Rightarrow> bool" where
  "ascii s \<longleftrightarrow> list_all (\<lambda>c. code c < 128) s"

lemma ascii_app [simp]: "ascii (s @ t) \<longleftrightarrow> ascii s \<and> ascii t" "ascii (c # s) \<longleftrightarrow> code c < 128 \<and> ascii s" "ascii []"
  by (simp_all add: ascii_def)

lemma ascii_join: "list_all ascii ts \<Longrightarrow> ascii sep \<Longrightarrow> ascii (join sep ts)"
  by (induction sep ts rule: join.induct) auto

lemma hex_digit_ascii: "d < 16 \<Longrightarrow> code (hex_digit d) < 128"
  by (auto simp: hex_digit_def)

lemma ascii_dump_string: "ascii (dump_string True s)"
proof -
  have "code c div 16 < 16" for c by (simp add: div_less_iff_less_mult)
  then have "ascii (escape_char True c)" for c by (auto simp: escape_char_def hex_digit_ascii)
  then have "ascii (concat (map (escape_char True) s))" by (induction s) auto
  then show ?thesis by (simp add: dump_string_def)
qed

lemma ascii_int: "ascii (int_str i)"
proof -
  have "is_ascii_digit c \<Longrightarrow> code c < 128" for c by (simp add: is_ascii_digit_def)
  then have "ascii (nat_str n)" for n using nat_str_digits [of n] by (auto simp: ascii_def list_all_iff)
  then show ?thesis by (simp add: int_str_def)
qed

lemma ascii_dumps: "dumps True v = Inr t \<Longrightarrow> ascii t"
proof (induction v arbitrary: t)
  case (JList vs)
  then obtain ts where ts: "rmap (dumps True) vs = Inr ts" "t = CHR ''['' # join '','' ts @ '']''"
    by (auto simp: rbind_eq_Inr)
  then have "list_all ascii ts" using JList.IH by (auto simp: list_all_iff dest!: rmap_Inr_set)
  then show ?case using ts by (simp add: ascii_join)
next
  case (JObj kvs)
  then obtain ts where ts: "rmap (\<lambda>(k, t). rbind t (\<lambda>t. Inr (dump_string True k @ CHR '':'' # t)))
      (sort_key fst (map (\<lambda>(k, v). (k, dumps True v)) kvs)) = Inr ts" "t = CHR ''{'' # join '','' ts @ ''}''"
    by (auto simp: rbind_eq_Inr)
  have "ascii u" if "u \<in> set ts" for u
    using rmap_Inr_set [OF ts(1) that] JObj.IH by (auto simp: rbind_eq_Inr ascii_dump_string snds.simps prod_set_simps)
  then show ?case using ts by (simp add: ascii_join list_all_iff)
qed (auto simp: dump_int_def ascii_int ascii_dump_string split: if_splits)

lemma ascii_dumps_default: "dumps_default v = Inr t \<Longrightarrow> ascii t"
proof (induction v arbitrary: t)
  case (JList vs)
  then obtain ts where ts: "rmap dumps_default vs = Inr ts" "t = CHR ''['' # join '', '' ts @ '']''"
    by (auto simp: rbind_eq_Inr)
  then have "list_all ascii ts" using JList.IH by (auto simp: list_all_iff dest!: rmap_Inr_set)
  then show ?case using ts by (simp add: ascii_join)
next
  case (JObj kvs)
  then obtain ts where ts: "rmap (\<lambda>(k, t). rbind t (\<lambda>t. Inr (dump_string True k @ '': '' @ t))) (map (\<lambda>(k, v). (k, dumps_default v)) kvs) = Inr ts"
      "t = CHR ''{'' # join '', '' ts @ ''}''"
    by (auto simp: rbind_eq_Inr)
  have "ascii u" if "u \<in> set ts" for u
    using rmap_Inr_set [OF ts(1) that] JObj.IH by (auto simp: rbind_eq_Inr ascii_dump_string snds.simps prod_set_simps)
  then show ?case using ts by (simp add: ascii_join list_all_iff)
qed (auto simp: dump_int_def ascii_int ascii_dump_string split: if_splits)

lemma require_json_ok: "json_ok v \<Longrightarrow> require_json_value v = Inr ()"
proof (induction v)
  case (JList vs)
  then have "rmap require_json_value vs = Inr (map (\<lambda>_. ()) vs)" by (intro rmap_total) (auto simp: list_all_iff)
  then show ?case by simp
next
  case (JObj kvs)
  then have "rmap (\<lambda>(k, v). require_json_value v) kvs = Inr (map (\<lambda>_. ()) kvs)"
    by (intro rmap_total) (force simp: list_all_iff snds.simps prod_set_simps)
  then show ?case by simp
qed auto

lemma dumps_canon: "json_ok v \<Longrightarrow> dumps asc (canon v) = dumps asc v"
proof (induction v)
  case (JList vs)
  then have "rmap (dumps asc) (map canon vs) = rmap (dumps asc) vs"
    unfolding rmap_map by (intro rmap_cong) (auto simp: list_all_iff)
  then show ?case by simp
next
  case (JObj kvs)
  let ?g = "\<lambda>(k, v). (k, canon v)" and ?h = "\<lambda>(k, v). (k, dumps asc v)"
  have "sort_key fst (map ?h (sort_key fst (map ?g kvs))) = map ?h (sort_key fst (sort_key fst (map ?g kvs)))"
    using sort_key_map [of fst ?h "sort_key fst (map ?g kvs)"] by (simp add: case_prod_beta)
  also have "sort_key fst (sort_key fst (map ?g kvs)) = sort_key fst (map ?g kvs)"
    by (intro sort_key_id_if_sorted) (simp add: map_sort_key)
  also have "map ?h (sort_key fst (map ?g kvs)) = sort_key fst (map ?h (map ?g kvs))"
    using sort_key_map [of fst ?h "map ?g kvs"] by (simp add: case_prod_beta)
  also have "map ?h (map ?g kvs) = map ?h kvs"
    using JObj by (force simp: list_all_iff snds.simps prod_set_simps)
  finally show ?case by simp
qed auto

subsection \<open>The fuel of \<open>loads\<close> is enough\<close>

lemma parse_string_length: "parse_string s acc = Inr (k, r) \<Longrightarrow> length r < length s"
proof (induction s acc arbitrary: k r rule: parse_string.induct)
  case (2 c s acc)
  show ?case
    using 2 by (subst (asm) parse_string.simps) (auto split: if_splits list.splits option.splits; fastforce)
qed (simp add: parse_string.simps)

lemma parse_string_no_fuel: "parse_string s acc \<noteq> Inl OutOfFuel"
proof (induction s acc rule: parse_string.induct)
  case (2 c s acc)
  then show ?case by (subst parse_string.simps) (auto split: if_splits list.splits option.splits)
qed (simp add: parse_string.simps)

lemma skip_ws_length: "length (skip_ws s) \<le> length s"
  by (simp add: skip_ws_def length_dropWhile_le)

lemma skip_ws_less: "length t < k \<Longrightarrow> length (skip_ws t) < k" "length t \<le> k \<Longrightarrow> length (skip_ws t) \<le> k"
  using skip_ws_length [of t] by linarith+

lemma parse_number_no_fuel: "parse_number s \<noteq> Inl OutOfFuel"
  by (auto simp: parse_number_def Let_def rbind_eq_Inl int_of_digits_def)

lemma parse_number_length: "parse_number s = Inr (v, r) \<Longrightarrow> length r \<le> length s"
  by (auto simp: parse_number_def Let_def rbind_eq_Inr split: if_splits)

definition shorter :: "string \<Rightarrow> (json \<times> string) res \<Rightarrow> bool" where
  "shorter s m \<longleftrightarrow> (\<forall>v r. m = Inr (v, r) \<longrightarrow> length r \<le> length s)"

lemma shorter_mono: "shorter t m \<Longrightarrow> length t \<le> length s \<Longrightarrow> shorter s m"
  by (auto simp: shorter_def intro: le_trans)

lemma shorter_simps [simp]: "shorter s (Inl e)" "shorter s (Inr (v, r)) \<longleftrightarrow> length r \<le> length s"
  by (auto simp: shorter_def)

lemma shorter_if: "(b \<Longrightarrow> shorter s x) \<Longrightarrow> (\<not> b \<Longrightarrow> shorter s y) \<Longrightarrow> shorter s (if b then x else y)"
  by simp

lemma shorter_rbind: "(\<And>y. m = Inr y \<Longrightarrow> shorter s (f y)) \<Longrightarrow> shorter s (rbind m f)"
  by (cases m) auto

lemma parse_lengths:
  "shorter s (parse_value h n s) \<and> shorter s (parse_elements h n s acc) \<and> shorter s (parse_members h n s macc)"
proof (induction n arbitrary: s acc macc)
  case (Suc n)
  have v: "shorter s (parse_value h n s)" and e: "shorter s (parse_elements h n s acc)"
    and m: "shorter s (parse_members h n s macc)" for s acc macc using Suc by blast+
  have tl: "length (skip_ws (tl t)) \<le> length t" for t by (rule skip_ws_less(2)) simp
  have 1: "shorter s (parse_value h (Suc n) s)"
    using shorter_mono [OF e tl] shorter_mono [OF m tl] tl [of s]
    by (auto simp: Let_def split: option.splits intro!: shorter_rbind)
      (auto simp: shorter_def hook_number_def rbind_eq_Inr split: json.splits dest: parse_number_length parse_string_length)
  have el: "shorter s (parse_elements h n (skip_ws (tl (skip_ws r))) acc')" if "length r \<le> length s" for r acc'
    using that tl [of "skip_ws r"] skip_ws_length [of r] by (intro shorter_mono [OF e]) linarith
  have me: "shorter s (parse_members h n (skip_ws (tl (skip_ws r))) acc')" if "length r \<le> length s" for r acc'
    using that tl [of "skip_ws r"] skip_ws_length [of r] by (intro shorter_mono [OF m]) linarith
  have w: "length (skip_ws r) - Suc 0 \<le> length s" if "length r \<le> length s" for r
    using that skip_ws_length [of r] by simp
  have 2: "shorter s (parse_elements h (Suc n) s acc)"
    using v [of s] by (auto simp: Let_def shorter_def [of s "parse_value h n s"] intro!: shorter_rbind el w)
  have "shorter s (parse_value h n (skip_ws (tl (skip_ws r))))" if "length r \<le> length s" for r
    using that tl [of "skip_ws r"] skip_ws_length [of r] by (intro shorter_mono [OF v]) linarith
  moreover have "length r \<le> length s" if "parse_string (tl s) [] = Inr (k, r)" for k r
    using parse_string_length [OF that] by simp
  ultimately have 3: "shorter s (parse_members h (Suc n) s macc)"
    by (auto simp: Let_def intro!: shorter_rbind me w) (auto simp: shorter_def)
  show ?case using 1 2 3 by blast
qed simp

definition never_out_of_fuel :: "json_hooks \<Rightarrow> bool" where
  "never_out_of_fuel h \<longleftrightarrow>
     (\<forall>x. object_pairs_hook h x \<noteq> Inl OutOfFuel) \<and> (\<forall>x. parse_float h x \<noteq> Inl OutOfFuel) \<and> (\<forall>x. parse_constant h x \<noteq> Inl OutOfFuel)"

lemma hook_number_no_fuel: "(\<And>x. f x \<noteq> Inl OutOfFuel) \<Longrightarrow> hook_number f vr \<noteq> Inl OutOfFuel"
  by (auto simp: hook_number_def rbind_eq_Inl split: prod.splits json.splits)

lemma parse_fuel:
  assumes h: "never_out_of_fuel h"
  shows "(2 * length s + 1 \<le> n \<longrightarrow> parse_value h n s \<noteq> Inl OutOfFuel)
   \<and> (2 * length s + 2 \<le> n \<longrightarrow> parse_elements h n s acc \<noteq> Inl OutOfFuel)
   \<and> (2 * length s + 2 \<le> n \<longrightarrow> parse_members h n s macc \<noteq> Inl OutOfFuel)"
proof (induction n arbitrary: s acc macc)
  case (Suc n)
  note hk = h [unfolded never_out_of_fuel_def]
  have v: "2 * length s + 1 \<le> n \<Longrightarrow> parse_value h n s \<noteq> Inl OutOfFuel"
    and e: "2 * length s + 2 \<le> n \<Longrightarrow> parse_elements h n s acc \<noteq> Inl OutOfFuel"
    and m: "2 * length s + 2 \<le> n \<Longrightarrow> parse_members h n s macc \<noteq> Inl OutOfFuel" for s acc macc
    using Suc by blast+
  have tl: "s \<noteq> [] \<Longrightarrow> length (skip_ws (tl s)) < length s" for s by (rule skip_ws_less) (cases s; simp)
  have 1: "parse_value h (Suc n) s \<noteq> Inl OutOfFuel" if "2 * length s + 1 \<le> Suc n"
  proof -
    have "s \<noteq> [] \<Longrightarrow> 2 * length (skip_ws (tl s)) + 2 \<le> n" using that tl [of s] by linarith
    then show ?thesis using e m hk hook_number_no_fuel [of "parse_float h"] hook_number_no_fuel [of "parse_constant h"] parse_number_no_fuel [of s] parse_string_no_fuel [of "tl s" "[]"]
      by (auto simp: Let_def rbind_eq_Inl split: option.splits if_splits)
  qed
  have step: "2 * length (skip_ws (tl (skip_ws r))) + 2 \<le> n"
    if "2 * length s + 2 \<le> Suc n" "length r \<le> length s" "skip_ws r \<noteq> []" for r
    using that tl [of "skip_ws r"] skip_ws_length [of r] by linarith
  have 2: "parse_elements h (Suc n) s acc \<noteq> Inl OutOfFuel" if f: "2 * length s + 2 \<le> Suc n"
  proof -
    have "length r \<le> length s" if "parse_value h n s = Inr (w, r)" for w r
      using parse_lengths [of s h n] that by (simp add: shorter_def)
    then show ?thesis using f v [of s] e [OF step [OF f]] by (auto simp: Let_def rbind_eq_Inl split: if_splits)
  qed
  have 3: "parse_members h (Suc n) s macc \<noteq> Inl OutOfFuel" if f: "2 * length s + 2 \<le> Suc n"
  proof -
    have ps: "length r < length s" if "parse_string (tl s) [] = Inr (k, r)" "s \<noteq> []" for k r
      using parse_string_length [OF that(1)] by simp
    have pv: "parse_value h n (skip_ws (tl (skip_ws r))) \<noteq> Inl OutOfFuel" if "length r < length s" for r
      using v [of "skip_ws (tl (skip_ws r))"] that f skip_ws_length [of "tl (skip_ws r)"] skip_ws_length [of r]
      by (simp add: le_diff_conv)
    have pl: "length r' \<le> length s" if "parse_value h n (skip_ws (tl (skip_ws r))) = Inr (w, r')" "length r < length s" for r r' w
      using parse_lengths [of "skip_ws (tl (skip_ws r))" h n] that skip_ws_length [of "tl (skip_ws r)"] skip_ws_length [of r]
      by (force simp: shorter_def)
    show ?thesis using ps pv pl hk m [OF step [OF f]] parse_string_no_fuel [of "tl s" "[]"]
      by (auto simp: Let_def rbind_eq_Inl split: if_splits)
  qed
  show ?case using 1 2 3 by blast
qed simp

lemma loads_with_fuel:
  assumes "never_out_of_fuel h"
  shows "loads_with h s \<noteq> Inl OutOfFuel"
proof -
  have "parse_value h (2 * length s + 2) (skip_ws s) \<noteq> Inl OutOfFuel"
    using parse_fuel [OF assms, of "skip_ws s" "2 * length s + 2"] skip_ws_length [of s] by simp
  then show ?thesis by (auto simp: loads_with_def require_def rbind_eq_Inl)
qed

lemma loads_fuel: "loads s \<noteq> Inl OutOfFuel"
  unfolding loads_def by (rule loads_with_fuel) (simp add: never_out_of_fuel_def default_hooks_def)

subsection \<open>UUID texts\<close>

lemma length_hex_pad [simp]: "length (hex_pad k n) = k"
  by (induction k arbitrary: n) auto

lemma hex_num_append: "hex_num (s @ t) a = (case hex_num s a of None \<Rightarrow> None | Some b \<Rightarrow> hex_num t b)"
  by (induction s arbitrary: a) (auto split: option.splits)

lemma hex_num_pad: "n < 16 ^ k \<Longrightarrow> hex_num (hex_pad k n) 0 = Some n"
proof (induction k arbitrary: n)
  case (Suc k)
  then have "n div 16 < 16 ^ k" by (simp add: div_less_iff_less_mult)
  then show ?case using Suc.IH by (simp add: hex_num_append)
qed simp

lemma hex_digit_chars:
  assumes "d < 16"
  shows "is_hex_lower (hex_digit d)"
proof -
  have "d \<in> set [0..<16]" using assms by simp
  moreover have "list_all (\<lambda>d. is_hex_lower (hex_digit d)) [0..<16]" by code_simp
  ultimately show ?thesis by (simp only: list_all_iff)
qed


lemma hex_pad_chars: "c \<in> set (hex_pad k n) \<Longrightarrow> is_hex_lower c"
  by (induction k arbitrary: n) (auto simp: hex_digit_chars)

lemma remove_all_none: "c \<in> set p \<Longrightarrow> c \<notin> set s \<Longrightarrow> remove_all p s = s"
proof (induction s)
  case (Cons x s)
  have "take (length p) (x # s) \<noteq> p" using Cons.prems by (metis in_set_takeD)
  then show ?case using Cons by (subst remove_all.simps) simp
qed (subst remove_all.simps, simp)

lemma remove_dash: "CHR ''-'' \<notin> set s \<Longrightarrow> remove_all ''-'' (s @ t) = s @ remove_all ''-'' t"
proof (induction s)
  case (Cons x s)
  then have "x \<noteq> CHR ''-''" by auto
  then show ?case using Cons by (subst remove_all.simps) simp
qed simp

lemma remove_dash_Cons: "remove_all ''-'' (CHR ''-'' # t) = remove_all ''-'' t"
  by (subst remove_all.simps) simp

lemma hex_lower_facts:
  assumes "is_hex_lower c"
  shows "c \<notin> {CHR ''-'', CHR '':'', CHR ''{'', CHR ''}'', CHR ''_'', CHR ''+'', CHR ''x'', CHR ''X'', CHR ''u''}"
    and "\<not> is_space c" and "hex_val c \<noteq> None"
  using assms by (auto simp: is_hex_lower_def is_space_def hex_val_def)

lemma hex_digits_us_plain: "s \<noteq> [] \<Longrightarrow> list_all is_hex_lower s \<Longrightarrow> hex_digits_us s = Some s"
proof (induction s rule: hex_digits_us.induct)
  case (3 c d s)
  then show ?case using hex_lower_facts [of c] hex_lower_facts [of d] by auto
qed (use hex_lower_facts in auto)

lemma int_of_hex_plain:
  assumes "s \<noteq> []" and "list_all is_hex_lower s" and "hex_num s 0 = Some n"
  shows "int_of_hex s = Inr (int n)"
proof -
  have h: "is_hex_lower c" if "c \<in> set s" for c using assms(2) that by (simp add: list_all_iff)
  have "strip s = s" using assms(1) h hex_lower_facts(2) by (intro strip_id) auto
  moreover have "hd s \<noteq> CHR ''-''" "hd s \<noteq> CHR ''+''" using h [of "hd s"] assms(1) hex_lower_facts(1) by auto
  moreover have "CHR ''x'' \<notin> set s" "CHR ''X'' \<notin> set s" using h hex_lower_facts(1) by blast+
  then have "take 2 s \<noteq> ''0x''" "take 2 s \<noteq> ''0X''" by (metis in_set_takeD list.set_intros)+
  ultimately show ?thesis
    using assms(1,3) hex_digits_us_plain [OF assms(1,2)] by (simp add: int_of_hex_def)
qed

lemma dropWhile_none: "(\<And>c. c \<in> set s \<Longrightarrow> \<not> P c) \<Longrightarrow> dropWhile P s = s"
  by (cases s) auto

lemma uuid_roundtrip:
  assumes "uuid_int u < 2 ^ 128"
  shows "uuid_of_str (uuid_str u) = Inr u"
proof -
  let ?h = "hex_pad 32 (uuid_int u)"
  have hx: "c \<in> set ?h \<Longrightarrow> is_hex_lower c" for c by (rule hex_pad_chars)
  have nd: "CHR ''-'' \<notin> set (take i (drop j ?h))" for i j
    using hx hex_lower_facts(1) by (metis in_set_dropD in_set_takeD insertCI)
  have cs: "c \<in> set (uuid_str u) \<Longrightarrow> is_hex_lower c \<or> c = CHR ''-''" for c
    using hx by (auto simp: uuid_str_def Let_def dest: in_set_takeD in_set_dropD)
  have no: "c \<notin> {CHR '':'', CHR ''{'', CHR ''}''}" if "c \<in> set (uuid_str u)" for c
    using cs [OF that] hex_lower_facts(1) [of c] by auto
  then have "CHR '':'' \<notin> set (uuid_str u)" by blast
  then have "remove_all ''uuid:'' (remove_all ''urn:'' (uuid_str u)) = uuid_str u"
    by (simp add: remove_all_none [of "CHR '':''"])
  moreover have "strip_braces (uuid_str u) = uuid_str u"
  proof -
    have "dropWhile (\<lambda>c. c = CHR ''{'' \<or> c = CHR ''}'') (uuid_str u) = uuid_str u"
      and "dropWhile (\<lambda>c. c = CHR ''{'' \<or> c = CHR ''}'') (rev (uuid_str u)) = rev (uuid_str u)"
      by (rule dropWhile_none; use no in force)+
    then show ?thesis by (simp add: strip_braces_def)
  qed
  moreover have "remove_all ''-'' (uuid_str u) = ?h"
  proof -
    have "take 8 ?h = take 8 (drop 0 ?h)" and "CHR ''-'' \<notin> set (drop 20 ?h)"
      using nd [of 12 20] by simp_all
    then have "remove_all ''-'' (uuid_str u) =
        take 8 ?h @ take 4 (drop 8 ?h) @ take 4 (drop 12 ?h) @ take 4 (drop 16 ?h) @ drop 20 ?h"
      using nd [of 8 0] nd [of 4 8] nd [of 4 12] nd [of 4 16]
      by (simp add: uuid_str_def Let_def remove_dash remove_dash_Cons remove_all_none [of "CHR ''-''"])
    also have "\<dots> = ?h"
      using append_take_drop_id [of 4 "drop 16 ?h"] append_take_drop_id [of 4 "drop 12 ?h"]
        append_take_drop_id [of 4 "drop 8 ?h"] append_take_drop_id [of 8 ?h] by simp
    finally show ?thesis .
  qed
  moreover have "uuid_int u < 16 ^ 32" using assms by simp
  then have "hex_num ?h 0 = Some (uuid_int u)" by (rule hex_num_pad)
  then have "int_of_hex ?h = Inr (int (uuid_int u))"
    using hx by (intro int_of_hex_plain) (auto simp: list_all_iff simp flip: length_greater_0_conv)
  ultimately show ?thesis using assms by (cases u) (simp add: uuid_of_str_def Let_def)
qed


lemma canonical_bytes_decode:
  assumes "json_ok v"
  shows "\<exists>b. canonical_json_bytes v = Inr b \<and> rbind (utf8_decode b) loads = Inr (canon v)"
proof -
  obtain t where t: "dumps False v = Inr t" using dumps_reads [OF assms] by blast
  then show ?thesis using require_json_ok [OF assms] loads_dumps [OF assms t, of "[CHR 0x0A]"]
    by (simp add: canonical_json_bytes_def utf8_roundtrip)
qed

lemma package_bytes_decode:
  assumes "json_ok v"
  shows "\<exists>b. package_json_bytes v = Inr b \<and> decode_canonical_json b = Inr (canon v)"
proof -
  obtain t where t: "dumps True v = Inr t" using dumps_reads [OF assms] by blast
  then show ?thesis using ascii_dumps [OF t] loads_dumps [OF assms t, of "[CHR 0x0A]"]
    by (simp add: package_json_bytes_def decode_canonical_json_def ascii_decode_def ascii_def)
qed

lemma utf8_decode_ascii: "ascii s \<Longrightarrow> utf8_decode s = Inr s"
  by (induction s) auto

lemma package_bytes_utf8:
  assumes "json_ok v"
  shows "\<exists>b. package_json_bytes v = Inr b \<and> rbind (utf8_decode b) loads = Inr (canon v)"
proof -
  obtain t where t: "dumps True v = Inr t" using dumps_reads [OF assms] by blast
  then have "ascii (t @ [CHR 0x0A])" using ascii_dumps [OF t] by simp
  then show ?thesis using t loads_dumps [OF assms t, of "[CHR 0x0A]"] utf8_decode_ascii [of "t @ [CHR 0x0A]"]
    by (simp add: package_json_bytes_def ascii_decode_def flip: ascii_def)
qed

subsection \<open>Errors of the codecs\<close>

lemma only_raises_json [raises]:
  "(j = JNull \<Longrightarrow> only_raises E a) \<Longrightarrow> (\<And>x. j = JBool x \<Longrightarrow> only_raises E (b x)) \<Longrightarrow>
   (\<And>x. j = JInt x \<Longrightarrow> only_raises E (c x)) \<Longrightarrow> (\<And>x. j = JFloat x \<Longrightarrow> only_raises E (d x)) \<Longrightarrow>
   (\<And>x. j = JStr x \<Longrightarrow> only_raises E (f x)) \<Longrightarrow> (\<And>x. j = JList x \<Longrightarrow> only_raises E (g x)) \<Longrightarrow>
   (\<And>x. j = JObj x \<Longrightarrow> only_raises E (h x)) \<Longrightarrow> only_raises E (case_json a b c d f g h j)"
  by (cases j) auto

lemma int_of_digits_raises: "only_raises {ValueError} (int_of_digits s)"
  by (simp add: int_of_digits_def)

lemma parse_string_raises: "only_raises {JSONDecodeError, NotModelled} (parse_string s acc)"
proof (induction s acc rule: parse_string.induct)
  case (2 c s acc)
  then show ?case by (subst parse_string.simps) (auto split: if_splits list.splits option.splits)
qed (simp add: parse_string.simps)

abbreviation json_errors :: "py_exc set" where
  "json_errors \<equiv> {JSONDecodeError, ValueError, NotModelled, OutOfFuel}"

lemma parse_number_raises: "only_raises json_errors (parse_number s)"
  unfolding parse_number_def
  by (intro raises only_raises_mono [OF int_of_digits_raises]) auto

definition hooks_raise :: "py_exc set \<Rightarrow> json_hooks \<Rightarrow> bool" where
  "hooks_raise E h \<longleftrightarrow>
     (\<forall>x. only_raises E (object_pairs_hook h x)) \<and> (\<forall>x. only_raises E (parse_float h x)) \<and> (\<forall>x. only_raises E (parse_constant h x))"

lemma hook_number_raises: "(\<And>x. only_raises E (f x)) \<Longrightarrow> only_raises E (hook_number f vr)"
  unfolding hook_number_def by (intro raises) auto

lemma parse_raises:
  assumes h: "hooks_raise E h" and E: "json_errors \<subseteq> E"
  shows "only_raises E (parse_value h n s) \<and> only_raises E (parse_elements h n s acc)
         \<and> only_raises E (parse_members h n s macc)"
proof (induction n arbitrary: s acc macc)
  case (Suc n)
  have s: "only_raises E (parse_string s a)" for s a
    by (rule only_raises_mono [OF parse_string_raises]) (use E in auto)
  have v: "only_raises E (parse_value h n s)" and e: "only_raises E (parse_elements h n s acc)"
    and m: "only_raises E (parse_members h n s macc)" for s acc macc using Suc by blast+
  have p: "only_raises E (object_pairs_hook h x)" and f: "only_raises E (parse_float h y)"
    and c: "only_raises E (parse_constant h y)" for x y using h by (simp_all add: hooks_raise_def)
  show ?case unfolding parse_value.simps parse_elements.simps parse_members.simps
    by (intro conjI raises s v e m p hook_number_raises f c only_raises_mono [OF parse_number_raises E]) (use E in auto)
qed (use E in simp)

lemma loads_with_raises:
  assumes "hooks_raise E h" and "json_errors \<subseteq> E"
  shows "only_raises E (loads_with h s)"
  unfolding loads_with_def by (intro raises conjunct1 [OF parse_raises [OF assms]]) (use assms(2) in auto)

lemma loads_raises: "only_raises {JSONDecodeError, ValueError, NotModelled} (loads s)"
proof -
  have "only_raises json_errors (loads s)"
    unfolding loads_def by (rule loads_with_raises) (simp_all add: hooks_raise_def default_hooks_def)
  then show ?thesis using loads_fuel [of s] by (auto simp: only_raises_def)
qed

lemma ascii_decode_raises: "only_raises {UnicodeDecodeError} (ascii_decode s)"
  unfolding ascii_decode_def by (intro raises) auto

lemma dump_int_raises: "only_raises {ValueError} (dump_int i)"
  by (simp add: dump_int_def)

lemma dumps_raises: "only_raises {ValueError, NotModelled} (dumps asc v)"
proof (induction v)
  case (JObj kvs)
  have "only_raises {ValueError, NotModelled} t" if "(k, t) \<in> set (sort_key fst (map (\<lambda>(k, v). (k, dumps asc v)) kvs))" for k t
    using that JObj by (force simp: snds.simps prod_set_simps)
  then show ?case by (auto intro!: raises)
qed (auto intro!: raises only_raises_mono [OF dump_int_raises])

lemma package_json_bytes_raises: "only_raises {ValueError, NotModelled} (package_json_bytes v)"
proof (cases "dumps True v")
  case (Inl e)
  then show ?thesis using dumps_raises [of True v] by (simp add: package_json_bytes_def)
next
  case (Inr t)
  then show ?thesis using ascii_dumps [OF Inr] by (simp add: package_json_bytes_def ascii_decode_def flip: ascii_def)
qed

lemma decode_canonical_json_raises:
  "only_raises {FrozenPackageError MANIFEST_NON_CANONICAL, ValueError, NotModelled} (decode_canonical_json s)"
proof -
  have "only_raises {UnicodeDecodeError, JSONDecodeError, ValueError, NotModelled} (rbind (ascii_decode s) loads)"
    by (intro raises only_raises_mono [OF ascii_decode_raises] only_raises_mono [OF loads_raises]) auto
  then show ?thesis unfolding decode_canonical_json_def by (intro raises) (auto intro: only_raises_reraise)
qed

lemma py_str_raises: "only_raises {ValueError, NotModelled} (py_str j)"
  by (cases j) (auto intro: only_raises_mono [OF dump_int_raises])

lemma uuid_of_str_raises: "only_raises {ValueError} (uuid_of_str s)"
  unfolding uuid_of_str_def int_of_hex_def Let_def by (intro raises) (auto split: option.splits)

lemma map_of_sort: "distinct (map fst xs) \<Longrightarrow> map_of (sort_key fst xs) = map_of xs"
  by (subst map_of_inject_set) (auto simp: distinct_map)

lemma jget_sort [simp]: "distinct (map fst xs) \<Longrightarrow> jget (sort_key fst xs) k = jget xs k"
  by (simp add: jget_def map_of_sort)

lemma jindex_sort [simp]: "distinct (map fst xs) \<Longrightarrow> jindex (sort_key fst xs) k = jindex xs k"
  by (simp add: jindex_def map_of_sort)


text \<open>The canonical bytes of a document that has them.\<close>

definition bytes_of :: "json \<Rightarrow> string" where
  "bytes_of j = (case package_json_bytes j of Inr b \<Rightarrow> b | Inl _ \<Rightarrow> [])"

lemma bytes_of_loads: "json_ok j \<Longrightarrow> rbind (utf8_decode (bytes_of j)) loads = Inr (canon j)"
  using package_bytes_utf8 [of j] by (auto simp: bytes_of_def)

lemma bytes_of_decode: "json_ok j \<Longrightarrow> decode_canonical_json (bytes_of j) = Inr (canon j)"
  using package_bytes_decode [of j] by (auto simp: bytes_of_def)

lemma package_bytes_of: "json_ok j \<Longrightarrow> package_json_bytes j = Inr (bytes_of j)"
  using package_bytes_decode [of j] by (auto simp: bytes_of_def)

subsection \<open>Properties\<close>

text \<open>
  C34. Canonical JSON is lossless: for every document without floats, whose integers have at
  most 4300 digits and whose objects repeat no key, both serialisers succeed, and decoding
  the bytes gives the document back with its keys sorted.
\<close>

theorem canonical_json_roundtrip:
  assumes "json_ok v"
  shows "(\<exists>b. canonical_json_bytes v = Inr b \<and> rbind (utf8_decode b) loads = Inr (canon v))
    \<and> (\<exists>b. package_json_bytes v = Inr b \<and> decode_canonical_json b = Inr (canon v))"
  using canonical_bytes_decode [OF assms] package_bytes_decode [OF assms] by simp

definition sample_json :: json where
  "sample_json = JObj [(''b'', JInt (-20)), (''a'', JList [JNull, JStr [CHR 0x0A, CHR 0xE9]])]"

lemma sample_json_ok: "json_ok sample_json"
  by (simp add: sample_json_def nat_str_eval max_str_digits_def)

lemma canonical_json_roundtrip_witness:
  "\<exists>b. canonical_json_bytes sample_json = Inr b \<and> rbind (utf8_decode b) loads = Inr (canon sample_json)"
  using canonical_json_roundtrip [OF sample_json_ok] by blast

text \<open>
  C35. Canonical bytes identify a document: two such documents have equal bytes exactly when
  they are equal up to the order of keys, so a digest of the bytes is a digest of the
  document.
\<close>

theorem canonical_json_identifies:
  assumes "json_ok v" and "json_ok w"
  shows "(canonical_json_bytes v = canonical_json_bytes w \<longleftrightarrow> canon v = canon w)
    \<and> (package_json_bytes v = package_json_bytes w \<longleftrightarrow> canon v = canon w)"
proof -
  have d: "dumps asc v = dumps asc w" if "canon v = canon w" for asc
    using dumps_canon [OF assms(1), of asc] dumps_canon [OF assms(2), of asc] that by simp
  have "canonical_json_bytes v = canonical_json_bytes w" "package_json_bytes v = package_json_bytes w" if "canon v = canon w"
    using d [OF that] require_json_ok [OF assms(1)] require_json_ok [OF assms(2)]
    by (simp_all add: canonical_json_bytes_def package_json_bytes_def)
  moreover note canonical_bytes_decode [OF assms(1)] canonical_bytes_decode [OF assms(2)]
    package_bytes_decode [OF assms(1)] package_bytes_decode [OF assms(2)]
  ultimately show ?thesis using assms by (metis Inr_inject)
qed

lemma canonical_json_identifies_witness:
  "canonical_json_bytes sample_json = canonical_json_bytes (JObj [(''a'', JList [JNull, JStr [CHR 0x0A, CHR 0xE9]]), (''b'', JInt (-20))])"
proof -
  let ?w = "JObj [(''a'', JList [JNull, JStr [CHR 0x0A, CHR 0xE9]]), (''b'', JInt (-20))]"
  have "json_ok ?w" by (simp add: nat_str_eval max_str_digits_def)
  moreover have "canon sample_json = canon ?w" by code_simp
  ultimately show ?thesis using canonical_json_identifies [OF sample_json_ok] by blast
qed

end
