(* ===== verification/Sha256.thy ===== *)
theory Sha256
  imports Provenance Json "HOL-Library.Word"
begin

section \<open>SHA-256 (\<open>hashlib.sha256(...).hexdigest()\<close>)\<close>

text \<open>
  The digest the program uses everywhere, as FIPS 180-4 defines it, on 32-bit words. No
  property of the development relies on collision resistance; what is used is that the
  digest is a function of the bytes and prints as 64 lower-case hexadecimal digits.
\<close>

unbundle bit_operations_syntax

type_synonym w32 = "32 word"

text \<open>The first 32 fractional bits of the cube roots of the first 64 primes.\<close>

definition K :: "w32 list" where
  "K = [1116352408, 1899447441, 3049323471, 3921009573, 961987163, 1508970993, 2453635748, 2870763221,
        3624381080, 310598401, 607225278, 1426881987, 1925078388, 2162078206, 2614888103, 3248222580,
        3835390401, 4022224774, 264347078, 604807628, 770255983, 1249150122, 1555081692, 1996064986,
        2554220882, 2821834349, 2952996808, 3210313671, 3336571891, 3584528711, 113926993, 338241895,
        666307205, 773529912, 1294757372, 1396182291, 1695183700, 1986661051, 2177026350, 2456956037,
        2730485921, 2820302411, 3259730800, 3345764771, 3516065817, 3600352804, 4094571909, 275423344,
        430227734, 506948616, 659060556, 883997877, 958139571, 1322822218, 1537002063, 1747873779,
        1955562222, 2024104815, 2227730452, 2361852424, 2428436474, 2756734187, 3204031479, 3329325298]"

type_synonym hash_state = "w32 \<times> w32 \<times> w32 \<times> w32 \<times> w32 \<times> w32 \<times> w32 \<times> w32"

text \<open>The first 32 fractional bits of the square roots of the first eight primes.\<close>

definition H0 :: hash_state where
  "H0 = (1779033703, 3144134277, 1013904242, 2773480762, 1359893119, 2600822924, 528734635, 1541459225)"

definition small_sigma :: "nat \<Rightarrow> nat \<Rightarrow> nat \<Rightarrow> w32 \<Rightarrow> w32" where
  "small_sigma p q r x = word_rotr p x XOR word_rotr q x XOR drop_bit r x"

definition big_sigma :: "nat \<Rightarrow> nat \<Rightarrow> nat \<Rightarrow> w32 \<Rightarrow> w32" where
  "big_sigma p q r x = word_rotr p x XOR word_rotr q x XOR word_rotr r x"

fun schedule :: "nat \<Rightarrow> w32 list \<Rightarrow> w32 list" where
  "schedule 0 w = w"
| "schedule (Suc k) w =
     (let t = length w
      in schedule k (w @ [small_sigma 17 19 10 (w ! (t - 2)) + w ! (t - 7)
                          + small_sigma 7 18 3 (w ! (t - 15)) + w ! (t - 16)]))"

definition sha_round :: "hash_state \<Rightarrow> w32 \<times> w32 \<Rightarrow> hash_state" where
  "sha_round st kw =
     (case st of (a, b, c, d, e, f, g, h) \<Rightarrow>
        let t1 = h + big_sigma 6 11 25 e + ((e AND f) XOR ((NOT e) AND g)) + fst kw + snd kw;
            t2 = big_sigma 2 13 22 a + ((a AND b) XOR (a AND c) XOR (b AND c))
        in (t1 + t2, a, b, c, d + t1, e, f, g))"

fun be_words :: "string \<Rightarrow> w32 list" where
  "be_words (a # b # c # d # s) =
     of_nat (((code a * 256 + code b) * 256 + code c) * 256 + code d) # be_words s"
| "be_words _ = []"

definition add_state :: "hash_state \<Rightarrow> hash_state \<Rightarrow> hash_state" where
  "add_state x y =
     (case (x, y) of ((a, b, c, d, e, f, g, h), (a', b', c', d', e', f', g', h')) \<Rightarrow>
        (a + a', b + b', c + c', d + d', e + e', f + f', g + g', h + h'))"

definition compress :: "hash_state \<Rightarrow> string \<Rightarrow> hash_state" where
  "compress st block = add_state st (foldl sha_round st (zip K (schedule 48 (be_words block))))"

fun blocks :: "nat \<Rightarrow> string \<Rightarrow> string list" where
  "blocks 0 s = []"
| "blocks (Suc k) s = take 64 s # blocks k (drop 64 s)"

fun be_bytes :: "nat \<Rightarrow> nat \<Rightarrow> string" where
  "be_bytes 0 n = []"
| "be_bytes (Suc k) n = be_bytes k (n div 256) @ [char_of (n mod 256)]"

definition sha_pad :: "string \<Rightarrow> string" where
  "sha_pad m = m @ CHR 0x80 # replicate ((119 - length m mod 64) mod 64) CHR 0x00 @ be_bytes 8 (8 * length m)"

definition state_hex :: "hash_state \<Rightarrow> string" where
  "state_hex st =
     (case st of (a, b, c, d, e, f, g, h) \<Rightarrow>
        concat (map (\<lambda>w. hex_pad 8 (unat w)) [a, b, c, d, e, f, g, h]))"

definition sha256_bytes :: "string \<Rightarrow> string" where
  "sha256_bytes payload =
     (let p = sha_pad payload
      in state_hex (foldl compress H0 (blocks (length p div 64) p)))"

lemma is_sha256_digest [simp]: "is_sha256 (sha256_bytes m)"
proof -
  have "length (state_hex st) = 64 \<and> list_all is_hex_lower (state_hex st)" for st
    by (cases st) (auto simp: state_hex_def list_all_iff dest: hex_pad_chars)
  then show ?thesis by (simp add: sha256_bytes_def is_sha256_def Let_def)
qed

lemma length_digest [simp]: "length (sha256_bytes m) = 64"
  using is_sha256_digest [of m] by (simp add: is_sha256_def)

lemma hex_digest: "list_all is_hex_lower (sha256_bytes m)"
  using is_sha256_digest [of m] by (simp add: is_sha256_def)

end
