(* ===== verification/Evidence.thy ===== *)
theory Evidence
  imports Sha256
begin

section \<open>Capture evidence records (\<open>liqvera_contracts/evidence.py\<close>)\<close>

text \<open>
  The immutable records that an evidence reader returns, each with the checks of its
  constructor. A constructor is a function from the field values to a result; a check that
  the field has the declared Python type is discharged by the type of the field.
\<close>

definition require_evidence_sha256 :: "string \<Rightarrow> unit res" where
  "require_evidence_sha256 v =
     require (\<not> (length v \<noteq> 64 \<or> list_ex (\<lambda>c. \<not> is_hex_lower c) v)) ValueError (Inr ())"

definition require_evidence_timestamp :: "int \<Rightarrow> unit res" where
  "require_evidence_timestamp v = require (\<not> v < 0) TypeError (Inr ())"

record CaptureManifest =
  mf_capture_run_id :: uuid
  started_at_ms :: int
  venue_set :: "string list"
  schema_version :: string

definition capture_manifest :: "CaptureManifest \<Rightarrow> CaptureManifest res" where
  "capture_manifest m =
     rbind (require_evidence_timestamp (started_at_ms m)) (\<lambda>_.
     require (venue_set m \<noteq> []) ValueError (
     require (schema_version m \<noteq> []) ValueError (Inr m)))"

record CaptureTerminal =
  tm_capture_run_id :: uuid
  terminated_at_ms :: int
  status :: string

definition capture_terminal_record :: "CaptureTerminal \<Rightarrow> CaptureTerminal res" where
  "capture_terminal_record t =
     rbind (require_evidence_timestamp (terminated_at_ms t)) (\<lambda>_.
     require (status t \<noteq> []) ValueError (Inr t))"

record ControlEvidenceRecord =
  ce_capture_run_id :: uuid
  recorded_at_ms :: int
  ce_kind :: string
  ce_payload_sha256 :: string

definition control_evidence_record :: "ControlEvidenceRecord \<Rightarrow> ControlEvidenceRecord res" where
  "control_evidence_record r =
     rbind (require_evidence_timestamp (recorded_at_ms r)) (\<lambda>_.
     require (ce_kind r \<noteq> []) ValueError (
     rbind (require_evidence_sha256 (ce_payload_sha256 r)) (\<lambda>_. Inr r)))"

record RawBatchRecord =
  rb_capture_run_id :: uuid
  batch_index :: int
  stored_sha256 :: string
  content_sha256 :: string
  rb_payload :: string

definition raw_batch_record :: "RawBatchRecord \<Rightarrow> RawBatchRecord res" where
  "raw_batch_record r =
     require (\<not> batch_index r < 0) ValueError (
     rbind (require_evidence_sha256 (stored_sha256 r)) (\<lambda>_.
     rbind (require_evidence_sha256 (content_sha256 r)) (\<lambda>_. Inr r)))"

record RawPublicEnvelope =
  en_capture_run_id :: uuid
  en_index :: int
  observed_at_ms :: int
  en_venue :: string
  en_payload_sha256 :: string
  payload :: string

definition raw_public_envelope :: "RawPublicEnvelope \<Rightarrow> RawPublicEnvelope res" where
  "raw_public_envelope e =
     require (\<not> en_index e < 0) ValueError (
     rbind (require_evidence_timestamp (observed_at_ms e)) (\<lambda>_.
     require (en_venue e \<noteq> []) ValueError (
     rbind (require_evidence_sha256 (en_payload_sha256 e)) (\<lambda>_. Inr e))))"

record QualityMinuteRecord =
  qm_capture_run_id :: uuid
  minute_start_ms :: int
  qm_venue :: string
  accepted :: int
  rejected :: int

definition quality_minute_record :: "QualityMinuteRecord \<Rightarrow> QualityMinuteRecord res" where
  "quality_minute_record r =
     rbind (require_evidence_timestamp (minute_start_ms r)) (\<lambda>_.
     require (qm_venue r \<noteq> []) ValueError (
     require (\<not> accepted r < 0) ValueError (
     require (\<not> rejected r < 0) ValueError (Inr r))))"

record MappingSnapshot =
  ms_capture_run_id :: uuid
  mappings :: "MarketMappingEvidence list"
  snapshot_sha256 :: string

definition mapping_snapshot :: "MappingSnapshot \<Rightarrow> MappingSnapshot res" where
  "mapping_snapshot s = rbind (require_evidence_sha256 (snapshot_sha256 s)) (\<lambda>_. Inr s)"

lemma require_evidence_sha256_Inr [simp]: "require_evidence_sha256 v = Inr () \<longleftrightarrow> is_sha256 v"
  by (auto simp: require_evidence_sha256_def require_eq_Inr is_sha256_def list_all_iff list_ex_iff)

lemma require_evidence_timestamp_Inr [simp]: "require_evidence_timestamp v = Inr () \<longleftrightarrow> 0 \<le> v"
  by (auto simp: require_evidence_timestamp_def require_eq_Inr)

definition envelope_wf :: "RawPublicEnvelope \<Rightarrow> bool" where
  "envelope_wf e \<longleftrightarrow> 0 \<le> en_index e \<and> 0 \<le> observed_at_ms e \<and> en_venue e \<noteq> [] \<and> is_sha256 (en_payload_sha256 e)"

lemma raw_public_envelope_Inr: "raw_public_envelope e = Inr e' \<longleftrightarrow> e' = e \<and> envelope_wf e"
  by (auto simp: raw_public_envelope_def envelope_wf_def require_eq_Inr rbind_eq_Inr)

end
