(* ===== verification/BookSide.thy ===== *)
theory BookSide
  imports Market
begin

section \<open>The contract of one side of a book\<close>

text \<open>
  Two components keep a side of a Lighter book under deltas: the analyzer rewrites a tuple
  of levels (\<open>reconstruction/lighter.py\<close>, \<open>_apply_side\<close>), the live adapter a dictionary from
  price to size (\<open>public_adapters/lighter.py\<close>, \<open>_apply_levels\<close>). The locale states what both
  promise: a side is a finite map from price to size, a delta of size zero removes the
  price, any other sets it. What the clients need of a sequence of deltas is proved here once.
\<close>

type_synonym delta = "pydec \<times> pydec"

text \<open>A delta as both decoders admit it: finite, price positive, size not negative.\<close>

definition delta_ok :: "delta \<Rightarrow> bool" where
  "delta_ok d \<longleftrightarrow> is_finite (fst d) \<and> is_finite (snd d) \<and> 0 < dec_val (fst d) \<and> 0 \<le> dec_val (snd d)"

definition delta_map :: "(rat \<rightharpoonup> rat) \<Rightarrow> delta \<Rightarrow> (rat \<rightharpoonup> rat)" where
  "delta_map m d = m(dec_val (fst d) := (if dec_val (snd d) = 0 then None else Some (dec_val (snd d))))"

definition positive_map :: "(rat \<rightharpoonup> rat) \<Rightarrow> bool" where
  "positive_map m \<longleftrightarrow> (\<forall>p q. m p = Some q \<longrightarrow> 0 < p \<and> 0 < q)"

lemma positive_delta_map: "positive_map m \<Longrightarrow> delta_ok d \<Longrightarrow> positive_map (delta_map m d)"
  by (auto simp: positive_map_def delta_map_def delta_ok_def)

locale book_side =
  fixes inv :: "'s \<Rightarrow> bool" and lookup :: "'s \<Rightarrow> rat \<rightharpoonup> rat"
    and delete :: "pydec \<Rightarrow> 's \<Rightarrow> 's" and put :: "pydec \<Rightarrow> pydec \<Rightarrow> 's \<Rightarrow> 's"
  assumes inv_delete: "inv s \<Longrightarrow> is_finite p \<Longrightarrow> inv (delete p s)"
    and inv_put: "inv s \<Longrightarrow> delta_ok (p, z) \<Longrightarrow> dec_val z \<noteq> 0 \<Longrightarrow> inv (put p z s)"
    and lookup_delete: "inv s \<Longrightarrow> is_finite p \<Longrightarrow> lookup (delete p s) = (lookup s)(dec_val p := None)"
    and lookup_put: "inv s \<Longrightarrow> delta_ok (p, z) \<Longrightarrow> dec_val z \<noteq> 0 \<Longrightarrow>
      lookup (put p z s) = (lookup s)(dec_val p \<mapsto> dec_val z)"
begin

definition step :: "'s \<Rightarrow> delta \<Rightarrow> 's" where
  "step s d = (if dec_val (snd d) = 0 then delete (fst d) s else put (fst d) (snd d) s)"

lemma step_inv: "inv s \<Longrightarrow> delta_ok d \<Longrightarrow> inv (step s d)"
  by (cases d) (auto simp: step_def delta_ok_def intro: inv_delete inv_put)

lemma step_lookup: "inv s \<Longrightarrow> delta_ok d \<Longrightarrow> lookup (step s d) = delta_map (lookup s) d"
proof (cases d)
  case (Pair p z)
  assume "inv s" and "delta_ok d"
  then show ?thesis
    using Pair lookup_delete [of s p] lookup_put [of s p z] by (auto simp: step_def delta_map_def delta_ok_def)
qed

lemma run_correct:
  "inv s \<Longrightarrow> list_all delta_ok ds \<Longrightarrow>
     inv (foldl step s ds) \<and> lookup (foldl step s ds) = foldl delta_map (lookup s) ds"
  by (induction ds arbitrary: s) (auto simp: step_inv step_lookup)

lemma run_positive:
  assumes "inv s" and "positive_map (lookup s)" and "list_all delta_ok ds"
  shows "positive_map (lookup (foldl step s ds))"
proof -
  have "positive_map (foldl delta_map m ds)" if "positive_map m" for m
    using assms(3) that by (induction ds arbitrary: m) (auto intro: positive_delta_map)
  then show ?thesis using run_correct [OF assms(1,3)] assms(2) by simp
qed

end

end
