(* ===== verification/Reconstruction.thy ===== *)
theory Reconstruction
  imports Evidence BookSide
begin

section \<open>Book reconstruction (\<open>reconstruction/common.py\<close>, \<open>hyperliquid.py\<close>, \<open>lighter.py\<close>)\<close>

text \<open>
  Decoding of captured wire envelopes into order books: Hyperliquid snapshots stand alone,
  Lighter snapshots open an epoch of a channel that contiguous updates extend and a nonce
  gap closes. The main loop is a fold of \<open>reconstruct_step\<close> over the envelopes on the state
  \<open>recon_state\<close>.
\<close>

subsection \<open>Reconstructed books\<close>

definition HYPERLIQUID_DECODER_ID :: string where
  "HYPERLIQUID_DECODER_ID = ''liqvera-hyperliquid-l2book-snapshot/v1''"

definition LIGHTER_DECODER_ID :: string where
  "LIGHTER_DECODER_ID = ''liqvera-lighter-subscribed-order-book-snapshot/v1''"

definition CHANNEL_PREFIX :: string where
  "CHANNEL_PREFIX = ''order_book:''"

record ReconstructedBook =
  snapshot :: OrderBookSnapshot
  rk_envelope_index :: int
  rk_payload_sha256 :: string
  decoder_id :: string
  epoch_id :: int
  rk_mapping_id :: "string option"
  rk_mapping :: "MarketMappingEvidence option"
  channel :: "string option"

definition require_channel :: "string \<Rightarrow> string option \<Rightarrow> unit res" where
  "require_channel vn ch =
     (if vn = ''HYPERLIQUID'' then require (ch = None) ReconstructionError (Inr ())
      else case ch of
          None \<Rightarrow> Inl ReconstructionError
        | Some c \<Rightarrow>
            require (prefix CHANNEL_PREFIX c) ReconstructionError (
            let suffix = drop (length CHANNEL_PREFIX) c
            in require (isdigit suffix) ReconstructionError (
               rbind (int_of_str suffix) (\<lambda>_. Inr ()))))"

definition reconstructed_book :: "ReconstructedBook \<Rightarrow> ReconstructedBook res" where
  "reconstructed_book b =
     (let vn = ob_venue (snapshot b);
          rest =
            require (\<not> rk_envelope_index b < 0) ReconstructionError (
            require (\<not> epoch_id b < 0) ReconstructionError (
            require (\<not> (length (rk_payload_sha256 b) \<noteq> 64
                        \<or> list_ex (\<lambda>c. \<not> is_hex_lower c) (rk_payload_sha256 b))) ReconstructionError (
            require ((rk_mapping b = None) = (rk_mapping_id b = None)) ReconstructionError (
            require (rk_mapping_id b \<noteq> Some []) ReconstructionError (
            require (case rk_mapping b of None \<Rightarrow> True
                     | Some m \<Rightarrow> Some (mapping_id m) = rk_mapping_id b) ReconstructionError (
            rbind (require_channel vn (channel b)) (\<lambda>_. Inr b)))))))
      in if vn = ''HYPERLIQUID'' then
           require (sequence (snapshot b) = None) ReconstructionError (
           require (decoder_id b = HYPERLIQUID_DECODER_ID) ReconstructionError rest)
         else if vn = ''LIGHTER'' then
           require (sequence (snapshot b) \<noteq> None) ReconstructionError (
           require (decoder_id b = LIGHTER_DECODER_ID) ReconstructionError rest)
         else Inl ReconstructionError)"

subsection \<open>Hyperliquid\<close>

text \<open>\<open>BookLevel(Decimal(str(price)), Decimal(str(quantity)))\<close> of two parsed texts.\<close>

definition parsed_level :: "string \<Rightarrow> string \<Rightarrow> (pydec \<times> pydec) res" where
  "parsed_level px sz =
     rbind (exact_parse px) (\<lambda>p.
     rbind (exact_parse sz) (\<lambda>q.
     rbind (dec_of_str (exact_str p)) (\<lambda>pd.
     rbind (dec_of_str (exact_str q)) (\<lambda>qd. Inr (pd, qd)))))"

definition book_level_item :: "string \<Rightarrow> string \<Rightarrow> json \<Rightarrow> BookLevel res" where
  "book_level_item pk sk item =
     (case item of
        JObj d \<Rightarrow>
          (case (jget d pk, jget d sk) of
             (JStr px, JStr sz) \<Rightarrow> rbind (parsed_level px sz) (\<lambda>(p, q). book_level p q)
           | _ \<Rightarrow> Inl ReconstructionError)
      | _ \<Rightarrow> Inl ReconstructionError)"

definition book_levels :: "string \<Rightarrow> string \<Rightarrow> json \<Rightarrow> BookLevel list res" where
  "book_levels pk sk raw =
     (case raw of JList items \<Rightarrow> rmap (book_level_item pk sk) items | _ \<Rightarrow> Inl ReconstructionError)"

definition hyperliquid_book_levels :: "json \<Rightarrow> BookLevel list res" where
  "hyperliquid_book_levels = book_levels ''px'' ''sz''"

definition hyperliquid_decode :: "string \<Rightarrow> int \<Rightarrow> OrderBookSnapshot res" where
  "hyperliquid_decode pl observed =
     rbind (rbind (utf8_decode pl) loads) (\<lambda>document.
     case document of
       JObj d \<Rightarrow>
         (case jget d ''coin'' of
            JStr coin \<Rightarrow>
              require (strip coin \<noteq> []) ReconstructionError (
              case jget d ''time'' of
                JInt time \<Rightarrow>
                  (case jget d ''levels'' of
                     JList [b, a] \<Rightarrow>
                       rbind (hyperliquid_book_levels b) (\<lambda>bs.
                       rbind (hyperliquid_book_levels a) (\<lambda>as.
                       order_book_snapshot \<lparr>ob_venue = ''HYPERLIQUID'', ob_symbol = coin, sequence = None,
                         exchange_timestamp_ms = time, received_timestamp_ms = observed, bids = bs, asks = as\<rparr>))
                   | _ \<Rightarrow> Inl ReconstructionError)
              | _ \<Rightarrow> Inl ReconstructionError)
          | _ \<Rightarrow> Inl ReconstructionError)
     | _ \<Rightarrow> Inl ReconstructionError)"

text \<open>
  The handlers of both decoders: \<open>ReconstructionError\<close> passes, every other \<open>ValueError\<close> and
  \<open>TypeError\<close> becomes one.
\<close>

abbreviation decode_error :: "py_exc \<Rightarrow> bool" where
  "decode_error e \<equiv> is_value_error e \<or> e = TypeError"

definition decode_hyperliquid_l2book :: "string \<Rightarrow> int \<Rightarrow> OrderBookSnapshot res" where
  "decode_hyperliquid_l2book pl observed =
     reraise decode_error ReconstructionError (hyperliquid_decode pl observed)"

subsection \<open>Lighter\<close>

record LighterSnapshot =
  ls_channel :: string
  ls_symbol :: "string option"
  ls_timestamp :: int
  ls_nonce :: int
  ls_bids :: "BookLevel list"
  ls_asks :: "BookLevel list"

record LighterUpdate =
  lu_channel :: string
  lu_symbol :: "string option"
  lu_timestamp :: int
  lu_nonce :: int
  lu_begin_nonce :: int
  lu_bids :: "delta list"
  lu_asks :: "delta list"

datatype decoded = DSnapshot LighterSnapshot | DUpdate LighterUpdate

definition lighter_channel :: "(string \<times> json) list \<Rightarrow> string res" where
  "lighter_channel d =
     (case jget d ''channel'' of
        JStr c \<Rightarrow>
          require (c \<noteq> []) ReconstructionError (
          require (prefix CHANNEL_PREFIX c) ReconstructionError (
          let suffix = drop (length CHANNEL_PREFIX) c
          in require (isdigit suffix) ReconstructionError (
             rbind (int_of_str suffix) (\<lambda>_. Inr c))))
      | _ \<Rightarrow> Inl ReconstructionError)"

definition optional_symbol :: "(string \<times> json) list \<Rightarrow> string option res" where
  "optional_symbol d =
     (case map_of d ''symbol'' of
        None \<Rightarrow> Inr None
      | Some (JStr s) \<Rightarrow> require (s \<noteq> []) ReconstructionError (Inr (Some s))
      | Some _ \<Rightarrow> Inl ReconstructionError)"

definition recon_require_int :: "json \<Rightarrow> int res" where
  "recon_require_int v = (case v of JInt i \<Rightarrow> Inr i | _ \<Rightarrow> Inl ReconstructionError)"

definition lighter_book_levels :: "json \<Rightarrow> BookLevel list res" where
  "lighter_book_levels = book_levels ''price'' ''size''"

definition delta_item :: "json \<Rightarrow> delta res" where
  "delta_item item =
     (case item of
        JObj d \<Rightarrow>
          (case (jget d ''price'', jget d ''size'') of
             (JStr px, JStr sz) \<Rightarrow>
               rbind (parsed_level px sz) (\<lambda>(p, q).
               rbind (dec_le0 p) (\<lambda>le.
               require (\<not> (le \<or> dec_lt q (DFin False 0 0))) ReconstructionError (Inr (p, q))))
           | _ \<Rightarrow> Inl ReconstructionError)
      | _ \<Rightarrow> Inl ReconstructionError)"

definition delta_levels :: "json \<Rightarrow> delta list res" where
  "delta_levels raw =
     (case raw of JList items \<Rightarrow> rmap delta_item items | _ \<Rightarrow> Inl ReconstructionError)"

definition decode_snapshot :: "(string \<times> json) list \<Rightarrow> LighterSnapshot res" where
  "decode_snapshot d =
     rbind (lighter_channel d) (\<lambda>c.
     rbind (recon_require_int (jget d ''timestamp'')) (\<lambda>ts.
     rbind (optional_symbol d) (\<lambda>ticker.
     case jget d ''order_book'' of
       JObj ob \<Rightarrow>
         rbind (recon_require_int (jget ob ''nonce'')) (\<lambda>n.
         rbind (lighter_book_levels (jget ob ''bids'')) (\<lambda>bs.
         rbind (lighter_book_levels (jget ob ''asks'')) (\<lambda>as.
         Inr \<lparr>ls_channel = c, ls_symbol = ticker, ls_timestamp = ts, ls_nonce = n, ls_bids = bs, ls_asks = as\<rparr>)))
     | _ \<Rightarrow> Inl ReconstructionError)))"

definition decode_update :: "(string \<times> json) list \<Rightarrow> LighterUpdate res" where
  "decode_update d =
     rbind (lighter_channel d) (\<lambda>c.
     rbind (recon_require_int (jget d ''timestamp'')) (\<lambda>ts.
     rbind (optional_symbol d) (\<lambda>ticker.
     case jget d ''order_book'' of
       JObj ob \<Rightarrow>
         rbind (recon_require_int (jget ob ''begin_nonce'')) (\<lambda>bn.
         rbind (recon_require_int (jget ob ''nonce'')) (\<lambda>n.
         rbind (delta_levels (jget ob ''bids'')) (\<lambda>bs.
         rbind (delta_levels (jget ob ''asks'')) (\<lambda>as.
         Inr \<lparr>lu_channel = c, lu_symbol = ticker, lu_timestamp = ts, lu_nonce = n, lu_begin_nonce = bn,
              lu_bids = bs, lu_asks = as\<rparr>))))
     | _ \<Rightarrow> Inl ReconstructionError)))"

definition decode_envelope :: "string \<Rightarrow> decoded res" where
  "decode_envelope pl =
     rbind (rbind (utf8_decode pl) loads) (\<lambda>document.
     case document of
       JObj d \<Rightarrow>
         if jget d ''type'' = JStr ''subscribed/order_book'' then
           rbind (decode_snapshot d) (\<lambda>s. Inr (DSnapshot s))
         else if jget d ''type'' = JStr ''update/order_book'' then
           rbind (decode_update d) (\<lambda>u. Inr (DUpdate u))
         else Inl ReconstructionError
     | _ \<Rightarrow> Inl ReconstructionError)"

definition decode_lighter_envelope :: "string \<Rightarrow> decoded res" where
  "decode_lighter_envelope pl = reraise decode_error ReconstructionError (decode_envelope pl)"

definition lighter_snapshot_book :: "string \<Rightarrow> LighterSnapshot \<Rightarrow> int \<Rightarrow> OrderBookSnapshot res" where
  "lighter_snapshot_book ticker s observed =
     reraise decode_error ReconstructionError
       (order_book_snapshot \<lparr>ob_venue = ''LIGHTER'', ob_symbol = ticker, sequence = Some (ls_nonce s),
          exchange_timestamp_ms = ls_timestamp s, received_timestamp_ms = observed,
          bids = ls_bids s, asks = ls_asks s\<rparr>)"

definition decode_lighter_subscribed_order_book :: "string \<Rightarrow> int \<Rightarrow> OrderBookSnapshot res" where
  "decode_lighter_subscribed_order_book pl observed =
     rbind (decode_lighter_envelope pl) (\<lambda>dec.
     case dec of
       DSnapshot s \<Rightarrow> (case ls_symbol s of
           None \<Rightarrow> Inl ReconstructionError
         | Some ticker \<Rightarrow> lighter_snapshot_book ticker s observed)
     | DUpdate _ \<Rightarrow> Inl ReconstructionError)"

subsection \<open>Applying an update to one side\<close>

fun replace_or_append :: "pydec \<Rightarrow> BookLevel \<Rightarrow> BookLevel list \<Rightarrow> BookLevel list" where
  "replace_or_append p new [] = [new]"
| "replace_or_append p new (level # levels) =
     (if dec_eq (price level) p then new # levels else level # replace_or_append p new levels)"

definition apply_delta :: "BookLevel list \<Rightarrow> delta \<Rightarrow> BookLevel list res" where
  "apply_delta levels d =
     (case d of (p, sz) \<Rightarrow>
        if dec_eq sz (DFin False 0 0) then Inr (filter (\<lambda>l. \<not> dec_eq (price l) p) levels)
        else rbind (book_level p sz) (\<lambda>new. Inr (replace_or_append p new levels)))"

definition apply_side :: "BookLevel list \<Rightarrow> delta list \<Rightarrow> BookLevel list res" where
  "apply_side previous deltas = rfold apply_delta previous deltas"

definition apply_lighter_update :: "OrderBookSnapshot \<Rightarrow> LighterUpdate \<Rightarrow> int \<Rightarrow> OrderBookSnapshot res" where
  "apply_lighter_update previous u observed =
     rbind (apply_side (bids previous) (lu_bids u)) (\<lambda>bs.
     rbind (apply_side (asks previous) (lu_asks u)) (\<lambda>as.
     order_book_snapshot \<lparr>ob_venue = ''LIGHTER'',
       ob_symbol = (case lu_symbol u of Some s \<Rightarrow> s | None \<Rightarrow> ob_symbol previous),
       sequence = Some (lu_nonce u), exchange_timestamp_ms = lu_timestamp u,
       received_timestamp_ms = observed, bids = bs, asks = as\<rparr>))"

definition lighter_ticker_for_channel ::
  "string \<Rightarrow> MarketMappingEvidence list \<Rightarrow> int \<Rightarrow> string res" where
  "lighter_ticker_for_channel ch ms observed =
     rbind (int_of_str (drop (length CHANNEL_PREFIX) ch)) (\<lambda>index.
     let candidates = filter (\<lambda>m. decision m = APPROVED \<and> casefold (me_venue m) = ''lighter''
           \<and> lighter_market_index m = Some index \<and> observed \<ge> valid_from_ms m
           \<and> (case valid_until_ms m of None \<Rightarrow> True | Some u \<Rightarrow> observed \<le> u)) ms
     in (case candidates of [m] \<Rightarrow> Inr (me_symbol m) | _ \<Rightarrow> Inl ReconstructionError))"

subsection \<open>The reconstruction loop\<close>

record recon_state =
  books :: "ReconstructedBook list"
  previous_index :: "int option"
  next_epoch :: int
  lighter_epochs :: "(string \<times> OrderBookSnapshot) list"

definition recon_init :: recon_state where
  "recon_init = \<lparr>books = [], previous_index = None, next_epoch = 0, lighter_epochs = []\<rparr>"

definition append_book ::
  "recon_state \<Rightarrow> RawPublicEnvelope \<Rightarrow> OrderBookSnapshot \<Rightarrow> string \<Rightarrow> string option \<Rightarrow> recon_state res" where
  "append_book st env snap dec ch =
     rbind (reconstructed_book \<lparr>snapshot = snap, rk_envelope_index = en_index env,
              rk_payload_sha256 = en_payload_sha256 env, decoder_id = dec, epoch_id = next_epoch st,
              rk_mapping_id = None, rk_mapping = None, channel = ch\<rparr>) (\<lambda>b.
     Inr (st\<lparr>books := books st @ [b], next_epoch := next_epoch st + 1\<rparr>))"

definition close_epoch :: "recon_state \<Rightarrow> string \<Rightarrow> recon_state" where
  "close_epoch st ch = st\<lparr>lighter_epochs := AList.delete ch (lighter_epochs st)\<rparr>"

definition open_epoch :: "recon_state \<Rightarrow> string \<Rightarrow> OrderBookSnapshot \<Rightarrow> recon_state" where
  "open_epoch st ch snap = st\<lparr>lighter_epochs := AList.update ch snap (lighter_epochs st)\<rparr>"

definition hyperliquid_step :: "recon_state \<Rightarrow> RawPublicEnvelope \<Rightarrow> recon_state res" where
  "hyperliquid_step st env =
     rbind (decode_hyperliquid_l2book (payload env) (observed_at_ms env)) (\<lambda>snap.
     append_book st env snap HYPERLIQUID_DECODER_ID None)"

definition lighter_snapshot_step ::
  "MarketMappingEvidence list \<Rightarrow> recon_state \<Rightarrow> RawPublicEnvelope \<Rightarrow> LighterSnapshot \<Rightarrow> recon_state res" where
  "lighter_snapshot_step ms st env s =
     rbind (case ls_symbol s of Some ticker \<Rightarrow> Inr ticker
            | None \<Rightarrow> lighter_ticker_for_channel (ls_channel s) ms (observed_at_ms env)) (\<lambda>ticker.
     rbind (lighter_snapshot_book ticker s (observed_at_ms env)) (\<lambda>snap.
     append_book (open_epoch st (ls_channel s) snap) env snap LIGHTER_DECODER_ID (Some (ls_channel s))))"

definition lighter_update_step :: "recon_state \<Rightarrow> RawPublicEnvelope \<Rightarrow> LighterUpdate \<Rightarrow> recon_state res" where
  "lighter_update_step st env u =
     (case map_of (lighter_epochs st) (lu_channel u) of
        None \<Rightarrow> Inr st
      | Some prev \<Rightarrow>
          if (case lu_symbol u of None \<Rightarrow> False | Some s \<Rightarrow> s \<noteq> ob_symbol prev)
             \<or> Some (lu_begin_nonce u) \<noteq> sequence prev
             \<or> lu_nonce u \<le> lu_begin_nonce u
          then Inr (close_epoch st (lu_channel u))
          else (case apply_lighter_update prev u (observed_at_ms env) of
              Inr snap \<Rightarrow> append_book (open_epoch st (lu_channel u) snap) env snap LIGHTER_DECODER_ID
                            (Some (lu_channel u))
            | Inl e \<Rightarrow> if e = ReconstructionError then Inl e
                       else if is_value_error e then Inr (close_epoch st (lu_channel u))
                       else Inl e))"

definition lighter_step ::
  "MarketMappingEvidence list \<Rightarrow> recon_state \<Rightarrow> RawPublicEnvelope \<Rightarrow> recon_state res" where
  "lighter_step ms st env =
     rbind (decode_lighter_envelope (payload env)) (\<lambda>dec.
     case dec of
       DSnapshot s \<Rightarrow> lighter_snapshot_step ms st env s
     | DUpdate u \<Rightarrow> lighter_update_step st env u)"

definition reconstruct_step ::
  "MarketMappingEvidence list \<Rightarrow> recon_state \<Rightarrow> RawPublicEnvelope \<Rightarrow> recon_state res" where
  "reconstruct_step ms st env =
     require (\<not> (case previous_index st of None \<Rightarrow> False | Some p \<Rightarrow> en_index env \<le> p)) ReconstructionError (
     let st' = st\<lparr>previous_index := Some (en_index env)\<rparr>;
         vn = casefold (en_venue env)
     in if vn = ''hyperliquid'' then hyperliquid_step st' env
        else if vn = ''lighter'' then lighter_step ms st' env
        else Inr st')"

definition reconstruct_books ::
  "RawPublicEnvelope list \<Rightarrow> MarketMappingEvidence list \<Rightarrow> ReconstructedBook list res" where
  "reconstruct_books envelopes ms =
     rbind (rfold (reconstruct_step ms) recon_init envelopes) (\<lambda>st. Inr (books st))"

subsection \<open>The levels that decoding admits\<close>

text \<open>A level whose price and quantity are positive values of the exact kernel.\<close>

definition admitted :: "pydec \<Rightarrow> bool" where
  "admitted d \<longleftrightarrow> is_finite d \<and> (\<exists>x. exact_from_decimal d = Inr x \<and> 0 \<le> scaled x)"

definition level_admitted :: "BookLevel \<Rightarrow> bool" where
  "level_admitted l \<longleftrightarrow> level_wf l \<and> admitted (price l) \<and> admitted (quantity l)"

definition book_admitted :: "OrderBookSnapshot \<Rightarrow> bool" where
  "book_admitted s \<longleftrightarrow> snapshot_wf s \<and> list_all level_admitted (bids s) \<and> list_all level_admitted (asks s)"

lemma admitted_of_str:
  assumes "exact_parse t = Inr x" and "dec_of_str (exact_str x) = Inr d" and "0 \<le> dec_val d"
  shows "admitted d"
proof -
  have wf: "exact_wf x" using exact_parse_wf [OF assms(1)] .
  have "0 \<le> scaled x"
    using dec_of_exact_str(2) [OF wf assms(2)] assms(3) by (simp add: exact_val_def SCALE_def zero_le_divide_iff)
  then show ?thesis using exact_from_decimal_str [OF wf assms(2)] dec_of_exact_str(1) [OF wf assms(2)]
    by (auto simp: admitted_def)
qed

lemma book_level_item_admitted:
  assumes "book_level_item pk sk item = Inr l"
  shows "level_admitted l"
proof -
  obtain px sz x y where p: "exact_parse px = Inr x" "exact_parse sz = Inr y"
      "dec_of_str (exact_str x) = Inr (price l)" "dec_of_str (exact_str y) = Inr (quantity l)" and l: "level_wf l"
    using assms by (auto simp: book_level_item_def parsed_level_def rbind_eq_Inr book_level_Inr split: json.splits)
  have "is_finite (price l)" "is_finite (quantity l)"
    using dec_of_exact_str(1) exact_parse_wf p by blast+
  then have "0 \<le> dec_val (price l)" "0 \<le> dec_val (quantity l)"
    using l by (simp_all add: level_wf_def dec_pos_val)
  then show ?thesis using l admitted_of_str [OF p(1,3)] admitted_of_str [OF p(2,4)]
    by (simp add: level_admitted_def)
qed

lemma book_levels_admitted: "book_levels pk sk raw = Inr ls \<Longrightarrow> list_all level_admitted ls"
  by (auto simp: book_levels_def list_all_iff split: json.splits dest!: rmap_Inr_set intro: book_level_item_admitted)

definition delta_admitted :: "delta \<Rightarrow> bool" where
  "delta_admitted d \<longleftrightarrow> delta_ok d \<and> admitted (fst d) \<and> admitted (snd d)"

lemma delta_item_admitted:
  assumes "delta_item item = Inr d"
  shows "delta_admitted d"
proof -
  obtain px sz x y where p: "exact_parse px = Inr x" "exact_parse sz = Inr y"
      "dec_of_str (exact_str x) = Inr (fst d)" "dec_of_str (exact_str y) = Inr (snd d)"
    and c: "dec_le0 (fst d) = Inr False" "\<not> dec_lt (snd d) (DFin False 0 0)"
    using assms by (auto simp: delta_item_def parsed_level_def rbind_eq_Inr require_eq_Inr split: json.splits)
  have f: "is_finite (fst d)" "is_finite (snd d)"
    using dec_of_exact_str(1) exact_parse_wf p by blast+
  then have v: "0 < dec_val (fst d)" using c(1) dec_pos_val by (simp add: dec_le0_iff)
  have w: "0 \<le> dec_val (snd d)" using c(2) f(2) by (cases "snd d") (auto simp: dec_val_zero not_less simp del: dec_val.simps)
  show ?thesis using f v w admitted_of_str [OF p(1,3)] admitted_of_str [OF p(2,4)]
    by (simp add: delta_admitted_def delta_ok_def)
qed

lemma delta_levels_admitted: "delta_levels raw = Inr ds \<Longrightarrow> list_all delta_admitted ds"
  by (auto simp: delta_levels_def list_all_iff split: json.splits dest!: rmap_Inr_set intro: delta_item_admitted)


subsection \<open>A side under deltas\<close>

definition side_inv :: "BookLevel list \<Rightarrow> bool" where
  "side_inv ls \<longleftrightarrow> list_all (\<lambda>l. is_finite (price l) \<and> is_finite (quantity l)) ls
     \<and> distinct (map (\<lambda>l. dec_val (price l)) ls)"

definition side_lookup :: "BookLevel list \<Rightarrow> rat \<rightharpoonup> rat" where
  "side_lookup ls = map_of (map (\<lambda>l. (dec_val (price l), dec_val (quantity l))) ls)"

definition side_delete :: "pydec \<Rightarrow> BookLevel list \<Rightarrow> BookLevel list" where
  "side_delete p ls = filter (\<lambda>l. \<not> dec_eq (price l) p) ls"

definition side_put :: "pydec \<Rightarrow> pydec \<Rightarrow> BookLevel list \<Rightarrow> BookLevel list" where
  "side_put p z ls = replace_or_append p \<lparr>price = p, quantity = z\<rparr> ls"

lemma dec_eq_val: "is_finite x \<Longrightarrow> is_finite y \<Longrightarrow> dec_eq x y \<longleftrightarrow> dec_val x = dec_val y"
  by (cases x; cases y) auto

lemma side_lookup_simps [simp]:
  "side_lookup [] = Map.empty"
  "side_lookup (l # ls) = (side_lookup ls)(dec_val (price l) \<mapsto> dec_val (quantity l))"
  by (auto simp: side_lookup_def)

lemma side_inv_simps [simp]:
  "side_inv []"
  "side_inv (l # ls) \<longleftrightarrow> is_finite (price l) \<and> is_finite (quantity l) \<and> dec_val (price l) \<notin> (\<lambda>l. dec_val (price l)) ` set ls \<and> side_inv ls"
  by (auto simp: side_inv_def)

lemma side_lookup_None: "side_lookup ls p = None \<longleftrightarrow> p \<notin> (\<lambda>l. dec_val (price l)) ` set ls"
  by (induction ls) auto

lemma replace_or_append_prices:
  "is_finite p \<Longrightarrow> price new = p \<Longrightarrow> list_all (\<lambda>l. is_finite (price l)) ls \<Longrightarrow>
     (\<lambda>l. dec_val (price l)) ` set (replace_or_append p new ls) = insert (dec_val p) ((\<lambda>l. dec_val (price l)) ` set ls)"
  by (induction ls) (auto simp: dec_eq_val)

lemma side_put_inv:
  assumes "side_inv ls" and "is_finite p" and "is_finite z"
  shows "side_inv (side_put p z ls)"
  using assms
proof (induction ls)
  case (Cons l ls)
  let ?new = "\<lparr>price = p, quantity = z\<rparr>"
  have "list_all (\<lambda>l. is_finite (price l)) ls" using Cons.prems by (auto simp: side_inv_def list_all_iff)
  from replace_or_append_prices [OF assms(2) _ this, of ?new]
  have "(\<lambda>l. dec_val (price l)) ` set (replace_or_append p ?new ls) = insert (dec_val p) ((\<lambda>l. dec_val (price l)) ` set ls)"
    by simp
  then show ?case using Cons by (auto simp: side_put_def dec_eq_val simp del: image_eqI)
qed (simp add: side_put_def)

interpretation ls: book_side side_inv side_lookup side_delete side_put
proof
  fix s p z
  assume inv: "side_inv s"
  show "side_inv (side_delete p s)" if "is_finite p"
    using inv by (auto simp: side_inv_def side_delete_def list_all_iff intro: distinct_map_filter)
  show "side_lookup (side_delete p s) = (side_lookup s)(dec_val p := None)" if "is_finite p"
    using inv that by (induction s) (auto simp: side_delete_def dec_eq_val fun_upd_def side_lookup_None fun_eq_iff)
  assume ok: "delta_ok (p, z)" "dec_val z \<noteq> 0"
  then have p: "is_finite p" "is_finite z" by (auto simp: delta_ok_def)
  show "side_inv (side_put p z s)" using side_put_inv inv p by blast
  show "side_lookup (side_put p z s) = (side_lookup s)(dec_val p \<mapsto> dec_val z)"
    using inv p by (induction s) (auto simp: side_put_def dec_eq_val fun_eq_iff)
qed

lemma apply_delta_step:
  assumes "delta_ok d"
  shows "apply_delta ls d = Inr (ls.step ls d)"
proof -
  obtain p z where d: "d = (p, z)" by fastforce
  have f: "is_finite p" "is_finite z" using assms d by (auto simp: delta_ok_def)
  have z: "dec_eq z (DFin False 0 0) \<longleftrightarrow> dec_val z = 0" using f by (simp add: dec_eq_val)
  have "book_level p z = Inr \<lparr>price = p, quantity = z\<rparr>" if "dec_val z \<noteq> 0"
    using assms d f that by (auto simp: book_level_Inr level_wf_def dec_pos_val delta_ok_def)
  then show ?thesis using z by (auto simp: apply_delta_def ls.step_def side_delete_def side_put_def d)
qed

lemma apply_side_run: "list_all delta_ok ds \<Longrightarrow> apply_side ls ds = Inr (foldl ls.step ls ds)"
  by (induction ds arbitrary: ls) (auto simp: apply_side_def apply_delta_step)

lemma replace_or_append_set: "set (replace_or_append p new ls) \<subseteq> insert new (set ls)"
  by (induction ls) auto

lemma step_admitted:
  assumes "list_all level_admitted ls" and "delta_admitted d"
  shows "list_all level_admitted (ls.step ls d)"
proof (cases "dec_val (snd d) = 0")
  case True
  then show ?thesis using assms by (auto simp: ls.step_def side_delete_def list_all_iff)
next
  case False
  then have "level_admitted \<lparr>price = fst d, quantity = snd d\<rparr>"
    using assms(2) by (auto simp: delta_admitted_def level_admitted_def level_wf_def delta_ok_def dec_pos_val)
  then show ?thesis using False assms(1) replace_or_append_set [of "fst d" "\<lparr>price = fst d, quantity = snd d\<rparr>" ls]
    by (auto simp: ls.step_def side_put_def list_all_iff)
qed

lemma apply_side_admitted:
  assumes "list_all level_admitted ls" and "list_all delta_admitted ds" and "apply_side ls ds = Inr ls'"
  shows "list_all level_admitted ls'"
proof -
  have "list_all delta_ok ds" using assms(2) by (auto simp: list_all_iff delta_admitted_def)
  then have "ls' = foldl ls.step ls ds" using assms(3) apply_side_run by simp
  moreover have "list_all level_admitted (foldl ls.step ls ds)"
    using assms(1,2) by (induction ds arbitrary: ls) (auto simp: step_admitted)
  ultimately show ?thesis by simp
qed

subsection \<open>The specification: independent replays of the channels\<close>

text \<open>
  What the loop should compute, without its shared table: each channel is replayed on its
  own over the envelopes read so far, and an envelope yields a book exactly when it is a
  Hyperliquid snapshot or leaves its own channel with a live book.
\<close>

fun message_channel :: "decoded \<Rightarrow> string" where
  "message_channel (DSnapshot s) = ls_channel s"
| "message_channel (DUpdate u) = lu_channel u"

definition contiguous :: "OrderBookSnapshot \<Rightarrow> LighterUpdate \<Rightarrow> bool" where
  "contiguous prev u \<longleftrightarrow> (lu_symbol u = None \<or> lu_symbol u = Some (ob_symbol prev))
     \<and> sequence prev = Some (lu_begin_nonce u) \<and> lu_begin_nonce u < lu_nonce u"

definition ok :: "'a res \<Rightarrow> 'a option" where
  "ok r = (case r of Inl _ \<Rightarrow> None | Inr x \<Rightarrow> Some x)"

fun advance :: "MarketMappingEvidence list \<Rightarrow> RawPublicEnvelope \<Rightarrow> decoded \<Rightarrow> OrderBookSnapshot option \<Rightarrow> OrderBookSnapshot option" where
  "advance ms env (DSnapshot s) cur =
     ok (rbind (case ls_symbol s of Some ticker \<Rightarrow> Inr ticker
                | None \<Rightarrow> lighter_ticker_for_channel (ls_channel s) ms (observed_at_ms env))
           (\<lambda>ticker. lighter_snapshot_book ticker s (observed_at_ms env)))"
| "advance ms env (DUpdate u) cur =
     (case cur of None \<Rightarrow> None
      | Some prev \<Rightarrow> if contiguous prev u then ok (apply_lighter_update prev u (observed_at_ms env)) else None)"

definition lighter_message :: "RawPublicEnvelope \<Rightarrow> decoded option" where
  "lighter_message env =
     (if casefold (en_venue env) = ''lighter'' then ok (decode_lighter_envelope (payload env)) else None)"

definition replay_step ::
  "MarketMappingEvidence list \<Rightarrow> string \<Rightarrow> OrderBookSnapshot option \<Rightarrow> RawPublicEnvelope \<Rightarrow> OrderBookSnapshot option" where
  "replay_step ms ch cur env =
     (case lighter_message env of
        Some m \<Rightarrow> if message_channel m = ch then advance ms env m cur else cur
      | None \<Rightarrow> cur)"

definition replay :: "MarketMappingEvidence list \<Rightarrow> string \<Rightarrow> RawPublicEnvelope list \<Rightarrow> OrderBookSnapshot option" where
  "replay ms ch envs = foldl (replay_step ms ch) None envs"

type_synonym emission = "int \<times> OrderBookSnapshot \<times> string option"

definition emitted :: "MarketMappingEvidence list \<Rightarrow> RawPublicEnvelope list \<Rightarrow> RawPublicEnvelope \<Rightarrow> emission list" where
  "emitted ms before env =
     (if casefold (en_venue env) = ''hyperliquid'' then
        (case ok (decode_hyperliquid_l2book (payload env) (observed_at_ms env)) of
           Some s \<Rightarrow> [(en_index env, s, None)] | None \<Rightarrow> [])
      else (case lighter_message env of
          Some m \<Rightarrow> (case replay ms (message_channel m) (before @ [env]) of
              Some s \<Rightarrow> [(en_index env, s, Some (message_channel m))] | None \<Rightarrow> [])
        | None \<Rightarrow> []))"

definition emitted_books :: "MarketMappingEvidence list \<Rightarrow> RawPublicEnvelope list \<Rightarrow> emission list" where
  "emitted_books ms envs = concat (map (\<lambda>i. emitted ms (take i envs) (envs ! i)) [0..<length envs])"

lemma ok_Inr [simp]: "ok (Inr x) = Some x" "ok (Inl e) = None"
  by (simp_all add: ok_def)

lemma replay_snoc: "replay ms ch (envs @ [env]) = replay_step ms ch (replay ms ch envs) env"
  by (simp add: replay_def)

lemma emitted_books_snoc: "emitted_books ms (envs @ [env]) = emitted_books ms envs @ emitted ms envs env"
proof -
  have "map (\<lambda>i. emitted ms (take i (envs @ [env])) ((envs @ [env]) ! i)) [0..<length envs]
      = map (\<lambda>i. emitted ms (take i envs) (envs ! i)) [0..<length envs]"
    by (rule map_cong) (auto simp: nth_append)
  moreover have "[0..<length (envs @ [env])] = [0..<length envs] @ [length envs]" by simp
  ultimately have "emitted_books ms (envs @ [env]) =
      concat (map (\<lambda>i. emitted ms (take i envs) (envs ! i)) [0..<length envs])
      @ emitted ms (take (length envs) (envs @ [env])) ((envs @ [env]) ! length envs)"
    unfolding emitted_books_def by (simp only: map_append concat_append list.map concat.simps append_Nil2)
  then show ?thesis by (simp add: emitted_books_def)
qed

subsection \<open>One step of the loop\<close>

lemma decode_update_admitted:
  "decode_update d = Inr u \<Longrightarrow> list_all delta_admitted (lu_bids u) \<and> list_all delta_admitted (lu_asks u)"
  by (cases "jget d ''order_book''") (auto simp: decode_update_def rbind_eq_Inr dest: delta_levels_admitted)

lemma decode_snapshot_admitted:
  "decode_snapshot d = Inr s \<Longrightarrow> list_all level_admitted (ls_bids s) \<and> list_all level_admitted (ls_asks s)"
  by (cases "jget d ''order_book''")
    (auto simp: decode_snapshot_def rbind_eq_Inr lighter_book_levels_def dest: book_levels_admitted)

lemma decode_lighter_envelope_Inr: "decode_lighter_envelope pl = Inr m \<longleftrightarrow> decode_envelope pl = Inr m"
  by (simp add: decode_lighter_envelope_def)

lemma lighter_message_admitted:
  assumes "decode_lighter_envelope pl = Inr m"
  shows "m = DUpdate u \<Longrightarrow> list_all delta_admitted (lu_bids u) \<and> list_all delta_admitted (lu_asks u)"
    and "m = DSnapshot s \<Longrightarrow> list_all level_admitted (ls_bids s) \<and> list_all level_admitted (ls_asks s)"
proof -
  obtain j where j: "rbind (utf8_decode pl) loads = Inr j"
    using assms by (auto simp: decode_lighter_envelope_Inr decode_envelope_def rbind_eq_Inr)
  obtain d where d: "j = JObj d"
    using assms j by (cases j) (auto simp: decode_lighter_envelope_Inr decode_envelope_def)
  show "m = DUpdate u \<Longrightarrow> list_all delta_admitted (lu_bids u) \<and> list_all delta_admitted (lu_asks u)"
    and "m = DSnapshot s \<Longrightarrow> list_all level_admitted (ls_bids s) \<and> list_all level_admitted (ls_asks s)"
    using assms j d decode_update_admitted [of d u] decode_snapshot_admitted [of d s]
    by (auto simp: decode_lighter_envelope_Inr decode_envelope_def rbind_eq_Inr split: if_splits)
qed

lemma hyperliquid_admitted:
  assumes "decode_hyperliquid_l2book pl t = Inr s"
  shows "book_admitted s"
proof -
  have h: "hyperliquid_decode pl t = Inr s" using assms by (simp add: decode_hyperliquid_l2book_def)
  then obtain j where j: "rbind (utf8_decode pl) loads = Inr j" by (auto simp: hyperliquid_decode_def rbind_eq_Inr)
  then obtain d where d: "j = JObj d" using h by (cases j) (auto simp: hyperliquid_decode_def)
  obtain coin time where c: "jget d ''coin'' = JStr coin" "jget d ''time'' = JInt time"
    using h j d by (cases "jget d ''coin''"; cases "jget d ''time''") (auto simp: hyperliquid_decode_def require_eq_Inr)
  obtain b a where l: "jget d ''levels'' = JList [b, a]"
    using h j d c by (auto simp: hyperliquid_decode_def require_eq_Inr split: json.splits list.splits)
  show ?thesis using h j d c l
    by (auto simp: hyperliquid_decode_def require_eq_Inr rbind_eq_Inr book_admitted_def order_book_snapshot_Inr
        hyperliquid_book_levels_def dest: book_levels_admitted)
qed

lemma advance_admitted:
  assumes "decode_lighter_envelope pl = Inr m" and "advance ms env m cur = Some s"
    and "\<And>p. cur = Some p \<Longrightarrow> book_admitted p"
  shows "book_admitted s"
proof (cases m)
  case (DSnapshot x)
  then have "\<exists>ticker. lighter_snapshot_book ticker x (observed_at_ms env) = Inr s"
    using assms(2) by (auto simp: ok_def rbind_eq_Inr split: sum.splits)
  then show ?thesis using lighter_message_admitted(2) [OF assms(1) DSnapshot]
    by (auto simp: lighter_snapshot_book_def order_book_snapshot_Inr book_admitted_def)
next
  case (DUpdate u)
  then obtain p where p: "cur = Some p" "apply_lighter_update p u (observed_at_ms env) = Inr s"
    using assms(2) by (auto simp: ok_def split: option.splits sum.splits if_splits)
  then show ?thesis using lighter_message_admitted(1) [OF assms(1) DUpdate] assms(3)
    by (auto simp: apply_lighter_update_def rbind_eq_Inr order_book_snapshot_Inr book_admitted_def
        intro: apply_side_admitted)
qed

definition extends :: "recon_state \<Rightarrow> RawPublicEnvelope \<Rightarrow> emission list \<Rightarrow> recon_state \<Rightarrow> bool" where
  "extends st env items st' \<longleftrightarrow>
     (items = [] \<and> books st' = books st \<and> next_epoch st' = next_epoch st)
     \<or> (\<exists>b. items = [(en_index env, snapshot b, channel b)] \<and> books st' = books st @ [b]
          \<and> rk_envelope_index b = en_index env \<and> rk_payload_sha256 b = en_payload_sha256 env
          \<and> epoch_id b = next_epoch st \<and> next_epoch st' = next_epoch st + 1
          \<and> rk_mapping b = None \<and> rk_mapping_id b = None \<and> reconstructed_book b = Inr b)"

lemma reconstructed_book_id: "reconstructed_book b = Inr b' \<Longrightarrow> b' = b"
  by (auto simp: reconstructed_book_def Let_def require_eq_Inr rbind_eq_Inr split: if_splits)

lemma append_book_extends:
  assumes "append_book st env s dec ch = Inr st'"
  shows "extends st env [(en_index env, s, ch)] st'"
    and "lighter_epochs st' = lighter_epochs st" and "previous_index st' = previous_index st"
proof -
  let ?b = "\<lparr>snapshot = s, rk_envelope_index = en_index env, rk_payload_sha256 = en_payload_sha256 env,
    decoder_id = dec, epoch_id = next_epoch st, rk_mapping_id = None, rk_mapping = None, channel = ch\<rparr>"
  obtain b where b: "reconstructed_book ?b = Inr b" and st': "st' = st\<lparr>books := books st @ [b], next_epoch := next_epoch st + 1\<rparr>"
    using assms by (auto simp: append_book_def rbind_eq_Inr)
  have "b = ?b" using reconstructed_book_id [OF b] .
  then have "rk_envelope_index b = en_index env \<and> rk_payload_sha256 b = en_payload_sha256 env \<and> epoch_id b = next_epoch st
      \<and> rk_mapping b = None \<and> rk_mapping_id b = None \<and> snapshot b = s \<and> channel b = ch" by simp
  moreover have "reconstructed_book b = Inr b" using b \<open>b = ?b\<close> by (simp only:)
  ultimately show "extends st env [(en_index env, s, ch)] st'"
    unfolding extends_def st' by (intro disjI2 exI [of _ b]) simp
  show "lighter_epochs st' = lighter_epochs st" and "previous_index st' = previous_index st" by (simp_all add: st')
qed

lemma extends_epochs: "extends (open_epoch st ch s) env items st' \<longleftrightarrow> extends st env items st'"
  "extends (st\<lparr>previous_index := p\<rparr>) env items st' \<longleftrightarrow> extends st env items st'"
  by (simp_all add: extends_def open_epoch_def)

lemma epoch_tables [simp]:
  "map_of (lighter_epochs (open_epoch st ch s)) = (map_of (lighter_epochs st))(ch \<mapsto> s)"
  "map_of (lighter_epochs (close_epoch st ch)) = (map_of (lighter_epochs st))(ch := None)"
  "previous_index (open_epoch st ch s) = previous_index st" "previous_index (close_epoch st ch) = previous_index st"
  by (simp_all add: open_epoch_def close_epoch_def update_conv' delete_conv')

text \<open>What a Lighter message does to the state, in terms of \<open>advance\<close>.\<close>

definition lighter_effect ::
  "MarketMappingEvidence list \<Rightarrow> recon_state \<Rightarrow> RawPublicEnvelope \<Rightarrow> decoded \<Rightarrow> recon_state \<Rightarrow> bool" where
  "lighter_effect ms st env m st' \<longleftrightarrow>
     (let ch = message_channel m; new = advance ms env m (map_of (lighter_epochs st) ch)
      in extends st env (case new of Some s \<Rightarrow> [(en_index env, s, Some ch)] | None \<Rightarrow> []) st'
         \<and> map_of (lighter_epochs st') = (map_of (lighter_epochs st))(ch := new)
         \<and> previous_index st' = previous_index st)"

lemma extends_none: "books st' = books st \<Longrightarrow> next_epoch st' = next_epoch st \<Longrightarrow> extends st env [] st'"
  by (simp add: extends_def)

lemma lighter_append_effect:
  assumes "advance ms env m (map_of (lighter_epochs st) (message_channel m)) = Some s"
    and "append_book (open_epoch st (message_channel m) s) env s dec (Some (message_channel m)) = Inr st'"
  shows "lighter_effect ms st env m st'"
  using append_book_extends [OF assms(2)] assms(1) by (simp add: lighter_effect_def Let_def extends_epochs)

lemma lighter_update_effect:
  assumes "lighter_update_step st env u = Inr st'"
  shows "lighter_effect ms st env (DUpdate u) st'"
proof (cases "map_of (lighter_epochs st) (lu_channel u)")
  case None
  then have "st' = st" using assms by (simp add: lighter_update_step_def)
  then show ?thesis using None by (auto simp: lighter_effect_def extends_none fun_eq_iff)
next
  case (Some prev)
  have c: "((case lu_symbol u of None \<Rightarrow> False | Some s \<Rightarrow> s \<noteq> ob_symbol prev)
      \<or> Some (lu_begin_nonce u) \<noteq> sequence prev \<or> lu_nonce u \<le> lu_begin_nonce u) = (\<not> contiguous prev u)"
    by (auto simp: contiguous_def split: option.splits)
  have eq: "lighter_update_step st env u =
      (if \<not> contiguous prev u then Inr (close_epoch st (lu_channel u))
       else (case apply_lighter_update prev u (observed_at_ms env) of
              Inr snap \<Rightarrow> append_book (open_epoch st (lu_channel u) snap) env snap LIGHTER_DECODER_ID
                            (Some (lu_channel u))
            | Inl e \<Rightarrow> if e = ReconstructionError then Inl e
                       else if is_value_error e then Inr (close_epoch st (lu_channel u))
                       else Inl e))"
    unfolding lighter_update_step_def Some option.case c ..
  have closed: "lighter_effect ms st env (DUpdate u) (close_epoch st (lu_channel u))"
    if "advance ms env (DUpdate u) (Some prev) = None"
    using that Some by (simp add: lighter_effect_def Let_def extends_none) (simp add: close_epoch_def extends_none)
  show ?thesis
  proof (cases "contiguous prev u")
    case False
    then have "st' = close_epoch st (lu_channel u)" using assms by (simp add: eq)
    then show ?thesis using closed False by simp
  next
    case True
    show ?thesis
    proof (cases "apply_lighter_update prev u (observed_at_ms env)")
      case (Inl e)
      then have "st' = close_epoch st (lu_channel u)"
        using assms True by (auto simp: eq split: if_splits)
      then show ?thesis using closed True Inl by simp
    next
      case (Inr s)
      then have "append_book (open_epoch st (lu_channel u) s) env s LIGHTER_DECODER_ID (Some (lu_channel u)) = Inr st'"
        using assms True by (simp add: eq)
      then show ?thesis using True Inr Some by (intro lighter_append_effect [where s = s]) simp_all
    qed
  qed
qed

lemma lighter_snapshot_effect:
  assumes "lighter_snapshot_step ms st env s = Inr st'"
  shows "lighter_effect ms st env (DSnapshot s) st'"
proof -
  obtain ticker snap where t: "(case ls_symbol s of Some ticker \<Rightarrow> Inr ticker
        | None \<Rightarrow> lighter_ticker_for_channel (ls_channel s) ms (observed_at_ms env)) = Inr ticker"
      "lighter_snapshot_book ticker s (observed_at_ms env) = Inr snap"
      "append_book (open_epoch st (ls_channel s) snap) env snap LIGHTER_DECODER_ID (Some (ls_channel s)) = Inr st'"
    using assms by (auto simp: lighter_snapshot_step_def rbind_eq_Inr)
  then show ?thesis by (intro lighter_append_effect [where s = snap]) simp_all
qed

lemma reconstruct_step_correct:
  assumes "reconstruct_step ms st env = Inr st'" and "\<And>ch. map_of (lighter_epochs st) ch = replay ms ch envs"
  shows "extends st env (emitted ms envs env) st'
    \<and> (\<forall>ch. map_of (lighter_epochs st') ch = replay ms ch (envs @ [env]))
    \<and> previous_index st' = Some (en_index env) \<and> (\<forall>p. previous_index st = Some p \<longrightarrow> p < en_index env)"
proof -
  let ?st = "st\<lparr>previous_index := Some (en_index env)\<rparr>"
  have prev: "\<forall>p. previous_index st = Some p \<longrightarrow> p < en_index env"
    using assms(1) by (auto simp: reconstruct_step_def require_eq_Inr)
  have tab: "map_of (lighter_epochs ?st) = (\<lambda>ch. replay ms ch envs)" using assms(2) by auto
  consider (hl) "casefold (en_venue env) = ''hyperliquid''" "hyperliquid_step ?st env = Inr st'"
    | (li) "casefold (en_venue env) = ''lighter''" "lighter_step ms ?st env = Inr st'"
    | (other) "casefold (en_venue env) \<noteq> ''hyperliquid''" "casefold (en_venue env) \<noteq> ''lighter''" "st' = ?st"
    using assms(1) by (auto simp: reconstruct_step_def require_eq_Inr Let_def split: if_splits)
  then show ?thesis
  proof cases
    case hl
    then obtain s where s: "decode_hyperliquid_l2book (payload env) (observed_at_ms env) = Inr s"
        "append_book ?st env s HYPERLIQUID_DECODER_ID None = Inr st'"
      by (auto simp: hyperliquid_step_def rbind_eq_Inr)
    have "replay ms ch (envs @ [env]) = replay ms ch envs" for ch
      using hl by (simp add: replay_snoc replay_step_def lighter_message_def)
    then show ?thesis using append_book_extends [OF s(2)] s(1) hl prev tab
      by (simp add: emitted_def extends_epochs)
  next
    case li
    then obtain m where m1: "decode_lighter_envelope (payload env) = Inr m"
      by (auto simp: lighter_step_def rbind_eq_Inr)
    then have "lighter_effect ms ?st env m st'"
      using li(2) by (cases m) (simp_all add: lighter_step_def lighter_update_effect lighter_snapshot_effect)
    note m = m1 this
    have lm: "lighter_message env = Some m" using li m(1) by (simp add: lighter_message_def)
    have r: "replay ms ch (envs @ [env]) =
        (if message_channel m = ch then advance ms env m (replay ms ch envs) else replay ms ch envs)" for ch
      by (simp add: replay_snoc replay_step_def lm)
    have "emitted ms envs env = (case advance ms env m (replay ms (message_channel m) envs) of
        Some s \<Rightarrow> [(en_index env, s, Some (message_channel m))] | None \<Rightarrow> [])"
      using li lm by (simp add: emitted_def r)
    then show ?thesis using m(2) prev unfolding lighter_effect_def Let_def tab extends_epochs by (auto simp: r)
  next
    case other
    have "replay ms ch (envs @ [env]) = replay ms ch envs" for ch
      using other by (simp add: replay_snoc replay_step_def lighter_message_def)
    then show ?thesis using other prev tab by (simp add: emitted_def lighter_message_def extends_def)
  qed
qed


subsection \<open>The whole run\<close>

definition triple :: "ReconstructedBook \<Rightarrow> emission" where
  "triple b = (rk_envelope_index b, snapshot b, channel b)"

definition recon_inv :: "MarketMappingEvidence list \<Rightarrow> RawPublicEnvelope list \<Rightarrow> recon_state \<Rightarrow> bool" where
  "recon_inv ms envs st \<longleftrightarrow>
     (\<forall>ch. map_of (lighter_epochs st) ch = replay ms ch envs)
     \<and> map triple (books st) = emitted_books ms envs
     \<and> next_epoch st = int (length (books st)) \<and> map epoch_id (books st) = map int [0..<length (books st)]
     \<and> previous_index st = (if envs = [] then None else Some (en_index (last envs)))
     \<and> sorted_wrt (<) (map rk_envelope_index (books st))
     \<and> (\<forall>b \<in> set (books st). envs \<noteq> [] \<and> rk_envelope_index b \<le> en_index (last envs)
          \<and> reconstructed_book b = Inr b \<and> rk_mapping b = None \<and> rk_mapping_id b = None)"

lemma recon_inv_init: "recon_inv ms [] recon_init"
  by (simp add: recon_inv_def recon_init_def replay_def emitted_books_def)

lemma recon_inv_step:
  assumes "recon_inv ms envs st" and "reconstruct_step ms st env = Inr st'"
  shows "recon_inv ms (envs @ [env]) st'"
proof -
  have t: "\<And>ch. map_of (lighter_epochs st) ch = replay ms ch envs" using assms(1) by (simp add: recon_inv_def)
  note c = reconstruct_step_correct [OF assms(2) t]
  have lt: "rk_envelope_index b < en_index env" if "b \<in> set (books st)" for b
    using assms(1) c that by (auto simp: recon_inv_def)
  from c consider (none) "emitted ms envs env = []" "books st' = books st" "next_epoch st' = next_epoch st"
    | (one) b where "emitted ms envs env = [(en_index env, snapshot b, channel b)]" "books st' = books st @ [b]"
      "rk_envelope_index b = en_index env" "epoch_id b = next_epoch st" "next_epoch st' = next_epoch st + 1"
      "rk_mapping b = None" "rk_mapping_id b = None" "reconstructed_book b = Inr b"
    by (auto simp: extends_def)
  then show ?thesis
  proof cases
    case none
    then show ?thesis using assms(1) c lt unfolding recon_inv_def
      by (auto simp: emitted_books_snoc less_imp_le)
  next
    case one
    then show ?thesis using assms(1) c lt unfolding recon_inv_def
      by (auto simp: emitted_books_snoc less_imp_le triple_def sorted_wrt_append)
  qed
qed

lemma reconstruct_books_inv:
  assumes "reconstruct_books envs ms = Inr bs"
  shows "\<exists>st. recon_inv ms envs st \<and> bs = books st"
proof -
  obtain st where st: "rfold (reconstruct_step ms) recon_init envs = Inr st" "bs = books st"
    using assms by (auto simp: reconstruct_books_def rbind_eq_Inr)
  have "recon_inv ms envs st"
    by (rule rfold_invariant [OF st(1), of "recon_inv ms"]) (auto simp: recon_inv_init recon_inv_step)
  then show ?thesis using st(2) by blast
qed

lemma replay_admitted: "replay ms ch envs = Some s \<Longrightarrow> book_admitted s"
proof (induction envs arbitrary: s rule: rev_induct)
  case (snoc env envs)
  show ?case
  proof (cases "lighter_message env")
    case None
    then show ?thesis using snoc by (simp add: replay_snoc replay_step_def)
  next
    case (Some m)
    then have m: "decode_lighter_envelope (payload env) = Inr m"
      by (auto simp: lighter_message_def ok_def split: if_splits sum.splits)
    show ?thesis using snoc Some advance_admitted [OF m, of ms env "replay ms ch envs" s]
      by (auto simp: replay_snoc replay_step_def split: if_splits)
  qed
qed (simp add: replay_def)

lemma emitted_admitted: "(i, s, ch) \<in> set (emitted_books ms envs) \<Longrightarrow> book_admitted s"
proof -
  assume "(i, s, ch) \<in> set (emitted_books ms envs)"
  then obtain pre env where e: "(i, s, ch) \<in> set (emitted ms pre env)" by (auto simp: emitted_books_def)
  show ?thesis
  proof (cases "casefold (en_venue env) = ''hyperliquid''")
    case True
    then have "decode_hyperliquid_l2book (payload env) (observed_at_ms env) = Inr s"
      using e by (cases "decode_hyperliquid_l2book (payload env) (observed_at_ms env)") (auto simp: emitted_def)
    then show ?thesis by (rule hyperliquid_admitted)
  next
    case False
    then obtain m where m: "lighter_message env = Some m"
      using e by (cases "lighter_message env") (auto simp: emitted_def)
    then have "replay ms (message_channel m) (pre @ [env]) = Some s"
      using e False by (cases "replay ms (message_channel m) (pre @ [env])") (auto simp: emitted_def)
    then show ?thesis by (rule replay_admitted)
  qed
qed

lemma reconstructed_books_facts:
  assumes "reconstruct_books envs ms = Inr bs"
  shows "map triple bs = emitted_books ms envs" and "map epoch_id bs = map int [0..<length bs]"
    and "sorted_wrt (<) (map rk_envelope_index bs)"
    and "b \<in> set bs \<Longrightarrow> book_admitted (snapshot b) \<and> reconstructed_book b = Inr b \<and> rk_mapping b = None \<and> rk_mapping_id b = None"
proof -
  obtain st where st: "recon_inv ms envs st" "bs = books st" using reconstruct_books_inv [OF assms] by blast
  show t: "map triple bs = emitted_books ms envs" and "map epoch_id bs = map int [0..<length bs]"
    and "sorted_wrt (<) (map rk_envelope_index bs)"
    using st by (simp_all add: recon_inv_def)
  assume b: "b \<in> set bs"
  then have "triple b \<in> set (emitted_books ms envs)" unfolding t [symmetric] by simp
  then have "book_admitted (snapshot b)" unfolding triple_def by (rule emitted_admitted)
  then show "book_admitted (snapshot b) \<and> reconstructed_book b = Inr b \<and> rk_mapping b = None \<and> rk_mapping_id b = None"
    using st b by (simp add: recon_inv_def)
qed

subsection \<open>A sample run\<close>

text \<open>A Hyperliquid snapshot, a Lighter snapshot and an update that continues it.\<close>

definition sample_hyperliquid :: json where
  "sample_hyperliquid = JObj [(''coin'', JStr ''BTC''), (''time'', JInt 7),
     (''levels'', JList [JList [JObj [(''px'', JStr ''4''), (''sz'', JStr ''3'')], JObj [(''px'', JStr ''3''), (''sz'', JStr ''1'')]],
                         JList [JObj [(''px'', JStr ''6''), (''sz'', JStr ''2'')]]])]"

definition sample_lighter :: json where
  "sample_lighter = JObj [(''type'', JStr ''subscribed/order_book''), (''channel'', JStr ''order_book:1''),
     (''timestamp'', JInt 8), (''symbol'', JStr ''BTC''),
     (''order_book'', JObj [(''nonce'', JInt 5),
        (''bids'', JList [JObj [(''price'', JStr ''4''), (''size'', JStr ''3'')]]),
        (''asks'', JList [JObj [(''price'', JStr ''6''), (''size'', JStr ''2'')]])])]"

definition sample_update :: json where
  "sample_update = JObj [(''type'', JStr ''update/order_book''), (''channel'', JStr ''order_book:1''),
     (''timestamp'', JInt 9),
     (''order_book'', JObj [(''begin_nonce'', JInt 5), (''nonce'', JInt 6), (''bids'', JList []),
        (''asks'', JList [JObj [(''price'', JStr ''7''), (''size'', JStr ''4'')]])])]"

definition sample_envelope :: "int \<Rightarrow> string \<Rightarrow> json \<Rightarrow> RawPublicEnvelope" where
  "sample_envelope i vn j = \<lparr>en_capture_run_id = UUID 1, en_index = i, observed_at_ms = 20, en_venue = vn,
     en_payload_sha256 = sample_sha, payload = bytes_of j\<rparr>"

definition sample_envelopes :: "RawPublicEnvelope list" where
  "sample_envelopes = [sample_envelope 0 ''hyperliquid'' sample_hyperliquid,
     sample_envelope 3 ''Lighter'' sample_lighter, sample_envelope 4 ''lighter'' sample_update]"

lemma sample_ok: "json_ok sample_hyperliquid" "json_ok sample_lighter" "json_ok sample_update"
  by (simp_all add: sample_hyperliquid_def sample_lighter_def sample_update_def nat_str_eval max_str_digits_def)

definition lvl :: "nat \<Rightarrow> nat \<Rightarrow> BookLevel" where
  "lvl p q = \<lparr>price = DFin False p 0, quantity = DFin False q 0\<rparr>"

definition sample_book_0 :: OrderBookSnapshot where
  "sample_book_0 = \<lparr>ob_venue = ''HYPERLIQUID'', ob_symbol = ''BTC'', sequence = None, exchange_timestamp_ms = 7,
     received_timestamp_ms = 20, bids = [lvl 4 3, lvl 3 1], asks = [lvl 6 2]\<rparr>"

definition sample_book_1 :: OrderBookSnapshot where
  "sample_book_1 = \<lparr>ob_venue = ''LIGHTER'', ob_symbol = ''BTC'', sequence = Some 5, exchange_timestamp_ms = 8,
     received_timestamp_ms = 20, bids = [lvl 4 3], asks = [lvl 6 2]\<rparr>"

definition sample_book_2 :: OrderBookSnapshot where
  "sample_book_2 = \<lparr>ob_venue = ''LIGHTER'', ob_symbol = ''BTC'', sequence = Some 6, exchange_timestamp_ms = 9,
     received_timestamp_ms = 20, bids = [lvl 4 3], asks = [lvl 6 2, lvl 7 4]\<rparr>"

definition sample_snapshot_message :: LighterSnapshot where
  "sample_snapshot_message = \<lparr>ls_channel = ''order_book:1'', ls_symbol = Some ''BTC'', ls_timestamp = 8, ls_nonce = 5,
     ls_bids = [lvl 4 3], ls_asks = [lvl 6 2]\<rparr>"

definition sample_update_message :: LighterUpdate where
  "sample_update_message = \<lparr>lu_channel = ''order_book:1'', lu_symbol = None, lu_timestamp = 9, lu_nonce = 6,
     lu_begin_nonce = 5, lu_bids = [], lu_asks = [(DFin False 7 0, DFin False 4 0)]\<rparr>"

lemma sample_decodes:
  "decode_hyperliquid_l2book (bytes_of sample_hyperliquid) 20 = Inr sample_book_0"
  "decode_lighter_envelope (bytes_of sample_lighter) = Inr (DSnapshot sample_snapshot_message)"
  "decode_lighter_envelope (bytes_of sample_update) = Inr (DUpdate sample_update_message)"
  unfolding decode_hyperliquid_l2book_def hyperliquid_decode_def decode_lighter_envelope_def decode_envelope_def
    bytes_of_loads [OF sample_ok(1)] bytes_of_loads [OF sample_ok(2)] bytes_of_loads [OF sample_ok(3)]
  by code_simp+

lemma sample_steps:
  "casefold ''hyperliquid'' = ''hyperliquid''" "casefold ''lighter'' = ''lighter''" "casefold ''Lighter'' = ''lighter''"
  "lighter_snapshot_book ''BTC'' sample_snapshot_message 20 = Inr sample_book_1"
  "apply_lighter_update sample_book_1 sample_update_message 20 = Inr sample_book_2"
  by code_simp+


lemma sample_run: "\<exists>bs. reconstruct_books sample_envelopes [] = Inr bs \<and> length bs = 3"
proof -
  let ?b = "\<lambda>i snap dec ep ch. \<lparr>snapshot = snap, rk_envelope_index = i, rk_payload_sha256 = sample_sha, decoder_id = dec,
     epoch_id = ep, rk_mapping_id = None, rk_mapping = None, channel = ch\<rparr>"
  have "reconstructed_book (?b 0 sample_book_0 HYPERLIQUID_DECODER_ID 0 None) = Inr (?b 0 sample_book_0 HYPERLIQUID_DECODER_ID 0 None)"
    and "reconstructed_book (?b 3 sample_book_1 LIGHTER_DECODER_ID 1 (Some ''order_book:1'')) = Inr (?b 3 sample_book_1 LIGHTER_DECODER_ID 1 (Some ''order_book:1''))"
    and "reconstructed_book (?b 4 sample_book_2 LIGHTER_DECODER_ID 2 (Some ''order_book:1'')) = Inr (?b 4 sample_book_2 LIGHTER_DECODER_ID 2 (Some ''order_book:1''))"
    by code_simp+
  moreover have "sequence sample_book_1 = Some 5" by (simp add: sample_book_1_def)
  ultimately show ?thesis
    by (simp add: reconstruct_books_def sample_envelopes_def reconstruct_step_def recon_init_def sample_envelope_def Let_def
        sample_steps hyperliquid_step_def lighter_step_def sample_decodes append_book_def lighter_snapshot_step_def
        lighter_update_step_def open_epoch_def sample_snapshot_message_def [unfolded lvl_def] sample_update_message_def
        sample_steps [unfolded sample_snapshot_message_def lvl_def sample_update_message_def])
qed

subsection \<open>Properties\<close>

text \<open>
  C17. The reconstruction loop refines the replay of the channels on their own: what it
  returns is, in order, one book for every Hyperliquid envelope and for every Lighter
  envelope that leaves its own channel with a live book, and that book is the channel's
  replay: a snapshot followed by updates whose nonces continue each other without a gap.
  Interleaving of channels has no effect.
\<close>

theorem reconstruct_books_refines_replay:
  assumes "reconstruct_books envs ms = Inr bs"
  shows "map (\<lambda>b. (rk_envelope_index b, snapshot b, channel b)) bs = emitted_books ms envs"
  using reconstructed_books_facts(1) [OF assms] by (simp add: triple_def [abs_def])

lemma reconstruct_books_refines_replay_witness:
  "\<exists>bs. reconstruct_books sample_envelopes [] = Inr bs \<and> length bs = 3
     \<and> map (\<lambda>b. (rk_envelope_index b, snapshot b, channel b)) bs = emitted_books [] sample_envelopes"
  using sample_run reconstruct_books_refines_replay by blast

text \<open>
  C18. Every reconstructed book is admissible: both sides are nonempty, strictly ordered and
  uncrossed, every price and size is a positive value of the exact kernel; books are
  numbered consecutively from zero in the order of strictly increasing envelope indices, and
  no book carries a mapping yet.
\<close>

theorem reconstruct_books_admitted:
  assumes "reconstruct_books envs ms = Inr bs"
  shows "list_all (\<lambda>b. book_admitted (snapshot b) \<and> rk_mapping b = None \<and> rk_mapping_id b = None) bs
    \<and> map epoch_id bs = map int [0..<length bs] \<and> sorted_wrt (<) (map rk_envelope_index bs)"
  using reconstructed_books_facts [OF assms] by (simp add: list_all_iff)

lemma reconstruct_books_admitted_witness:
  "\<exists>bs. reconstruct_books sample_envelopes [] = Inr bs \<and> map epoch_id bs = [0, 1, 2]
     \<and> list_all (\<lambda>b. book_admitted (snapshot b)) bs"
proof -
  obtain bs where bs: "reconstruct_books sample_envelopes [] = Inr bs" "length bs = 3" using sample_run by blast
  then have "map epoch_id bs = map int [0..<3]" and "list_all (\<lambda>b. book_admitted (snapshot b)) bs"
    using reconstruct_books_admitted [OF bs(1)] by (auto simp: list_all_iff)
  then show ?thesis using bs(1) by (simp add: numeral_eq_Suc)
qed

text \<open>
  Applying the deltas of an update to one side computes the finite map they denote: a
  size of zero removes a price, any other size sets it, all other prices keep theirs, and
  no price appears twice.
\<close>

theorem apply_side_correct:
  assumes "side_inv ls" and "list_all delta_ok ds"
  shows "\<exists>ls'. apply_side ls ds = Inr ls' \<and> side_inv ls'
           \<and> side_lookup ls' = foldl delta_map (side_lookup ls) ds"
  using apply_side_run [OF assms(2)] ls.run_correct [OF assms] by simp

lemma apply_side_witness:
  "\<exists>ls'. apply_side [\<lparr>price = DFin False 5 0, quantity = DFin False 2 0\<rparr>]
            [(DFin False 50 (-1), DFin False 0 (-8)), (DFin False 4 0, DFin False 1 0)] = Inr ls'
     \<and> side_inv ls' \<and> side_lookup ls' = [4 \<mapsto> 1]"
proof -
  let ?ls = "[\<lparr>price = DFin False 5 0, quantity = DFin False 2 0\<rparr>]"
  let ?ds = "[(DFin False 50 (-1), DFin False 0 (-8)), (DFin False 4 0, DFin False 1 0)]"
  have "side_inv ?ls" and "list_all delta_ok ?ds" by (simp_all add: delta_ok_def pow10_def)
  moreover have "foldl delta_map (side_lookup ?ls) ?ds = [4 \<mapsto> 1]"
    by (auto simp: delta_map_def pow10_def fun_eq_iff)
  ultimately show ?thesis using apply_side_correct by metis
qed

end
