(* ===== verification/Identity.thy ===== *)
theory Identity
  imports Reconstruction
begin

section \<open>Binding books to reviewed mappings (\<open>liqvera_readonly_analyzer/identity.py\<close>)\<close>

text \<open>
  Each reconstructed book is bound to the one approved mapping that is current at its
  receive time and covers its venue and symbol; a Lighter book prefers mappings that name
  its market index and falls back to those that name none. Anything but exactly one
  candidate is an \<open>IdentityBindError\<close>.
\<close>

definition is_candidate :: "ReconstructedBook \<Rightarrow> MarketMappingEvidence \<Rightarrow> bool" where
  "is_candidate book m =
     (if decision m \<noteq> APPROVED then False
      else if casefold (me_venue m) \<noteq> casefold (ob_venue (snapshot book)) then False
      else if me_symbol m \<noteq> ob_symbol (snapshot book) then False
      else let evaluated = received_timestamp_ms (snapshot book)
           in if evaluated < valid_from_ms m then False
              else if (case valid_until_ms m of None \<Rightarrow> False | Some u \<Rightarrow> evaluated > u) then False
              else True)"

definition lighter_candidates ::
  "MarketMappingEvidence list \<Rightarrow> ReconstructedBook \<Rightarrow> MarketMappingEvidence list res" where
  "lighter_candidates ms book =
     (case channel book of
        None \<Rightarrow> Inl IdentityBindError
      | Some ch \<Rightarrow>
          require (prefix CHANNEL_PREFIX ch) IdentityBindError (
          let suffix = drop (length CHANNEL_PREFIX) ch
          in require (isdigit suffix) IdentityBindError (
             rbind (int_of_str suffix) (\<lambda>index.
             let indexed = filter (\<lambda>m. is_candidate book m \<and> lighter_market_index m = Some index) ms
             in if indexed \<noteq> [] then Inr indexed
                else Inr (filter (\<lambda>m. is_candidate book m \<and> lighter_market_index m = None) ms)))))"

definition book_candidates ::
  "MarketMappingEvidence list \<Rightarrow> ReconstructedBook \<Rightarrow> MarketMappingEvidence list res" where
  "book_candidates ms book =
     (if casefold (ob_venue (snapshot book)) = ''lighter'' then lighter_candidates ms book
      else Inr (filter (is_candidate book) ms))"

definition bind_book :: "MarketMappingEvidence list \<Rightarrow> ReconstructedBook \<Rightarrow> ReconstructedBook res" where
  "bind_book ms book =
     require (\<not> (rk_mapping_id book \<noteq> None \<or> rk_mapping book \<noteq> None)) IdentityBindError (
     rbind (book_candidates ms book) (\<lambda>candidates.
     case candidates of
       [chosen] \<Rightarrow> reconstructed_book (book\<lparr>rk_mapping_id := Some (mapping_id chosen), rk_mapping := Some chosen\<rparr>)
     | _ \<Rightarrow> Inl IdentityBindError))"

definition bind_reconstructed_books ::
  "ReconstructedBook list \<Rightarrow> MarketMappingEvidence list \<Rightarrow> ReconstructedBook list res" where
  "bind_reconstructed_books bks ms = rmap (bind_book ms) bks"

subsection \<open>What a bound book guarantees\<close>

definition covers :: "MarketMappingEvidence \<Rightarrow> ReconstructedBook \<Rightarrow> bool" where
  "covers m book \<longleftrightarrow> decision m = APPROVED \<and> casefold (me_venue m) = casefold (ob_venue (snapshot book))
     \<and> me_symbol m = ob_symbol (snapshot book) \<and> valid_from_ms m \<le> received_timestamp_ms (snapshot book)
     \<and> (\<forall>u. valid_until_ms m = Some u \<longrightarrow> received_timestamp_ms (snapshot book) \<le> u)"

lemma is_candidate_covers: "is_candidate book m \<longleftrightarrow> covers m book"
  by (auto simp: is_candidate_def covers_def Let_def split: option.splits)

text \<open>The market index in the name of a Lighter channel.\<close>

definition channel_index :: "ReconstructedBook \<Rightarrow> int res" where
  "channel_index book =
     (case channel book of None \<Rightarrow> Inl IdentityBindError
      | Some ch \<Rightarrow> int_of_str (drop (length CHANNEL_PREFIX) ch))"

text \<open>Which mapping may be bound: for Lighter, an indexed one wins over those without index.\<close>

definition preferred :: "MarketMappingEvidence list \<Rightarrow> ReconstructedBook \<Rightarrow> MarketMappingEvidence \<Rightarrow> bool" where
  "preferred ms book m \<longleftrightarrow> covers m book \<and>
     (casefold (ob_venue (snapshot book)) = ''lighter'' \<longrightarrow>
        (\<exists>i. channel_index book = Inr i \<and>
           (lighter_market_index m = Some i
            \<or> lighter_market_index m = None
              \<and> (\<forall>m' \<in> set ms. covers m' book \<longrightarrow> lighter_market_index m' \<noteq> Some i))))"

lemma book_candidates_preferred:
  assumes "book_candidates ms book = Inr cs"
  shows "cs = filter (preferred ms book) ms"
proof (cases "casefold (ob_venue (snapshot book)) = ''lighter''")
  case False
  then have "preferred ms book = is_candidate book" by (simp add: fun_eq_iff preferred_def is_candidate_covers)
  then show ?thesis using assms False by (simp add: book_candidates_def)
next
  case True
  then obtain ch i where c: "channel book = Some ch" "int_of_str (drop (length CHANNEL_PREFIX) ch) = Inr i"
    using assms by (auto simp: book_candidates_def lighter_candidates_def require_eq_Inr rbind_eq_Inr Let_def split: option.splits)
  let ?ix = "filter (\<lambda>m. is_candidate book m \<and> lighter_market_index m = Some i) ms"
  have cs: "cs = (if ?ix \<noteq> [] then ?ix else filter (\<lambda>m. is_candidate book m \<and> lighter_market_index m = None) ms)"
    using assms True c by (auto simp: book_candidates_def lighter_candidates_def require_eq_Inr Let_def split: if_splits)
  show ?thesis unfolding cs using True c
    by (auto simp: preferred_def channel_index_def is_candidate_covers filter_empty_conv intro!: filter_cong)
qed

lemma bind_book_Inr:
  assumes "bind_book ms book = Inr b"
  shows "\<exists>m. filter (preferred ms book) ms = [m] \<and> b = book\<lparr>rk_mapping_id := Some (mapping_id m), rk_mapping := Some m\<rparr>"
proof -
  obtain cs where cs: "book_candidates ms book = Inr cs" using assms by (auto simp: bind_book_def require_eq_Inr rbind_eq_Inr)
  then obtain m where "cs = [m]" "reconstructed_book (book\<lparr>rk_mapping_id := Some (mapping_id m), rk_mapping := Some m\<rparr>) = Inr b"
    using assms by (auto simp: bind_book_def require_eq_Inr split: list.splits)
  then show ?thesis using book_candidates_preferred [OF cs] reconstructed_book_id by metis
qed


subsection \<open>A sample\<close>

definition coin_mapping :: MarketMappingEvidence where
  "coin_mapping = sample_mapping\<lparr>me_displayed_size_unit := ''coin''\<rparr>"

definition sample_unbound :: ReconstructedBook where
  "sample_unbound = \<lparr>snapshot = sample_book_2, rk_envelope_index = 4, rk_payload_sha256 = sample_sha,
     decoder_id = LIGHTER_DECODER_ID, epoch_id = 2, rk_mapping_id = None, rk_mapping = None,
     channel = Some ''order_book:1''\<rparr>"

definition sample_bound :: ReconstructedBook where
  "sample_bound = sample_unbound\<lparr>rk_mapping_id := Some (mapping_id coin_mapping), rk_mapping := Some coin_mapping\<rparr>"

lemma sample_bind: "bind_reconstructed_books [sample_unbound] [coin_mapping] = Inr [sample_bound]"
  by code_simp


end
