(* ===== verification/Vwap.thy ===== *)
theory Vwap
  imports Identity
begin

section \<open>Executable depth (\<open>liqvera_readonly_analyzer/vwap.py\<close>)\<close>

text \<open>
  \<open>sweep_depth\<close> walks the asks or bids of one bound book and takes displayed quantity until
  the request is filled. The lemmas compare the loop with a reference allocation and show
  that no other way of taking the same quantity from the displayed levels is cheaper (to buy)
  or dearer (to sell).
\<close>

datatype Side = BUY | SELL

record ExecutableFill =
  ef_side :: Side
  ef_envelope_index :: int
  ef_payload_sha256 :: string
  ef_epoch_id :: int
  requested_quantity :: rat
  filled_quantity :: rat
  notional_quote :: rat
  vwap :: rat
  worst_price :: rat
  consumed_levels :: int

definition require_coin_unit_identity :: "ReconstructedBook \<Rightarrow> unit res" where
  "require_coin_unit_identity book =
     (case rk_mapping book of
        None \<Rightarrow> Inl VwapError
      | Some m \<Rightarrow>
          require (me_displayed_size_unit m = ''coin'') VwapError (
          require (dec_eq (reviewed_contract_multiplier m) (DFin False 1 0)) VwapError (Inr ())))"

definition level_values :: "BookLevel \<Rightarrow> (rat \<times> rat) res" where
  "level_values l =
     reraise (\<lambda>e. is_exact_error e \<or> e = TypeError) VwapError (
       rbind (exact_from_decimal (price l)) (\<lambda>px.
       rbind (exact_from_decimal (quantity l)) (\<lambda>sz.
       Inr (of_int (scaled px) / of_int SCALE, of_int (scaled sz) / of_int SCALE))))"

text \<open>The loop over the levels: remaining quantity, notional, consumed levels, worst price.\<close>

fun sweep :: "BookLevel list \<Rightarrow> rat \<Rightarrow> rat \<Rightarrow> int \<Rightarrow> rat option \<Rightarrow> (rat \<times> rat \<times> int \<times> rat option) res" where
  "sweep [] remaining notional consumed worst = Inr (remaining, notional, consumed, worst)"
| "sweep (l # ls) remaining notional consumed worst =
     rbind (level_values l) (\<lambda>(px, available).
     let taken = (if remaining \<le> available then remaining else available)
     in if taken = 0 then sweep ls remaining notional consumed worst
        else if remaining - taken = 0
        then Inr (remaining - taken, notional + px * taken, consumed + 1, Some px)
        else sweep ls (remaining - taken) (notional + px * taken) (consumed + 1) (Some px))"

definition walked :: "Side \<Rightarrow> ReconstructedBook \<Rightarrow> BookLevel list" where
  "walked side book = (case side of BUY \<Rightarrow> asks (snapshot book) | SELL \<Rightarrow> bids (snapshot book))"

definition sweep_depth :: "ReconstructedBook \<Rightarrow> Side \<Rightarrow> ExactDecimal \<Rightarrow> ExecutableFill res" where
  "sweep_depth book side q =
     require (scaled q > 0) VwapError (
     rbind (require_coin_unit_identity book) (\<lambda>_.
     let filled = of_int (scaled q) / of_int SCALE
     in rbind (sweep (walked side book) filled 0 0 None) (\<lambda>(remaining, notional, consumed, worst).
        if remaining \<noteq> 0 then Inl DepthRejected
        else (case worst of
            None \<Rightarrow> Inl VwapError
          | Some w \<Rightarrow> Inr \<lparr>ef_side = side, ef_envelope_index = rk_envelope_index book,
              ef_payload_sha256 = rk_payload_sha256 book, ef_epoch_id = epoch_id book,
              requested_quantity = filled, filled_quantity = filled, notional_quote = notional,
              vwap = notional / filled, worst_price = w, consumed_levels = consumed\<rparr>))))"

subsection \<open>The reference allocation\<close>

abbreviation pv :: "BookLevel \<Rightarrow> rat" where "pv l \<equiv> dec_val (price l)"

abbreviation qv :: "BookLevel \<Rightarrow> rat" where "qv l \<equiv> dec_val (quantity l)"

definition depth :: "BookLevel list \<Rightarrow> rat" where
  "depth ls = sum_list (map qv ls)"

definition cost :: "BookLevel list \<Rightarrow> rat list \<Rightarrow> rat" where
  "cost ls ts = sum_list (map2 (\<lambda>l t. pv l * t) ls ts)"

text \<open>A way to take the quantity \<open>q\<close> from the displayed levels.\<close>

definition allocation :: "BookLevel list \<Rightarrow> rat list \<Rightarrow> rat \<Rightarrow> bool" where
  "allocation ls ts q \<longleftrightarrow> list_all2 (\<lambda>l t. 0 \<le> t \<and> t \<le> qv l) ls ts \<and> sum_list ts = q"

fun greedy :: "rat \<Rightarrow> BookLevel list \<Rightarrow> rat list" where
  "greedy r [] = []"
| "greedy r (l # ls) = min r (qv l) # greedy (r - min r (qv l)) ls"

text \<open>Price and number of the levels that \<open>greedy\<close> touches.\<close>

fun marginal :: "rat option \<Rightarrow> rat \<Rightarrow> BookLevel list \<Rightarrow> rat option" where
  "marginal w r [] = w"
| "marginal w r (l # ls) = (if r \<le> 0 then w else marginal (Some (pv l)) (r - min r (qv l)) ls)"

fun touched :: "rat \<Rightarrow> BookLevel list \<Rightarrow> int" where
  "touched r [] = 0"
| "touched r (l # ls) = (if r \<le> 0 then 0 else 1 + touched (r - min r (qv l)) ls)"

lemma touched_nonneg: "0 \<le> touched r ls"
  by (induction r ls rule: touched.induct) auto

lemma level_admitted_pos:
  assumes "level_admitted l"
  shows "0 < pv l" "0 < qv l" "is_finite (price l)" "is_finite (quantity l)"
  using assms by (auto simp: level_admitted_def level_wf_def admitted_def dec_pos_val)

lemma level_values_admitted:
  assumes "level_admitted l"
  shows "level_values l = Inr (pv l, qv l)"
proof -
  obtain x y where xy: "exact_from_decimal (price l) = Inr x" "exact_from_decimal (quantity l) = Inr y"
    using assms by (auto simp: level_admitted_def admitted_def)
  then have "exact_val x = pv l" "exact_val y = qv l" using exact_from_decimal_val by blast+
  then show ?thesis using xy by (simp add: level_values_def reraise_def exact_val_def)
qed

lemma greedy_zero: "list_all level_admitted ls \<Longrightarrow> greedy 0 ls = replicate (length ls) 0"
  by (induction ls) (auto dest: level_admitted_pos)

lemma cost_zero: "cost ls (replicate (length ls) 0) = 0"
  by (induction ls) (auto simp: cost_def)

lemma depth_nonneg: "list_all level_admitted ls \<Longrightarrow> 0 \<le> depth ls"
  by (induction ls) (auto simp: depth_def intro!: add_nonneg_nonneg less_imp_le [OF level_admitted_pos(2)])

lemma greedy_allocation:
  assumes "list_all level_admitted ls" and "0 \<le> r"
  shows "allocation ls (greedy r ls) (min r (depth ls))"
  using assms
proof (induction ls arbitrary: r)
  case Nil
  then show ?case by (simp add: allocation_def depth_def)
next
  case (Cons l ls)
  have q: "0 < qv l" using Cons.prems level_admitted_pos by simp
  have "allocation ls (greedy (r - min r (qv l)) ls) (min (r - min r (qv l)) (depth ls))"
    using Cons.prems by (intro Cons.IH) auto
  then show ?case using q Cons.prems(2) depth_nonneg [of ls] Cons.prems(1)
    by (auto simp: allocation_def depth_def min_def)
qed

text \<open>The loop with its early exit computes the reference allocation.\<close>

lemma sweep_greedy:
  assumes "list_all level_admitted ls" and "0 < r"
  shows "sweep ls r n c w =
     Inr (r - min r (depth ls), n + cost ls (greedy r ls), c + touched r ls, marginal w r ls)"
  using assms
proof (induction ls arbitrary: r n c w)
  case Nil
  then show ?case by (simp add: depth_def cost_def)
next
  case (Cons l ls)
  have q: "0 < qv l" and v: "level_values l = Inr (pv l, qv l)"
    using Cons.prems level_admitted_pos level_values_admitted by simp_all
  have c: "cost (l # ls) (t # ts) = pv l * t + cost ls ts" for t ts by (simp add: cost_def)
  have d: "depth (l # ls) = qv l + depth ls" and dn: "0 \<le> depth ls"
    using depth_nonneg Cons.prems by (simp_all add: depth_def)
  show ?case
  proof (cases "r \<le> qv l")
    case True
    moreover have "marginal (Some (pv l)) 0 ls = Some (pv l)" and "touched 0 ls = 0" by (cases ls; simp)+
    ultimately show ?thesis using Cons.prems v c d dn greedy_zero [of ls] cost_zero [of ls]
      by (simp add: min_def)
  next
    case False
    then have "sweep ls (r - qv l) (n + pv l * qv l) (c + 1) (Some (pv l)) =
      Inr (r - qv l - min (r - qv l) (depth ls), n + pv l * qv l + cost ls (greedy (r - qv l) ls),
           c + 1 + touched (r - qv l) ls, marginal (Some (pv l)) (r - qv l) ls)"
      using Cons.prems by (intro Cons.IH) auto
    then show ?thesis using False Cons.prems q v c d by (simp add: min_def Let_def algebra_simps)
  qed
qed

subsection \<open>Optimality\<close>

text \<open>
  The exchange argument: against the marginal price \<open>w\<close>, greedy has taken all of every level
  that is better and nothing of any level that is worse.
\<close>

lemma marginal_some: "\<exists>w'. marginal (Some w) r ls = Some w'"
  by (induction ls arbitrary: w r) auto

lemma marginal_member: "marginal w r ls = w \<or> (\<exists>l \<in> set ls. marginal w r ls = Some (pv l))"
proof (induction ls arbitrary: w r)
  case (Cons l ls)
  then show ?case using Cons.IH [of "Some (pv l)" "r - min r (qv l)"] by auto
qed simp

text \<open>\<open>sg\<close> is 1 along rising prices and -1 along falling ones.\<close>

definition walk_ordered :: "rat \<Rightarrow> BookLevel list \<Rightarrow> bool" where
  "walk_ordered sg ls \<longleftrightarrow> sorted_wrt (\<lambda>a b. sg * pv a \<le> sg * pv b) ls"

lemma greedy_exchange:
  assumes "list_all level_admitted ls" and "walk_ordered sg ls" and "0 < r" and "r \<le> depth ls"
    and "marginal None r ls = Some w" and "list_all2 (\<lambda>l t. 0 \<le> t \<and> t \<le> qv l) ls ts"
  shows "0 \<le> sg * (cost ls ts - cost ls (greedy r ls)) - sg * w * (sum_list ts - sum_list (greedy r ls))"
  using assms
proof (induction ls arbitrary: r ts)
  case Nil
  then show ?case by simp
next
  case (Cons l ls)
  obtain t ts' where ts: "ts = t # ts'" and t: "0 \<le> t" "t \<le> qv l"
    and al: "list_all2 (\<lambda>l t. 0 \<le> t \<and> t \<le> qv l) ls ts'"
    using Cons.prems(6) by (auto simp: list_all2_Cons1)
  have c: "cost (l # ls) (a # as) = pv l * a + cost ls as" for a as by (simp add: cost_def)
  have later: "sg * pv l \<le> sg * pv l'" if "l' \<in> set ls" for l'
    using Cons.prems(2) that by (auto simp: walk_ordered_def)
  show ?case
  proof (cases "r \<le> qv l")
    case True
    then have w: "w = pv l" using Cons.prems(3,5) by (cases ls) auto
    have "0 \<le> sg * cost ls ts' - sg * pv l * sum_list ts'"
      using al later
    proof (induction ls ts' rule: list_all2_induct)
      case Nil
      then show ?case by (simp add: cost_def)
    next
      case (Cons l' ls' t' ts'')
      have "sg * pv l * t' \<le> sg * pv l' * t'" using Cons by (intro mult_right_mono) auto
      then show ?case using Cons by (simp add: cost_def algebra_simps)
    qed
    moreover have g: "greedy r (l # ls) = r # replicate (length ls) 0"
      using True Cons.prems(1) greedy_zero [of ls] by simp
    ultimately show ?thesis unfolding ts w g c
      by (simp add: c cost_zero sum_list_replicate algebra_simps)
  next
    case False
    let ?r = "r - qv l"
    have g: "greedy r (l # ls) = qv l # greedy ?r ls" using False by simp
    have "ls \<noteq> []" using False Cons.prems(4) by (auto simp: depth_def)
    then have m: "marginal (Some (pv l)) ?r ls = marginal None ?r ls"
      using False by (cases ls) auto
    then have w: "marginal None ?r ls = Some w" using False Cons.prems(3,5) by simp
    then obtain l' where "l' \<in> set ls" "w = pv l'" using marginal_member [of None ?r ls] by auto
    then have "sg * pv l \<le> sg * w" using later by simp
    then have "0 \<le> (sg * w - sg * pv l) * (qv l - t)" using t by simp
    moreover have "0 \<le> sg * (cost ls ts' - cost ls (greedy ?r ls)) - sg * w * (sum_list ts' - sum_list (greedy ?r ls))"
      using False Cons.prems al w by (intro Cons.IH) (auto simp: depth_def walk_ordered_def)
    ultimately show ?thesis unfolding ts g c by (simp add: algebra_simps)
  qed
qed

text \<open>Every unit greedy takes is priced between the first level and the marginal one.\<close>

lemma greedy_price_range:
  assumes "list_all level_admitted ls" and "walk_ordered sg ls" and "0 < r" and "r \<le> depth ls"
    and "marginal None r ls = Some w"
  shows "sg * cost ls (greedy r ls) \<le> sg * w * r" and "sg * pv (hd ls) * r \<le> sg * cost ls (greedy r ls)"
proof -
  let ?best = "\<lambda>t. t # replicate (length ls - 1) 0"
  have sum: "sum_list (greedy r ls) = r"
    using greedy_allocation [OF assms(1), of r] assms(3,4) by (simp add: allocation_def)
  have "\<exists>l ls'. ls = l # ls'" using assms(3,4) by (cases ls) (auto simp: depth_def)
  then obtain l ls' where ls: "ls = l # ls'" by blast
  have al: "list_all2 (\<lambda>l t. 0 \<le> t \<and> t \<le> qv l) ls (replicate (length ls) 0)"
    using assms(1) by (auto simp: list_all2_conv_all_nth list_all_length intro: less_imp_le level_admitted_pos)
  show "sg * cost ls (greedy r ls) \<le> sg * w * r"
    using greedy_exchange [OF assms al] sum by (simp add: cost_zero sum_list_replicate algebra_simps)
  have "sg * pv l * sum_list ts \<le> sg * cost ls ts" if "list_all2 (\<lambda>l t. 0 \<le> t \<and> t \<le> qv l) ls ts"
      and "\<And>l'. l' \<in> set ls \<Longrightarrow> sg * pv l \<le> sg * pv l'" for ts
    using that
  proof (induction ls ts rule: list_all2_induct)
    case (Cons l' ls' t' ts')
    have "sg * pv l * t' \<le> sg * pv l' * t'" using Cons by (intro mult_right_mono) auto
    then show ?case using Cons by (simp add: cost_def algebra_simps)
  qed (simp add: cost_def)
  from this [of "greedy r ls"] show "sg * pv (hd ls) * r \<le> sg * cost ls (greedy r ls)"
    using greedy_allocation [OF assms(1), of r] assms(2,3) sum unfolding ls
    by (auto simp: allocation_def walk_ordered_def simp del: greedy.simps)
qed

text \<open>Both sides of an admitted book are walked from the best price to worse ones.\<close>

definition toward :: "Side \<Rightarrow> rat" where
  "toward side = (case side of BUY \<Rightarrow> 1 | SELL \<Rightarrow> - 1)"

lemma dec_lt_val: "is_finite x \<Longrightarrow> is_finite y \<Longrightarrow> dec_lt x y \<longleftrightarrow> dec_val x < dec_val y"
  by (cases x; cases y) auto

lemma walked_admitted: "book_admitted (snapshot book) \<Longrightarrow> list_all level_admitted (walked side book)"
  by (cases side) (simp_all add: walked_def book_admitted_def)

lemma walked_nonempty: "book_admitted (snapshot book) \<Longrightarrow> walked side book \<noteq> []"
  by (cases side) (auto simp: walked_def book_admitted_def snapshot_wf_def)

lemma walked_ordered:
  assumes "book_admitted (snapshot book)"
  shows "walk_ordered (toward side) (walked side book)"
proof (cases side)
  case BUY
  have "sorted_wrt (\<lambda>a b. dec_lt (price a) (price b)) (asks (snapshot book))"
    and "list_all level_admitted (asks (snapshot book))"
    using assms by (simp_all add: book_admitted_def snapshot_wf_def)
  then have "sorted_wrt (\<lambda>a b. pv a \<le> pv b) (asks (snapshot book))"
    by (elim sorted_wrt_mono_rel [rotated]) (auto simp: list_all_iff dec_lt_val level_admitted_pos)
  then show ?thesis using BUY by (simp add: walk_ordered_def walked_def toward_def)
next
  case SELL
  have "sorted_wrt (\<lambda>a b. dec_lt (price b) (price a)) (bids (snapshot book))"
    and "list_all level_admitted (bids (snapshot book))"
    using assms by (simp_all add: book_admitted_def snapshot_wf_def)
  then have "sorted_wrt (\<lambda>a b. pv b \<le> pv a) (bids (snapshot book))"
    by (elim sorted_wrt_mono_rel [rotated]) (auto simp: list_all_iff dec_lt_val level_admitted_pos)
  then show ?thesis using SELL by (simp add: walk_ordered_def walked_def toward_def)
qed

definition coin_bound :: "ReconstructedBook \<Rightarrow> bool" where
  "coin_bound book \<longleftrightarrow> require_coin_unit_identity book = Inr ()"

text \<open>What one call returns, on every branch.\<close>

lemma sweep_depth_result:
  assumes "book_admitted (snapshot book)" and "coin_bound book" and "0 < scaled q"
  shows "sweep_depth book side q =
    (if exact_val q \<le> depth (walked side book)
     then Inr \<lparr>ef_side = side, ef_envelope_index = rk_envelope_index book,
              ef_payload_sha256 = rk_payload_sha256 book, ef_epoch_id = epoch_id book,
              requested_quantity = exact_val q, filled_quantity = exact_val q,
              notional_quote = cost (walked side book) (greedy (exact_val q) (walked side book)),
              vwap = cost (walked side book) (greedy (exact_val q) (walked side book)) / exact_val q,
              worst_price = the (marginal None (exact_val q) (walked side book)),
              consumed_levels = touched (exact_val q) (walked side book)\<rparr>
     else Inl DepthRejected)"
proof -
  have e: "of_int (scaled q) / of_int SCALE = exact_val q" by (simp add: exact_val_def)
  have r: "0 < exact_val q" using assms(3) by (simp add: exact_val_def)
  obtain l ls where "walked side book = l # ls" using walked_nonempty [OF assms(1)] by (cases "walked side book") auto
  then obtain w where "marginal None (exact_val q) (walked side book) = Some w"
    using r marginal_some by fastforce
  then show ?thesis
    using assms(2,3) sweep_greedy [OF walked_admitted [OF assms(1)] r]
    by (simp add: sweep_depth_def require_def coin_bound_def e Let_def min_def)
qed

text \<open>
  C12. On an admitted book bound to a coin-sized contract, a positive request is either
  filled completely or rejected for lack of depth, and it is rejected exactly when it
  exceeds the displayed quantity of the side it walks; no other error occurs.
\<close>

theorem sweep_depth_decides:
  assumes "book_admitted (snapshot book)" and "coin_bound book" and "0 < scaled q"
  shows "if exact_val q \<le> depth (walked side book)
         then \<exists>f. sweep_depth book side q = Inr f \<and> filled_quantity f = exact_val q \<and> 0 < consumed_levels f
         else sweep_depth book side q = Inl DepthRejected"
proof -
  have r: "0 < exact_val q" using assms(3) by (simp add: exact_val_def)
  have "0 < touched (exact_val q) (walked side book)"
    using walked_nonempty [OF assms(1)] r by (cases "walked side book") (auto intro: add_pos_nonneg touched_nonneg)
  then show ?thesis using sweep_depth_result [OF assms] by simp
qed

text \<open>
  C11. The fill is a best execution: its notional is what some way of taking the quantity
  from the displayed levels costs, and every other way costs at least as much when buying
  and yields at most as much when selling. Notional, quantity and average price agree.
\<close>

theorem sweep_depth_optimal:
  assumes "book_admitted (snapshot book)" and "coin_bound book" and "sweep_depth book side q = Inr f"
  shows "(\<exists>ts. allocation (walked side book) ts (exact_val q) \<and> notional_quote f = cost (walked side book) ts)
    \<and> (\<forall>ts. allocation (walked side book) ts (exact_val q) \<longrightarrow>
          toward side * notional_quote f \<le> toward side * cost (walked side book) ts)
    \<and> vwap f * exact_val q = notional_quote f"
proof -
  let ?ls = "walked side book" and ?q = "exact_val q"
  have pos: "0 < scaled q" using assms(3) by (auto simp: sweep_depth_def require_eq_Inr)
  then have r: "0 < ?q" by (simp add: exact_val_def)
  have d: "?q \<le> depth ?ls" and n: "notional_quote f = cost ?ls (greedy ?q ?ls)"
    and v: "vwap f = cost ?ls (greedy ?q ?ls) / ?q"
    using assms(3) sweep_depth_result [OF assms(1,2) pos, of side] by (auto split: if_splits)
  have g: "allocation ?ls (greedy ?q ?ls) ?q"
    using greedy_allocation [OF walked_admitted [OF assms(1)], of ?q side] r d by (simp add: min_absorb1)
  obtain w where w: "marginal None ?q ?ls = Some w"
    using r marginal_some walked_nonempty [OF assms(1), of side] by (cases ?ls) fastforce+
  have "toward side * cost ?ls (greedy ?q ?ls) \<le> toward side * cost ?ls ts" if "allocation ?ls ts ?q" for ts
    using greedy_exchange [OF walked_admitted [OF assms(1)] walked_ordered [OF assms(1)] r d w, of ts] that g
    by (simp add: allocation_def algebra_simps)
  then show ?thesis using g n v r by auto
qed

text \<open>
  The average price of a fill lies between the best price of the book and the reported
  worst price, which is the price of a displayed level.
\<close>

theorem sweep_depth_price_bounds:
  assumes "book_admitted (snapshot book)" and "coin_bound book" and "sweep_depth book side q = Inr f"
  shows "toward side * pv (hd (walked side book)) \<le> toward side * vwap f
    \<and> toward side * vwap f \<le> toward side * worst_price f \<and> worst_price f \<in> pv ` set (walked side book)"
proof -
  let ?ls = "walked side book" and ?q = "exact_val q"
  have pos: "0 < scaled q" using assms(3) by (auto simp: sweep_depth_def require_eq_Inr)
  then have r: "0 < ?q" by (simp add: exact_val_def)
  obtain w where w: "marginal None ?q ?ls = Some w"
    using r marginal_some walked_nonempty [OF assms(1), of side] by (cases ?ls) fastforce+
  have d: "?q \<le> depth ?ls" and f: "vwap f = cost ?ls (greedy ?q ?ls) / ?q" "worst_price f = w"
    using assms(3) w sweep_depth_result [OF assms(1,2) pos, of side] by (auto split: if_splits)
  note range = greedy_price_range [OF walked_admitted [OF assms(1)] walked_ordered [OF assms(1)] r d w]
  have "w \<in> pv ` set ?ls" using marginal_member [of None ?q ?ls] w by auto
  then show ?thesis using range r f by (simp add: pos_le_divide_eq pos_divide_le_eq)
qed

subsection \<open>A sample fill\<close>

lemma sample_level_admitted: "level_admitted (lvl 4 3)" "level_admitted (lvl 6 2)" "level_admitted (lvl 7 4)"
proof -
  let ?item = "\<lambda>p q. JObj [(''px'', JStr p), (''sz'', JStr q)]"
  have "book_level_item ''px'' ''sz'' (?item ''4'' ''3'') = Inr (lvl 4 3)"
    "book_level_item ''px'' ''sz'' (?item ''6'' ''2'') = Inr (lvl 6 2)"
    "book_level_item ''px'' ''sz'' (?item ''7'' ''4'') = Inr (lvl 7 4)" by code_simp+
  then show "level_admitted (lvl 4 3)" "level_admitted (lvl 6 2)" "level_admitted (lvl 7 4)"
    using book_level_item_admitted by blast+
qed

lemma sample_bound_admitted: "book_admitted (snapshot sample_bound)" "coin_bound sample_bound"
proof -
  have "dec_lt (DFin False 4 0) (DFin False 6 0)" "dec_lt (DFin False 4 0) (DFin False 7 0)"
    "dec_lt (DFin False 6 0) (DFin False 7 0)" by code_simp+
  then show "book_admitted (snapshot sample_bound)"
    using sample_level_admitted
    by (simp add: sample_bound_def sample_unbound_def sample_book_2_def book_admitted_def snapshot_wf_def) (simp add: lvl_def)
  show "coin_bound sample_bound" by code_simp
qed

definition sample_fill :: ExecutableFill where
  "sample_fill = \<lparr>ef_side = BUY, ef_envelope_index = 4, ef_payload_sha256 = sample_sha, ef_epoch_id = 2,
     requested_quantity = 3, filled_quantity = 3, notional_quote = 19, vwap = 19 / 3, worst_price = 7, consumed_levels = 2\<rparr>"

lemma sample_sweep: "sweep_depth sample_bound BUY (ExactDecimal 300000000) = Inr sample_fill"
proof -
  have q: "exact_val (ExactDecimal 300000000) = 3" by code_simp
  have "\<lparr>ef_side = BUY, ef_envelope_index = rk_envelope_index sample_bound,
     ef_payload_sha256 = rk_payload_sha256 sample_bound, ef_epoch_id = epoch_id sample_bound,
     requested_quantity = 3, filled_quantity = 3,
     notional_quote = cost (walked BUY sample_bound) (greedy 3 (walked BUY sample_bound)),
     vwap = cost (walked BUY sample_bound) (greedy 3 (walked BUY sample_bound)) / 3,
     worst_price = the (marginal None 3 (walked BUY sample_bound)),
     consumed_levels = touched 3 (walked BUY sample_bound)\<rparr> = sample_fill"
    and "3 \<le> depth (walked BUY sample_bound)" by code_simp+
  then show ?thesis using sweep_depth_result [OF sample_bound_admitted, of "ExactDecimal 300000000" BUY] by (simp add: q)
qed

lemma sweep_depth_decides_witness:
  "sweep_depth sample_bound SELL (ExactDecimal 400000000) = Inl DepthRejected"
proof -
  have "\<not> exact_val (ExactDecimal 400000000) \<le> depth (walked SELL sample_bound)" by code_simp
  then show ?thesis using sweep_depth_decides [OF sample_bound_admitted, of "ExactDecimal 400000000" SELL] by simp
qed

lemma sweep_depth_optimal_witness:
  "allocation (walked BUY sample_bound) [1, 2] 3 \<and> 19 \<le> cost (walked BUY sample_bound) [1, 2]"
proof -
  have "exact_val (ExactDecimal 300000000) = 3" and a: "allocation (walked BUY sample_bound) [1, 2] 3" by code_simp+
  then show ?thesis
    using sweep_depth_optimal [OF sample_bound_admitted sample_sweep] by (simp add: toward_def sample_fill_def)
qed

lemma sweep_depth_price_bounds_witness: "pv (hd (walked BUY sample_bound)) \<le> 19 / 3 \<and> 7 \<in> pv ` set (walked BUY sample_bound)"
  using sweep_depth_price_bounds [OF sample_bound_admitted sample_sweep] by (simp add: toward_def sample_fill_def)

end
