(* ===== verification/PublicAdapters.thy ===== *)
theory PublicAdapters
  imports Vwap
begin

section \<open>Public market-data adapters (\<open>liqvera_public_capture/public_adapters\<close>)\<close>

text \<open>
  \<open>lighter.py\<close> and \<open>hyperliquid.py\<close>: discovery of reviewed markets and live order books. The
  transport's response, the mapping provider and the clock are arguments: a response is a
  decoded JSON value, the provider a function from symbol and metadata to a reviewed mapping,
  the clock the value it returns. A method that may raise after it has changed its object
  returns the object together with the result.
\<close>

subsection \<open>Decoding helpers, shared by both modules\<close>

definition as_object :: "json \<Rightarrow> (string \<times> json) list res" where
  "as_object v = (case v of JObj d \<Rightarrow> Inr d | _ \<Rightarrow> Inl ValueError)"

definition as_array :: "json \<Rightarrow> json list res" where
  "as_array v = (case v of JList xs \<Rightarrow> Inr xs | _ \<Rightarrow> Inl ValueError)"

definition as_string :: "json \<Rightarrow> string res" where
  "as_string v = (case v of JStr s \<Rightarrow> require (strip s \<noteq> []) ValueError (Inr s) | _ \<Rightarrow> Inl ValueError)"

definition as_integer :: "json \<Rightarrow> int res" where
  "as_integer v = (case v of JInt i \<Rightarrow> Inr i | _ \<Rightarrow> Inl ValueError)"

definition as_decimal :: "json \<Rightarrow> pydec res" where
  "as_decimal v =
     (case v of
        JStr s \<Rightarrow>
          rbind (reraise (\<lambda>e. e = InvalidOperation) ValueError (dec_of_str s)) (\<lambda>d.
          require (is_finite d) ValueError (Inr d))
      | _ \<Rightarrow> Inl ValueError)"

subsection \<open>The Lighter book reducer\<close>

text \<open>
  \<open>dict[Decimal, Decimal]\<close>: keys are compared by value, and an assignment to a key that is
  present keeps the old key object and its position.
\<close>

type_synonym decimal_dict = "(pydec \<times> pydec) list"

fun dict_set :: "pydec \<Rightarrow> pydec \<Rightarrow> decimal_dict \<Rightarrow> decimal_dict" where
  "dict_set p z [] = [(p, z)]"
| "dict_set p z ((k, v) # d) = (if dec_eq k p then (k, z) # d else (k, v) # dict_set p z d)"

definition dict_pop :: "pydec \<Rightarrow> decimal_dict \<Rightarrow> decimal_dict" where
  "dict_pop p d = filter (\<lambda>(k, v). \<not> dec_eq k p) d"

definition level_delta :: "json \<Rightarrow> delta res" where
  "level_delta item =
     rbind (as_object item) (\<lambda>level.
     rbind (as_decimal (jget level ''price'')) (\<lambda>p.
     rbind (as_decimal (jget level ''size'')) (\<lambda>z.
     require (\<not> (dec_lt z (DFin False 0 0) \<or> dec_lt p (DFin False 0 0) \<or> dec_eq p (DFin False 0 0))) ValueError
       (Inr (p, z)))))"

fun apply_items :: "decimal_dict \<Rightarrow> json list \<Rightarrow> decimal_dict \<times> unit res" where
  "apply_items levels [] = (levels, Inr ())"
| "apply_items levels (item # items) =
     (case level_delta item of
        Inl e \<Rightarrow> (levels, Inl e)
      | Inr (p, z) \<Rightarrow>
          apply_items (if dec_eq z (DFin False 0 0) then dict_pop p levels else dict_set p z levels) items)"

definition apply_levels :: "decimal_dict \<Rightarrow> (string \<times> json) list \<Rightarrow> string \<Rightarrow> decimal_dict \<times> unit res" where
  "apply_levels levels book side =
     (case as_array (jget book side) of
        Inl e \<Rightarrow> (levels, Inl e)
      | Inr items \<Rightarrow> apply_items levels items)"

definition new_levels :: "(string \<times> json) list \<Rightarrow> string \<Rightarrow> decimal_dict res" where
  "new_levels book side = (case apply_levels [] book side of (levels, r) \<Rightarrow> rbind r (\<lambda>_. Inr levels))"

record LighterBookReducer =
  lr_symbol :: string
  lr_market_index :: int
  lr_bids :: decimal_dict
  lr_asks :: decimal_dict
  lr_nonce :: "int option"
  lr_timestamp_ms :: "int option"
  unavailable :: bool

definition new_reducer :: "string \<Rightarrow> int \<Rightarrow> LighterBookReducer" where
  "new_reducer sy i = \<lparr>lr_symbol = sy, lr_market_index = i, lr_bids = [], lr_asks = [], lr_nonce = None,
     lr_timestamp_ms = None, unavailable = True\<rparr>"

text \<open>\<open>sorted(d.items())\<close>; the prices of one dictionary are pairwise different.\<close>

definition sorted_items :: "decimal_dict \<Rightarrow> decimal_dict" where
  "sorted_items d = sort_key (\<lambda>(p, z). dec_val p) d"

definition book_levels_of :: "decimal_dict \<Rightarrow> BookLevel list res" where
  "book_levels_of d = rmap (\<lambda>(p, z). book_level p z) d"

definition reducer_snapshot :: "LighterBookReducer \<Rightarrow> int \<Rightarrow> OrderBookSnapshot res" where
  "reducer_snapshot r now =
     (case (lr_nonce r, lr_timestamp_ms r) of
        (Some n, Some ts) \<Rightarrow>
          require (\<not> unavailable r) ValueError (
          rbind (book_levels_of (rev (sorted_items (lr_bids r)))) (\<lambda>bs.
          rbind (book_levels_of (sorted_items (lr_asks r))) (\<lambda>as.
          order_book_snapshot \<lparr>ob_venue = ''LIGHTER'', ob_symbol = lr_symbol r, sequence = Some n,
            exchange_timestamp_ms = ts, received_timestamp_ms = now, bids = bs, asks = as\<rparr>)))
      | _ \<Rightarrow> Inl ValueError)"

text \<open>The body of \<open>apply\<close> inside its \<open>try\<close>: the object may have changed when it raises.\<close>

definition message_snapshot ::
  "LighterBookReducer \<Rightarrow> (string \<times> json) list \<Rightarrow> int \<Rightarrow> LighterBookReducer \<times> OrderBookSnapshot option res" where
  "message_snapshot r message now =
     (case as_integer (jget message ''timestamp'') of
        Inl e \<Rightarrow> (r, Inl e)
      | Inr ts \<Rightarrow>
          let r' = r\<lparr>lr_timestamp_ms := Some ts\<rparr>
          in (r', rbind (reducer_snapshot r' now) (\<lambda>s. Inr (Some s))))"

definition apply_full ::
  "LighterBookReducer \<Rightarrow> (string \<times> json) list \<Rightarrow> (string \<times> json) list \<Rightarrow> int
     \<Rightarrow> LighterBookReducer \<times> OrderBookSnapshot option res" where
  "apply_full r message book now =
     (case new_levels book ''bids'' of
        Inl e \<Rightarrow> (r, Inl e)
      | Inr bs \<Rightarrow>
          (case new_levels book ''asks'' of
             Inl e \<Rightarrow> (r\<lparr>lr_bids := bs\<rparr>, Inl e)
           | Inr as \<Rightarrow>
               (case as_integer (jget book ''nonce'') of
                  Inl e \<Rightarrow> (r\<lparr>lr_bids := bs, lr_asks := as\<rparr>, Inl e)
                | Inr n \<Rightarrow>
                    message_snapshot (r\<lparr>lr_bids := bs, lr_asks := as, lr_nonce := Some n, unavailable := False\<rparr>)
                      message now)))"

definition apply_contiguous ::
  "LighterBookReducer \<Rightarrow> (string \<times> json) list \<Rightarrow> (string \<times> json) list \<Rightarrow> int \<Rightarrow> int
     \<Rightarrow> LighterBookReducer \<times> OrderBookSnapshot option res" where
  "apply_contiguous r message book next_nonce now =
     (case apply_levels (lr_bids r) book ''bids'' of (bs, rb) \<Rightarrow>
      case rb of
        Inl e \<Rightarrow> (r\<lparr>lr_bids := bs\<rparr>, Inl e)
      | Inr _ \<Rightarrow>
          (case apply_levels (lr_asks r) book ''asks'' of (as, ra) \<Rightarrow>
           case ra of
             Inl e \<Rightarrow> (r\<lparr>lr_bids := bs, lr_asks := as\<rparr>, Inl e)
           | Inr _ \<Rightarrow>
               message_snapshot (r\<lparr>lr_bids := bs, lr_asks := as, lr_nonce := Some next_nonce\<rparr>) message now))"

definition apply_body ::
  "LighterBookReducer \<Rightarrow> (string \<times> json) list \<Rightarrow> int \<Rightarrow> LighterBookReducer \<times> OrderBookSnapshot option res" where
  "apply_body r message now =
     (case rbind (as_string (jget message ''channel'')) (\<lambda>channel.
            require (channel = ''order_book:'' @ int_str (lr_market_index r)) ValueError (
            rbind (as_object (jget message ''order_book'')) (\<lambda>book.
            rbind (as_string (jget message ''type'')) (\<lambda>message_type.
            Inr (book, message_type))))) of
        Inl e \<Rightarrow> (r, Inl e)
      | Inr (book, message_type) \<Rightarrow>
          if message_type = ''subscribed/order_book'' then apply_full r message book now
          else if unavailable r \<or> message_type \<noteq> ''update/order_book'' then (r, Inr None)
          else (case rbind (as_integer (jget book ''begin_nonce'')) (\<lambda>b.
                  rbind (as_integer (jget book ''nonce'')) (\<lambda>n. Inr (b, n))) of
              Inl e \<Rightarrow> (r, Inl e)
            | Inr (begin_nonce, next_nonce) \<Rightarrow>
                if Some begin_nonce \<noteq> lr_nonce r \<or> next_nonce \<le> begin_nonce
                then (r\<lparr>unavailable := True\<rparr>, Inr None)
                else apply_contiguous r message book next_nonce now))"

definition reducer_apply ::
  "LighterBookReducer \<Rightarrow> (string \<times> json) list \<Rightarrow> int \<Rightarrow> LighterBookReducer \<times> OrderBookSnapshot option res" where
  "reducer_apply r message now =
     (case apply_body r message now of
        (r', Inl e) \<Rightarrow> (r'\<lparr>unavailable := True\<rparr>, Inl e)
      | (r', Inr x) \<Rightarrow> (r', Inr x))"

subsection \<open>The Lighter adapter\<close>

record LighterInstrumentMapping =
  lm_identity :: InstrumentIdentity
  lm_contract_multiplier :: pydec
  lm_displayed_size_unit :: string
  lm_equivalence_evidence :: string

definition lighter_instrument_mapping :: "LighterInstrumentMapping \<Rightarrow> LighterInstrumentMapping res" where
  "lighter_instrument_mapping m =
     rbind (dec_le0 (lm_contract_multiplier m)) (\<lambda>le.
     require (\<not> (le \<or> strip (lm_displayed_size_unit m) = [] \<or> strip (lm_equivalence_evidence m) = [])) ValueError (Inr m))"

record KnownMarket =
  km_index :: int
  km_market :: VenueMarket

record LighterPublicAdapter =
  la_known :: "(string \<times> KnownMarket) list"
  la_books :: "(string \<times> LighterBookReducer) list"

text \<open>\<open>==\<close> of two markets compares field by field, decimals by value.\<close>

definition market_eq :: "VenueMarket \<Rightarrow> VenueMarket \<Rightarrow> bool" where
  "market_eq a b \<longleftrightarrow> venue a = venue b \<and> symbol a = symbol b \<and> identity a = identity b
     \<and> dec_eq (contract_multiplier a) (contract_multiplier b) \<and> displayed_size_unit a = displayed_size_unit b
     \<and> dec_eq (quantity_step a) (quantity_step b) \<and> dec_opt_eq (price_tick a) (price_tick b)
     \<and> dec_eq (min_notional a) (min_notional b) \<and> equivalence_evidence a = equivalence_evidence b
     \<and> price_decimals a = price_decimals b \<and> max_price_significant_digits a = max_price_significant_digits b
     \<and> dec_opt_eq (min_quantity a) (min_quantity b)"

text \<open>\<open>Decimal(1).scaleb(-n)\<close>, for exponents within the context's range.\<close>

definition one_scaleb :: "int \<Rightarrow> pydec res" where
  "one_scaleb n = (if \<bar>n\<bar> \<le> 999999 then Inr (DFin False 1 n) else Inl NotModelled)"

definition lighter_detail ::
  "(string \<Rightarrow> (string \<times> json) list \<Rightarrow> LighterInstrumentMapping option) \<Rightarrow> (string \<times> KnownMarket) list \<Rightarrow> json
     \<Rightarrow> (string \<times> KnownMarket) list res" where
  "lighter_detail mapping_for known raw =
     rbind (as_object raw) (\<lambda>detail.
     rbind (as_string (jget detail ''market_type'')) (\<lambda>mt.
     require (mt = ''perp'') ValueError (
     rbind (as_string (jget detail ''status'')) (\<lambda>st.
     if st \<noteq> ''active'' then Inr known
     else rbind (as_string (jget detail ''symbol'')) (\<lambda>sy.
       case mapping_for sy detail of
         None \<Rightarrow> Inr known
       | Some m \<Rightarrow>
           rbind (as_integer (jget detail ''supported_size_decimals'')) (\<lambda>sd.
           rbind (as_integer (jget detail ''supported_price_decimals'')) (\<lambda>pd.
           require (\<not> (sd < 0 \<or> pd < 0)) ValueError (
           rbind (one_scaleb (- sd)) (\<lambda>qs.
           rbind (one_scaleb (- pd)) (\<lambda>tick.
           rbind (as_decimal (jget detail ''min_quote_amount'')) (\<lambda>mn.
           rbind (as_decimal (jget detail ''min_base_amount'')) (\<lambda>mq.
           rbind (venue_market \<lparr>venue = ''LIGHTER'', symbol = sy, identity = lm_identity m,
                    contract_multiplier = lm_contract_multiplier m, displayed_size_unit = lm_displayed_size_unit m,
                    quantity_step = qs, price_tick = Some tick, min_notional = mn,
                    equivalence_evidence = lm_equivalence_evidence m, price_decimals = None,
                    max_price_significant_digits = None, min_quantity = Some mq\<rparr>) (\<lambda>market.
           rbind (as_integer (jget detail ''market_id'')) (\<lambda>i.
           Inr (AList.update sy \<lparr>km_index = i, km_market = market\<rparr> known)))))))))))))))"

definition lighter_list_markets ::
  "(string \<Rightarrow> (string \<times> json) list \<Rightarrow> LighterInstrumentMapping option) \<Rightarrow> json \<Rightarrow> LighterPublicAdapter
     \<Rightarrow> LighterPublicAdapter \<times> VenueMarket list res" where
  "lighter_list_markets mapping_for response a =
     (case rbind (as_object response) (\<lambda>payload.
            rbind (as_integer (jget payload ''code'')) (\<lambda>code.
            require (code = 200) ValueError (
            rbind (as_array (jget payload ''order_book_details'')) (\<lambda>details.
            rfold (lighter_detail mapping_for) [] details)))) of
        Inl e \<Rightarrow> (a, Inl e)
      | Inr known \<Rightarrow> (a\<lparr>la_known := known\<rparr>, Inr (map (\<lambda>(s, k). km_market k) known)))"

definition lighter_require_market :: "LighterPublicAdapter \<Rightarrow> VenueMarket \<Rightarrow> KnownMarket res" where
  "lighter_require_market a m =
     (case map_of (la_known a) (symbol m) of
        None \<Rightarrow> Inl ValueError
      | Some known \<Rightarrow> require (venue m = ''LIGHTER'' \<and> market_eq (km_market known) m) ValueError (Inr known))"

definition lighter_order_book :: "LighterPublicAdapter \<Rightarrow> VenueMarket \<Rightarrow> int \<Rightarrow> OrderBookSnapshot res" where
  "lighter_order_book a m now =
     rbind (lighter_require_market a m) (\<lambda>_.
     case map_of (la_books a) (symbol m) of
       None \<Rightarrow> Inl ValueError
     | Some r \<Rightarrow> require (\<not> unavailable r) ValueError (reducer_snapshot r now))"

definition apply_order_book_message ::
  "LighterPublicAdapter \<Rightarrow> VenueMarket \<Rightarrow> (string \<times> json) list \<Rightarrow> int
     \<Rightarrow> LighterPublicAdapter \<times> OrderBookSnapshot option res" where
  "apply_order_book_message a m message now =
     (case lighter_require_market a m of
        Inl e \<Rightarrow> (a, Inl e)
      | Inr known \<Rightarrow>
          let r = (case map_of (la_books a) (symbol m) of Some r \<Rightarrow> r | None \<Rightarrow> new_reducer (symbol m) (km_index known))
          in (case reducer_apply r message now of
                (r', x) \<Rightarrow> (a\<lparr>la_books := AList.update (symbol m) r' (la_books a)\<rparr>, x)))"

subsection \<open>The Hyperliquid adapter\<close>

record HyperliquidInstrumentMapping =
  hm_identity :: InstrumentIdentity
  hm_contract_multiplier :: pydec
  hm_displayed_size_unit :: string
  hm_min_notional :: pydec
  hm_equivalence_evidence :: string

definition hyperliquid_instrument_mapping :: "HyperliquidInstrumentMapping \<Rightarrow> HyperliquidInstrumentMapping res" where
  "hyperliquid_instrument_mapping m =
     rbind (dec_le0 (hm_contract_multiplier m)) (\<lambda>le.
     require (\<not> le) ValueError (
     rbind (dec_le0 (hm_min_notional m)) (\<lambda>le'.
     require (\<not> le') ValueError (
     require (strip (hm_displayed_size_unit m) \<noteq> []) ValueError (
     require (strip (hm_equivalence_evidence m) \<noteq> []) ValueError (Inr m))))))"

definition meta_and_contexts :: "json \<Rightarrow> ((string \<times> json) list list \<times> json list) res" where
  "meta_and_contexts response =
     rbind (as_array response) (\<lambda>outer.
     case outer of
       [m, c] \<Rightarrow>
         rbind (as_object m) (\<lambda>metadata.
         rbind (as_array (jget metadata ''universe'')) (\<lambda>universe.
         rbind (as_array c) (\<lambda>contexts.
         require (length universe = length contexts) ValueError (
         rbind (rmap as_object universe) (\<lambda>us. Inr (us, contexts))))))
     | _ \<Rightarrow> Inl ValueError)"

definition hyperliquid_asset ::
  "(string \<Rightarrow> (string \<times> json) list \<Rightarrow> HyperliquidInstrumentMapping option) \<Rightarrow> (string \<times> KnownMarket) list
     \<Rightarrow> nat \<times> (string \<times> json) list \<Rightarrow> (string \<times> KnownMarket) list res" where
  "hyperliquid_asset mapping_for known item =
     (case item of (asset_index, metadata) \<Rightarrow>
        rbind (as_string (jget metadata ''name'')) (\<lambda>sy.
        rbind (as_integer (jget metadata ''szDecimals'')) (\<lambda>sd.
        require (0 \<le> sd \<and> sd \<le> 6) ValueError (
        case mapping_for sy metadata of
          None \<Rightarrow> Inr known
        | Some m \<Rightarrow>
            rbind (venue_market \<lparr>venue = ''HYPERLIQUID'', symbol = sy, identity = hm_identity m,
                     contract_multiplier = hm_contract_multiplier m, displayed_size_unit = hm_displayed_size_unit m,
                     quantity_step = DFin False 1 (- sd), price_tick = None, min_notional = hm_min_notional m,
                     equivalence_evidence = hm_equivalence_evidence m, price_decimals = Some (6 - sd),
                     max_price_significant_digits = Some 5, min_quantity = None\<rparr>) (\<lambda>market.
            Inr (AList.update sy \<lparr>km_index = int asset_index, km_market = market\<rparr> known))))))"

definition hyperliquid_list_markets ::
  "(string \<Rightarrow> (string \<times> json) list \<Rightarrow> HyperliquidInstrumentMapping option) \<Rightarrow> json \<Rightarrow> (string \<times> KnownMarket) list
     \<Rightarrow> (string \<times> KnownMarket) list \<times> VenueMarket list res" where
  "hyperliquid_list_markets mapping_for response known =
     (case rbind (meta_and_contexts response) (\<lambda>(universe, contexts).
            rfold (hyperliquid_asset mapping_for) [] (zip [0..<length universe] universe)) of
        Inl e \<Rightarrow> (known, Inl e)
      | Inr known' \<Rightarrow> (known', Inr (map (\<lambda>(s, k). km_market k) known')))"

definition hyperliquid_require_market :: "(string \<times> KnownMarket) list \<Rightarrow> VenueMarket \<Rightarrow> KnownMarket res" where
  "hyperliquid_require_market known m =
     require (venue m = ''HYPERLIQUID'') ValueError (
     case map_of known (symbol m) of
       None \<Rightarrow> Inl ValueError
     | Some k \<Rightarrow> require (market_eq (km_market k) m) ValueError (Inr k))"

definition adapter_book_levels :: "json \<Rightarrow> BookLevel list res" where
  "adapter_book_levels raw =
     rbind (rbind (as_array raw) (rmap (\<lambda>item.
       rbind (rbind (as_object item) (\<lambda>d. as_decimal (jget d ''px''))) (\<lambda>p.
       rbind (rbind (as_object item) (\<lambda>d. as_decimal (jget d ''sz''))) (\<lambda>q. book_level p q))))) (\<lambda>levels.
     require (levels \<noteq> []) ValueError (Inr levels))"

definition hyperliquid_order_book :: "(string \<times> KnownMarket) list \<Rightarrow> VenueMarket \<Rightarrow> json \<Rightarrow> int \<Rightarrow> OrderBookSnapshot res" where
  "hyperliquid_order_book known m response now =
     rbind (hyperliquid_require_market known m) (\<lambda>_.
     rbind (as_object response) (\<lambda>d.
     rbind (as_string (jget d ''coin'')) (\<lambda>coin.
     require (coin = symbol m) ValueError (
     rbind (as_integer (jget d ''time'')) (\<lambda>ts.
     rbind (as_array (jget d ''levels'')) (\<lambda>levels.
     case levels of
       [b, a] \<Rightarrow>
         rbind (adapter_book_levels b) (\<lambda>bs.
         rbind (adapter_book_levels a) (\<lambda>as.
         order_book_snapshot \<lparr>ob_venue = ''HYPERLIQUID'', ob_symbol = symbol m, sequence = None,
           exchange_timestamp_ms = ts, received_timestamp_ms = now, bids = bs, asks = as\<rparr>))
     | _ \<Rightarrow> Inl ValueError))))))"

subsection \<open>A dictionary as a book side\<close>

definition dict_inv :: "decimal_dict \<Rightarrow> bool" where
  "dict_inv d \<longleftrightarrow> list_all (\<lambda>(p, z). is_finite p \<and> is_finite z) d \<and> distinct (map (\<lambda>(p, z). dec_val p) d)"

definition dict_lookup :: "decimal_dict \<Rightarrow> rat \<rightharpoonup> rat" where
  "dict_lookup d = map_of (map (\<lambda>(p, z). (dec_val p, dec_val z)) d)"

lemma dict_simps [simp]:
  "dict_inv []" "dict_inv ((p, z) # d) \<longleftrightarrow> is_finite p \<and> is_finite z \<and> dec_val p \<notin> (\<lambda>(p, z). dec_val p) ` set d \<and> dict_inv d"
  "dict_lookup [] = Map.empty" "dict_lookup ((p, z) # d) = (dict_lookup d)(dec_val p \<mapsto> dec_val z)"
  by (auto simp: dict_inv_def dict_lookup_def)

lemma dict_lookup_None: "dict_lookup d q = None \<longleftrightarrow> q \<notin> (\<lambda>(p, z). dec_val p) ` set d"
  by (simp add: dict_lookup_def map_of_eq_None_iff image_image case_prod_beta)

lemma dict_set_keys:
  "is_finite p \<Longrightarrow> dict_inv d \<Longrightarrow> (\<lambda>(p, z). dec_val p) ` set (dict_set p z d) = insert (dec_val p) ((\<lambda>(p, z). dec_val p) ` set d)"
  by (induction p z d rule: dict_set.induct) (auto simp: dec_eq_val)

lemma dict_set_inv: "is_finite p \<Longrightarrow> is_finite z \<Longrightarrow> dict_inv d \<Longrightarrow> dict_inv (dict_set p z d)"
proof (induction p z d rule: dict_set.induct)
  case (2 p z k v d)
  then show ?case using dict_set_keys [of p d z] by (auto simp: dec_eq_val)
qed simp

lemma dict_set_lookup:
  "is_finite p \<Longrightarrow> dict_inv d \<Longrightarrow> dict_lookup (dict_set p z d) = (dict_lookup d)(dec_val p \<mapsto> dec_val z)"
  by (induction p z d rule: dict_set.induct) (auto simp: dec_eq_val fun_upd_twist)

lemma dict_pop_inv: "dict_inv d \<Longrightarrow> dict_inv (dict_pop p d)"
  by (auto simp: dict_inv_def dict_pop_def list_all_iff intro: distinct_map_filter)

lemma dict_pop_lookup: "is_finite p \<Longrightarrow> dict_inv d \<Longrightarrow> dict_lookup (dict_pop p d) = (dict_lookup d)(dec_val p := None)"
proof (induction d)
  case (Cons x d)
  obtain k v where "x = (k, v)" by fastforce
  then show ?case using Cons by (cases "dec_val k = dec_val p") (auto simp: dict_pop_def dec_eq_val fun_upd_twist)
qed (simp add: dict_pop_def)

interpretation dd: book_side dict_inv dict_lookup dict_pop dict_set
  by unfold_locales (auto simp: delta_ok_def dict_pop_inv dict_pop_lookup dict_set_inv dict_set_lookup)

lemma as_decimal_Inr: "as_decimal v = Inr d \<longleftrightarrow> (\<exists>s. v = JStr s \<and> dec_of_str s = Inr d \<and> is_finite d)"
  by (cases v) (auto simp: as_decimal_def require_eq_Inr rbind_eq_Inr)

lemma as_simps [simp]:
  "as_object v = Inr o' \<longleftrightarrow> v = JObj o'" "as_array v = Inr xs \<longleftrightarrow> v = JList xs" "as_integer v = Inr i \<longleftrightarrow> v = JInt i"
  "as_string v = Inr s \<longleftrightarrow> v = JStr s \<and> strip s \<noteq> []"
  by (cases v; auto simp: as_object_def as_array_def as_integer_def as_string_def require_def)+

lemma level_delta_ok: "level_delta item = Inr d \<Longrightarrow> delta_ok d"
proof (cases d)
  case (Pair p z)
  assume "level_delta item = Inr d"
  then have f: "is_finite p" "is_finite z" and c: "\<not> (dec_lt z (DFin False 0 0) \<or> dec_lt p (DFin False 0 0) \<or> dec_eq p (DFin False 0 0))"
    using Pair by (auto simp: level_delta_def as_decimal_Inr require_eq_Inr rbind_eq_Inr)
  have "dec_lt x (DFin False 0 0) \<longleftrightarrow> dec_val x < 0" "dec_eq x (DFin False 0 0) \<longleftrightarrow> dec_val x = 0" if "is_finite x" for x
    using that by (cases x; simp add: dec_val_zero)+
  then show ?thesis using Pair f c by (auto simp: delta_ok_def not_less)
qed

lemma apply_items_run:
  assumes "rmap level_delta items = Inr ds"
  shows "apply_items d items = (foldl dd.step d ds, Inr ())"
  using assms
proof (induction items arbitrary: d ds)
  case (Cons item items)
  obtain x xs where x: "level_delta item = Inr x" "rmap level_delta items = Inr xs" "ds = x # xs"
    using Cons.prems by (auto simp: rbind_eq_Inr)
  obtain p z where p: "x = (p, z)" by fastforce
  have "is_finite z" using level_delta_ok [OF x(1)] p by (simp add: delta_ok_def)
  then have "dec_eq z (DFin False 0 0) \<longleftrightarrow> dec_val z = 0" by (cases z) (simp_all add: dec_val_zero)
  then show ?case using Cons.IH [OF x(2)] x p by (simp add: dd.step_def)
qed simp

lemma apply_items_inv: "dict_inv d \<Longrightarrow> dict_inv (fst (apply_items d items))"
proof (induction d items rule: apply_items.induct)
  case (2 d item items)
  show ?case
  proof (cases "level_delta item")
    case (Inr x)
    obtain p z where p: "x = (p, z)" by fastforce
    have "delta_ok x" using level_delta_ok Inr by blast
    then have "dict_inv (if dec_eq z (DFin False 0 0) then dict_pop p d else dict_set p z d)"
      using 2(2) p by (auto simp: delta_ok_def intro: dict_pop_inv dict_set_inv)
    then show ?thesis using 2(1) [OF Inr] p Inr by simp
  qed (use 2 in simp)
qed simp

lemma level_deltas_ok: "rmap level_delta items = Inr ds \<Longrightarrow> list_all delta_ok ds"
  by (auto simp: list_all_iff dest!: rmap_Inr_set intro: level_delta_ok)

subsection \<open>The reducer as a state machine\<close>

definition servable :: "LighterBookReducer \<Rightarrow> bool" where
  "servable r \<longleftrightarrow> (\<forall>now. \<exists>s. reducer_snapshot r now = Inr s)"

definition reducer_inv :: "LighterBookReducer \<Rightarrow> bool" where
  "reducer_inv r \<longleftrightarrow> dict_inv (lr_bids r) \<and> dict_inv (lr_asks r) \<and> (unavailable r \<or> servable r)"

inductive reducer_reachable :: "string \<Rightarrow> int \<Rightarrow> LighterBookReducer \<Rightarrow> bool" for sy :: string and i :: int where
  start: "reducer_reachable sy i (new_reducer sy i)"
| message: "reducer_reachable sy i r \<Longrightarrow> reducer_apply r m now = (r', x) \<Longrightarrow> reducer_reachable sy i r'"

inductive_cases reachable_messageE: "reducer_reachable sy i r"

lemma reducer_snapshot_clock:
  assumes "reducer_snapshot r now = Inr s"
  shows "reducer_snapshot r now' = Inr (s\<lparr>received_timestamp_ms := now'\<rparr>)"
proof -
  have o: "order_book_snapshot (ob\<lparr>received_timestamp_ms := t\<rparr>) = Inr (ob\<lparr>received_timestamp_ms := t\<rparr>) \<longleftrightarrow> snapshot_wf ob" for ob t
    by (auto simp: order_book_snapshot_Inr snapshot_wf_def)
  obtain n ts bs as where n: "lr_nonce r = Some n" "lr_timestamp_ms r = Some ts" "\<not> unavailable r"
      "book_levels_of (rev (sorted_items (lr_bids r))) = Inr bs" "book_levels_of (sorted_items (lr_asks r)) = Inr as"
      "order_book_snapshot \<lparr>ob_venue = ''LIGHTER'', ob_symbol = lr_symbol r, sequence = Some n,
            exchange_timestamp_ms = ts, received_timestamp_ms = now, bids = bs, asks = as\<rparr> = Inr s"
    using assms by (auto simp: reducer_snapshot_def rbind_eq_Inr require_eq_Inr split: option.splits)
  then have s: "s = \<lparr>ob_venue = ''LIGHTER'', ob_symbol = lr_symbol r, sequence = Some n,
            exchange_timestamp_ms = ts, received_timestamp_ms = now, bids = bs, asks = as\<rparr>" and w: "snapshot_wf s"
    by (simp_all add: order_book_snapshot_Inr)
  have "order_book_snapshot (s\<lparr>received_timestamp_ms := now'\<rparr>) = Inr (s\<lparr>received_timestamp_ms := now'\<rparr>)"
    using w o by blast
  then show ?thesis using n by (simp add: reducer_snapshot_def s)
qed

lemma message_snapshot_Inr:
  assumes "message_snapshot r m now = (r', Inr x)"
  shows "\<exists>ts s. r' = r\<lparr>lr_timestamp_ms := Some ts\<rparr> \<and> jget m ''timestamp'' = JInt ts \<and> x = Some s \<and> reducer_snapshot r' now = Inr s"
  using assms by (auto simp: message_snapshot_def Let_def rbind_eq_Inr split: sum.splits)

lemma message_snapshot_dicts:
  "message_snapshot r m now = (r', x) \<Longrightarrow> lr_bids r' = lr_bids r \<and> lr_asks r' = lr_asks r"
  by (auto simp: message_snapshot_def Let_def split: sum.splits)

lemma apply_levels_inv: "dict_inv d \<Longrightarrow> apply_levels d book side = (d', x) \<Longrightarrow> dict_inv d'"
  using apply_items_inv [of d] by (auto simp: apply_levels_def split: sum.splits) (metis fst_conv)

lemma new_levels_inv: "new_levels book side = Inr d \<Longrightarrow> dict_inv d"
  using apply_levels_inv [of "[]"] by (auto simp: new_levels_def rbind_eq_Inr split: prod.splits)

lemma apply_full_inv: "apply_full r m book now = (r', x) \<Longrightarrow> dict_inv (lr_bids r) \<Longrightarrow> dict_inv (lr_asks r) \<Longrightarrow>
    dict_inv (lr_bids r') \<and> dict_inv (lr_asks r')"
  by (auto simp: apply_full_def split: sum.splits dest!: message_snapshot_dicts intro: new_levels_inv)

lemma apply_contiguous_inv: "apply_contiguous r m book n now = (r', x) \<Longrightarrow> dict_inv (lr_bids r) \<Longrightarrow> dict_inv (lr_asks r) \<Longrightarrow>
    dict_inv (lr_bids r') \<and> dict_inv (lr_asks r')"
  by (auto simp: apply_contiguous_def split: sum.splits prod.splits dest!: message_snapshot_dicts intro: apply_levels_inv)

text \<open>What a message is to the reducer: a full book, a continuation of its nonce, or neither.\<close>

definition is_full :: "LighterBookReducer \<Rightarrow> (string \<times> json) list \<Rightarrow> (string \<times> json) list \<Rightarrow> bool" where
  "is_full r m book \<longleftrightarrow> jget m ''channel'' = JStr (''order_book:'' @ int_str (lr_market_index r))
     \<and> jget m ''order_book'' = JObj book \<and> jget m ''type'' = JStr ''subscribed/order_book''"

definition continues :: "LighterBookReducer \<Rightarrow> (string \<times> json) list \<Rightarrow> (string \<times> json) list \<Rightarrow> int \<Rightarrow> bool" where
  "continues r m book n \<longleftrightarrow> \<not> unavailable r \<and> jget m ''channel'' = JStr (''order_book:'' @ int_str (lr_market_index r))
     \<and> jget m ''order_book'' = JObj book \<and> jget m ''type'' = JStr ''update/order_book'' \<and> jget book ''nonce'' = JInt n
     \<and> (\<exists>b. lr_nonce r = Some b \<and> jget book ''begin_nonce'' = JInt b \<and> b < n)"

lemma apply_body_cases:
  assumes "apply_body r m now = (r', x)"
  obtains (same) "r' = r" "\<forall>s. x \<noteq> Inr (Some s)"
    | (gap) "r' = r\<lparr>unavailable := True\<rparr>" "x = Inr None"
    | (full) book where "is_full r m book" "apply_full r m book now = (r', x)"
    | (cont) book n where "continues r m book n" "apply_contiguous r m book n now = (r', x)"
proof -
  consider (e) "r' = r" "\<forall>s. x \<noteq> Inr (Some s)" | (ok) book ty where "jget m ''channel'' = JStr (''order_book:'' @ int_str (lr_market_index r))"
      "jget m ''order_book'' = JObj book" "jget m ''type'' = JStr ty" 
      "(r', x) = (if ty = ''subscribed/order_book'' then apply_full r m book now
          else if unavailable r \<or> ty \<noteq> ''update/order_book'' then (r, Inr None)
          else (case rbind (as_integer (jget book ''begin_nonce'')) (\<lambda>b.
                  rbind (as_integer (jget book ''nonce'')) (\<lambda>n. Inr (b, n))) of
              Inl e \<Rightarrow> (r, Inl e)
            | Inr (begin_nonce, next_nonce) \<Rightarrow>
                if Some begin_nonce \<noteq> lr_nonce r \<or> next_nonce \<le> begin_nonce
                then (r\<lparr>unavailable := True\<rparr>, Inr None)
                else apply_contiguous r m book next_nonce now))"
    using assms unfolding apply_body_def
    by (auto simp: rbind_eq_Inr require_eq_Inr split: sum.splits)
  then show ?thesis
  proof cases
    case e
    then show ?thesis by (rule same)
  next
    case ok
    show ?thesis
    proof (cases "ty = ''subscribed/order_book''")
      case True
      then show ?thesis using ok full [of book] by (simp add: is_full_def)
    next
      case False
      let ?n = "rbind (as_integer (jget book ''begin_nonce'')) (\<lambda>b. rbind (as_integer (jget book ''nonce'')) (\<lambda>n. Inr (b, n)))"
      show ?thesis
      proof (cases "unavailable r \<or> ty \<noteq> ''update/order_book''")
        case True
        then have "(r', x) = (r, Inr None)" using ok(4) False by simp
        then show ?thesis using same by blast
      next
        case upd: False
        show ?thesis
        proof (cases ?n)
          case (Inl e)
          then have "(r', x) = (r, Inl e)" using ok(4) False upd by simp
          then show ?thesis using same by blast
        next
          case (Inr y)
          then obtain b n where y: "y = (b, n)" "jget book ''begin_nonce'' = JInt b" "jget book ''nonce'' = JInt n"
            by (auto simp: rbind_eq_Inr)
          have c: "(r', x) = (if Some b \<noteq> lr_nonce r \<or> n \<le> b then (r\<lparr>unavailable := True\<rparr>, Inr None)
              else apply_contiguous r m book n now)" using ok(4) False upd Inr y(1) by simp
          show ?thesis
          proof (cases "Some b \<noteq> lr_nonce r \<or> n \<le> b")
            case True
            then show ?thesis using c gap by simp
          next
            case False
            then have "continues r m book n" using ok(1-3) upd y(2,3) by (auto simp: continues_def)
            then show ?thesis using cont c False by simp
          qed
        qed
      qed
    qed
  qed
qed

lemma apply_full_avail:
  assumes "apply_full r m book now = (r', Inr x)"
  shows "\<exists>s. x = Some s \<and> reducer_snapshot r' now = Inr s \<and> \<not> unavailable r' \<and> lr_nonce r' \<noteq> None
    \<and> (\<exists>n. lr_nonce r' = Some n \<and> jget book ''nonce'' = JInt n)"
  using assms by (auto simp: apply_full_def split: sum.splits dest!: message_snapshot_Inr)

lemma apply_contiguous_avail:
  assumes "apply_contiguous r m book n now = (r', Inr x)"
  shows "\<exists>s. x = Some s \<and> reducer_snapshot r' now = Inr s \<and> unavailable r' = unavailable r \<and> lr_nonce r' = Some n"
  using assms by (auto simp: apply_contiguous_def split: sum.splits prod.splits dest!: message_snapshot_Inr)

lemma reducer_apply_inv:
  assumes "reducer_inv r" and "reducer_apply r m now = (r', x)"
  shows "reducer_inv r'"
proof -
  obtain r0 where b: "apply_body r m now = (r0, x)" and r': "r' = (if isl x then r0\<lparr>unavailable := True\<rparr> else r0)"
    using assms(2) by (auto simp: reducer_apply_def split: prod.splits sum.splits)
  have i: "dict_inv (lr_bids r)" "dict_inv (lr_asks r)" using assms(1) by (simp_all add: reducer_inv_def)
  have "dict_inv (lr_bids r0) \<and> dict_inv (lr_asks r0)"
    using b by (cases rule: apply_body_cases) (use i apply_full_inv apply_contiguous_inv in auto)
  moreover have "unavailable r0 \<or> servable r0" if "x = Inr y" for y
    using b
  proof (cases rule: apply_body_cases)
    case full
    then show ?thesis using that apply_full_avail reducer_snapshot_clock unfolding servable_def by blast
  next
    case cont
    then show ?thesis using that apply_contiguous_avail reducer_snapshot_clock unfolding servable_def by blast
  qed (use assms(1) in \<open>auto simp: reducer_inv_def\<close>)
  ultimately show ?thesis using r' by (cases x) (auto simp: reducer_inv_def)
qed

lemma reachable_inv: "reducer_reachable sy i r \<Longrightarrow> reducer_inv r"
proof (induction rule: reducer_reachable.induct)
  case start
  then show ?case by (simp add: reducer_inv_def new_reducer_def)
next
  case (message r m now r' x)
  then show ?case using reducer_apply_inv by blast
qed

subsection \<open>The live book and the replayed book agree\<close>

lemma strip_nonempty: "c \<in> set s \<Longrightarrow> \<not> is_space c \<Longrightarrow> strip s \<noteq> []"
proof
  assume c: "c \<in> set s" "\<not> is_space c" and "strip s = []"
  then have "\<forall>x \<in> set (dropWhile is_space s). is_space x" by (simp add: strip_def)
  moreover have "c \<in> set (dropWhile is_space s)" using c by (metis Un_iff set_append set_takeWhileD takeWhile_dropWhile_id)
  ultimately show False using c(2) by blast
qed

definition delta_eq :: "delta \<Rightarrow> delta \<Rightarrow> bool" where
  "delta_eq a b \<longleftrightarrow> dec_val (fst a) = dec_val (fst b) \<and> dec_val (snd a) = dec_val (snd b)"

lemma parsed_level_vals:
  assumes "parsed_level px sz = Inr (p, z)"
  shows "\<exists>p' z'. dec_of_str px = Inr p' \<and> is_finite p' \<and> dec_val p' = dec_val p
     \<and> dec_of_str sz = Inr z' \<and> is_finite z' \<and> dec_val z' = dec_val z"
proof -
  obtain x y where "exact_parse px = Inr x" "exact_parse sz = Inr y" "dec_of_str (exact_str x) = Inr p" "dec_of_str (exact_str y) = Inr z"
    using assms by (auto simp: parsed_level_def rbind_eq_Inr)
  then show ?thesis using exact_parse_decimal dec_of_exact_str(2) exact_parse_wf by metis
qed

lemma level_delta_JObj:
  assumes "jget d ''price'' = JStr px" "jget d ''size'' = JStr sz" "dec_of_str px = Inr p" "dec_of_str sz = Inr z"
    "is_finite p" "is_finite z" "0 < dec_val p" "0 \<le> dec_val z"
  shows "level_delta (JObj d) = Inr (p, z)"
proof -
  have v: "dec_lt x (DFin False 0 0) \<longleftrightarrow> dec_val x < 0" "dec_eq x (DFin False 0 0) \<longleftrightarrow> dec_val x = 0" if "is_finite x" for x
    using that by (simp_all add: dec_lt_val dec_eq_val)
  have "\<not> dec_lt z (DFin False 0 0)" "\<not> dec_lt p (DFin False 0 0)" "\<not> dec_eq p (DFin False 0 0)"
    using assms(5-8) v by auto
  then show ?thesis using assms(1-6) by (simp add: level_delta_def as_object_def as_decimal_def)
qed

lemma delta_item_agrees: "delta_item item = Inr d \<Longrightarrow> \<exists>d'. level_delta item = Inr d' \<and> delta_eq d' d"
proof -
  assume a: "delta_item item = Inr d"
  obtain ob px sz where i: "item = JObj ob" "jget ob ''price'' = JStr px" "jget ob ''size'' = JStr sz"
      "parsed_level px sz = Inr (fst d, snd d)"
    using a by (auto simp: delta_item_def rbind_eq_Inr require_eq_Inr split: json.splits)
  have "0 < dec_val (fst d)" "0 \<le> dec_val (snd d)" using delta_item_admitted [OF a] by (auto simp: delta_admitted_def delta_ok_def)
  then show ?thesis using parsed_level_vals [OF i(4)] level_delta_JObj [OF i(2,3)] i(1) by (fastforce simp: delta_eq_def)
qed

lemma book_level_item_agrees:
  "book_level_item ''price'' ''size'' item = Inr l \<Longrightarrow> \<exists>d'. level_delta item = Inr d' \<and> delta_eq d' (price l, quantity l)"
proof -
  assume a: "book_level_item ''price'' ''size'' item = Inr l"
  obtain ob px sz where i: "item = JObj ob" "jget ob ''price'' = JStr px" "jget ob ''size'' = JStr sz"
      "parsed_level px sz = Inr (price l, quantity l)"
    using a by (auto simp: book_level_item_def rbind_eq_Inr book_level_Inr split: json.splits)
  have "0 < dec_val (price l)" "0 < dec_val (quantity l)" using level_admitted_pos [OF book_level_item_admitted [OF a]] by auto
  then show ?thesis using parsed_level_vals [OF i(4)] level_delta_JObj [OF i(2,3)] i(1) by (fastforce simp: delta_eq_def)
qed

lemma agrees_list:
  assumes "rmap f items = Inr ds" and "\<And>item d. f item = Inr d \<Longrightarrow> \<exists>d'. level_delta item = Inr d' \<and> delta_eq d' (g d)"
  shows "\<exists>ds'. rmap level_delta items = Inr ds' \<and> list_all2 delta_eq ds' (map g ds)"
  using assms(1)
proof (induction items arbitrary: ds)
  case (Cons item items)
  obtain x xs where "f item = Inr x" "rmap f items = Inr xs" "ds = x # xs" using Cons.prems by (auto simp: rbind_eq_Inr)
  then show ?case using assms(2) Cons.IH by fastforce
qed simp

lemma foldl_delta_eq: "list_all2 delta_eq ds' ds \<Longrightarrow> foldl delta_map m ds' = foldl delta_map m ds"
  by (induction ds' ds arbitrary: m rule: list_all2_induct) (auto simp: delta_eq_def delta_map_def)

text \<open>Setting the levels of a full book one by one gives the map of its levels.\<close>

lemma fold_full:
  assumes "side_inv ls" and "list_all (\<lambda>l. dec_val (quantity l) \<noteq> 0) ls"
  shows "foldl delta_map m (map (\<lambda>l. (price l, quantity l)) ls) = m ++ side_lookup ls"
  using assms
proof (induction ls arbitrary: m)
  case (Cons l ls)
  have "dec_val (price l) \<notin> dom (side_lookup ls)" using Cons.prems(1) by (auto simp: domIff side_lookup_None)
  then have "m ++ side_lookup (l # ls) = m(dec_val (price l) \<mapsto> dec_val (quantity l)) ++ side_lookup ls"
    by (simp add: map_add_upd_left)
  moreover have "delta_map m (price l, quantity l) = m(dec_val (price l) \<mapsto> dec_val (quantity l))"
    using Cons.prems(2) by (simp add: delta_map_def)
  moreover have "foldl delta_map (m(dec_val (price l) \<mapsto> dec_val (quantity l))) (map (\<lambda>l. (price l, quantity l)) ls)
      = m(dec_val (price l) \<mapsto> dec_val (quantity l)) ++ side_lookup ls"
    using Cons by simp
  ultimately show ?case by (simp del: side_lookup_simps)
qed simp

text \<open>Two lists that are strictly sorted by their keys and denote the same map are equal.\<close>

lemma sorted_alist_unique:
  fixes xs ys :: "(rat \<times> rat) list"
  assumes "sorted_wrt (<) (map fst xs)" and "sorted_wrt (<) (map fst ys)" and "map_of xs = map_of ys"
  shows "xs = ys"
proof -
  have d: "distinct (map fst xs)" "distinct (map fst ys)" "sorted (map fst xs)" "sorted (map fst ys)"
    using assms(1,2) strict_sorted_iff by blast+
  have "set (map fst xs) = dom (map_of xs)" "set (map fst ys) = dom (map_of ys)" by (simp_all add: dom_map_of_conv_image_fst)
  then have k: "map fst xs = map fst ys" using sorted_distinct_set_unique [OF d(3,1,4,2)] assms(3) by simp
  have "zs = map (\<lambda>k. (k, the (map_of zs k))) (map fst zs)" if "distinct (map fst zs)" for zs :: "(rat \<times> rat) list"
  proof -
    have "map (\<lambda>x. (fst x, the (map_of zs (fst x)))) zs = zs"
      using that by (intro map_idI) (metis eq_snd_iff map_of_is_SomeI option.sel prod.collapse)
    then show ?thesis by (simp add: comp_def)
  qed
  then show ?thesis using d(1,2) k assms(3) by metis
qed

definition level_vals :: "BookLevel list \<Rightarrow> (rat \<times> rat) list" where
  "level_vals ls = map (\<lambda>l. (dec_val (price l), dec_val (quantity l))) ls"

definition item_vals :: "decimal_dict \<Rightarrow> (rat \<times> rat) list" where
  "item_vals d = map (\<lambda>(p, z). (dec_val p, dec_val z)) d"

lemma sorted_items_strict: "dict_inv d \<Longrightarrow> sorted_wrt (<) (map fst (item_vals (sorted_items d)))"
proof -
  assume d: "dict_inv d"
  have "map fst (item_vals (sorted_items d)) = sort (map (\<lambda>(p, z). dec_val p) d)"
    by (simp add: item_vals_def sorted_items_def comp_def case_prod_beta flip: map_sort_key)
  then show ?thesis using d by (simp add: strict_sorted_iff dict_inv_def)
qed

lemma map_of_sorted_items: "dict_inv d \<Longrightarrow> map_of (item_vals (sorted_items d)) = dict_lookup d"
proof -
  assume d: "dict_inv d"
  have "distinct (map fst (item_vals (sorted_items d)))" using sorted_items_strict [OF d] strict_sorted_iff by blast
  moreover have "distinct (map fst (item_vals d))" using d by (simp add: dict_inv_def item_vals_def comp_def case_prod_beta')
  moreover have "set (item_vals (sorted_items d)) = set (item_vals d)" by (simp add: item_vals_def sorted_items_def)
  ultimately have "map_of (item_vals (sorted_items d)) = map_of (item_vals d)" by (simp add: map_of_inject_set)
  then show ?thesis by (simp add: dict_lookup_def item_vals_def)
qed

lemma asks_agree:
  assumes "snapshot_wf s" and "list_all level_admitted (asks s)" and "dict_inv d" and "dict_lookup d = side_lookup (asks s)"
  shows "item_vals (sorted_items d) = level_vals (asks s)"
proof (rule sorted_alist_unique [OF sorted_items_strict [OF assms(3)]])
  have "sorted_wrt (\<lambda>a b. dec_val (price a) < dec_val (price b)) (asks s)"
    using assms(1,2) by (auto simp: snapshot_wf_def list_all_iff dec_lt_val level_admitted_pos elim!: sorted_wrt_mono_rel [rotated])
  then show "sorted_wrt (<) (map fst (level_vals (asks s)))" by (simp add: level_vals_def sorted_wrt_map)
  show "map_of (item_vals (sorted_items d)) = map_of (level_vals (asks s))"
    using map_of_sorted_items [OF assms(3)] assms(4) by (simp add: side_lookup_def level_vals_def)
qed

lemma bids_agree:
  assumes "snapshot_wf s" and "list_all level_admitted (bids s)" and "dict_inv d" and "dict_lookup d = side_lookup (bids s)"
  shows "item_vals (rev (sorted_items d)) = level_vals (bids s)"
proof -
  have st: "sorted_wrt (\<lambda>a b. dec_val (price b) < dec_val (price a)) (bids s)"
    using assms(1,2) by (auto simp: snapshot_wf_def list_all_iff dec_lt_val level_admitted_pos elim!: sorted_wrt_mono_rel [rotated])
  then have r: "sorted_wrt (<) (map fst (rev (level_vals (bids s))))"
    by (simp add: level_vals_def sorted_wrt_map sorted_wrt_rev flip: rev_map)
  have "distinct (map fst (level_vals (bids s)))"
    using r strict_sorted_iff [of "map fst (rev (level_vals (bids s)))"] by (simp add: rev_map [symmetric])
  then have "map_of (rev (level_vals (bids s))) = map_of (level_vals (bids s))"
    by (simp add: map_of_inject_set rev_map [symmetric])
  then have "item_vals (sorted_items d) = rev (level_vals (bids s))"
    using map_of_sorted_items [OF assms(3)] assms(4)
    by (intro sorted_alist_unique [OF sorted_items_strict [OF assms(3)] r]) (simp add: side_lookup_def level_vals_def)
  then show ?thesis by (simp add: item_vals_def rev_map [symmetric])
qed

definition finite_levels :: "BookLevel list \<Rightarrow> bool" where
  "finite_levels ls \<longleftrightarrow> list_all (\<lambda>l. is_finite (price l) \<and> is_finite (quantity l)) ls"

lemma snapshot_wf_values:
  assumes "finite_levels (bids s)" and "finite_levels (asks s)"
  shows "snapshot_wf s \<longleftrightarrow> level_vals (bids s) \<noteq> [] \<and> level_vals (asks s) \<noteq> []
     \<and> sorted_wrt (\<lambda>a b. fst b < fst a) (level_vals (bids s)) \<and> sorted_wrt (\<lambda>a b. fst a < fst b) (level_vals (asks s))
     \<and> (\<forall>b \<in> set (level_vals (bids s)). \<forall>a \<in> set (level_vals (asks s)). fst b < fst a)"
proof -
  have "sorted_wrt (\<lambda>a b. dec_lt (price b) (price a)) (bids s) \<longleftrightarrow> sorted_wrt (\<lambda>a b. dec_val (price b) < dec_val (price a)) (bids s)"
    "sorted_wrt (\<lambda>a b. dec_lt (price a) (price b)) (asks s) \<longleftrightarrow> sorted_wrt (\<lambda>a b. dec_val (price a) < dec_val (price b)) (asks s)"
    using assms by (auto simp: finite_levels_def list_all_iff dec_lt_val elim!: sorted_wrt_mono_rel [rotated])
  then show ?thesis using assms
    by (auto simp: snapshot_wf_def level_vals_def sorted_wrt_map finite_levels_def list_all_iff dec_lt_val)
qed

lemma admitted_side_inv:
  assumes "book_admitted s"
  shows "side_inv (bids s)" "side_inv (asks s)" "finite_levels (bids s)" "finite_levels (asks s)"
    "list_all level_admitted (bids s)" "list_all level_admitted (asks s)"
proof -
  show a: "list_all level_admitted (bids s)" "list_all level_admitted (asks s)"
    and f: "finite_levels (bids s)" "finite_levels (asks s)"
    using assms by (auto simp: book_admitted_def finite_levels_def list_all_iff level_admitted_pos)
  have "sorted_wrt (\<lambda>a b. dec_val (price b) < dec_val (price a)) (bids s)"
    "sorted_wrt (\<lambda>a b. dec_val (price a) < dec_val (price b)) (asks s)"
    using assms snapshot_wf_values [OF f] by (auto simp: book_admitted_def level_vals_def sorted_wrt_map)
  then have "distinct (map (\<lambda>l. dec_val (price l)) (bids s))" "distinct (map (\<lambda>l. dec_val (price l)) (asks s))"
    by (auto simp: distinct_conv_nth sorted_wrt_iff_nth_less) (metis linorder_neqE_nat less_irrefl)+
  then show "side_inv (bids s)" "side_inv (asks s)" using f by (simp_all add: side_inv_def finite_levels_def)
qed

lemma book_levels_of_vals:
  assumes "item_vals d = level_vals ls" and "list_all level_admitted ls" and "list_all (\<lambda>(p, z). is_finite p \<and> is_finite z) d"
  shows "\<exists>ls'. book_levels_of d = Inr ls' \<and> level_vals ls' = level_vals ls \<and> finite_levels ls'"
proof -
  let ?g = "\<lambda>(p, z). \<lparr>price = p, quantity = z\<rparr>"
  have "book_level p z = Inr (?g (p, z))" if "(p, z) \<in> set d" for p z
  proof -
    have "(dec_val p, dec_val z) \<in> set (level_vals ls)" using that unfolding assms(1) [symmetric] by (force simp: item_vals_def)
    then have "0 < dec_val p" "0 < dec_val z" using assms(2) by (auto simp: level_vals_def list_all_iff level_admitted_pos)
    moreover have "is_finite p" "is_finite z" using assms(3) that by (auto simp: list_all_iff)
    ultimately show ?thesis by (simp add: book_level_Inr level_wf_def dec_pos_val)
  qed
  then have "book_levels_of d = Inr (map ?g d)" unfolding book_levels_of_def by (intro rmap_total) auto
  moreover have "level_vals (map ?g d) = level_vals ls" using assms(1) by (simp add: level_vals_def item_vals_def comp_def case_prod_beta')
  moreover have "finite_levels (map ?g d)" using assms(3) by (auto simp: finite_levels_def list_all_iff)
  ultimately show ?thesis by blast
qed

text \<open>The reducer holds the book \<open>s\<close>: the same map of prices to sizes on both sides, the same nonce.\<close>

definition tracks :: "OrderBookSnapshot \<Rightarrow> LighterBookReducer \<Rightarrow> bool" where
  "tracks s r \<longleftrightarrow> book_admitted s \<and> \<not> unavailable r \<and> sequence s \<noteq> None \<and> lr_nonce r = sequence s \<and> lr_symbol r = ob_symbol s
     \<and> dict_inv (lr_bids r) \<and> dict_inv (lr_asks r)
     \<and> dict_lookup (lr_bids r) = side_lookup (bids s) \<and> dict_lookup (lr_asks r) = side_lookup (asks s)"

definition same_book :: "OrderBookSnapshot \<Rightarrow> OrderBookSnapshot \<Rightarrow> bool" where
  "same_book a b \<longleftrightarrow> ob_venue a = ob_venue b \<and> ob_symbol a = ob_symbol b \<and> sequence a = sequence b
     \<and> exchange_timestamp_ms a = exchange_timestamp_ms b
     \<and> level_vals (bids a) = level_vals (bids b) \<and> level_vals (asks a) = level_vals (asks b)"

lemma tracks_snapshot:
  assumes "tracks s r" and "lr_timestamp_ms r = Some (exchange_timestamp_ms s)" and "ob_venue s = ''LIGHTER''"
  shows "\<exists>s'. reducer_snapshot r now = Inr s' \<and> same_book s' s"
proof -
  have t: "book_admitted s" "\<not> unavailable r" "lr_nonce r = sequence s" "lr_symbol r = ob_symbol s" "dict_inv (lr_bids r)" "dict_inv (lr_asks r)"
    and l: "dict_lookup (lr_bids r) = side_lookup (bids s)" "dict_lookup (lr_asks r) = side_lookup (asks s)"
    using assms(1) by (simp_all add: tracks_def)
  note adm = admitted_side_inv [OF t(1)]
  have w: "snapshot_wf s" using t(1) by (simp add: book_admitted_def)
  have fin: "list_all (\<lambda>(p, z). is_finite p \<and> is_finite z) (rev (sorted_items (lr_bids r)))"
    "list_all (\<lambda>(p, z). is_finite p \<and> is_finite z) (sorted_items (lr_asks r))"
    using t(5,6) by (simp_all add: dict_inv_def sorted_items_def list_all_iff)
  obtain bs where bs: "book_levels_of (rev (sorted_items (lr_bids r))) = Inr bs" "level_vals bs = level_vals (bids s)" "finite_levels bs"
    using book_levels_of_vals [OF bids_agree [OF w adm(5) t(5) l(1)] adm(5) fin(1)] by blast
  obtain as where as: "book_levels_of (sorted_items (lr_asks r)) = Inr as" "level_vals as = level_vals (asks s)" "finite_levels as"
    using book_levels_of_vals [OF asks_agree [OF w adm(6) t(6) l(2)] adm(6) fin(2)] by blast
  obtain n where n: "sequence s = Some n" using assms(1) by (auto simp: tracks_def)
  let ?s = "\<lparr>ob_venue = ''LIGHTER'', ob_symbol = lr_symbol r, sequence = Some n,
     exchange_timestamp_ms = exchange_timestamp_ms s, received_timestamp_ms = now, bids = bs, asks = as\<rparr>"
  have "snapshot_wf ?s" using w snapshot_wf_values [OF adm(3,4)] snapshot_wf_values [of ?s] bs as by simp
  then have "reducer_snapshot r now = Inr ?s"
    using t n bs as assms(2) by (simp add: reducer_snapshot_def order_book_snapshot_Inr)
  moreover have "same_book ?s s" using bs as t n assms(3) by (simp add: same_book_def)
  ultimately show ?thesis by blast
qed

lemma apply_levels_agree:
  assumes "rmap delta_item items = Inr ds" and "dict_inv d" and "dict_lookup d = side_lookup ls" and "side_inv ls"
    and "apply_side ls ds = Inr ls'" and "jget book side = JList items"
  shows "\<exists>d'. apply_levels d book side = (d', Inr ()) \<and> dict_inv d' \<and> dict_lookup d' = side_lookup ls'"
proof -
  obtain ds' where ds': "rmap level_delta items = Inr ds'" "list_all2 delta_eq ds' ds"
    using agrees_list [OF assms(1), of "\<lambda>d. d"] delta_item_agrees by auto
  have ok: "list_all delta_ok ds" using assms(1) by (auto simp: list_all_iff delta_admitted_def dest!: rmap_Inr_set delta_item_admitted)
  then have "ls' = foldl ls.step ls ds" using apply_side_run assms(5) by simp
  then have "side_lookup ls' = foldl delta_map (side_lookup ls) ds" using ls.run_correct [OF assms(4) ok] by simp
  moreover have "dict_inv (foldl dd.step d ds') \<and> dict_lookup (foldl dd.step d ds') = foldl delta_map (dict_lookup d) ds'"
    using dd.run_correct [OF assms(2) level_deltas_ok [OF ds'(1)]] .
  ultimately have "dict_inv (foldl dd.step d ds')" "dict_lookup (foldl dd.step d ds') = side_lookup ls'"
    using foldl_delta_eq [OF ds'(2)] assms(3) by simp_all
  then show ?thesis using apply_items_run [OF ds'(1)] assms(6) by (simp add: apply_levels_def as_array_def)
qed

lemma new_levels_agree:
  assumes "lighter_book_levels raw = Inr ls" and "jget book side = raw" and "side_inv ls"
  shows "\<exists>d'. new_levels book side = Inr d' \<and> dict_inv d' \<and> dict_lookup d' = side_lookup ls"
proof -
  obtain items where i: "raw = JList items" "rmap (book_level_item ''price'' ''size'') items = Inr ls"
    using assms(1) by (auto simp: lighter_book_levels_def book_levels_def split: json.splits)
  obtain ds' where ds': "rmap level_delta items = Inr ds'" "list_all2 delta_eq ds' (map (\<lambda>l. (price l, quantity l)) ls)"
    using agrees_list [OF i(2), of "\<lambda>l. (price l, quantity l)"] book_level_item_agrees by auto
  have "list_all (\<lambda>l. dec_val (quantity l) \<noteq> 0) ls"
    using i(2) by (force simp: list_all_iff dest!: rmap_Inr_set book_level_item_admitted level_admitted_pos(2))
  then have "foldl delta_map Map.empty ds' = side_lookup ls"
    using foldl_delta_eq [OF ds'(2)] fold_full [OF assms(3)] by simp
  moreover have "dict_inv (foldl dd.step [] ds') \<and> dict_lookup (foldl dd.step [] ds') = foldl delta_map Map.empty ds'"
    using dd.run_correct [OF _ level_deltas_ok [OF ds'(1)], of "[]"] by simp
  ultimately show ?thesis using apply_items_run [OF ds'(1), of "[]"] i(1) assms(2)
    by (simp add: new_levels_def apply_levels_def as_array_def)
qed

lemma channel_string: "as_string (JStr (''order_book:'' @ t)) = Inr (''order_book:'' @ t)"
  "as_string (JStr ''update/order_book'') = Inr ''update/order_book''"
  "as_string (JStr ''subscribed/order_book'') = Inr ''subscribed/order_book''"
proof -
  have o: "\<not> is_space CHR ''o''" by (simp add: is_space_def)
  show "as_string (JStr (''order_book:'' @ t)) = Inr (''order_book:'' @ t)"
    "as_string (JStr ''update/order_book'') = Inr ''update/order_book''"
    "as_string (JStr ''subscribed/order_book'') = Inr ''subscribed/order_book''"
    using strip_nonempty [OF _ o] by (simp_all add: as_string_def)
qed

lemma reducer_apply_message:
  assumes "tracks s r0" and "lr_timestamp_ms r = ts" and "r0 = r\<lparr>lr_timestamp_ms := Some (exchange_timestamp_ms s)\<rparr>"
    and "ob_venue s = ''LIGHTER''" and "jget m ''timestamp'' = JInt (exchange_timestamp_ms s)"
  shows "\<exists>s'. message_snapshot r m now = (r0, Inr (Some s')) \<and> same_book s' s"
  using tracks_snapshot [OF assms(1) _ assms(4), of now] assms(3,5) by (auto simp: message_snapshot_def as_integer_def)

lemma recon_require_int_Inr: "recon_require_int v = Inr i \<longleftrightarrow> v = JInt i"
  by (cases v) (simp_all add: recon_require_int_def)

lemma lighter_channel_Inr: "lighter_channel d = Inr c \<Longrightarrow> jget d ''channel'' = JStr c"
  by (cases "jget d ''channel''") (auto simp: lighter_channel_def rbind_eq_Inr require_eq_Inr Let_def)

lemma delta_levels_Inr: "delta_levels raw = Inr ds \<longleftrightarrow> (\<exists>items. raw = JList items \<and> rmap delta_item items = Inr ds)"
  by (cases raw) (simp_all add: delta_levels_def)

lemma decode_update_Inr:
  assumes "decode_update m = Inr u"
  shows "\<exists>ob bi ai. jget m ''channel'' = JStr (lu_channel u) \<and> jget m ''timestamp'' = JInt (lu_timestamp u) \<and>
      jget m ''order_book'' = JObj ob \<and> jget ob ''begin_nonce'' = JInt (lu_begin_nonce u) \<and> jget ob ''nonce'' = JInt (lu_nonce u) \<and>
      jget ob ''bids'' = JList bi \<and> rmap delta_item bi = Inr (lu_bids u) \<and>
      jget ob ''asks'' = JList ai \<and> rmap delta_item ai = Inr (lu_asks u)"
proof (cases "jget m ''order_book''")
  case (JObj ob)
  then show ?thesis using assms
    by (auto simp: decode_update_def rbind_eq_Inr recon_require_int_Inr delta_levels_Inr dest!: lighter_channel_Inr)
qed (use assms in \<open>simp_all add: decode_update_def rbind_eq_Inr\<close>)

lemma decode_snapshot_Inr:
  assumes "decode_snapshot m = Inr u"
  shows "\<exists>ob. jget m ''channel'' = JStr (ls_channel u) \<and> jget m ''timestamp'' = JInt (ls_timestamp u) \<and>
      jget m ''order_book'' = JObj ob \<and> jget ob ''nonce'' = JInt (ls_nonce u) \<and>
      lighter_book_levels (jget ob ''bids'') = Inr (ls_bids u) \<and> lighter_book_levels (jget ob ''asks'') = Inr (ls_asks u)"
proof (cases "jget m ''order_book''")
  case (JObj ob)
  then show ?thesis using assms
    by (auto simp: decode_snapshot_def rbind_eq_Inr recon_require_int_Inr dest!: lighter_channel_Inr)
qed (use assms in \<open>simp_all add: decode_snapshot_def rbind_eq_Inr\<close>)

lemma live_update:
  assumes t: "tracks prev r" and u: "decode_update m = Inr u" "jget m ''type'' = JStr ''update/order_book''"
    and ch: "lu_channel u = ''order_book:'' @ int_str (lr_market_index r)" and c: "contiguous prev u"
    and a: "apply_lighter_update prev u observed = Inr s"
  shows "\<exists>r' s'. reducer_apply r m now = (r', Inr (Some s')) \<and> tracks s r' \<and> same_book s' s"
proof -
  obtain ob bi ai where m: "jget m ''channel'' = JStr (lu_channel u)" "jget m ''timestamp'' = JInt (lu_timestamp u)"
      "jget m ''order_book'' = JObj ob" "jget ob ''begin_nonce'' = JInt (lu_begin_nonce u)" "jget ob ''nonce'' = JInt (lu_nonce u)"
      "jget ob ''bids'' = JList bi" "rmap delta_item bi = Inr (lu_bids u)"
      "jget ob ''asks'' = JList ai" "rmap delta_item ai = Inr (lu_asks u)"
    using decode_update_Inr [OF u(1)] by blast
  have s: "apply_side (bids prev) (lu_bids u) = Inr (bids s)" "apply_side (asks prev) (lu_asks u) = Inr (asks s)"
      "snapshot_wf s" "ob_venue s = ''LIGHTER''" "sequence s = Some (lu_nonce u)" "exchange_timestamp_ms s = lu_timestamp u"
      "ob_symbol s = ob_symbol prev"
    using a c by (auto simp: apply_lighter_update_def rbind_eq_Inr order_book_snapshot_Inr contiguous_def split: option.splits)
  have prev: "book_admitted prev" and l: "dict_lookup (lr_bids r) = side_lookup (bids prev)" "dict_lookup (lr_asks r) = side_lookup (asks prev)"
    and i: "dict_inv (lr_bids r)" "dict_inv (lr_asks r)" using t by (simp_all add: tracks_def)
  note adm = admitted_side_inv [OF prev]
  obtain bs where bs: "apply_levels (lr_bids r) ob ''bids'' = (bs, Inr ())" "dict_inv bs" "dict_lookup bs = side_lookup (bids s)"
    using apply_levels_agree [OF m(7) i(1) l(1) adm(1) s(1) m(6)] by blast
  obtain as where as: "apply_levels (lr_asks r) ob ''asks'' = (as, Inr ())" "dict_inv as" "dict_lookup as = side_lookup (asks s)"
    using apply_levels_agree [OF m(9) i(2) l(2) adm(2) s(2) m(8)] by blast
  have "list_all delta_admitted (lu_bids u)" "list_all delta_admitted (lu_asks u)"
    using m(7,9) by (auto simp: list_all_iff dest!: rmap_Inr_set intro: delta_item_admitted)
  then have "book_admitted s" using apply_side_admitted adm(5,6) s(1-3) by (auto simp: book_admitted_def)
  then have tr: "tracks s (r\<lparr>lr_bids := bs, lr_asks := as, lr_nonce := Some (lu_nonce u), lr_timestamp_ms := Some (exchange_timestamp_ms s)\<rparr>)"
    using t bs as s by (simp add: tracks_def)
  obtain s' where s': "message_snapshot (r\<lparr>lr_bids := bs, lr_asks := as, lr_nonce := Some (lu_nonce u)\<rparr>) m now =
      (r\<lparr>lr_bids := bs, lr_asks := as, lr_nonce := Some (lu_nonce u), lr_timestamp_ms := Some (exchange_timestamp_ms s)\<rparr>, Inr (Some s'))"
      "same_book s' s"
    using reducer_apply_message [OF tr refl _ s(4), of "r\<lparr>lr_bids := bs, lr_asks := as, lr_nonce := Some (lu_nonce u)\<rparr>" m now] m(2) s(6) by auto
  have "lr_nonce r = Some (lu_begin_nonce u)" "\<not> lu_nonce u \<le> lu_begin_nonce u" "\<not> unavailable r"
    using t c by (auto simp: tracks_def contiguous_def)
  then have "apply_body r m now = apply_contiguous r m ob (lu_nonce u) now"
    using m u(2) ch by (simp add: apply_body_def as_object_def as_integer_def channel_string del: append_Cons)
  then have "reducer_apply r m now = (r\<lparr>lr_bids := bs, lr_asks := as, lr_nonce := Some (lu_nonce u), lr_timestamp_ms := Some (exchange_timestamp_ms s)\<rparr>, Inr (Some s'))"
    using bs(1) as(1) s'(1) by (simp add: reducer_apply_def apply_contiguous_def)
  then show ?thesis using tr s'(2) by blast
qed

lemma live_snapshot:
  assumes u: "decode_snapshot m = Inr u" "jget m ''type'' = JStr ''subscribed/order_book''"
    and ch: "ls_channel u = ''order_book:'' @ int_str (lr_market_index r)"
    and a: "lighter_snapshot_book (lr_symbol r) u observed = Inr s"
  shows "\<exists>r' s'. reducer_apply r m now = (r', Inr (Some s')) \<and> tracks s r' \<and> same_book s' s"
proof -
  obtain ob where m: "jget m ''channel'' = JStr (ls_channel u)" "jget m ''timestamp'' = JInt (ls_timestamp u)"
      "jget m ''order_book'' = JObj ob" "jget ob ''nonce'' = JInt (ls_nonce u)"
      "lighter_book_levels (jget ob ''bids'') = Inr (ls_bids u)" "lighter_book_levels (jget ob ''asks'') = Inr (ls_asks u)"
    using decode_snapshot_Inr [OF u(1)] by blast
  have s: "bids s = ls_bids u" "asks s = ls_asks u" "snapshot_wf s" "ob_venue s = ''LIGHTER''" "sequence s = Some (ls_nonce u)"
      "exchange_timestamp_ms s = ls_timestamp u" "ob_symbol s = lr_symbol r"
    using a by (auto simp: lighter_snapshot_book_def order_book_snapshot_Inr)
  have ad: "book_admitted s" using s m(5,6) by (auto simp: book_admitted_def lighter_book_levels_def intro: book_levels_admitted)
  note adm = admitted_side_inv [OF ad]
  obtain bs where bs: "new_levels ob ''bids'' = Inr bs" "dict_inv bs" "dict_lookup bs = side_lookup (bids s)"
    using new_levels_agree [OF m(5) refl] adm(1) s(1) by auto
  obtain as where as: "new_levels ob ''asks'' = Inr as" "dict_inv as" "dict_lookup as = side_lookup (asks s)"
    using new_levels_agree [OF m(6) refl] adm(2) s(2) by auto
  let ?r = "r\<lparr>lr_bids := bs, lr_asks := as, lr_nonce := Some (ls_nonce u), unavailable := False\<rparr>"
  have tr: "tracks s (?r\<lparr>lr_timestamp_ms := Some (exchange_timestamp_ms s)\<rparr>)"
    using bs as s ad by (simp add: tracks_def)
  obtain s' where s': "message_snapshot ?r m now = (?r\<lparr>lr_timestamp_ms := Some (exchange_timestamp_ms s)\<rparr>, Inr (Some s'))" "same_book s' s"
    using reducer_apply_message [OF tr refl refl s(4)] m(2) s(6) by auto
  have "apply_body r m now = apply_full r m ob now"
    using m u(2) ch by (simp add: apply_body_def as_object_def channel_string del: append_Cons)
  then have "reducer_apply r m now = (?r\<lparr>lr_timestamp_ms := Some (exchange_timestamp_ms s)\<rparr>, Inr (Some s'))"
    using bs(1) as(1) s'(1) m(4) by (simp add: reducer_apply_def apply_full_def as_integer_def)
  then show ?thesis using tr s'(2) by blast
qed

lemma reducer_apply_cases:
  assumes "reducer_apply r m now = (r', x)"
  shows "case x of
      Inl e \<Rightarrow> unavailable r'
    | Inr None \<Rightarrow> r' = r \<or> r' = r\<lparr>unavailable := True\<rparr>
    | Inr (Some s) \<Rightarrow> \<not> unavailable r' \<and> reducer_snapshot r' now = Inr s \<and>
        (\<exists>book n. (is_full r m book \<or> continues r m book n) \<and> jget book ''nonce'' = JInt n \<and> sequence s = Some n)"
proof -
  have sq: "sequence s = lr_nonce r'" if "reducer_snapshot r' now = Inr s" for s
    using that by (auto simp: reducer_snapshot_def rbind_eq_Inr require_eq_Inr order_book_snapshot_Inr split: option.splits)
  obtain r0 where b: "apply_body r m now = (r0, x)" and r': "r' = (if isl x then r0\<lparr>unavailable := True\<rparr> else r0)"
    using assms by (auto simp: reducer_apply_def split: prod.splits sum.splits)
  show ?thesis
  proof (cases x)
    case (Inl e)
    then show ?thesis using r' by simp
  next
    case (Inr y)
    then have e: "r' = r0" using r' by simp
    show ?thesis using b
    proof (cases rule: apply_body_cases)
      case (full book)
      then show ?thesis using Inr e apply_full_avail sq by fastforce
    next
      case (cont book n)
      moreover have "jget book ''nonce'' = JInt n" "\<not> unavailable r" using cont by (auto simp: continues_def)
      ultimately show ?thesis using Inr e apply_contiguous_avail [of r m book n now r' y] sq by fastforce
    qed (use Inr e in \<open>auto split: option.split\<close>)
  qed
qed

lemma reducer_apply_identity:
  assumes "reducer_apply r m now = (r', x)"
  shows "lr_symbol r' = lr_symbol r \<and> lr_market_index r' = lr_market_index r"
proof -
  have ms: "lr_symbol r' = lr_symbol r \<and> lr_market_index r' = lr_market_index r" if "message_snapshot r m now = (r', x)" for r r' x
    using that by (auto simp: message_snapshot_def Let_def split: sum.splits)
  obtain r0 where b: "apply_body r m now = (r0, x)" and r': "r' = (if isl x then r0\<lparr>unavailable := True\<rparr> else r0)"
    using assms by (auto simp: reducer_apply_def split: prod.splits sum.splits)
  have "lr_symbol r0 = lr_symbol r \<and> lr_market_index r0 = lr_market_index r"
    using b
  proof (cases rule: apply_body_cases)
    case (full book)
    then show ?thesis by (auto simp: apply_full_def split: sum.splits dest!: ms)
  next
    case (cont book n)
    then show ?thesis by (auto simp: apply_contiguous_def split: sum.splits prod.splits dest!: ms)
  qed simp_all
  then show ?thesis using r' by simp
qed

text \<open>The live reducer fed with the recorded frames of its channel.\<close>

definition message_of :: "RawPublicEnvelope \<Rightarrow> (string \<times> json) list option" where
  "message_of env = (case rbind (utf8_decode (payload env)) loads of Inr (JObj d) \<Rightarrow> Some d | _ \<Rightarrow> None)"

definition live_step :: "LighterBookReducer \<Rightarrow> RawPublicEnvelope \<Rightarrow> LighterBookReducer" where
  "live_step r env = (case message_of env of Some m \<Rightarrow> fst (reducer_apply r m (observed_at_ms env)) | None \<Rightarrow> r)"

definition live :: "LighterBookReducer \<Rightarrow> RawPublicEnvelope list \<Rightarrow> LighterBookReducer" where
  "live r envs = foldl live_step r envs"

definition on_channel :: "string \<Rightarrow> RawPublicEnvelope \<Rightarrow> bool" where
  "on_channel ch env = (case lighter_message env of Some m \<Rightarrow> message_channel m = ch | None \<Rightarrow> False)"

lemma live_identity: "lr_symbol (live r envs) = lr_symbol r \<and> lr_market_index (live r envs) = lr_market_index r"
proof (induction envs rule: rev_induct)
  case (snoc env envs)
  have "lr_symbol (live_step r env) = lr_symbol r \<and> lr_market_index (live_step r env) = lr_market_index r" for r env
    using reducer_apply_identity by (auto simp: live_step_def split: option.split) (metis prod.collapse)+
  then show ?case using snoc by (simp add: live_def)
qed (simp add: live_def)

lemma lighter_message_cases:
  assumes "lighter_message env = Some dm"
  obtains d u where "message_of env = Some d" "decode_update d = Inr u" "jget d ''type'' = JStr ''update/order_book''" "dm = DUpdate u"
    | d s where "message_of env = Some d" "decode_snapshot d = Inr s" "jget d ''type'' = JStr ''subscribed/order_book''" "dm = DSnapshot s"
proof -
  have e: "decode_envelope (payload env) = Inr dm"
    using assms by (auto simp: lighter_message_def decode_lighter_envelope_def ok_def reraise_def split: if_splits sum.splits)
  show ?thesis
  proof (cases "rbind (utf8_decode (payload env)) loads")
    case (Inl x)
    then show ?thesis using e by (simp add: decode_envelope_def)
  next
    case (Inr doc)
    show ?thesis
    proof (cases doc)
      case (JObj d)
      then have m: "message_of env = Some d" using Inr by (simp add: message_of_def)
      have "(if jget d ''type'' = JStr ''subscribed/order_book'' then rbind (decode_snapshot d) (\<lambda>s. Inr (DSnapshot s))
         else if jget d ''type'' = JStr ''update/order_book'' then rbind (decode_update d) (\<lambda>u. Inr (DUpdate u))
         else Inl ReconstructionError) = Inr dm" using e Inr JObj by (simp add: decode_envelope_def)
      then show ?thesis using that m by (auto simp: rbind_eq_Inr split: if_splits)
    qed (use e Inr in \<open>simp_all add: decode_envelope_def\<close>)
  qed
qed

definition live_ok :: "OrderBookSnapshot \<Rightarrow> LighterBookReducer \<Rightarrow> bool" where
  "live_ok s r \<longleftrightarrow> tracks s r \<and> (\<exists>s' now. reducer_snapshot r now = Inr s' \<and> same_book s' s)"

lemma published_ok:
  assumes "\<exists>r' s'. reducer_apply r m now = (r', Inr (Some s')) \<and> tracks s r' \<and> same_book s' s"
  shows "live_ok s (fst (reducer_apply r m now))"
  using assms reducer_apply_cases by (fastforce simp: live_ok_def)

lemma live_advance:
  assumes m: "lighter_message env = Some dm" "message_channel dm = ''order_book:'' @ int_str (lr_market_index r)"
    and a: "advance ms env dm cur = Some s" "ob_symbol s = lr_symbol r"
    and cur: "\<And>prev. cur = Some prev \<Longrightarrow> ob_symbol prev = lr_symbol r \<Longrightarrow> live_ok prev r"
  shows "live_ok s (live_step r env)"
  using m(1)
proof (cases rule: lighter_message_cases)
  case (1 d u)
  obtain prev where p: "cur = Some prev" "contiguous prev u" "apply_lighter_update prev u (observed_at_ms env) = Inr s"
    using a(1) 1(4) by (auto simp: ok_def split: option.splits if_splits sum.splits)
  have "ob_symbol prev = lr_symbol r"
    using p(2,3) a(2) by (auto simp: contiguous_def apply_lighter_update_def rbind_eq_Inr order_book_snapshot_Inr)
  then have "tracks prev r" using cur p(1) by (simp add: live_ok_def)
  then show ?thesis
    using live_update [OF _ 1(2,3) _ p(2,3)] m(2) 1 published_ok by (simp add: live_step_def)
next
  case (2 d u)
  obtain t where t: "lighter_snapshot_book t u (observed_at_ms env) = Inr s"
    using a(1) 2(4) by (auto simp: ok_def rbind_eq_Inr split: sum.splits)
  then have "t = lr_symbol r" using a(2) by (auto simp: lighter_snapshot_book_def order_book_snapshot_Inr)
  then show ?thesis using live_snapshot [OF 2(2,3)] t m(2) 2 published_ok by (simp add: live_step_def)
qed

lemma live_replay:
  assumes "replay ms (''order_book:'' @ int_str i) envs = Some s" and "ob_symbol s = sy"
  shows "live_ok s (live (new_reducer sy i) (filter (on_channel (''order_book:'' @ int_str i)) envs))"
  using assms
proof (induction envs arbitrary: s rule: rev_induct)
  case Nil
  then show ?case by (simp add: replay_def)
next
  case (snoc env envs)
  let ?ch = "''order_book:'' @ int_str i"
  let ?r = "live (new_reducer sy i) (filter (on_channel ?ch) envs)"
  have r: "lr_symbol ?r = sy" "lr_market_index ?r = i" using live_identity by (simp_all add: new_reducer_def)
  have e: "replay_step ms ?ch (replay ms ?ch envs) env = Some s" using snoc.prems(1) by (simp only: replay_snoc)
  show ?case
  proof (cases "on_channel ?ch env")
    case True
    then obtain dm where dm: "lighter_message env = Some dm" "message_channel dm = ?ch"
      by (auto simp: on_channel_def split: option.splits)
    then have "advance ms env dm (replay ms ?ch envs) = Some s" using e by (simp add: replay_step_def del: append_Cons)
    then have "live_ok s (live_step ?r env)"
      using live_advance [of env dm ?r ms "replay ms ?ch envs" s] dm r snoc by (simp del: append_Cons)
    then show ?thesis using True by (simp add: live_def del: append_Cons)
  next
    case False
    then have "replay ms ?ch envs = Some s" using e by (auto simp: replay_step_def on_channel_def simp del: append_Cons split: option.splits)
    then show ?thesis using snoc False by (simp del: append_Cons)
  qed
qed

lemma dec_eq_refl: "dec_le0 d = Inr b \<Longrightarrow> dec_eq d d" "is_finite d \<Longrightarrow> dec_eq d d"
  by (cases d, simp_all add: dec_le0_def)+

lemma venue_market_eq: "venue_market m = Inr m' \<Longrightarrow> m' = m \<and> market_eq m m"
  by (cases "price_tick m"; cases "min_quantity m")
    (auto simp: venue_market_def Let_def require_eq_Inr rbind_eq_Inr check_positive_def market_eq_def dec_eq_refl)

definition reviewed_as :: "(string \<Rightarrow> (string \<times> json) list \<Rightarrow> LighterInstrumentMapping option) \<Rightarrow> VenueMarket \<Rightarrow> bool" where
  "reviewed_as mapping_for m \<longleftrightarrow> venue m = ''LIGHTER'' \<and> (\<exists>detail mp. mapping_for (symbol m) detail = Some mp
     \<and> jget detail ''market_type'' = JStr ''perp'' \<and> jget detail ''status'' = JStr ''active'' \<and> jget detail ''symbol'' = JStr (symbol m)
     \<and> identity m = lm_identity mp \<and> contract_multiplier m = lm_contract_multiplier mp
     \<and> displayed_size_unit m = lm_displayed_size_unit mp \<and> equivalence_evidence m = lm_equivalence_evidence mp)"

definition known_inv :: "(string \<Rightarrow> (string \<times> json) list \<Rightarrow> LighterInstrumentMapping option) \<Rightarrow> (string \<times> KnownMarket) list \<Rightarrow> bool" where
  "known_inv mapping_for known \<longleftrightarrow> distinct (map fst known)
     \<and> (\<forall>(s, k) \<in> set known. symbol (km_market k) = s \<and> reviewed_as mapping_for (km_market k) \<and> market_eq (km_market k) (km_market k))"

lemma set_AList_update: "set (AList.update k v al) \<subseteq> insert (k, v) (set al)"
  by (induction al) auto

lemma lighter_detail_step:
  assumes "lighter_detail mapping_for known raw = Inr known'" and "known \<noteq> known'"
  shows "\<exists>s k. known' = AList.update s k known \<and> symbol (km_market k) = s \<and> reviewed_as mapping_for (km_market k)
    \<and> market_eq (km_market k) (km_market k)"
proof -
  obtain detail where d: "raw = JObj detail" using assms(1) by (auto simp: lighter_detail_def rbind_eq_Inr)
  obtain sy where h: "jget detail ''market_type'' = JStr ''perp''" "jget detail ''status'' = JStr ''active''"
     "jget detail ''symbol'' = JStr sy"
    using assms d by (auto simp: lighter_detail_def rbind_eq_Inr require_eq_Inr as_object_def split: if_splits)
  obtain m where m: "mapping_for sy detail = Some m"
    using assms d h by (auto simp: lighter_detail_def rbind_eq_Inr require_eq_Inr as_object_def split: option.splits)
  obtain qs tick mn mq market i where
    "venue_market \<lparr>venue = ''LIGHTER'', symbol = sy, identity = lm_identity m,
                    contract_multiplier = lm_contract_multiplier m, displayed_size_unit = lm_displayed_size_unit m,
                    quantity_step = qs, price_tick = Some tick, min_notional = mn,
                    equivalence_evidence = lm_equivalence_evidence m, price_decimals = None,
                    max_price_significant_digits = None, min_quantity = Some mq\<rparr> = Inr market"
    "known' = AList.update sy \<lparr>km_index = i, km_market = market\<rparr> known"
    using assms d h m by (auto simp: lighter_detail_def rbind_eq_Inr require_eq_Inr as_object_def)
  moreover from this(1) have mk: "market = \<lparr>venue = ''LIGHTER'', symbol = sy, identity = lm_identity m,
                    contract_multiplier = lm_contract_multiplier m, displayed_size_unit = lm_displayed_size_unit m,
                    quantity_step = qs, price_tick = Some tick, min_notional = mn,
                    equivalence_evidence = lm_equivalence_evidence m, price_decimals = None,
                    max_price_significant_digits = None, min_quantity = Some mq\<rparr>" "market_eq market market"
    using venue_market_eq by blast+
  moreover have "symbol market = sy" using mk(1) by simp
  moreover have "reviewed_as mapping_for market" using h m by (auto simp: reviewed_as_def mk(1))
  ultimately show ?thesis by (intro exI [of _ sy] exI [of _ "\<lparr>km_index = i, km_market = market\<rparr>"]) simp
qed

lemma lighter_detail_inv:
  assumes "known_inv mapping_for known" and "lighter_detail mapping_for known raw = Inr known'"
  shows "known_inv mapping_for known'"
proof (cases "known = known'")
  case False
  then obtain s k where k: "known' = AList.update s k known" "symbol (km_market k) = s" "reviewed_as mapping_for (km_market k)"
      "market_eq (km_market k) (km_market k)"
    using lighter_detail_step [OF assms(2)] by blast
  have "distinct (map fst known')" using assms(1) k(1) by (simp add: known_inv_def distinct_update)
  moreover have "set known' \<subseteq> insert (s, k) (set known)" using k(1) set_AList_update by simp
  ultimately show ?thesis using assms(1) k(2-4) unfolding known_inv_def by blast
qed (use assms in simp)

lemma known_inv_rfold: "rfold (lighter_detail mapping_for) [] ds = Inr known \<Longrightarrow> known_inv mapping_for known"
  by (erule rfold_invariant [where I = "\<lambda>_. known_inv mapping_for"]) (simp add: known_inv_def, rule lighter_detail_inv)

lemma known_inv_lookup:
  assumes "known_inv mapping_for (la_known a)" and "(s, k) \<in> set (la_known a)"
  shows "lighter_require_market a (km_market k) = Inr k"
proof -
  have "map_of (la_known a) s = Some k" "symbol (km_market k) = s" "venue (km_market k) = ''LIGHTER''"
      "market_eq (km_market k) (km_market k)"
    using assms by (auto simp: known_inv_def reviewed_as_def)
  then show ?thesis by (simp add: lighter_require_market_def)
qed

subsection \<open>Sample run\<close>

lemma sample_replay: "replay [] (''order_book:'' @ int_str 1) sample_envelopes = Some sample_book_2"
proof -
  have "int_str 1 = ''1''" by code_simp
  moreover have "ls_symbol sample_snapshot_message = Some ''BTC''" "ls_channel sample_snapshot_message = ''order_book:1''"
    "lu_channel sample_update_message = ''order_book:1''" "contiguous sample_book_1 sample_update_message"
    by code_simp+
  ultimately show ?thesis
    by (simp add: replay_def sample_envelopes_def replay_step_def lighter_message_def sample_envelope_def sample_steps sample_decodes)
qed

lemma live_reachable: "reducer_reachable sy i r \<Longrightarrow> reducer_reachable sy i (live r envs)"
proof (induction envs rule: rev_induct)
  case (snoc env envs)
  then have "reducer_reachable sy i (live r envs)" by blast
  then have "reducer_reachable sy i (live_step (live r envs) env)"
    by (auto simp: live_step_def split: option.split intro: reducer_reachable.message surjective_pairing)
  then show ?case by (simp add: live_def)
qed (simp add: live_def)

definition sample_reducer :: LighterBookReducer where
  "sample_reducer = live (new_reducer ''BTC'' 1) (filter (on_channel (''order_book:'' @ int_str 1)) sample_envelopes)"

lemma sample_reducer_ok: "live_ok sample_book_2 sample_reducer"
  unfolding sample_reducer_def by (rule live_replay [OF sample_replay]) (simp add: sample_book_2_def)

definition sample_mapping :: "string \<Rightarrow> (string \<times> json) list \<Rightarrow> LighterInstrumentMapping option" where
  "sample_mapping sy d = (if sy = ''BTC'' then Some \<lparr>lm_identity = sample_identity, lm_contract_multiplier = DFin False 1 0, lm_displayed_size_unit = ''base'',
     lm_equivalence_evidence = ''reviewed''\<rparr> else None)"

definition sample_details :: json where
  "sample_details = JObj [(''code'', JInt 200), (''order_book_details'', JList [JObj [(''market_type'', JStr ''perp''),
     (''status'', JStr ''active''), (''symbol'', JStr ''BTC''), (''market_id'', JInt 1), (''supported_size_decimals'', JInt 5),
     (''supported_price_decimals'', JInt 1), (''min_quote_amount'', JStr ''10''), (''min_base_amount'', JStr ''0.0002'')]])]"

definition new_adapter :: LighterPublicAdapter where
  "new_adapter = \<lparr>la_known = [], la_books = []\<rparr>"

lemma sample_discovery: "\<exists>a m. lighter_list_markets sample_mapping sample_details new_adapter = (a, Inr [m])"
proof -
  have "(case lighter_list_markets sample_mapping sample_details new_adapter of (a, Inr [m]) \<Rightarrow> True | _ \<Rightarrow> False)" by code_simp
  then show ?thesis by (auto split: prod.splits sum.splits list.splits)
qed

subsection \<open>Properties\<close>

text \<open>
  C20. Whatever messages a reducer has been given, as long as it is not marked unavailable its
  book can be served at any time: the dictionaries hold a two-sided, strictly ordered and
  uncrossed book with the nonce of the last message, and serving it cannot raise.
\<close>

theorem available_reducer_serves:
  assumes "reducer_reachable sy i r" and "\<not> unavailable r"
  shows "\<exists>s. reducer_snapshot r now = Inr s \<and> snapshot_wf s \<and> sequence s = lr_nonce r \<and> received_timestamp_ms s = now"
proof -
  obtain s where s: "reducer_snapshot r now = Inr s"
    using reachable_inv [OF assms(1)] assms(2) by (auto simp: reducer_inv_def servable_def)
  then have "snapshot_wf s \<and> sequence s = lr_nonce r \<and> received_timestamp_ms s = now"
    by (auto simp: reducer_snapshot_def rbind_eq_Inr require_eq_Inr order_book_snapshot_Inr split: option.splits)
  then show ?thesis using s by blast
qed

lemma available_reducer_serves_witness:
  "\<exists>s. reducer_snapshot sample_reducer 21 = Inr s \<and> snapshot_wf s \<and> sequence s = lr_nonce sample_reducer
     \<and> received_timestamp_ms s = 21"
proof (rule available_reducer_serves [of "''BTC''" 1])
  show "reducer_reachable ''BTC'' 1 sample_reducer"
    unfolding sample_reducer_def by (rule live_reachable [OF reducer_reachable.start])
  show "\<not> unavailable sample_reducer" using sample_reducer_ok by (simp add: live_ok_def tracks_def)
qed

text \<open>
  What one message does to a reducer. A book is published only for a full snapshot or for an
  update that continues the held nonce without a gap, under the nonce of that message, and is
  the book the reducer then serves; a message that is ignored leaves the reducer as it was or
  only marks it unavailable; a message that raises always leaves it unavailable, even when
  some of its levels have already been applied.
\<close>

theorem reducer_apply_outcomes:
  "case reducer_apply r m now of (r', x) \<Rightarrow>
     (case x of
        Inl e \<Rightarrow> unavailable r'
      | Inr None \<Rightarrow> r' = r \<or> r' = r\<lparr>unavailable := True\<rparr>
      | Inr (Some s) \<Rightarrow> unavailable r' = False \<and> reducer_snapshot r' now = Inr s \<and>
          (\<exists>book n. (is_full r m book \<or> continues r m book n) \<and> jget book ''nonce'' = JInt n \<and> sequence s = Some n))"
  using reducer_apply_cases [of r m now "fst (reducer_apply r m now)" "snd (reducer_apply r m now)"]
  by (simp add: case_prod_beta' split: sum.split option.split)

text \<open>
  C19. The live adapter and the analyzer's replay agree. When the replay of a channel's recorded
  frames ends with a book, a live reducer for that market and symbol, fed with the frames of
  the channel, is available and serves a book with the same venue, symbol, nonce and exchange
  time and the same levels, value for value and in the same order, although one side keeps
  dictionaries of decimals as they were sent and the other lists of canonical exact values.
\<close>

theorem live_book_equals_replay:
  assumes "replay ms (''order_book:'' @ int_str i) envs = Some s" and "ob_symbol s = sy"
  shows "\<exists>s'. reducer_snapshot (live (new_reducer sy i) (filter (on_channel (''order_book:'' @ int_str i)) envs)) now = Inr s'
    \<and> same_book s' s"
proof -
  let ?r = "live (new_reducer sy i) (filter (on_channel (''order_book:'' @ int_str i)) envs)"
  obtain s' t where s': "reducer_snapshot ?r t = Inr s'" "same_book s' s"
    using live_replay [OF assms] unfolding live_ok_def by blast
  have "same_book (s'\<lparr>received_timestamp_ms := now\<rparr>) s" using s'(2) by (simp add: same_book_def)
  then show ?thesis using reducer_snapshot_clock [OF s'(1), of now] by blast
qed

lemma live_book_equals_replay_witness:
  "replay [] (''order_book:'' @ int_str 1) sample_envelopes = Some sample_book_2 \<and>
   (\<exists>s'. reducer_snapshot (live (new_reducer ''BTC'' 1) (filter (on_channel (''order_book:'' @ int_str 1)) sample_envelopes)) 30 = Inr s'
    \<and> same_book s' sample_book_2)"
proof -
  have "ob_symbol sample_book_2 = ''BTC''" by (simp add: sample_book_2_def)
  then show ?thesis using sample_replay live_book_equals_replay [OF sample_replay] by blast
qed



end
