(* ===== verification/Calculation.thy ===== *)
theory Calculation
  imports Vwap
begin

section \<open>Report arithmetic (\<open>liqvera_evidence_report/calculation.py\<close>)\<close>

text \<open>
  Exact arithmetic of the reports: price impact of a fill, rendering of fractions, the constant
  product quote of the Mezo pool with the 256-bit limits of its contract, and the risk of a
  trove. Python integers are \<open>int\<close>; the limit \<open>2**256\<close> is checked where the code checks it.
\<close>

definition price_impact_bps :: "ReconstructedBook \<Rightarrow> Side \<Rightarrow> rat \<Rightarrow> rat res" where
  "price_impact_bps book side average =
     (if side = BUY then
        rbind (fraction_from_decimal (price (best_ask (snapshot book)))) (\<lambda>best.
        require (best \<noteq> 0) ZeroDivisionError (Inr ((average - best) * 10000 / best)))
      else
        rbind (fraction_from_decimal (price (best_bid (snapshot book)))) (\<lambda>best.
        require (best \<noteq> 0) ZeroDivisionError (Inr ((best - average) * 10000 / best))))"

definition rational :: "rat \<Rightarrow> json" where
  "rational v = JObj [(''numerator'', JStr (int_str (numer v))), (''denominator'', JStr (int_str (denom v)))]"

definition display :: "rat \<Rightarrow> string res" where
  "display v =
     rbind (decimal_from_fraction v) (\<lambda>rendered.
     case rendered of DFin s c e \<Rightarrow> Inr (format_f s c e) | _ \<Rightarrow> Inl NotModelled)"

subsection \<open>The constant product pool\<close>

definition amm_inputs :: "int \<Rightarrow> int \<Rightarrow> int \<Rightarrow> int \<Rightarrow> bool" where
  "amm_inputs amount reserve_in reserve_out fee_bps \<longleftrightarrow>
     0 \<le> amount \<and> amount < 2 ^ 256 \<and> 0 < reserve_in \<and> reserve_in < 2 ^ 256
     \<and> 0 < reserve_out \<and> reserve_out < 2 ^ 256 \<and> 0 \<le> fee_bps \<and> fee_bps < 10000"

definition amm_amount_out :: "int \<Rightarrow> int \<Rightarrow> int \<Rightarrow> int \<Rightarrow> int res" where
  "amm_amount_out amount reserve_in reserve_out fee_bps =
     require (amm_inputs amount reserve_in reserve_out fee_bps) (CodedValueError ''MEZO_DEX_INVALID_INPUT'') (
     require (\<not> amount * fee_bps \<ge> 2 ^ 256) (CodedValueError ''MEZO_DEX_ARITHMETIC_OVERFLOW'') (
     let net = amount - amount * fee_bps div 10000
     in require (\<not> (net * reserve_out \<ge> 2 ^ 256 \<or> reserve_in + net \<ge> 2 ^ 256))
          (CodedValueError ''MEZO_DEX_ARITHMETIC_OVERFLOW'')
          (Inr (net * reserve_out div (reserve_in + net)))))"

definition amm_amount_in :: "int \<Rightarrow> int \<Rightarrow> int \<Rightarrow> int \<Rightarrow> int res" where
  "amm_amount_in wanted reserve_in reserve_out fee_bps =
     require (amm_inputs wanted reserve_in reserve_out fee_bps) (CodedValueError ''MEZO_DEX_INVALID_INPUT'') (
     require (\<not> wanted \<ge> reserve_out) (CodedValueError ''INSUFFICIENT_LIQUIDITY'') (
     if wanted = 0 then Inr 0
     else
       let denominator = reserve_out - wanted;
           required_net = (wanted * reserve_in + denominator - 1) div denominator;
           amount = (required_net - 1) * 10000 div (10000 - fee_bps) + 1
       in rbind (amm_amount_out amount reserve_in reserve_out fee_bps) (\<lambda>_. Inr amount)))"

subsection \<open>The risk of a trove\<close>

definition UNIT :: int where
  "UNIT = 10 ^ 18"

definition MAXIMUM :: int where
  "MAXIMUM = 2 ^ 256 - 1"

text \<open>The current collateral ratio in atomic units, \<open>MAXIMUM\<close> for a trove without debt.\<close>

definition atomic_ratio :: "int \<Rightarrow> int \<Rightarrow> int \<Rightarrow> int" where
  "atomic_ratio collateral debt oracle_price = (if debt \<noteq> 0 then collateral * oracle_price div debt else MAXIMUM)"

definition display_if :: "bool \<Rightarrow> rat \<Rightarrow> json res" where
  "display_if shown v = (if shown then rbind (display v) (\<lambda>s. Inr (JStr s)) else Inr JNull)"

definition trove_scenario :: "int \<Rightarrow> int \<Rightarrow> int \<Rightarrow> int \<Rightarrow> bool \<Rightarrow> int \<Rightarrow> json res" where
  "trove_scenario collateral debt oracle_price mcr active reduction =
     (let scenario_price = oracle_price * (100 - reduction) div 100;
          scenario_icr = atomic_ratio collateral debt scenario_price
      in rbind (display (of_int scenario_price / of_int UNIT)) (\<lambda>p.
         rbind (display_if active (of_int scenario_icr / of_int UNIT)) (\<lambda>icr.
         Inr (JObj [(''price_change_pct'', JStr (int_str (- reduction))), (''price_musd'', JStr p), (''icr'', icr),
           (''status'', JStr (if \<not> active then ''NOT_ACTIVE''
                              else if scenario_icr < mcr then ''LIQUIDATABLE'' else ''ABOVE_MCR''))]))))"

definition trove_inputs :: "int \<Rightarrow> int \<Rightarrow> int \<Rightarrow> int \<Rightarrow> int \<Rightarrow> int \<Rightarrow> int \<Rightarrow> int \<Rightarrow> bool" where
  "trove_inputs collateral principal_debt interest oracle_price mcr ccr tcr status_code \<longleftrightarrow>
     list_all (\<lambda>v. 0 \<le> v \<and> v \<le> MAXIMUM) [collateral, principal_debt, interest, oracle_price, mcr, ccr, tcr, status_code]
     \<and> oracle_price \<noteq> 0 \<and> mcr \<noteq> 0 \<and> \<not> ccr < mcr \<and> status_code \<in> {0..<5} \<and> \<not> principal_debt + interest > MAXIMUM"

definition liquidation_threshold :: "int \<Rightarrow> int \<Rightarrow> int \<Rightarrow> bool \<Rightarrow> rat option" where
  "liquidation_threshold collateral debt mcr active =
     (if active \<and> collateral \<noteq> 0 then Some (of_int (mcr * debt) / of_int (collateral * UNIT)) else None)"

definition liquidation_buffer :: "int \<Rightarrow> rat option \<Rightarrow> rat option" where
  "liquidation_buffer oracle_price threshold =
     (case threshold of
        None \<Rightarrow> None
      | Some t \<Rightarrow> if t = 0 then None else Some ((of_int oracle_price / of_int UNIT / t - 1) * 100))"

definition trove_flags :: "bool \<Rightarrow> int \<Rightarrow> int \<Rightarrow> int \<Rightarrow> int \<Rightarrow> string list" where
  "trove_flags active icr mcr ccr tcr =
     (if active then [] else [''NOT_ACTIVE'']) @ (if active \<and> icr < mcr then [''LIQUIDATABLE''] else [])
     @ (if tcr < ccr then [''RECOVERY_MODE''] else [])"

definition trove_risk :: "int \<Rightarrow> int \<Rightarrow> int \<Rightarrow> int \<Rightarrow> int \<Rightarrow> int \<Rightarrow> int \<Rightarrow> int \<Rightarrow> json res" where
  "trove_risk collateral principal_debt interest oracle_price mcr ccr tcr status_code =
     require (trove_inputs collateral principal_debt interest oracle_price mcr ccr tcr status_code) (CodedValueError ''MEZO_TROVE_INVALID_INPUT'') (
     let debt = principal_debt + interest
     in require (\<not> ((status_code = 1 \<and> debt = 0) \<or> (debt > 0 \<and> collateral * oracle_price > MAXIMUM)))
          (CodedValueError ''MEZO_TROVE_INVALID_INPUT'') (
        let icr = atomic_ratio collateral debt oracle_price;
            active = (status_code = 1);
            threshold = liquidation_threshold collateral debt mcr active;
            buffer = liquidation_buffer oracle_price threshold;
            amount = (\<lambda>v. of_int v / of_int UNIT)
        in rbind (rmap (trove_scenario collateral debt oracle_price mcr active) [10, 20, 30]) (\<lambda>scenarios.
           rbind (display (amount debt)) (\<lambda>d.
           rbind (display (amount collateral)) (\<lambda>c.
           rbind (display (amount oracle_price)) (\<lambda>p.
           rbind (display_if active (amount icr)) (\<lambda>i.
           rbind (display (amount mcr)) (\<lambda>m.
           rbind (display (amount ccr)) (\<lambda>cc.
           rbind (display (amount tcr)) (\<lambda>tc.
           rbind (case threshold of Some t \<Rightarrow> display_if True t | None \<Rightarrow> Inr JNull) (\<lambda>lp.
           rbind (case buffer of Some b \<Rightarrow> display_if True b | None \<Rightarrow> Inr JNull) (\<lambda>bp.
           Inr (JObj [(''status'', JStr (if active then ''ACTIVE'' else ''NOT_ACTIVE'')), (''contract_status'', JInt status_code),
             (''debt_musd'', JStr d), (''collateral_btc'', JStr c), (''price_musd'', JStr p),
             (''icr_atomic'', JStr (int_str icr)), (''icr'', i), (''mcr'', JStr m), (''ccr'', JStr cc), (''tcr'', JStr tc),
             (''liquidation_price_musd'', lp), (''buffer_pct'', bp),
             (''flags'', JList (map JStr (trove_flags active icr mcr ccr tcr))), (''scenarios'', JList scenarios)])))))))))))))"

subsection \<open>The pool arithmetic\<close>

text \<open>The input that reaches the reserves, and the output without the limits of the contract.\<close>

definition net_in :: "int \<Rightarrow> int \<Rightarrow> int" where
  "net_in f a = a - a * f div 10000"

definition pool_out :: "int \<Rightarrow> int \<Rightarrow> int \<Rightarrow> int" where
  "pool_out x y n = n * y div (x + n)"

lemma le_zdiv_iff:
  fixes n d q :: int
  assumes "0 < d"
  shows "q \<le> n div d \<longleftrightarrow> q * d \<le> n"
proof
  assume "q \<le> n div d"
  then have "q * d \<le> n div d * d" using assms by (simp add: mult_right_mono)
  also have "\<dots> \<le> n" using assms by (metis mult.commute minus_mod_eq_mult_div diff_le_eq le_add_same_cancel1 pos_mod_sign)
  finally show "q * d \<le> n" .
next
  assume "q * d \<le> n"
  then have "q * d div d \<le> n div d" using assms by (rule zdiv_mono1)
  then show "q \<le> n div d" using assms by simp
qed

lemma zdiv_less_iff: "0 < d \<Longrightarrow> n div d < q \<longleftrightarrow> n < q * d" for n d q :: int
  using le_zdiv_iff [of d q n] by (simp add: linorder_not_le [symmetric])

lemma net_in_mono: "0 \<le> f \<Longrightarrow> f < 10000 \<Longrightarrow> a \<le> b \<Longrightarrow> net_in f a \<le> net_in f b"
proof -
  assume f: "0 \<le> f" "f < 10000" and ab: "a \<le> b"
  have "b * f = a * f + (b - a) * f" by (simp add: algebra_simps)
  also have "\<dots> \<le> a * f + (b - a) * 10000" using f ab mult_left_mono [of f 10000 "b - a"] by simp
  finally have "b * f div 10000 \<le> (a * f + (b - a) * 10000) div 10000" by (rule zdiv_mono1) simp
  then show ?thesis by (simp add: net_in_def)
qed

lemma net_in_bounds: "0 \<le> f \<Longrightarrow> f < 10000 \<Longrightarrow> 0 \<le> a \<Longrightarrow> 0 \<le> net_in f a \<and> net_in f a \<le> a"
  using net_in_mono [of f 0 a] by (simp add: net_in_def pos_imp_zdiv_nonneg_iff)

text \<open>The net input is the exact ceiling, so it is inverted exactly.\<close>

lemma net_in_reaches: "0 \<le> f \<Longrightarrow> f < 10000 \<Longrightarrow> n \<le> net_in f a \<longleftrightarrow> (n - 1) * 10000 div (10000 - f) + 1 \<le> a"
proof -
  assume f: "0 \<le> f" "f < 10000"
  have "n \<le> net_in f a \<longleftrightarrow> a * f div 10000 \<le> a - n" by (auto simp: net_in_def)
  also have "\<dots> \<longleftrightarrow> a * f div 10000 < a - n + 1" by auto
  also have "\<dots> \<longleftrightarrow> a * f < (a - n + 1) * 10000" by (rule zdiv_less_iff) simp
  also have "\<dots> \<longleftrightarrow> (n - 1) * 10000 < a * (10000 - f)" by (simp add: algebra_simps)
  also have "\<dots> \<longleftrightarrow> (n - 1) * 10000 div (10000 - f) < a" using f by (intro zdiv_less_iff [symmetric]) simp
  finally show ?thesis by auto
qed

lemma pool_out_reaches:
  assumes "0 < x" "0 \<le> n" "q < y"
  shows "q \<le> pool_out x y n \<longleftrightarrow> (q * x + (y - q) - 1) div (y - q) \<le> n"
proof -
  have "q \<le> pool_out x y n \<longleftrightarrow> q * (x + n) \<le> n * y"
    using assms by (simp add: pool_out_def le_zdiv_iff)
  also have "\<dots> \<longleftrightarrow> q * x + (y - q) - 1 < (n + 1) * (y - q)" by (simp add: algebra_simps) linarith
  also have "\<dots> \<longleftrightarrow> (q * x + (y - q) - 1) div (y - q) < n + 1"
    using assms by (intro zdiv_less_iff [symmetric]) simp
  finally show ?thesis by auto
qed

lemma pool_out_less: "0 < x \<Longrightarrow> 0 \<le> n \<Longrightarrow> 0 < y \<Longrightarrow> pool_out x y n < y"
  by (simp add: pool_out_def zdiv_less_iff algebra_simps)

lemma amm_amount_out_Inr:
  "amm_amount_out a x y f = Inr v \<longleftrightarrow> amm_inputs a x y f \<and> a * f < 2 ^ 256 \<and> net_in f a * y < 2 ^ 256
     \<and> x + net_in f a < 2 ^ 256 \<and> v = pool_out x y (net_in f a)"
  by (auto simp: amm_amount_out_def require_eq_Inr Let_def net_in_def pool_out_def not_le)

lemma amm_inputs_pos: "amm_inputs a x y f \<Longrightarrow> 0 \<le> a \<and> 0 < x \<and> 0 < y \<and> 0 \<le> f \<and> f < 10000"
  by (simp add: amm_inputs_def)

text \<open>A smaller input stays within the limits of the contract.\<close>

lemma amm_amount_out_down:
  assumes "amm_amount_out b x y f = Inr w" and "0 \<le> a" and "a \<le> b"
  shows "amm_amount_out a x y f = Inr (pool_out x y (net_in f a))"
proof -
  have i: "amm_inputs b x y f" and l: "b * f < 2 ^ 256" "net_in f b * y < 2 ^ 256" "x + net_in f b < 2 ^ 256"
    using assms(1) by (auto simp: amm_amount_out_Inr)
  have p: "0 < x" "0 < y" "0 \<le> f" "f < 10000" using amm_inputs_pos [OF i] by auto
  have "a * f \<le> b * f" "net_in f a \<le> net_in f b" "net_in f a * y \<le> net_in f b * y"
    using p assms(3) net_in_mono by (auto intro: mult_right_mono)
  moreover have "amm_inputs a x y f" using i assms(2,3) by (auto simp: amm_inputs_def)
  ultimately show ?thesis using l by (auto simp: amm_amount_out_Inr)
qed

definition least_input :: "int \<Rightarrow> int \<Rightarrow> int \<Rightarrow> int \<Rightarrow> int" where
  "least_input q x y f = ((q * x + (y - q) - 1) div (y - q) - 1) * 10000 div (10000 - f) + 1"

lemma least_input_reaches:
  assumes "0 < x" "0 \<le> f" "f < 10000" "0 \<le> a" "q < y"
  shows "q \<le> pool_out x y (net_in f a) \<longleftrightarrow> least_input q x y f \<le> a"
  using pool_out_reaches [OF assms(1) _ assms(5)] net_in_reaches [OF assms(2,3)] net_in_bounds [OF assms(2-4)]
  by (simp add: least_input_def)

lemma least_input_pos: "0 < x \<Longrightarrow> 0 \<le> f \<Longrightarrow> f < 10000 \<Longrightarrow> 0 < q \<Longrightarrow> q < y \<Longrightarrow> 0 < least_input q x y f"
proof -
  assume a: "0 < x" "0 \<le> f" "f < 10000" "0 < q" "q < y"
  have "1 \<le> (q * x + (y - q) - 1) div (y - q)"
    using a pos_imp_zdiv_pos_iff [of "y - q" "q * x + (y - q) - 1"] mult_pos_pos [of q x] by linarith
  then show ?thesis using a by (simp add: least_input_def pos_imp_zdiv_nonneg_iff)
qed

lemma amm_amount_in_eq:
  "amm_amount_in q x y f = Inr a \<longleftrightarrow> amm_inputs q x y f \<and> q < y \<and>
     (if q = 0 then a = 0 else a = least_input q x y f \<and> (\<exists>v. amm_amount_out a x y f = Inr v))"
  by (auto simp: amm_amount_in_def require_eq_Inr rbind_eq_Inr Let_def least_input_def not_le)

lemma amm_amount_in_least:
  "amm_amount_in q x y f = Inr a \<longleftrightarrow> 0 \<le> q \<and> 0 \<le> a \<and> (\<exists>v. amm_amount_out a x y f = Inr v \<and> q \<le> v)
     \<and> \<not> (\<exists>b v. b < a \<and> amm_amount_out b x y f = Inr v \<and> q \<le> v)" (is "?L \<longleftrightarrow> ?R")
proof
  assume L: ?L
  then have i: "amm_inputs q x y f" "q < y" and p: "0 \<le> q" "0 < x" "0 < y" "0 \<le> f" "f < 10000"
    using amm_inputs_pos by (auto simp: amm_amount_in_eq)
  show ?R
  proof (cases "q = 0")
    case True
    then have "a = 0" using L by (simp add: amm_amount_in_eq)
    moreover have "amm_amount_out 0 x y f = Inr 0" using i p by (simp add: amm_amount_out_Inr net_in_def pool_out_def amm_inputs_def)
    ultimately show ?thesis using True by (auto simp: amm_amount_out_Inr amm_inputs_def)
  next
    case False
    then have a: "a = least_input q x y f" "\<exists>v. amm_amount_out a x y f = Inr v" using L by (auto simp: amm_amount_in_eq)
    then have "0 < a" using least_input_pos p i(2) False by simp
    obtain v where v: "amm_amount_out a x y f = Inr v" using a(2) by blast
    then have "q \<le> v" using \<open>0 < a\<close> least_input_reaches [OF p(2,4,5) _ i(2)] a(1) by (simp add: amm_amount_out_Inr)
    moreover have "a \<le> b" if "amm_amount_out b x y f = Inr w" "q \<le> w" for b w
      using that least_input_reaches [OF p(2,4,5) _ i(2)] a(1) amm_inputs_pos [of b x y f] by (auto simp: amm_amount_out_Inr)
    ultimately show ?thesis using v p(1) \<open>0 < a\<close> by (metis less_imp_le linorder_not_le)
  qed
next
  assume R: ?R
  then obtain v where v: "amm_amount_out a x y f = Inr v" "q \<le> v" by blast
  then have i: "amm_inputs a x y f" and veq: "v = pool_out x y (net_in f a)" by (auto simp: amm_amount_out_Inr)
  have p: "0 \<le> a" "0 < x" "0 < y" "0 \<le> f" "f < 10000" using amm_inputs_pos [OF i] by auto
  have qy: "q < y" using v(2) veq pool_out_less [of x "net_in f a" y] net_in_bounds p by fastforce
  have iq: "amm_inputs q x y f" using i R qy by (auto simp: amm_inputs_def)
  show ?L
  proof (cases "q = 0")
    case True
    have "amm_amount_out 0 x y f = Inr (pool_out x y (net_in f 0))" using amm_amount_out_down [OF v(1)] p(1) by simp
    moreover have "0 \<le> pool_out x y (net_in f 0)" by (simp add: net_in_def pool_out_def)
    ultimately have "\<not> 0 < a" using R True by blast
    then show ?thesis using True iq qy p(1) by (simp add: amm_amount_in_eq)
  next
    case False
    let ?l = "least_input q x y f"
    have l: "0 < ?l" using least_input_pos p(2,4,5) R False qy by simp
    have "?l \<le> a" using v(2) veq least_input_reaches [OF p(2,4,5,1) qy] by simp
    then have o: "amm_amount_out ?l x y f = Inr (pool_out x y (net_in f ?l))" using amm_amount_out_down [OF v(1)] l by simp
    moreover have "q \<le> pool_out x y (net_in f ?l)" using least_input_reaches [OF p(2,4,5) _ qy, of ?l] l by simp
    ultimately have "\<not> ?l < a" using R by blast
    then have "a = ?l" using \<open>?l \<le> a\<close> by simp
    then show ?thesis using False iq qy o by (auto simp: amm_amount_in_eq)
  qed
qed

lemma pool_product: "0 < x \<Longrightarrow> 0 \<le> n \<Longrightarrow> x * y \<le> (x + n) * (y - pool_out x y n)"
proof -
  assume "0 < x" "0 \<le> n"
  then have "pool_out x y n * (x + n) \<le> n * y" using le_zdiv_iff [of "x + n" "pool_out x y n" "n * y"] by (simp add: pool_out_def)
  then show ?thesis by (simp add: algebra_simps)
qed

text \<open>Selling the output back never returns more than was paid, wherever the fee went.\<close>

lemma pool_round_trip:
  assumes x: "0 < x" and n: "0 \<le> n" "n \<le> r" "r \<le> a" and y: "0 < y" and m: "0 \<le> m" "m \<le> pool_out x y n"
  shows "pool_out (y - pool_out x y n) (x + r) m \<le> a"
proof -
  define v where "v = pool_out x y n"
  have v: "v * (x + n) \<le> n * y" using x n(1) le_zdiv_iff [of "x + n" v "n * y"] by (simp add: v_def pool_out_def)
  have vy: "v < y" using pool_out_less [OF x n(1) y] by (simp add: v_def)
  have "v * (r - n) \<le> y * (r - n)" using vy n(2) by (intro mult_right_mono) auto
  then have "v * (x + r) \<le> r * y" using v by (simp add: algebra_simps)
  also have "\<dots> \<le> a * y" using n(3) y by simp
  finally have full: "v * (x + r) \<le> a * y" .
  have "m * (x + r) \<le> a * (y - v + m)"
  proof (cases "a \<le> x + r")
    case True
    have "m * (x + r - a) \<le> v * (x + r - a)" using True m by (intro mult_right_mono) (auto simp: v_def)
    also have "\<dots> \<le> a * (y - v)" using full by (simp add: algebra_simps)
    finally show ?thesis by (simp add: algebra_simps)
  next
    case False
    have "m * (x + r) \<le> m * a" using False m(1) by (intro mult_left_mono) auto
    moreover have "0 \<le> a * (y - v)" using n vy by simp
    ultimately show ?thesis by (simp add: algebra_simps)
  qed
  also have "\<dots> < (a + 1) * (y - v + m)" using vy m(1) by (simp add: algebra_simps)
  finally have "m * (x + r) div (y - v + m) < a + 1" using vy m(1) by (subst zdiv_less_iff) auto
  then show ?thesis unfolding v_def [symmetric] pool_out_def [of "y - v"] by simp
qed

subsection \<open>Every value a report shows can be rendered\<close>

definition renderable :: "rat \<Rightarrow> bool" where
  "renderable v \<longleftrightarrow> \<bar>numer v\<bar> < 10 ^ 200 \<and> denom v < 10 ^ 200"

lemma numer_abs: "rat_of_int \<bar>numer v\<bar> = \<bar>v\<bar> * of_int (denom v)"
proof -
  have "rat_of_int (numer v) = v * of_int (denom v)" using frac_eq [of v] denom_pos [of v] by (simp add: field_simps)
  then show ?thesis using denom_pos [of v] by (metis abs_mult abs_of_pos of_int_0_less_iff of_int_abs)
qed

lemma renderable_quotient:
  assumes "0 < b" and "b < 10 ^ 200" and "\<bar>a\<bar> < 10 ^ 200"
  shows "renderable (of_int a / of_int b)"
proof -
  let ?v = "rat_of_int a / of_int b"
  have "?v * of_int b = of_int a" using assms(1) by simp
  then have "?v * of_int b \<in> \<int>" by (metis Ints_of_int)
  then have "denom ?v dvd b" by (simp only: denom_dvd_iff)
  then have d: "denom ?v \<le> b" using assms(1) by (simp add: zdvd_imp_le)
  have "\<bar>?v\<bar> * of_int (denom ?v) \<le> \<bar>?v\<bar> * of_int b" using d by (intro mult_left_mono) auto
  also have "\<dots> = of_int \<bar>a\<bar>" using assms(1) by simp
  finally have "rat_of_int \<bar>numer ?v\<bar> \<le> of_int \<bar>a\<bar>" by (simp only: numer_abs)
  then have "\<bar>numer ?v\<bar> \<le> \<bar>a\<bar>" by (simp only: of_int_le_iff)
  then show ?thesis using d assms(2,3) unfolding renderable_def by (meson order.strict_trans1)
qed

lemma power_lt_exponent: "1 < b \<Longrightarrow> b ^ i \<le> d \<Longrightarrow> d < B \<Longrightarrow> B \<le> b ^ j \<Longrightarrow> i < j" for b d B :: int
  by (metis order.strict_trans2 order.strict_trans1 power_strict_increasing_iff)

lemma ten_power_le: "(10::int) ^ k \<le> 2 ^ (4 * k)" "(10::int) ^ k \<le> 5 ^ (4 * k)"
proof -
  have "(10::int) ^ k \<le> 16 ^ k" "(10::int) ^ k \<le> 625 ^ k" by (simp_all add: power_mono)
  then show "(10::int) ^ k \<le> 2 ^ (4 * k)" "(10::int) ^ k \<le> 5 ^ (4 * k)" by (simp_all add: power_mult)
qed

lemma factor_count:
  assumes "factor_out 2 (denom v) 0 = (a, i)" and "factor_out 5 a 0 = (b, j)" and "denom v < 10 ^ k"
  shows "i < 4 * k" "j < 4 * k"
proof -
  note fa = factor_out_spec [OF _ denom_pos assms(1), simplified]
  then have a0: "0 < a" by simp
  note fb = factor_out_spec [OF _ a0 assms(2), simplified]
  have "1 * 2 ^ i \<le> a * 2 ^ i" by (rule mult_right_mono) (use a0 in auto)
  moreover have "1 * 5 ^ j \<le> b * 5 ^ j" by (rule mult_right_mono) (use fb in auto)
  moreover have "a * 1 \<le> a * 2 ^ i" by (rule mult_left_mono) (use a0 in auto)
  ultimately have ge: "2 ^ i \<le> denom v" "5 ^ j \<le> a" "a \<le> denom v" using conjunct1 [OF fa] conjunct1 [OF fb] by simp_all
  have "a < 10 ^ k" using ge(3) assms(3) by (rule order.strict_trans1)
  then show "i < 4 * k" "j < 4 * k"
    using power_lt_exponent [OF _ ge(1) assms(3) ten_power_le(1)] power_lt_exponent [OF _ ge(2) _ ten_power_le(2)] by simp_all
qed

lemma dec_divide_total:
  assumes "0 < n" "0 < d" "n < 10 ^ 200" "d < 10 ^ 200"
  shows "\<exists>v. dec_divide s n d = Inr v"
proof -
  have l: "length (nat_str n) \<le> 200" "length (nat_str d) \<le> 200" using length_nat_str_le assms(3,4) by simp_all
  have "0 < length (nat_str n)" "0 < length (nat_str d)" by simp_all
  then have "\<bar>quot_exponent n d\<bar> \<le> 500" using l by (simp add: quot_exponent_def Let_def prec_def) linarith
  then show ?thesis using assms(1,2) by (auto simp: dec_divide_def Let_def prec_def dec_limit_def)
qed

lemma ten_power_split: "10 ^ a * 2 ^ k * 5 ^ k = (10::int) ^ (a + k)"
  by (simp add: power_add mult.assoc flip: power_mult_distrib)

lemma nat_less_ten_power: "x < 10 ^ k \<Longrightarrow> nat x < 10 ^ k" for x :: int
  by (cases "0 \<le> x") (simp_all add: nat_less_iff)

lemma abs_mult3_less:
  fixes x A :: int
  assumes "\<bar>x\<bar> < A" "P \<le> P'" "Q \<le> Q'" "0 < P" "0 < Q"
  shows "\<bar>x * P * Q\<bar> < A * P' * Q'"
proof -
  have "\<bar>x * P * Q\<bar> = \<bar>x\<bar> * P * Q" using assms(4,5) by (simp add: abs_mult)
  also have "\<dots> \<le> \<bar>x\<bar> * P' * Q'" using assms by (intro mult_mono) auto
  also have "\<dots> < A * P' * Q'" using assms by (intro mult_strict_right_mono) auto
  finally show ?thesis .
qed

lemma terminating_digits:
  fixes x :: int
  assumes "\<bar>x\<bar> < 10 ^ k" "i < 4 * k" "j < 4 * k"
  shows "length (nat_str (nat \<bar>x * 2 ^ (max i j - i) * 5 ^ (max i j - j)\<bar>)) \<le> 5 * k"
proof -
  let ?s = "max i j"
  have "(2::int) ^ (?s - i) \<le> 2 ^ (4 * k)" by (rule power_increasing) (use assms in auto)
  moreover have "(5::int) ^ (?s - j) \<le> 5 ^ (4 * k)" by (rule power_increasing) (use assms in auto)
  ultimately have "\<bar>x * 2 ^ (?s - i) * 5 ^ (?s - j)\<bar> < 10 ^ k * 2 ^ (4 * k) * 5 ^ (4 * k)"
    by (rule abs_mult3_less [OF assms(1)]) simp_all
  also have "\<dots> = 10 ^ (k + 4 * k)" by (rule ten_power_split)
  finally show ?thesis using length_nat_str_le [OF _ nat_less_ten_power, of "5 * k"] assms(2) by simp
qed

lemma display_total:
  assumes "renderable v"
  shows "\<exists>s. display v = Inr s"
proof -
  obtain a i where a: "factor_out 2 (denom v) 0 = (a, i)" by fastforce
  obtain b j where b: "factor_out 5 a 0 = (b, j)" by fastforce
  have r: "\<bar>numer v\<bar> < 10 ^ 200" "denom v < 10 ^ 200" using assms by (simp_all only: renderable_def)
  note ij = factor_count [OF a b r(2)]
  have "\<exists>s c e. decimal_from_fraction v = Inr (DFin s c e)"
  proof (cases "b = 1")
    case True
    then show ?thesis using terminating_digits [OF r(1) ij] by (simp add: decimal_from_fraction_def a b Let_def max_str_digits_def)
  next
    case False
    then have nt: "\<not> is_terminating_fraction v" by (simp add: is_terminating_fraction_def a b)
    then have "v \<noteq> 0" using terminating_iff [of v] by (metis Ints_0 mult_zero_left)
    then have "numer v \<noteq> 0" using frac_eq [of v] by auto
    then obtain w where w: "dec_divide (numer v < 0) (nat \<bar>numer v\<bar>) (nat (denom v)) = Inr w"
      using dec_divide_total [OF _ _ r [THEN nat_less_ten_power]] by auto
    obtain c e where "w = DFin (numer v < 0) c e" "10 ^ (prec - 1) \<le> c"
      using dec_divide_error [OF _ _ w] \<open>numer v \<noteq> 0\<close> by auto
    then show ?thesis using False w
      by (auto simp: decimal_from_fraction_def a b Let_def rounded_decimal_def prec_def require_def pow10_pos [THEN less_imp_neq, symmetric])
  qed
  then show ?thesis by (auto simp: display_def)
qed


subsection \<open>Trove risk\<close>

lemma ratio_below:
  "0 < debt \<Longrightarrow> atomic_ratio collateral debt p < m \<longleftrightarrow> collateral * p < m * debt"
  by (simp add: atomic_ratio_def zdiv_less_iff)

lemma threshold_below:
  assumes "0 < collateral" "liquidation_threshold collateral debt mcr True = Some t"
  shows "of_int p / of_int UNIT < t \<longleftrightarrow> collateral * p < mcr * debt"
proof -
  have u: "0 < rat_of_int UNIT" "0 < rat_of_int collateral" using assms(1) by (simp_all add: UNIT_def)
  have "t = of_int (mcr * debt) / of_int collateral / of_int UNIT"
    using assms by (simp add: liquidation_threshold_def mult.commute split: if_splits)
  then have tu: "t * of_int UNIT = of_int (mcr * debt) / of_int collateral" using u(1) by simp
  have "of_int p / of_int UNIT < t \<longleftrightarrow> of_int p < rat_of_int (mcr * debt) / of_int collateral"
    unfolding tu [symmetric] by (rule pos_divide_less_eq [OF u(1)])
  also have "\<dots> \<longleftrightarrow> of_int (collateral * p) < rat_of_int (mcr * debt)"
    using u(2) by (simp add: pos_less_divide_eq mult.commute)
  finally have "of_int p / of_int UNIT < t \<longleftrightarrow> of_int (collateral * p) < rat_of_int (mcr * debt)" .
  then show ?thesis by (simp only: of_int_less_iff)
qed

lemma buffer_negative:
  assumes "0 < t" and "liquidation_buffer p (Some t) = Some b"
  shows "b < 0 \<longleftrightarrow> of_int p / of_int UNIT < t"
proof -
  have "(q / t - 1) * 100 < 0 \<longleftrightarrow> q < t" for q using assms(1) by (simp add: field_simps)
  moreover have "b = (of_int p / of_int UNIT / t - 1) * 100" using assms by (simp add: liquidation_buffer_def)
  ultimately show ?thesis by blast
qed

lemma price_floor_le: "0 \<le> p \<Longrightarrow> 0 \<le> r \<Longrightarrow> r \<le> 100 \<Longrightarrow> 0 \<le> p * (100 - r) div 100 \<and> p * (100 - r) div 100 \<le> p" for p r :: int
proof -
  assume "0 \<le> p" "0 \<le> r" "r \<le> 100"
  then have "p * (100 - r) \<le> p * 100" "0 \<le> p * (100 - r)" by (simp_all add: mult_left_mono)
  then show ?thesis using zdiv_mono1 [of "p * (100 - r)" "p * 100" 100] by (simp add: pos_imp_zdiv_nonneg_iff)
qed

lemma atomic_ratio_bounds:
  assumes "0 \<le> c" "0 \<le> p" "0 \<le> d" "d = 0 \<or> c * p \<le> MAXIMUM"
  shows "0 \<le> atomic_ratio c d p \<and> atomic_ratio c d p \<le> MAXIMUM"
proof (cases "d = 0")
  case False
  then have d: "0 < d" "c * p \<le> MAXIMUM" using assms by auto
  have "c * p div d \<le> c * p" using zdiv_mono2 [of "c * p" 1 d] d(1) assms(1,2) by simp
  then show ?thesis using d assms by (simp add: atomic_ratio_def pos_imp_zdiv_nonneg_iff)
qed (simp add: atomic_ratio_def MAXIMUM_def)

lemma small_renderable: "0 \<le> v \<Longrightarrow> v \<le> MAXIMUM \<Longrightarrow> renderable (of_int v / of_int UNIT)"
  by (rule renderable_quotient) (simp_all add: UNIT_def MAXIMUM_def)

lemma display_if_total: "renderable v \<Longrightarrow> \<exists>j. display_if b v = Inr j"
  using display_total [of v] by (auto simp: display_if_def)

lemma scenario_total:
  assumes "0 \<le> c" "0 \<le> p" "p \<le> MAXIMUM" "0 \<le> d" "d = 0 \<or> c * p \<le> MAXIMUM" "0 \<le> r" "r \<le> 100"
  shows "\<exists>j. trove_scenario c d p m act r = Inr j"
proof -
  let ?p = "p * (100 - r) div 100"
  have f: "0 \<le> ?p" "?p \<le> p" using price_floor_le assms(2,6,7) by auto
  then have "c * ?p \<le> c * p" using assms(1) by (simp add: mult_left_mono)
  then have "0 \<le> atomic_ratio c d ?p \<and> atomic_ratio c d ?p \<le> MAXIMUM"
    using atomic_ratio_bounds [OF assms(1) f(1) assms(4)] assms(5) by auto
  then have "renderable (of_int (atomic_ratio c d ?p) / of_int UNIT)" "renderable (of_int ?p / of_int UNIT)"
    using small_renderable f assms(3) by auto
  then obtain a b where "display_if act (of_int (atomic_ratio c d ?p) / of_int UNIT) = Inr a" "display (of_int ?p / of_int UNIT) = Inr b"
    using display_total display_if_total by blast
  then show ?thesis by (simp add: trove_scenario_def Let_def)
qed

lemma MAXIMUM_nonneg: "0 \<le> MAXIMUM" "0 \<le> UNIT"
  by (simp_all add: MAXIMUM_def UNIT_def)

lemma threshold_renderable:
  assumes "0 \<le> c" "c \<le> MAXIMUM" "0 \<le> m" "m \<le> MAXIMUM" "0 \<le> d" "d \<le> MAXIMUM" "liquidation_threshold c d m act = Some t"
  shows "renderable t"
proof -
  have t: "t = of_int (m * d) / of_int (c * UNIT)" "0 < c" using assms by (auto simp: liquidation_threshold_def split: if_splits)
  have "m * d \<le> MAXIMUM * MAXIMUM" by (rule mult_mono) (use assms MAXIMUM_nonneg in auto)
  moreover have "c * UNIT \<le> MAXIMUM * UNIT" by (rule mult_right_mono) (use assms MAXIMUM_nonneg in auto)
  moreover have "MAXIMUM * MAXIMUM < 10 ^ 200" "MAXIMUM * UNIT < 10 ^ 200" by (simp_all add: MAXIMUM_def UNIT_def)
  ultimately have "m * d < 10 ^ 200" "c * UNIT < 10 ^ 200" by (meson order.strict_trans1)+
  moreover have "0 \<le> m * d" "0 < c * UNIT" using assms t(2) by (simp_all add: UNIT_def)
  ultimately show ?thesis unfolding t(1) by (intro renderable_quotient) simp_all
qed

lemma abs_diff_scaled: "0 \<le> A \<Longrightarrow> A \<le> M \<Longrightarrow> 0 < B \<Longrightarrow> B \<le> M \<Longrightarrow> \<bar>(A - B) * 100\<bar> \<le> M * 100 \<and> B \<le> M * 100" for A B M :: int
  by (simp add: abs_le_iff)

lemma buffer_renderable:
  assumes "0 \<le> c" "0 \<le> p" "c * p \<le> MAXIMUM" "0 \<le> m" "m \<le> MAXIMUM" "0 \<le> d" "d \<le> MAXIMUM"
    and "liquidation_buffer p (liquidation_threshold c d m act) = Some b"
  shows "renderable b"
proof -
  have t: "0 < c" "m * d \<noteq> 0"
      "b = (of_int p / of_int UNIT / (of_int (m * d) / of_int (c * UNIT)) - 1) * 100"
    using assms by (auto simp: liquidation_threshold_def liquidation_buffer_def split: if_splits)
  have md: "0 < m * d" using t(2) assms by simp
  have b: "b = of_int ((c * p - m * d) * 100) / of_int (m * d)"
    using t(1,2) by (simp add: t(3) UNIT_def field_simps)
  have "m * d \<le> MAXIMUM * MAXIMUM" by (rule mult_mono) (use assms MAXIMUM_nonneg in auto)
  moreover have "0 \<le> c * p" using assms(1,2) by simp
  moreover have "MAXIMUM \<le> MAXIMUM * MAXIMUM" by (simp add: MAXIMUM_def)
  ultimately have "\<bar>(c * p - m * d) * 100\<bar> \<le> MAXIMUM * MAXIMUM * 100 \<and> m * d \<le> MAXIMUM * MAXIMUM * 100"
    using md assms(3) by (intro abs_diff_scaled) auto
  moreover have "MAXIMUM * MAXIMUM * 100 < 10 ^ 200" by (simp add: MAXIMUM_def)
  ultimately have "\<bar>(c * p - m * d) * 100\<bar> < 10 ^ 200" "m * d < 10 ^ 200" by (meson order.strict_trans1)+
  then show ?thesis unfolding b by (intro renderable_quotient md)
qed

definition trove_valid :: "int \<Rightarrow> int \<Rightarrow> int \<Rightarrow> int \<Rightarrow> int \<Rightarrow> int \<Rightarrow> int \<Rightarrow> int \<Rightarrow> bool" where
  "trove_valid c pr it p m cc tc st \<longleftrightarrow> trove_inputs c pr it p m cc tc st
     \<and> (if st = 1 then pr + it \<noteq> 0 else True) \<and> (if pr + it > 0 then c * p \<le> MAXIMUM else True)"

lemma trove_risk_total:
  assumes "trove_valid c pr it p m cc tc st"
  shows "\<exists>r. trove_risk c pr it p m cc tc st = Inr r"
proof -
  let ?d = "pr + it" and ?u = "\<lambda>v. rat_of_int v / of_int UNIT" and ?t = "liquidation_threshold c (pr + it) m (st = 1)"
  have b: "0 \<le> c" "c \<le> MAXIMUM" "0 \<le> p" "p \<le> MAXIMUM" "0 \<le> m" "m \<le> MAXIMUM" "0 \<le> cc" "cc \<le> MAXIMUM" "0 \<le> tc" "tc \<le> MAXIMUM"
      "0 \<le> ?d" "?d \<le> MAXIMUM" and v: "trove_inputs c pr it p m cc tc st"
    and ok: "\<not> ((st = 1 \<and> ?d = 0) \<or> (?d > 0 \<and> c * p > MAXIMUM))" and o: "?d = 0 \<or> c * p \<le> MAXIMUM"
    using assms by (auto simp: trove_valid_def trove_inputs_def split: if_splits)
  have sc: "\<exists>j. trove_scenario c ?d p m (st = 1) r = Inr j" if "r \<in> {10, 20, 30}" for r
    by (rule scenario_total [OF b(1,3,4,11) o]) (use that in auto)
  obtain s1 where s1: "trove_scenario c ?d p m (st = 1) 10 = Inr s1" using sc [of 10] by auto
  obtain s2 where s2: "trove_scenario c ?d p m (st = 1) 20 = Inr s2" using sc [of 20] by auto
  obtain s3 where s3: "trove_scenario c ?d p m (st = 1) 30 = Inr s3" using sc [of 30] by auto
  have "rmap (trove_scenario c ?d p m (st = 1)) [10, 20, 30] = Inr [s1, s2, s3]" by (simp add: s1 s2 s3)
  moreover have "\<exists>s. display (?u v) = Inr s" if "v \<in> {?d, c, p, m, cc, tc}" for v
    using that b by (intro display_total small_renderable) auto
  then obtain d1 d2 d3 d4 d5 d6 where "display (?u ?d) = Inr d1" "display (?u c) = Inr d2" "display (?u p) = Inr d3" "display (?u m) = Inr d4"
      "display (?u cc) = Inr d5" "display (?u tc) = Inr d6" by (metis insertI1 insertI2)
  moreover obtain i where "display_if (st = 1) (?u (atomic_ratio c ?d p)) = Inr i"
    using display_if_total small_renderable atomic_ratio_bounds [OF b(1,3,11) o] by blast
  moreover have "\<exists>x. (case ?t of Some t \<Rightarrow> display_if True t | None \<Rightarrow> Inr JNull) = Inr x"
    using threshold_renderable [OF b(1,2,5,6,11,12)] display_if_total by (auto split: option.split)
  then obtain x where "(case ?t of Some t \<Rightarrow> display_if True t | None \<Rightarrow> Inr JNull) = Inr x" by blast
  moreover have "\<exists>x. (case liquidation_buffer p ?t of Some t \<Rightarrow> display_if True t | None \<Rightarrow> Inr JNull) = Inr x"
  proof (cases "liquidation_buffer p ?t")
    case (Some y)
    then have "?d \<noteq> 0" by (auto simp: liquidation_buffer_def liquidation_threshold_def split: if_splits)
    then show ?thesis using Some buffer_renderable [OF b(1,3) _ b(5,6,11,12) Some] display_if_total o by auto
  qed simp
  then obtain y where "(case liquidation_buffer p ?t of Some t \<Rightarrow> display_if True t | None \<Rightarrow> Inr JNull) = Inr y" by blast
  ultimately show ?thesis using v ok by (simp add: trove_risk_def Let_def)
qed

lemma trove_risk_error:
  "\<not> trove_valid c pr it p m cc tc st \<Longrightarrow> trove_risk c pr it p m cc tc st = Inl (CodedValueError ''MEZO_TROVE_INVALID_INPUT'')"
  by (auto simp: trove_risk_def trove_valid_def require_def Let_def split: if_splits)

subsection \<open>Properties\<close>

text \<open>
  C22. The exact-out quote is the true inverse of the pool's exact-in quote: it returns \<open>a\<close> exactly
  when \<open>a\<close> is the smallest input for which the pool's own checked calculation returns at
  least the wanted output. So it is minimal, it is executable by the contract's 256-bit
  arithmetic, and it is found whenever any input reaches the output at all.
\<close>

theorem amm_amount_in_minimal:
  "amm_amount_in q x y f = Inr a \<longleftrightarrow> 0 \<le> q \<and> 0 \<le> a \<and> (\<exists>v. amm_amount_out a x y f = Inr v \<and> q \<le> v)
     \<and> (\<nexists>b v. b < a \<and> amm_amount_out b x y f = Inr v \<and> q \<le> v)"
  using amm_amount_in_least by simp

text \<open>
  C23. The pool cannot be drained or gamed by rounding: an accepted swap pays less than the
  reserve, never lowers the product of the reserves, and swapping the output back at the
  new reserves returns at most the input, wherever between the net and the gross input the
  pool books the fee.
\<close>

theorem amm_swap_safe:
  assumes "amm_amount_out a x y f = Inr v" and "a - a * f div 10000 \<le> r" and "r \<le> a"
    and "amm_amount_out v (y - v) (x + r) f = Inr w"
  shows "0 \<le> v \<and> v < y \<and> x * y \<le> (x + r) * (y - v) \<and> w \<le> a"
proof -
  let ?n = "net_in f a"
  have i: "amm_inputs a x y f" and v: "v = pool_out x y ?n" using assms(1) by (auto simp: amm_amount_out_Inr)
  have p: "0 \<le> a" "0 < x" "0 < y" "0 \<le> f" "f < 10000" using amm_inputs_pos [OF i] by auto
  have n: "0 \<le> ?n" "?n \<le> r" using net_in_bounds p assms(2) by (auto simp: net_in_def)
  have vy: "0 \<le> v" "v < y" using pool_out_less [OF p(2) n(1) p(3)] n(1) p by (simp_all add: v pool_out_def pos_imp_zdiv_nonneg_iff)
  have "x * y \<le> (x + ?n) * (y - v)" using pool_product [OF p(2) n(1)] by (simp add: v)
  also have "\<dots> \<le> (x + r) * (y - v)" using n(2) vy by (intro mult_right_mono) auto
  finally have "x * y \<le> (x + r) * (y - v)" .
  moreover have "w = pool_out (y - v) (x + r) (net_in f v)" using assms(4) by (auto simp: amm_amount_out_Inr)
  then have "w \<le> a"
    using pool_round_trip [OF p(2) n assms(3) p(3), of "net_in f v"] net_in_bounds [OF p(4,5) vy(1)] by (simp add: v)
  ultimately show ?thesis using vy by blast
qed

lemma amm_swap_safe_witness:
  "amm_amount_out 1000 50000 70000 30 = Inr 1368 \<and> amm_amount_out 1368 68632 51000 30 = Inr 993
     \<and> (50000::int) * 70000 \<le> 51000 * 68632 \<and> (993::int) \<le> 1000"
proof -
  have e: "amm_amount_out 1000 50000 70000 30 = Inr 1368" "amm_amount_out 1368 (70000 - 1368) (50000 + 1000) 30 = Inr 993"
    by code_simp+
  show ?thesis using amm_swap_safe [OF e(1) _ _ e(2)] e by simp
qed



end
