(* ===== verification/Calendar.thy ===== *)
theory Calendar
  imports Calculation
begin

section \<open>Instants as text (\<open>_timestamp\<close> of \<open>calculation.py\<close>, \<open>timestamp_ms\<close> of \<open>evidence_io.py\<close>)\<close>

text \<open>
  Reports carry instants as UTC text, computed from milliseconds since 1970 and read back when a
  bundle is verified. The proleptic Gregorian calendar is that of Python's \<open>datetime\<close>: a date
  is the ordinal of its day, January 1 of year 1 being day 1.
\<close>

subsection \<open>Dates (\<open>datetime\<close> of the standard library)\<close>

definition is_leap :: "int \<Rightarrow> bool" where
  "is_leap y \<longleftrightarrow> y mod 4 = 0 \<and> (y mod 100 \<noteq> 0 \<or> y mod 400 = 0)"

definition days_before_year :: "int \<Rightarrow> int" where
  "days_before_year y = (y - 1) * 365 + (y - 1) div 4 - (y - 1) div 100 + (y - 1) div 400"

definition month_days :: "(int \<times> int) list" where
  "month_days = [(1, 31), (2, 28), (3, 31), (4, 30), (5, 31), (6, 30), (7, 31), (8, 31), (9, 30), (10, 31), (11, 30), (12, 31)]"

definition days_in_month :: "bool \<Rightarrow> int \<Rightarrow> int" where
  "days_in_month leap m = (if m = 2 \<and> leap then 29 else case map_of month_days m of None \<Rightarrow> 0 | Some d \<Rightarrow> d)"

definition days_before_month :: "bool \<Rightarrow> int \<Rightarrow> int" where
  "days_before_month leap m =
     sum_list (map snd (filter (\<lambda>(k, d). k < m) month_days)) + (if m > 2 \<and> leap then 1 else 0)"

definition ymd2ord :: "int \<Rightarrow> int \<Rightarrow> int \<Rightarrow> int" where
  "ymd2ord y m d = days_before_year y + days_before_month (is_leap y) m + d"

text \<open>The month and the day of the \<open>n\<close>-th day of a year, counted from 0.\<close>

definition month_of_day :: "bool \<Rightarrow> int \<Rightarrow> int \<times> int" where
  "month_of_day leap n =
     (let month = (n + 50) div 32; preceding = days_before_month leap month
      in if preceding > n
         then (month - 1, n - (preceding - days_in_month leap (month - 1)) + 1)
         else (month, n - preceding + 1))"

definition ord2ymd :: "int \<Rightarrow> int \<times> int \<times> int" where
  "ord2ymd ordinal =
     (let n = ordinal - 1; n400 = n div 146097; n = n mod 146097;
          n100 = n div 36524; n = n mod 36524; n4 = n div 1461; n = n mod 1461; n1 = n div 365; n = n mod 365;
          y = n400 * 400 + 1 + n100 * 100 + n4 * 4 + n1
      in if n1 = 4 \<or> n100 = 4 then (y - 1, 12, 31)
         else (y, month_of_day (n1 = 3 \<and> (n4 \<noteq> 24 \<or> n100 = 3)) n))"

definition valid_date :: "int \<Rightarrow> int \<Rightarrow> int \<Rightarrow> bool" where
  "valid_date y m d \<longleftrightarrow> 1 \<le> y \<and> y \<le> 9999 \<and> 1 \<le> m \<and> m \<le> 12 \<and> 1 \<le> d \<and> d \<le> days_in_month (is_leap y) m"

text \<open>Month by month: the guess \<open>(n + 50) div 32\<close> is the month of the day or the month after it.\<close>

lemma month_cases:
  fixes k :: int
  assumes "1 \<le> k" "k \<le> 12"
  shows "k \<in> {1, 2, 3, 4, 5, 6, 7, 8, 9, 10, 11, 12}"
  using assms by simp presburger

lemma month_table:
  "map (days_before_month leap) [1, 2, 3, 4, 5, 6, 7, 8, 9, 10, 11, 12]
   = (if leap then [0, 31, 60, 91, 121, 152, 182, 213, 244, 274, 305, 335] else [0, 31, 59, 90, 120, 151, 181, 212, 243, 273, 304, 334])"
  "map (days_in_month leap) [0, 1, 2, 3, 4, 5, 6, 7, 8, 9, 10, 11, 12]
   = [0, 31, if leap then 29 else 28, 31, 30, 31, 30, 31, 31, 30, 31, 30, 31]"
  by (cases leap; simp add: days_before_month_def days_in_month_def month_days_def)+

lemma month_of_day_correct:
  assumes "month_of_day leap n = (m, d)" and "0 \<le> n" and "n \<le> (if leap then 365 else 364)"
  shows "1 \<le> m" "m \<le> 12" "1 \<le> d" "d \<le> days_in_month leap m" "days_before_month leap m + d = n + 1"
proof -
  define k where "k = (n + 50) div 32"
  have "32 * k \<le> n + 50" "n + 50 < 32 * k + 32" "1 \<le> k" "k \<le> 12" using assms(2,3) unfolding k_def by (auto split: if_splits)
  note k = this(1,2) month_cases [OF this(3,4)]
  have md: "(m, d) = (if days_before_month leap k > n
      then (k - 1, n - (days_before_month leap k - days_in_month leap (k - 1)) + 1) else (k, n - days_before_month leap k + 1))"
    using assms(1) by (simp only: month_of_day_def k_def Let_def)
  have "1 \<le> m \<and> m \<le> 12 \<and> 1 \<le> d \<and> d \<le> days_in_month leap m \<and> days_before_month leap m + d = n + 1"
    using k md assms(2,3) month_table [of leap] by (cases leap) (auto split: if_splits)
  then show "1 \<le> m" "m \<le> 12" "1 \<le> d" "d \<le> days_in_month leap m" "days_before_month leap m + d = n + 1" by auto
qed

lemma days_before_year_split:
  assumes "0 \<le> b" "b \<le> 3" "0 \<le> c" "c \<le> 24" "0 \<le> d" "d \<le> 3"
  shows "days_before_year (400 * a + 100 * b + 4 * c + d + 1) = 146097 * a + 36524 * b + 1461 * c + 365 * d"
proof -
  let ?Y = "400 * a + 100 * b + 4 * c + d"
  have "?Y div 4 = 100 * a + 25 * b + c" "?Y div 100 = 4 * a + b" "?Y div 400 = a" using assms by linarith+
  then show ?thesis by (simp add: days_before_year_def)
qed

lemma is_leap_split:
  assumes "0 \<le> b" "b \<le> 3" "0 \<le> c" "c \<le> 24" "0 \<le> d" "d \<le> 3"
  shows "is_leap (400 * a + 100 * b + 4 * c + d + 1) \<longleftrightarrow> d = 3 \<and> (c \<noteq> 24 \<or> b = 3)"
proof -
  let ?y = "400 * a + 100 * b + 4 * c + d + 1"
  have 4: "?y = 4 * (100 * a + 25 * b + c) + (d + 1)" by simp
  have "?y mod 4 = 0 \<longleftrightarrow> (d + 1) mod 4 = 0" unfolding 4 by (simp only: mod_mult_self4)
  also have "\<dots> \<longleftrightarrow> d = 3" using assms(5,6) by (cases "d = 3") (auto simp: mod_pos_pos_trivial)
  finally have y4: "?y mod 4 = 0 \<longleftrightarrow> d = 3" .
  have y100: "?y mod 100 = 0 \<longleftrightarrow> c = 24" if "d = 3"
  proof -
    have "?y = 100 * (4 * a + b) + (4 * c + 4)" using that by simp
    then have "?y mod 100 = (4 * c + 4) mod 100" by (simp only: mod_mult_self4)
    then show ?thesis using assms(3,4) by (cases "c = 24") (auto simp: mod_pos_pos_trivial)
  qed
  have y400: "?y mod 400 = 0 \<longleftrightarrow> b = 3" if "d = 3" "c = 24"
  proof -
    have "?y = 400 * a + (100 * b + 100)" using that by simp
    then have "?y mod 400 = (100 * b + 100) mod 400" by (simp only: mod_mult_self4)
    then show ?thesis using assms(1,2) by (cases "b = 3") (auto simp: mod_pos_pos_trivial)
  qed
  show ?thesis unfolding is_leap_def using y4 y100 y400 by metis
qed

lemma last_day:
  assumes "is_leap y"
  shows "ymd2ord y 12 31 = days_before_year y + 366" "31 \<le> days_in_month (is_leap y) 12"
proof -
  have "days_before_month True 12 = 335" "days_in_month True 12 = 31" by code_simp+
  then show "ymd2ord y 12 31 = days_before_year y + 366" "31 \<le> days_in_month (is_leap y) 12"
    using assms by (simp_all add: ymd2ord_def)
qed

lemma ord2ymd_correct:
  assumes "ord2ymd ordinal = (y, m, d)"
  shows "ymd2ord y m d = ordinal" "1 \<le> m" "m \<le> 12" "1 \<le> d" "d \<le> days_in_month (is_leap y) m"
proof -
  define n where "n = ordinal - 1"
  define a r1 where ar: "a = n div 146097" "r1 = n mod 146097"
  define b r2 where br: "b = r1 div 36524" "r2 = r1 mod 36524"
  define c r3 where cr: "c = r2 div 1461" "r3 = r2 mod 1461"
  define e r4 where er: "e = r3 div 365" "r4 = r3 mod 365"
  have eqs: "n = 146097 * a + r1" "r1 = 36524 * b + r2" "r2 = 1461 * c + r3" "r3 = 365 * e + r4"
    by (simp_all add: ar br cr er)
  have r: "0 \<le> r1" "r1 < 146097" "0 \<le> r2" "r2 < 36524" "0 \<le> r3" "r3 < 1461" "0 \<le> r4" "r4 < 365"
    by (simp_all add: ar br cr er)
  have q: "0 \<le> b" "b \<le> 4" "0 \<le> c" "c \<le> 24" "0 \<le> e" "e \<le> 4" using eqs r by linarith+
  let ?y = "400 * a + 100 * b + 4 * c + e + 1"
  have ymd: "ord2ymd ordinal = (if e = 4 \<or> b = 4 then (?y - 1, 12, 31)
      else (?y, month_of_day (e = 3 \<and> (c \<noteq> 24 \<or> b = 3)) r4))"
    unfolding ord2ymd_def by (simp add: Let_def n_def [symmetric] ar [symmetric] br [symmetric] cr [symmetric] er [symmetric] algebra_simps)
  have "ymd2ord y m d = ordinal \<and> 1 \<le> m \<and> m \<le> 12 \<and> 1 \<le> d \<and> d \<le> days_in_month (is_leap y) m"
  proof (cases "b = 4")
    case True
    then have "c = 0" "e = 0" "r4 = 0" using eqs r q by linarith+
    then have y: "y = 400 * a + 100 * 3 + 4 * 24 + 3 + 1" "m = 12" "d = 31" and n: "n = 146097 * a + 146096"
      using ymd assms True eqs by simp_all
    have "is_leap y" "days_before_year y = 146097 * a + 36524 * 3 + 1461 * 24 + 365 * 3"
      unfolding y by (subst is_leap_split days_before_year_split; simp)+
    then show ?thesis using last_day [of y] y n n_def by simp
  next
    case b: False
    show ?thesis
    proof (cases "e = 4")
      case True
      then have c: "c \<noteq> 24" and r4: "r4 = 0" using eqs r q b by linarith+
      have y: "y = 400 * a + 100 * b + 4 * c + 3 + 1" "m = 12" "d = 31" using ymd assms True by simp_all
      have "is_leap y" "days_before_year y = 146097 * a + 36524 * b + 1461 * c + 365 * 3"
        unfolding y by (subst is_leap_split days_before_year_split; use q b c in simp)+
      then show ?thesis using last_day [of y] y n_def eqs True r4 by simp
    next
      case e: False
      let ?l = "e = 3 \<and> (c \<noteq> 24 \<or> b = 3)"
      have y: "y = ?y" and md: "month_of_day ?l r4 = (m, d)" using ymd assms b e by simp_all
      have "is_leap y = ?l" "days_before_year y = 146097 * a + 36524 * b + 1461 * c + 365 * e"
        unfolding y by (subst is_leap_split days_before_year_split; use q b e in simp)+
      moreover have "r4 \<le> (if ?l then 365 else 364)" using r by simp
      note month_of_day_correct [OF md r(7) this]
      ultimately show ?thesis using eqs n_def by (simp add: ymd2ord_def)
    qed
  qed
  then show "ymd2ord y m d = ordinal" "1 \<le> m" "m \<le> 12" "1 \<le> d" "d \<le> days_in_month (is_leap y) m" by auto
qed


subsection \<open>Rendering and reading an instant\<close>

text \<open>Decimal digits padded with zeros to a width, as \<open>strftime\<close> and \<open>:03d\<close> print them.\<close>

definition zero_pad :: "nat \<Rightarrow> int \<Rightarrow> string" where
  "zero_pad k n = replicate (k - length (nat_str (nat n))) CHR ''0'' @ nat_str (nat n)"

definition EPOCH_ORDINAL :: int where
  "EPOCH_ORDINAL = 719163"

definition MAX_ORDINAL :: int where
  "MAX_ORDINAL = 3652059"

text \<open>\<open>strftime\<close> of years below 1000 depends on the platform and is outside the model.\<close>

definition timestamp :: "int \<Rightarrow> string res" where
  "timestamp milliseconds =
     (let ordinal = EPOCH_ORDINAL + milliseconds div 86400000; rest = milliseconds mod 86400000
      in require (1 \<le> ordinal \<and> ordinal \<le> MAX_ORDINAL) OverflowError (
         case ord2ymd ordinal of (y, m, d) \<Rightarrow>
           require (1000 \<le> y) NotModelled (
           let instant = zero_pad 4 y @ ''-'' @ zero_pad 2 m @ ''-'' @ zero_pad 2 d @ ''T'' @ zero_pad 2 (rest div 3600000)
                 @ '':'' @ zero_pad 2 (rest div 60000 mod 60) @ '':'' @ zero_pad 2 (rest div 1000 mod 60)
           in if rest mod 1000 = 0 then Inr (instant @ ''Z'') else Inr (instant @ ''.'' @ zero_pad 3 (rest mod 1000) @ ''Z''))))"

definition matches_digits :: "string \<Rightarrow> string \<Rightarrow> bool" where
  "matches_digits pattern t \<longleftrightarrow> list_all2 (\<lambda>p c. if p = CHR ''d'' then is_ascii_digit c else c = p) pattern t"

definition text_field :: "string \<Rightarrow> nat \<Rightarrow> nat \<Rightarrow> int" where
  "text_field t i k = int (digits_val (take k (drop i t)))"

definition timestamp_ms :: "json \<Rightarrow> int res" where
  "timestamp_ms v =
     (case v of
        JStr t \<Rightarrow>
          require (matches_digits ''dddd-dd-ddTdd:dd:ddZ'' t \<or> matches_digits ''dddd-dd-ddTdd:dd:dd.dddZ'' t)
            (EvidenceRejected ''INVALID_DATASET'') (
          let y = text_field t 0 4; m = text_field t 5 2; d = text_field t 8 2;
              hh = text_field t 11 2; mm = text_field t 14 2; ss = text_field t 17 2;
              ms = (if length t = 24 then text_field t 20 3 else 0)
          in require (valid_date y m d \<and> hh \<le> 23 \<and> mm \<le> 59 \<and> ss \<le> 59) (EvidenceRejected ''INVALID_DATASET'')
               (Inr (((ymd2ord y m d - EPOCH_ORDINAL) * 86400 + hh * 3600 + mm * 60 + ss) * 1000 + ms)))
      | _ \<Rightarrow> Inl (EvidenceRejected ''INVALID_DATASET''))"

lemma zero_pad_facts:
  assumes "0 \<le> n" "n < 10 ^ k" "0 < k"
  shows "length (zero_pad k n) = k" "list_all is_ascii_digit (zero_pad k n)" "int (digits_val (zero_pad k n)) = n"
proof -
  have "nat n < 10 ^ k" using assms(1,2) by (simp add: nat_less_iff)
  then have "length (nat_str (nat n)) \<le> k" using length_nat_str_le assms(3) by blast
  then show "length (zero_pad k n) = k" by (simp add: zero_pad_def)
  show "list_all is_ascii_digit (zero_pad k n)"
    using nat_str_digits [of "nat n"] by (auto simp: zero_pad_def list_all_iff is_ascii_digit_def)
  show "int (digits_val (zero_pad k n)) = n" using assms(1) by (simp add: zero_pad_def digits_val_pad)
qed

lemma length_2E: "length xs = 2 \<Longrightarrow> (\<And>a b. xs = [a, b] \<Longrightarrow> P) \<Longrightarrow> P"
  by (auto simp: numeral_eq_Suc length_Suc_conv)

lemma length_3E: "length xs = 3 \<Longrightarrow> (\<And>a b c. xs = [a, b, c] \<Longrightarrow> P) \<Longrightarrow> P"
  by (auto simp: numeral_eq_Suc length_Suc_conv)

lemma length_4E: "length xs = 4 \<Longrightarrow> (\<And>a b c d. xs = [a, b, c, d] \<Longrightarrow> P) \<Longrightarrow> P"
  by (auto simp: numeral_eq_Suc length_Suc_conv)

text \<open>Reading a text made of fields of fixed width.\<close>

lemma timestamp_ms_fields:
  assumes "length Y = 4" "length M = 2" "length D = 2" "length H = 2" "length N = 2" "length S = 2" "F = [] \<or> length F = 3"
    and "list_all is_ascii_digit (Y @ M @ D @ H @ N @ S @ F)"
    and "valid_date (int (digits_val Y)) (int (digits_val M)) (int (digits_val D))"
    and "int (digits_val H) \<le> 23" "int (digits_val N) \<le> 59" "int (digits_val S) \<le> 59"
  shows "timestamp_ms (JStr (Y @ ''-'' @ M @ ''-'' @ D @ ''T'' @ H @ '':'' @ N @ '':'' @ S @ (if F = [] then [] else ''.'' @ F) @ ''Z''))
    = Inr (((ymd2ord (int (digits_val Y)) (int (digits_val M)) (int (digits_val D)) - EPOCH_ORDINAL) * 86400
        + int (digits_val H) * 3600 + int (digits_val N) * 60 + int (digits_val S)) * 1000 + int (digits_val F))"
proof -
  obtain y1 y2 y3 y4 where Y: "Y = [y1, y2, y3, y4]" using assms(1) by (rule length_4E)
  obtain m1 m2 where M: "M = [m1, m2]" using assms(2) by (rule length_2E)
  obtain d1 d2 where D: "D = [d1, d2]" using assms(3) by (rule length_2E)
  obtain h1 h2 where H: "H = [h1, h2]" using assms(4) by (rule length_2E)
  obtain n1 n2 where N: "N = [n1, n2]" using assms(5) by (rule length_2E)
  obtain s1 s2 where S: "S = [s1, s2]" using assms(6) by (rule length_2E)
  note eqs = Y M D H N S
  show ?thesis
  proof (cases "F = []")
    case True
    then show ?thesis using assms(8-) unfolding eqs
      by (simp add: timestamp_ms_def matches_digits_def text_field_def Let_def)
  next
    case False
    then obtain f1 f2 f3 where "F = [f1, f2, f3]" using assms(7) by (auto elim: length_3E)
    then show ?thesis using assms(8-) unfolding eqs
      by (simp add: timestamp_ms_def matches_digits_def text_field_def Let_def)
  qed
qed

lemma year_bounds:
  assumes "ymd2ord y m d = ordinal" "1 \<le> m" "m \<le> 12" "1 \<le> d" "d \<le> days_in_month (is_leap y) m"
    and "1 \<le> ordinal" "ordinal \<le> MAX_ORDINAL"
  shows "1 \<le> y" "y \<le> 9999"
proof -
  have bm: "0 \<le> days_before_month (is_leap y) m" "days_before_month (is_leap y) m + d \<le> 366"
    using month_cases [OF assms(2,3)] month_table [of "is_leap y"] assms(4,5) by (auto split: if_splits)
  show "1 \<le> y"
  proof (rule ccontr)
    assume "\<not> 1 \<le> y"
    then have "y - 1 < 0" by simp
    then have "(y - 1) div 4 \<le> (y - 1) div 100" "(y - 1) div 400 \<le> - 1" by linarith+
    moreover have "(y - 1) * 365 \<le> - 365" using \<open>y - 1 < 0\<close> by simp
    ultimately have "days_before_year y \<le> - 366" unfolding days_before_year_def by linarith
    then show False using assms(1,6) bm by (simp add: ymd2ord_def)
  qed
  show "y \<le> 9999"
  proof (rule ccontr)
    assume "\<not> y \<le> 9999"
    then have k: "0 \<le> y - 10000" by simp
    then have "2499 \<le> (y - 1) div 4" "(y - 1) div 100 \<le> 99 + (y - 10000)" "24 \<le> (y - 1) div 400" by linarith+
    moreover have "(y - 1) * 365 = 3649635 + 365 * (y - 10000)" by simp
    moreover have "3652059 \<le> a + q4 - q100 + q400"
      if "2499 \<le> q4" "q100 \<le> 99 + i" "24 \<le> q400" "a = 3649635 + 365 * i" "0 \<le> i" for a q4 q100 q400 i :: int
      using that by linarith
    ultimately have "3652059 \<le> days_before_year y" using k unfolding days_before_year_def by blast
    then show False using assms(1,4,7) bm by (simp add: ymd2ord_def MAX_ORDINAL_def)
  qed
qed

text \<open>The text of an instant, field by field.\<close>

lemma timestamp_text:
  assumes "timestamp ms = Inr t"
  obtains y m d H N S f where "valid_date y m d" "0 \<le> H" "H \<le> 23" "0 \<le> N" "N \<le> 59" "0 \<le> S" "S \<le> 59" "0 \<le> f" "f < 1000"
    and "ms = ((ymd2ord y m d - EPOCH_ORDINAL) * 86400 + H * 3600 + N * 60 + S) * 1000 + f"
    and "t = zero_pad 4 y @ ''-'' @ zero_pad 2 m @ ''-'' @ zero_pad 2 d @ ''T'' @ zero_pad 2 H
           @ '':'' @ zero_pad 2 N @ '':'' @ zero_pad 2 S @ (if f = 0 then [] else ''.'' @ zero_pad 3 f) @ ''Z''"
proof -
  define rest ordinal where ro: "rest = ms mod 86400000" "ordinal = EPOCH_ORDINAL + ms div 86400000"
  obtain y m d where ymd: "ord2ymd ordinal = (y, m, d)" by (cases "ord2ymd ordinal")
  define H N S f where hn: "H = rest div 3600000" "N = rest div 60000 mod 60" "S = rest div 1000 mod 60" "f = rest mod 1000"
  have o: "1 \<le> ordinal \<and> ordinal \<le> MAX_ORDINAL" and t: "(let instant = zero_pad 4 y @ ''-'' @ zero_pad 2 m @ ''-'' @ zero_pad 2 d @ ''T'' @ zero_pad 2 H
                 @ '':'' @ zero_pad 2 N @ '':'' @ zero_pad 2 S
           in if f = 0 then Inr (instant @ ''Z'') else Inr (instant @ ''.'' @ zero_pad 3 f @ ''Z'')) = (Inr t :: string res)"
    using assms unfolding timestamp_def Let_def ro [symmetric] ymd prod.case hn [symmetric] require_eq_Inr by (safe; assumption)+
  note yd = ord2ymd_correct [OF ymd] year_bounds [OF ord2ymd_correct [OF ymd] conjunct1 [OF o] conjunct2 [OF o]]
  have rest: "0 \<le> rest" "rest < 86400000" by (simp_all add: ro)
  have hms: "0 \<le> H" "H \<le> 23" "0 \<le> N" "N \<le> 59" "0 \<le> S" "S \<le> 59" "0 \<le> f" "f < 1000" using rest unfolding hn by linarith+
  define x1 x2 where x: "x1 = rest div 1000" "x2 = x1 div 60"
  have "rest div 60000 = x2" "rest div 3600000 = x2 div 60" unfolding x by (simp_all flip: zdiv_zmult2_eq)
  then have "rest = 1000 * x1 + f" "x1 = 60 * x2 + S" "x2 = 60 * H + N" unfolding hn x by simp_all
  moreover have "ms = (ordinal - EPOCH_ORDINAL) * 86400000 + rest" by (simp add: ro)
  ultimately have "ms = ((ymd2ord y m d - EPOCH_ORDINAL) * 86400 + H * 3600 + N * 60 + S) * 1000 + f" using yd(1) by simp
  moreover have "valid_date y m d" using yd by (simp add: valid_date_def)
  moreover have "t = zero_pad 4 y @ ''-'' @ zero_pad 2 m @ ''-'' @ zero_pad 2 d @ ''T'' @ zero_pad 2 H
           @ '':'' @ zero_pad 2 N @ '':'' @ zero_pad 2 S @ (if f = 0 then [] else ''.'' @ zero_pad 3 f) @ ''Z''"
    using t unfolding Let_def by (cases "f = 0") simp_all
  ultimately show thesis using that hms by blast
qed

lemma valid_date_bounds:
  assumes "valid_date y m d"
  shows "0 \<le> y" "y < 10 ^ 4" "0 \<le> m" "m < 10\<^sup>2" "0 \<le> d" "d < 10\<^sup>2"
proof -
  have m: "1 \<le> m" "m \<le> 12" and "d \<le> days_in_month (is_leap y) m" using assms by (simp_all add: valid_date_def)
  then show "d < 10\<^sup>2" using month_cases [OF m] month_table(2) [of "is_leap y"] by (auto split: if_splits)
qed (use assms in \<open>simp_all add: valid_date_def\<close>)

lemma timestamp_ms_timestamp:
  assumes "timestamp ms = Inr t"
  shows "timestamp_ms (JStr t) = Inr ms"
proof -
  obtain y m d H N S f where v: "valid_date y m d" and b: "0 \<le> H" "H \<le> 23" "0 \<le> N" "N \<le> 59" "0 \<le> S" "S \<le> 59" "0 \<le> f" "f < 1000"
    and ms: "ms = ((ymd2ord y m d - EPOCH_ORDINAL) * 86400 + H * 3600 + N * 60 + S) * 1000 + f"
    and t: "t = zero_pad 4 y @ ''-'' @ zero_pad 2 m @ ''-'' @ zero_pad 2 d @ ''T'' @ zero_pad 2 H
           @ '':'' @ zero_pad 2 N @ '':'' @ zero_pad 2 S @ (if f = 0 then [] else ''.'' @ zero_pad 3 f) @ ''Z''"
    using assms by (rule timestamp_text)
  define F where "F = (if f = 0 then [] else zero_pad 3 f)"
  have F: "int (digits_val F) = f" "F = [] \<or> length F = 3" "list_all is_ascii_digit F" "F = [] \<longleftrightarrow> f = 0"
    using zero_pad_facts [of f 3] b by (auto simp: F_def)
  note Y = zero_pad_facts [OF valid_date_bounds(1,2) [OF v], simplified]
  note M = zero_pad_facts [OF valid_date_bounds(3,4) [OF v], simplified]
  note D = zero_pad_facts [OF valid_date_bounds(5,6) [OF v], simplified]
  have H: "length (zero_pad 2 H) = 2" "list_all is_ascii_digit (zero_pad 2 H)" "int (digits_val (zero_pad 2 H)) = H"
    using zero_pad_facts [of H 2] b by simp_all
  have N: "length (zero_pad 2 N) = 2" "list_all is_ascii_digit (zero_pad 2 N)" "int (digits_val (zero_pad 2 N)) = N"
    using zero_pad_facts [of N 2] b by simp_all
  have S: "length (zero_pad 2 S) = 2" "list_all is_ascii_digit (zero_pad 2 S)" "int (digits_val (zero_pad 2 S)) = S"
    using zero_pad_facts [of S 2] b by simp_all
  have t': "t = zero_pad 4 y @ ''-'' @ zero_pad 2 m @ ''-'' @ zero_pad 2 d @ ''T'' @ zero_pad 2 H
           @ '':'' @ zero_pad 2 N @ '':'' @ zero_pad 2 S @ (if F = [] then [] else ''.'' @ F) @ ''Z''"
    unfolding t F(4) by (simp add: F_def)
  have "timestamp_ms (JStr t) = Inr (((ymd2ord y m d - EPOCH_ORDINAL) * 86400 + H * 3600 + N * 60 + S) * 1000 + f)"
    unfolding t'
    using timestamp_ms_fields [OF Y(1) M(1) D(1) H(1) N(1) S(1) F(2), unfolded Y(3) M(3) D(3) H(3) N(3) S(3) F(1) list_all_append]
      Y(2) M(2) D(2) H(2) N(2) S(2) F(3) v b by blast
  then show ?thesis using ms by simp
qed


text \<open>An instant of the years 1970 to 9999 has a text.\<close>

lemma timestamp_total:
  assumes "0 \<le> ms" "ms \<le> 253402300799999"
  shows "\<exists>t. timestamp ms = Inr t"
proof -
  define ordinal where "ordinal = EPOCH_ORDINAL + ms div 86400000"
  have "0 \<le> ms div 86400000" "ms div 86400000 \<le> 2932896" using assms by linarith+
  then have o: "1 \<le> ordinal" "ordinal \<le> MAX_ORDINAL" "719163 \<le> ordinal"
    by (simp_all add: ordinal_def EPOCH_ORDINAL_def MAX_ORDINAL_def)
  obtain y m d where ymd: "ord2ymd ordinal = (y, m, d)" by (cases "ord2ymd ordinal")
  note yd = ord2ymd_correct [OF ymd] year_bounds(1) [OF ord2ymd_correct [OF ymd] o(1,2)]
  have "1000 \<le> y"
  proof (rule ccontr)
    assume "\<not> 1000 \<le> y"
    then have "0 \<le> y - 1" "y - 1 \<le> 998" using yd(6) by simp_all
    then have "(y - 1) div 4 \<le> 249" "0 \<le> (y - 1) div 100" "(y - 1) div 400 \<le> 2" by linarith+
    moreover have "(y - 1) * 365 \<le> 364270" using \<open>y - 1 \<le> 998\<close> by simp
    ultimately have "days_before_year y \<le> 365000" unfolding days_before_year_def by linarith
    moreover have "days_before_month (is_leap y) m + d \<le> 366"
      using month_cases [OF yd(2,3)] month_table [of "is_leap y"] yd(5) by (auto split: if_splits)
    ultimately show False using yd(1) o(3) by (simp add: ymd2ord_def)
  qed
  then show ?thesis using o(1,2) ymd unfolding timestamp_def Let_def ordinal_def [symmetric]
    by (simp add: require_eq_Inr split: if_splits)
qed

text \<open>
  The text of an instant is read back exactly: for every millisecond of the years 1970 to 9999
  the report's rendering exists, and the verifier's reading of it is that millisecond.
\<close>

theorem timestamp_roundtrip:
  assumes "0 \<le> ms" and "ms \<le> 253402300799999"
  shows "\<exists>t. timestamp ms = Inr t \<and> timestamp_ms (JStr t) = Inr ms"
  using timestamp_total [OF assms] timestamp_ms_timestamp by blast

lemma timestamp_roundtrip_witness:
  "timestamp 1790208000123 = Inr ''2026-09-24T00:00:00.123Z'' \<and> (\<exists>t. timestamp 1790208000123 = Inr t \<and> timestamp_ms (JStr t) = Inr 1790208000123)"
proof (rule conjI)
  show "timestamp 1790208000123 = Inr ''2026-09-24T00:00:00.123Z''" by code_simp
  show "\<exists>t. timestamp 1790208000123 = Inr t \<and> timestamp_ms (JStr t) = Inr 1790208000123"
    by (rule timestamp_roundtrip) simp_all
qed

end
