(* ===== verification/FrozenPackage.thy ===== *)
theory FrozenPackage
  imports Evidence
begin

section \<open>Frozen packages (\<open>liqvera_readonly_analyzer/frozen_package\<close>)\<close>

text \<open>
  A package is a directory with a canonical manifest that lists every other file with its
  SHA-256 digest. \<open>FrozenPackageEvidenceReader\<close> reads nothing before the whole package has
  been verified. The directory is a value here: it is assumed not to change while it is read.
\<close>

subsection \<open>The directory\<close>

text \<open>
  What a path names: a regular file with its bytes, a directory, something else (a socket, a
  device), or a symbolic link with what it finally resolves to, \<open>None\<close> when it dangles.
\<close>

datatype entry = RegularFile string | Directory | SpecialFile | Symlink "entry option"

text \<open>
  \<open>tree\<close> lists everything below the root that \<open>rglob("*")\<close> finds, by its path relative to the
  root; symbolic links are listed and not followed.
\<close>

record package_dir =
  root_entry :: "entry option"
  tree :: "(string \<times> entry) list"

definition entry_at :: "package_dir \<Rightarrow> string \<Rightarrow> entry option" where
  "entry_at pkg path = map_of (tree pkg) path"

fun resolved :: "entry option \<Rightarrow> entry option" where
  "resolved (Some (Symlink target)) = resolved target"
| "resolved e = e"

definition path_exists :: "entry option \<Rightarrow> bool" where
  "path_exists e \<longleftrightarrow> resolved e \<noteq> None"

definition path_is_dir :: "entry option \<Rightarrow> bool" where
  "path_is_dir e \<longleftrightarrow> resolved e = Some Directory"

definition path_is_file :: "entry option \<Rightarrow> bool" where
  "path_is_file e \<longleftrightarrow> (case resolved e of Some (RegularFile _) \<Rightarrow> True | _ \<Rightarrow> False)"

definition path_is_symlink :: "entry option \<Rightarrow> bool" where
  "path_is_symlink e \<longleftrightarrow> (case e of Some (Symlink _) \<Rightarrow> True | _ \<Rightarrow> False)"

definition path_read_bytes :: "entry option \<Rightarrow> string res" where
  "path_read_bytes e = (case resolved e of Some (RegularFile b) \<Rightarrow> Inr b | _ \<Rightarrow> Inl OSError)"

subsection \<open>Members (\<open>codec.py\<close>, \<open>types.py\<close>)\<close>

definition PACKAGE_SCHEMA :: string where
  "PACKAGE_SCHEMA = ''liqvera-readonly-frozen-package/v1''"

definition hash_file :: "entry option \<Rightarrow> string res" where
  "hash_file e = rbind (path_read_bytes e) (\<lambda>b. Inr (sha256_bytes b))"

text \<open>\<open>PurePosixPath(path)\<close>: the parts, without empty ones and \<open>.\<close>, and its text.\<close>

definition posix_parts :: "string \<Rightarrow> string list" where
  "posix_parts path = filter (\<lambda>c. c \<noteq> [] \<and> c \<noteq> ''.'') (split_on CHR ''/'' path)"

definition posix_root :: "string \<Rightarrow> string" where
  "posix_root path =
     (if take 2 path = ''//'' \<and> take 3 path \<noteq> ''///'' then ''//'' else if take 1 path = ''/'' then ''/'' else [])"

definition as_posix :: "string \<Rightarrow> string" where
  "as_posix path =
     (if posix_root path = [] \<and> posix_parts path = [] then ''.''
      else posix_root path @ join ''/'' (posix_parts path))"

definition require_relative_member :: "string \<Rightarrow> unit res" where
  "require_relative_member path =
     require (\<not> (path = [] \<or> posix_root path \<noteq> [] \<or> ''..'' \<in> set (posix_parts path)
                 \<or> as_posix path \<noteq> path \<or> (path \<noteq> [] \<and> last path = CHR ''/'')))
       (FrozenPackageError PATH_INVALID) (Inr ())"

text \<open>One round of the scan; the directory is walked in the order of the parts of the paths.\<close>

definition scan_item :: "string list \<Rightarrow> string \<times> entry \<Rightarrow> string list res" where
  "scan_item found item =
     (case item of (relative, e) \<Rightarrow>
        if path_is_symlink (Some e) then Inl (FrozenPackageError SYMLINK_FORBIDDEN)
        else if path_is_dir (Some e) then Inr found
        else if \<not> path_is_file (Some e) then Inl (FrozenPackageError PATH_INVALID)
        else Inr (List.insert relative found))"

definition scan_regular_files :: "package_dir \<Rightarrow> string list res" where
  "scan_regular_files pkg = rfold scan_item [] (sort_key (\<lambda>(p, e). split_on CHR ''/'' p) (tree pkg))"

subsection \<open>Verification (\<open>reader.py\<close>)\<close>

definition REQUIRED_MEMBERS :: "string list" where
  "REQUIRED_MEMBERS = [''control_evidence/records.ndjson'', ''raw_batches/0.bin'', ''raw_envelopes/records.ndjson'',
     ''quality_minutes/records.ndjson'', ''mapping_snapshot.json'', ''terminal.json'']"

record FrozenPackageEvidenceReader =
  reader_root :: package_dir
  run_id :: uuid
  reader_document :: "(string \<times> json) list"
  declared :: "(string \<times> string) list"

definition declare_member :: "(string \<times> string) list \<Rightarrow> json \<Rightarrow> (string \<times> string) list res" where
  "declare_member decl item =
     (case item of
        JObj m \<Rightarrow>
          (case (jget m ''path'', jget m ''sha256'') of
             (JStr path, JStr digest) \<Rightarrow>
               rbind (require_relative_member path) (\<lambda>_.
               require (\<not> (path = ''manifest.json'' \<or> path \<in> fst ` set decl)) (FrozenPackageError MEMBER_SET_MISMATCH) (
               require (\<not> (length digest \<noteq> 64 \<or> list_ex (\<lambda>c. \<not> is_hex_lower c) digest))
                 (FrozenPackageError MEMBER_HASH_INVALID) (Inr (decl @ [(path, digest)]))))
           | _ \<Rightarrow> Inl (FrozenPackageError MEMBER_HASH_INVALID))
      | _ \<Rightarrow> Inl (FrozenPackageError MEMBER_SET_MISMATCH))"

definition verify_member :: "package_dir \<Rightarrow> string \<times> string \<Rightarrow> unit res" where
  "verify_member pkg m =
     (case m of (path, digest) \<Rightarrow>
        require (\<not> path_is_symlink (entry_at pkg path)) (FrozenPackageError SYMLINK_FORBIDDEN) (
        rbind (hash_file (entry_at pkg path)) (\<lambda>h.
        require (h = digest) (FrozenPackageError MEMBER_HASH_MISMATCH) (Inr ()))))"

text \<open>The members a manifest declares: the part of the constructor after the manifest's own hash.\<close>

definition verify_members :: "package_dir \<Rightarrow> (string \<times> json) list \<Rightarrow> (string \<times> string) list res" where
  "verify_members pkg document =
     (case jget document ''members'' of
        JList ms \<Rightarrow>
          require (ms \<noteq> []) (FrozenPackageError MEMBER_SET_MISMATCH) (
          rbind (rfold declare_member [] ms) (\<lambda>decl.
          require (filter (\<lambda>p. p \<notin> fst ` set decl) REQUIRED_MEMBERS = []) (FrozenPackageError MEMBER_SET_MISMATCH) (
          rbind (scan_regular_files pkg) (\<lambda>found.
          require (set found = fst ` set decl \<union> {''manifest.json''}) (FrozenPackageError MEMBER_SET_MISMATCH) (
          rbind (rmap (verify_member pkg) decl) (\<lambda>_. Inr decl))))))
      | _ \<Rightarrow> Inl (FrozenPackageError MEMBER_SET_MISMATCH))"

definition verify_manifest :: "(string \<times> json) list \<Rightarrow> unit res" where
  "verify_manifest document =
     require (jget document ''schema'' = JStr PACKAGE_SCHEMA) (FrozenPackageError UNSUPPORTED_VERSION) (
     case jget document ''manifest_sha256'' of
       JStr manifest_hash \<Rightarrow>
         require (length manifest_hash = 64) (FrozenPackageError MANIFEST_HASH_INVALID) (
         rbind (package_json_bytes (JObj (AList.delete ''manifest_sha256'' document))) (\<lambda>unsigned.
         require (sha256_bytes unsigned = manifest_hash) (FrozenPackageError MANIFEST_HASH_MISMATCH) (Inr ())))
     | _ \<Rightarrow> Inl (FrozenPackageError MANIFEST_HASH_INVALID))"

text \<open>The manifest of a directory, before anything in it is checked.\<close>

definition load_manifest :: "package_dir \<Rightarrow> (string \<times> json) list res" where
  "load_manifest pkg =
     require (path_exists (root_entry pkg) \<and> path_is_dir (root_entry pkg)) (FrozenPackageError MANIFEST_MISSING) (
     require (\<not> path_is_symlink (root_entry pkg)) (FrozenPackageError SYMLINK_FORBIDDEN) (
     let manifest_path = entry_at pkg ''manifest.json''
     in require (path_exists manifest_path \<and> path_is_file manifest_path) (FrozenPackageError MANIFEST_MISSING) (
        require (\<not> path_is_symlink manifest_path) (FrozenPackageError SYMLINK_FORBIDDEN) (
        rbind (rbind (path_read_bytes manifest_path) decode_canonical_json) (\<lambda>doc.
        case doc of JObj document \<Rightarrow> Inr document
        | _ \<Rightarrow> Inl (FrozenPackageError MANIFEST_NON_CANONICAL))))))"

definition package_run_id :: "(string \<times> json) list \<Rightarrow> uuid res" where
  "package_run_id document =
     reraise (\<lambda>e. e = KeyError \<or> is_value_error e) (FrozenPackageError RECORD_INVALID)
       (rbind (rbind (jindex document ''capture_run_id'') py_str) uuid_of_str)"

definition reader_init :: "package_dir \<Rightarrow> FrozenPackageEvidenceReader res" where
  "reader_init pkg =
     rbind (load_manifest pkg) (\<lambda>document.
     rbind (verify_manifest document) (\<lambda>_.
     rbind (verify_members pkg document) (\<lambda>decl.
     rbind (package_run_id document) (\<lambda>u.
     Inr \<lparr>reader_root = pkg, run_id = u, reader_document = document, declared = decl\<rparr>))))"

subsection \<open>Reading the records\<close>

definition optional_member_bytes :: "FrozenPackageEvidenceReader \<Rightarrow> string \<Rightarrow> string option res" where
  "optional_member_bytes r relative =
     (if relative \<notin> fst ` set (declared r) then Inr None
      else rbind (path_read_bytes (entry_at (reader_root r) relative)) (\<lambda>b. Inr (Some b)))"

definition require_run :: "FrozenPackageEvidenceReader \<Rightarrow> uuid \<Rightarrow> unit res" where
  "require_run r u = require (u = run_id r) (FrozenPackageError RUN_MISMATCH) (Inr ())"

definition venue_name :: "json \<Rightarrow> string res" where
  "venue_name j = (case j of JStr s \<Rightarrow> Inr s | _ \<Rightarrow> Inl (FrozenPackageError RECORD_INVALID))"

definition read_capture_manifest :: "FrozenPackageEvidenceReader \<Rightarrow> uuid \<Rightarrow> CaptureManifest res" where
  "read_capture_manifest r u =
     rbind (require_run r u) (\<lambda>_.
     case jget (reader_document r) ''venue_set'' of
       JList venues \<Rightarrow>
         require (venues \<noteq> []) (FrozenPackageError RECORD_INVALID) (
         rbind (rmap venue_name venues) (\<lambda>vs.
         case jget (reader_document r) ''started_at_ms'' of
           JInt started \<Rightarrow> capture_manifest \<lparr>mf_capture_run_id = run_id r, started_at_ms = started,
                             venue_set = vs, schema_version = PACKAGE_SCHEMA\<rparr>
         | _ \<Rightarrow> Inl (FrozenPackageError RECORD_INVALID)))
     | _ \<Rightarrow> Inl (FrozenPackageError RECORD_INVALID))"

text \<open>\<open>row["key"]\<close> on any decoded value, and \<open>path.read_text(encoding="utf-8")\<close>.\<close>

definition row_index :: "json \<Rightarrow> string \<Rightarrow> json res" where
  "row_index row k = (case row of JObj d \<Rightarrow> jindex d k | _ \<Rightarrow> Inl TypeError)"

definition read_text :: "FrozenPackageEvidenceReader \<Rightarrow> string \<Rightarrow> string res" where
  "read_text r relative =
     rbind (rbind (path_read_bytes (entry_at (reader_root r) relative)) utf8_decode) (\<lambda>t. Inr (universal_newlines t))"

definition row_int :: "json \<Rightarrow> string \<Rightarrow> int res" where
  "row_int row k = rbind (row_index row k) py_int"

definition row_str :: "json \<Rightarrow> string \<Rightarrow> string res" where
  "row_str row k = rbind (row_index row k) py_str"

definition capture_terminal :: "FrozenPackageEvidenceReader \<Rightarrow> uuid \<Rightarrow> CaptureTerminal res" where
  "capture_terminal r u =
     rbind (require_run r u) (\<lambda>_.
     rbind (rbind (read_text r ''terminal.json'') loads) (\<lambda>row.
     rbind (row_int row ''terminated_at_ms'') (\<lambda>at_ms.
     rbind (row_str row ''status'') (\<lambda>st.
     capture_terminal_record \<lparr>tm_capture_run_id = run_id r, terminated_at_ms = at_ms, status = st\<rparr>))))"

definition ndjson_row :: "string \<Rightarrow> json res" where
  "ndjson_row line =
     rbind (loads line) (\<lambda>row. case row of JObj d \<Rightarrow> Inr row | _ \<Rightarrow> Inl (FrozenPackageError RECORD_INVALID))"

definition read_ndjson :: "FrozenPackageEvidenceReader \<Rightarrow> string \<Rightarrow> json list res" where
  "read_ndjson r relative =
     rbind (read_text r relative) (\<lambda>txt.
     if txt = [] then Inr [] else rmap ndjson_row (splitlines txt))"

definition control_row :: "FrozenPackageEvidenceReader \<Rightarrow> json \<Rightarrow> ControlEvidenceRecord res" where
  "control_row r row =
     rbind (row_int row ''recorded_at_ms'') (\<lambda>at_ms.
     rbind (row_str row ''kind'') (\<lambda>k.
     rbind (row_str row ''payload_sha256'') (\<lambda>h.
     control_evidence_record \<lparr>ce_capture_run_id = run_id r, recorded_at_ms = at_ms, ce_kind = k, ce_payload_sha256 = h\<rparr>)))"

definition iter_control_evidence :: "FrozenPackageEvidenceReader \<Rightarrow> uuid \<Rightarrow> ControlEvidenceRecord list res" where
  "iter_control_evidence r u =
     rbind (require_run r u) (\<lambda>_.
     rbind (read_ndjson r ''control_evidence/records.ndjson'') (rmap (control_row r)))"

definition iter_raw_batches :: "FrozenPackageEvidenceReader \<Rightarrow> uuid \<Rightarrow> RawBatchRecord list res" where
  "iter_raw_batches r u =
     rbind (require_run r u) (\<lambda>_.
     rbind (path_read_bytes (entry_at (reader_root r) ''raw_batches/0.bin'')) (\<lambda>body.
     let digest = sha256_bytes body
     in rbind (raw_batch_record \<lparr>rb_capture_run_id = run_id r, batch_index = 0, stored_sha256 = digest,
                 content_sha256 = digest, rb_payload = body\<rparr>) (\<lambda>b. Inr [b])))"

definition envelope_row :: "FrozenPackageEvidenceReader \<Rightarrow> json \<Rightarrow> RawPublicEnvelope res" where
  "envelope_row r row =
     rbind (rbind (row_str row ''payload_hex'') fromhex) (\<lambda>body.
     rbind (row_int row ''envelope_index'') (\<lambda>i.
     rbind (row_int row ''observed_at_ms'') (\<lambda>at_ms.
     rbind (row_str row ''venue'') (\<lambda>vn.
     raw_public_envelope \<lparr>en_capture_run_id = run_id r, en_index = i, observed_at_ms = at_ms, en_venue = vn,
       en_payload_sha256 = sha256_bytes body, payload = body\<rparr>))))"

definition iter_raw_envelopes :: "FrozenPackageEvidenceReader \<Rightarrow> uuid \<Rightarrow> RawPublicEnvelope list res" where
  "iter_raw_envelopes r u =
     rbind (require_run r u) (\<lambda>_.
     rbind (read_ndjson r ''raw_envelopes/records.ndjson'') (rmap (envelope_row r)))"

definition quality_row :: "FrozenPackageEvidenceReader \<Rightarrow> json \<Rightarrow> QualityMinuteRecord res" where
  "quality_row r row =
     rbind (row_int row ''minute_start_ms'') (\<lambda>at_ms.
     rbind (row_str row ''venue'') (\<lambda>vn.
     rbind (row_int row ''accepted'') (\<lambda>acc.
     rbind (row_int row ''rejected'') (\<lambda>rej.
     quality_minute_record \<lparr>qm_capture_run_id = run_id r, minute_start_ms = at_ms, qm_venue = vn,
       accepted = acc, rejected = rej\<rparr>))))"

definition iter_quality_minutes :: "FrozenPackageEvidenceReader \<Rightarrow> uuid \<Rightarrow> QualityMinuteRecord list res" where
  "iter_quality_minutes r u =
     rbind (require_run r u) (\<lambda>_.
     rbind (read_ndjson r ''quality_minutes/records.ndjson'') (rmap (quality_row r)))"

subsection \<open>The mapping snapshot\<close>

definition IDENTITY_KEYS :: "string list" where
  "IDENTITY_KEYS = [''base_asset'', ''quote_asset'', ''product_kind'', ''settlement_asset'', ''payoff_kind'']"

definition MAPPING_KEYS :: "string list" where
  "MAPPING_KEYS = [''mapping_id'', ''mapping_version'', ''decision'', ''venue'', ''symbol'', ''identity'',
     ''evidence_sha256'', ''evidence_reference'', ''valid_from_ms'', ''valid_until_ms'',
     ''reviewed_contract_multiplier'', ''displayed_size_unit'', ''quantity_step'', ''price_tick'',
     ''price_decimals'', ''max_price_significant_digits'', ''min_quantity'', ''min_notional'']"

definition require_exact_keys :: "json \<Rightarrow> string list \<Rightarrow> unit res" where
  "require_exact_keys item ks =
     (case item of JObj d \<Rightarrow> require (fst ` set d = set ks) (FrozenPackageError RECORD_INVALID) (Inr ())
      | _ \<Rightarrow> Inl (FrozenPackageError RECORD_INVALID))"

definition decimal_string :: "json \<Rightarrow> pydec res" where
  "decimal_string v = (case v of JStr s \<Rightarrow> dec_of_str s | _ \<Rightarrow> Inl (FrozenPackageError RECORD_INVALID))"

definition optional_decimal_string :: "json \<Rightarrow> pydec option res" where
  "optional_decimal_string v = (if v = JNull then Inr None else rbind (decimal_string v) (\<lambda>d. Inr (Some d)))"

text \<open>A field that is passed on as it is and whose type the record's constructor checks.\<close>

definition optional_int_field :: "json \<Rightarrow> int option res" where
  "optional_int_field v = (case v of JNull \<Rightarrow> Inr None | JInt i \<Rightarrow> Inr (Some i) | _ \<Rightarrow> Inl TypeError)"

definition mapping_decision :: "string \<Rightarrow> MappingDecision res" where
  "mapping_decision s = (if s = ''APPROVED'' then Inr APPROVED else if s = ''REJECTED'' then Inr REJECTED else Inl ValueError)"

definition identity_from_document :: "json \<Rightarrow> InstrumentIdentity res" where
  "identity_from_document item =
     rbind (require_exact_keys item IDENTITY_KEYS) (\<lambda>_.
     rbind (row_str item ''base_asset'') (\<lambda>b.
     rbind (row_str item ''quote_asset'') (\<lambda>q.
     rbind (row_str item ''product_kind'') (\<lambda>k.
     rbind (row_str item ''settlement_asset'') (\<lambda>s.
     rbind (row_str item ''payoff_kind'') (\<lambda>p.
     Inr (InstrumentIdentity b q k s p)))))))"

definition mapping_market_index :: "(string \<times> json) list \<Rightarrow> int option res" where
  "mapping_market_index row =
     (case map_of row ''lighter_market_index'' of
        None \<Rightarrow> Inr None
      | Some (JInt i) \<Rightarrow>
          require (\<not> i < 0) (FrozenPackageError RECORD_INVALID) (
          rbind (row_str (JObj row) ''venue'') (\<lambda>vn.
          require (casefold vn = ''lighter'') (FrozenPackageError RECORD_INVALID) (Inr (Some i))))
      | Some _ \<Rightarrow> Inl (FrozenPackageError RECORD_INVALID))"

definition mapping_from_document :: "json \<Rightarrow> MarketMappingEvidence res" where
  "mapping_from_document item =
     (case item of
        JObj row \<Rightarrow>
          require (set MAPPING_KEYS \<subseteq> fst ` set row \<and> fst ` set row \<subseteq> insert ''lighter_market_index'' (set MAPPING_KEYS))
            (FrozenPackageError RECORD_INVALID) (
          rbind (rbind (row_index item ''identity'') identity_from_document) (\<lambda>ident.
          rbind (rbind (row_index item ''valid_until_ms'')
                   (\<lambda>u. if u = JNull then Inr None else rbind (py_int u) (\<lambda>i. Inr (Some i)))) (\<lambda>until.
          rbind (mapping_market_index row) (\<lambda>idx.
          rbind (row_str item ''mapping_id'') (\<lambda>mid.
          rbind (row_str item ''mapping_version'') (\<lambda>ver.
          rbind (rbind (row_str item ''decision'') mapping_decision) (\<lambda>dec.
          rbind (row_str item ''venue'') (\<lambda>vn.
          rbind (row_str item ''symbol'') (\<lambda>sy.
          rbind (row_str item ''evidence_sha256'') (\<lambda>sha.
          rbind (row_str item ''evidence_reference'') (\<lambda>evref.
          rbind (row_int item ''valid_from_ms'') (\<lambda>vfrom.
          rbind (rbind (row_index item ''reviewed_contract_multiplier'') decimal_string) (\<lambda>mult.
          rbind (row_str item ''displayed_size_unit'') (\<lambda>unt.
          rbind (rbind (row_index item ''quantity_step'') decimal_string) (\<lambda>qstep.
          rbind (rbind (row_index item ''price_tick'') optional_decimal_string) (\<lambda>tick.
          rbind (rbind (row_index item ''price_decimals'') optional_int_field) (\<lambda>decs.
          rbind (rbind (row_index item ''max_price_significant_digits'') optional_int_field) (\<lambda>sig.
          rbind (rbind (row_index item ''min_quantity'') optional_decimal_string) (\<lambda>minq.
          rbind (rbind (row_index item ''min_notional'') decimal_string) (\<lambda>minn.
          market_mapping_evidence \<lparr>mapping_id = mid, mapping_version = ver, decision = dec, me_venue = vn,
            me_symbol = sy, me_identity = ident, evidence_sha256 = sha, evidence_reference = evref,
            valid_from_ms = vfrom, valid_until_ms = until, reviewed_contract_multiplier = mult,
            me_displayed_size_unit = unt, me_quantity_step = qstep, me_price_tick = tick,
            me_price_decimals = decs, me_max_price_significant_digits = sig, me_min_quantity = minq,
            me_min_notional = minn, lighter_market_index = idx\<rparr>))))))))))))))))))))
      | _ \<Rightarrow> Inl (FrozenPackageError RECORD_INVALID))"

definition read_mapping_snapshot :: "FrozenPackageEvidenceReader \<Rightarrow> uuid \<Rightarrow> MappingSnapshot res" where
  "read_mapping_snapshot r u =
     rbind (require_run r u) (\<lambda>_.
     rbind (path_read_bytes (entry_at (reader_root r) ''mapping_snapshot.json'')) (\<lambda>raw.
     rbind (reraise (\<lambda>e. e = UnicodeDecodeError \<or> e = JSONDecodeError) (FrozenPackageError RECORD_INVALID)
              (rbind (utf8_decode raw) loads)) (\<lambda>doc.
     case doc of
       JObj d \<Rightarrow>
         require (fst ` set d = {''mappings''}) (FrozenPackageError RECORD_INVALID) (
         case jget d ''mappings'' of
           JList rows \<Rightarrow>
             rbind (reraise (\<lambda>e. e = TypeError \<or> is_value_error e \<or> e = KeyError \<or> e = InvalidOperation)
                      (FrozenPackageError RECORD_INVALID) (rmap mapping_from_document rows)) (\<lambda>ms.
             mapping_snapshot \<lparr>ms_capture_run_id = run_id r, mappings = ms, snapshot_sha256 = sha256_bytes raw\<rparr>)
         | _ \<Rightarrow> Inl (FrozenPackageError RECORD_INVALID))
     | _ \<Rightarrow> Inl (FrozenPackageError RECORD_INVALID))))"

subsection \<open>What verification establishes\<close>

definition plain_tree :: "package_dir \<Rightarrow> bool" where
  "plain_tree pkg \<longleftrightarrow>
     list_all (\<lambda>(p, e). case e of RegularFile _ \<Rightarrow> True | Directory \<Rightarrow> True | _ \<Rightarrow> False) (tree pkg)"

definition regular_files :: "package_dir \<Rightarrow> string set" where
  "regular_files pkg = {p. \<exists>b. (p, RegularFile b) \<in> set (tree pkg)}"

lemmas path_defs = path_is_symlink_def path_is_dir_def path_is_file_def path_exists_def path_read_bytes_def

lemma scan_item_simps [simp]:
  "scan_item found (p, RegularFile b) = Inr (List.insert p found)"
  "scan_item found (p, Directory) = Inr found"
  "scan_item found (p, SpecialFile) = Inl (FrozenPackageError PATH_INVALID)"
  "scan_item found (p, Symlink t) = Inl (FrozenPackageError SYMLINK_FORBIDDEN)"
  by (simp_all add: scan_item_def path_defs)

lemma scan_items_plain:
  assumes "list_all (\<lambda>(p, e). case e of RegularFile _ \<Rightarrow> True | Directory \<Rightarrow> True | _ \<Rightarrow> False) items"
  shows "\<exists>found. rfold scan_item acc items = Inr found
     \<and> set found = set acc \<union> {p. \<exists>b. (p, RegularFile b) \<in> set items}"
  using assms
proof (induction items arbitrary: acc)
  case (Cons item items)
  obtain p e where i: "item = (p, e)" by fastforce
  have pl: "list_all (\<lambda>(p, e). case e of RegularFile _ \<Rightarrow> True | Directory \<Rightarrow> True | _ \<Rightarrow> False) items"
    using Cons.prems by simp
  consider b where "e = RegularFile b" | "e = Directory" using Cons.prems i by (cases e) auto
  then show ?case
  proof cases
    case 1
    obtain found where "rfold scan_item (List.insert p acc) items = Inr found"
      "set found = set (List.insert p acc) \<union> {p. \<exists>b. (p, RegularFile b) \<in> set items}" using Cons.IH [OF pl] by blast
    then show ?thesis using i 1 by auto
  next
    case 2
    obtain found where "rfold scan_item acc items = Inr found"
      "set found = set acc \<union> {p. \<exists>b. (p, RegularFile b) \<in> set items}" using Cons.IH [OF pl] by blast
    then show ?thesis using i 2 by auto
  qed
qed simp

lemma scan_items_reject:
  assumes "\<not> list_all (\<lambda>(p, e). case e of RegularFile _ \<Rightarrow> True | Directory \<Rightarrow> True | _ \<Rightarrow> False) items"
  shows "rfold scan_item acc items \<in> {Inl (FrozenPackageError SYMLINK_FORBIDDEN), Inl (FrozenPackageError PATH_INVALID)}"
  using assms
proof (induction items arbitrary: acc)
  case (Cons item items)
  obtain p e where "item = (p, e)" by fastforce
  then show ?case using Cons by (cases e) auto
qed simp

lemma scan_plain:
  assumes "plain_tree pkg"
  shows "\<exists>found. scan_regular_files pkg = Inr found \<and> set found = regular_files pkg"
proof -
  let ?s = "sort_key (\<lambda>(p, e). split_on CHR ''/'' p) (tree pkg)"
  have "list_all (\<lambda>(p, e). case e of RegularFile _ \<Rightarrow> True | Directory \<Rightarrow> True | _ \<Rightarrow> False) ?s"
    using assms by (simp add: plain_tree_def list_all_iff)
  from scan_items_plain [OF this, of "[]"] show ?thesis
    by (simp add: scan_regular_files_def regular_files_def)
qed

lemma scan_reject:
  assumes "\<not> plain_tree pkg"
  shows "scan_regular_files pkg \<in> {Inl (FrozenPackageError SYMLINK_FORBIDDEN), Inl (FrozenPackageError PATH_INVALID)}"
  using assms scan_items_reject [of "sort_key (\<lambda>(p, e). split_on CHR ''/'' p) (tree pkg)" "[]"]
  unfolding scan_regular_files_def plain_tree_def by (simp add: list_all_iff)

text \<open>The list of members: paths are normalised and distinct, digests well formed.\<close>

definition declared_ok :: "(string \<times> string) list \<Rightarrow> bool" where
  "declared_ok decl \<longleftrightarrow> distinct (map fst decl) \<and> ''manifest.json'' \<notin> fst ` set decl
     \<and> list_all (\<lambda>(p, h). require_relative_member p = Inr () \<and> is_sha256 h) decl"

lemma declare_member_Inr:
  "declare_member decl item = Inr decl' \<longleftrightarrow>
     (\<exists>m p h. item = JObj m \<and> jget m ''path'' = JStr p \<and> jget m ''sha256'' = JStr h \<and> decl' = decl @ [(p, h)]
        \<and> require_relative_member p = Inr () \<and> p \<noteq> ''manifest.json'' \<and> p \<notin> fst ` set decl \<and> is_sha256 h)"
  by (auto simp: declare_member_def rbind_eq_Inr require_eq_Inr is_sha256_def list_all_iff list_ex_iff
      split: json.splits)

lemma declare_members_ok:
  "declared_ok acc \<Longrightarrow> rfold declare_member acc items = Inr decl \<Longrightarrow> declared_ok decl"
proof (induction items arbitrary: acc)
  case (Cons item items)
  obtain acc' where a: "declare_member acc item = Inr acc'" "rfold declare_member acc' items = Inr decl"
    using Cons.prems(2) by auto
  have "declared_ok acc'" using a(1) Cons.prems(1) unfolding declare_member_Inr by (auto simp: declared_ok_def)
  then show ?case using Cons.IH a(2) by blast
qed simp

lemma verify_member_Inr:
  "verify_member pkg (p, h) = Inr () \<longleftrightarrow> (\<exists>b. entry_at pkg p = Some (RegularFile b) \<and> sha256_bytes b = h)"
proof -
  have "resolved e = Some (RegularFile b) \<and> \<not> path_is_symlink e \<longleftrightarrow> e = Some (RegularFile b)" for e b
    by (cases e rule: resolved.cases) (auto simp: path_defs)
  then show ?thesis
    by (cases "resolved (entry_at pkg p)")
      (auto simp: verify_member_def require_eq_Inr rbind_eq_Inr hash_file_def path_read_bytes_def split: entry.splits)
qed

text \<open>A package whose content is what its manifest says, and nothing else.\<close>

definition members_sealed :: "package_dir \<Rightarrow> (string \<times> string) list \<Rightarrow> bool" where
  "members_sealed pkg decl \<longleftrightarrow> plain_tree pkg \<and> declared_ok decl
     \<and> regular_files pkg = insert ''manifest.json'' (fst ` set decl)
     \<and> set REQUIRED_MEMBERS \<subseteq> fst ` set decl
     \<and> (\<forall>(p, h) \<in> set decl. \<exists>b. entry_at pkg p = Some (RegularFile b) \<and> sha256_bytes b = h)"

lemma rmap_unit_Inr: "(\<exists>ys. rmap f xs = Inr ys) \<longleftrightarrow> (\<forall>x \<in> set xs. \<exists>y. f x = Inr y)"
  by (induction xs) (auto simp: rbind_eq_Inr)

lemma verify_members_Inr:
  "verify_members pkg document = Inr decl \<longleftrightarrow>
     (\<exists>ms. jget document ''members'' = JList ms \<and> ms \<noteq> [] \<and> rfold declare_member [] ms = Inr decl) \<and> members_sealed pkg decl"
proof (cases "\<exists>ms. jget document ''members'' = JList ms \<and> ms \<noteq> [] \<and> rfold declare_member [] ms = Inr decl")
  case True
  then obtain ms where ms: "jget document ''members'' = JList ms" "ms \<noteq> []" "rfold declare_member [] ms = Inr decl" by blast
  have ok: "declared_ok decl" by (rule declare_members_ok [OF _ ms(3)]) (simp add: declared_ok_def)
  have v: "(\<exists>us. rmap (verify_member pkg) decl = Inr us)
     \<longleftrightarrow> (\<forall>(p, h) \<in> set decl. \<exists>b. entry_at pkg p = Some (RegularFile b) \<and> sha256_bytes b = h)"
    unfolding rmap_unit_Inr by (simp add: verify_member_Inr [symmetric] case_prod_beta)
  have r: "filter (\<lambda>p. p \<notin> fst ` set decl) REQUIRED_MEMBERS = [] \<longleftrightarrow> set REQUIRED_MEMBERS \<subseteq> fst ` set decl"
    by (auto simp: filter_empty_conv)
  show ?thesis
  proof (cases "plain_tree pkg")
    case True
    then obtain found where "scan_regular_files pkg = Inr found" "set found = regular_files pkg" using scan_plain by blast
    then show ?thesis using ms ok v r True
      by (auto simp: verify_members_def require_eq_Inr rbind_eq_Inr members_sealed_def)
  next
    case False
    then show ?thesis using scan_reject [OF False] ms
      by (auto simp: verify_members_def require_eq_Inr rbind_eq_Inr members_sealed_def)
  qed
next
  case False
  then show ?thesis
    by (auto simp: verify_members_def require_eq_Inr rbind_eq_Inr split: json.splits)
qed

text \<open>
  The manifest itself: canonical bytes of an object of the supported schema that carries the
  digest of the rest of the object.
\<close>

definition manifest_sealed :: "package_dir \<Rightarrow> (string \<times> json) list \<Rightarrow> bool" where
  "manifest_sealed pkg document \<longleftrightarrow> root_entry pkg = Some Directory
     \<and> (\<exists>raw. entry_at pkg ''manifest.json'' = Some (RegularFile raw) \<and> decode_canonical_json raw = Inr (JObj document))
     \<and> jget document ''schema'' = JStr PACKAGE_SCHEMA
     \<and> (\<exists>b. package_json_bytes (JObj (AList.delete ''manifest_sha256'' document)) = Inr b
          \<and> jget document ''manifest_sha256'' = JStr (sha256_bytes b))"

lemma verify_manifest_Inr:
  "verify_manifest document = Inr () \<longleftrightarrow> jget document ''schema'' = JStr PACKAGE_SCHEMA
     \<and> (\<exists>b. package_json_bytes (JObj (AList.delete ''manifest_sha256'' document)) = Inr b
          \<and> jget document ''manifest_sha256'' = JStr (sha256_bytes b))"
  by (cases "jget document ''manifest_sha256''") (auto simp: verify_manifest_def require_eq_Inr rbind_eq_Inr)

lemma plain_entry:
  "resolved e = Some Directory \<and> \<not> path_is_symlink e \<longleftrightarrow> e = Some Directory"
  "(\<exists>b. resolved e = Some (RegularFile b) \<and> P b) \<and> \<not> path_is_symlink e \<longleftrightarrow> (\<exists>b. e = Some (RegularFile b) \<and> P b)"
  by (cases e rule: resolved.cases; auto simp: path_is_symlink_def)+

lemma load_manifest_Inr:
  "load_manifest pkg = Inr d \<longleftrightarrow> root_entry pkg = Some Directory
     \<and> (\<exists>raw. entry_at pkg ''manifest.json'' = Some (RegularFile raw) \<and> decode_canonical_json raw = Inr (JObj d))"
proof -
  have root: "path_exists (root_entry pkg) \<and> path_is_dir (root_entry pkg) \<and> \<not> path_is_symlink (root_entry pkg)
      \<longleftrightarrow> root_entry pkg = Some Directory"
    using plain_entry(1) [of "root_entry pkg"] by (auto simp: path_is_dir_def path_exists_def)
  have man: "path_exists e \<and> path_is_file e \<and> \<not> path_is_symlink e \<and> rbind (path_read_bytes e) decode_canonical_json = Inr (JObj d)
      \<longleftrightarrow> (\<exists>raw. e = Some (RegularFile raw) \<and> decode_canonical_json raw = Inr (JObj d))" for e
    using plain_entry(2) [of e "\<lambda>raw. decode_canonical_json raw = Inr (JObj d)"]
    by (auto simp: path_is_file_def path_exists_def path_read_bytes_def split: option.splits entry.splits)
  let ?m = "entry_at pkg ''manifest.json''"
  have "load_manifest pkg = Inr d \<longleftrightarrow> (path_exists (root_entry pkg) \<and> path_is_dir (root_entry pkg) \<and> \<not> path_is_symlink (root_entry pkg))
      \<and> (path_exists ?m \<and> path_is_file ?m \<and> \<not> path_is_symlink ?m \<and> rbind (path_read_bytes ?m) decode_canonical_json = Inr (JObj d))"
    by (cases "rbind (path_read_bytes ?m) decode_canonical_json")
      (auto simp: load_manifest_def require_eq_Inr Let_def split: json.splits)
  then show ?thesis unfolding root man .
qed

lemma reader_init_Inr:
  "reader_init pkg = Inr r \<longleftrightarrow> reader_root r = pkg \<and> manifest_sealed pkg (reader_document r)
     \<and> verify_members pkg (reader_document r) = Inr (declared r) \<and> package_run_id (reader_document r) = Inr (run_id r)"
  by (cases r) (auto simp: reader_init_def rbind_eq_Inr load_manifest_Inr verify_manifest_Inr manifest_sealed_def)

text \<open>Everything the reader has established when its constructor returns.\<close>

definition package_sealed :: "package_dir \<Rightarrow> FrozenPackageEvidenceReader \<Rightarrow> bool" where
  "package_sealed pkg r \<longleftrightarrow> reader_root r = pkg \<and> manifest_sealed pkg (reader_document r) \<and> members_sealed pkg (declared r)"

lemma reader_init_sealed: "reader_init pkg = Inr r \<Longrightarrow> package_sealed pkg r"
  by (simp add: reader_init_Inr verify_members_Inr package_sealed_def)

subsection \<open>Changes to an accepted package are noticed\<close>

definition with_file :: "package_dir \<Rightarrow> string \<Rightarrow> entry \<Rightarrow> package_dir" where
  "with_file pkg p e = pkg\<lparr>tree := AList.update p e (tree pkg)\<rparr>"

lemma entry_at_with_file [simp]: "entry_at (with_file pkg p e) q = (if q = p then Some e else entry_at pkg q)"
  by (simp add: entry_at_def with_file_def update_conv')

lemma root_with_file [simp]: "root_entry (with_file pkg p e) = root_entry pkg"
  by (simp add: with_file_def)

lemma update_cases:
  assumes "x \<in> set (AList.update p e t)"
  shows "x = (p, e) \<or> x \<in> set t"
  using assms by (induction t) (auto split: if_splits)

lemma update_keeps: "q \<noteq> p \<Longrightarrow> (q, x) \<in> set (AList.update p e t) \<longleftrightarrow> (q, x) \<in> set t"
  by (induction t) auto

lemma update_new: "(p, e) \<in> set (AList.update p e t)"
  by (induction t) auto

lemma regular_files_with_file:
  assumes "p \<in> regular_files pkg \<or> entry_at pkg p = None"
  shows "regular_files (with_file pkg p (RegularFile b)) = insert p (regular_files pkg)"
proof (rule set_eqI)
  fix q show "q \<in> regular_files (with_file pkg p (RegularFile b)) \<longleftrightarrow> q \<in> insert p (regular_files pkg)"
    by (cases "q = p") (auto simp: regular_files_def with_file_def update_keeps intro: update_new)
qed

lemma plain_tree_with_file: "plain_tree pkg \<Longrightarrow> plain_tree (with_file pkg p (RegularFile b))"
  by (force simp: plain_tree_def with_file_def list_all_iff dest!: update_cases)

text \<open>The constructor on a package that differs from an accepted one below the manifest.\<close>

lemma reader_init_changed:
  assumes "reader_init pkg = Inr r" and "root_entry pkg' = root_entry pkg"
    and "entry_at pkg' ''manifest.json'' = entry_at pkg ''manifest.json''"
    and "verify_members pkg' (reader_document r) = Inl e"
  shows "reader_init pkg' = Inl e"
proof -
  obtain raw where m: "root_entry pkg = Some Directory" "entry_at pkg ''manifest.json'' = Some (RegularFile raw)"
      "decode_canonical_json raw = Inr (JObj (reader_document r))" and v: "verify_manifest (reader_document r) = Inr ()"
    using assms(1) unfolding reader_init_Inr manifest_sealed_def verify_manifest_Inr by blast
  then have "load_manifest pkg' = Inr (reader_document r)" using assms(2,3) by (simp add: load_manifest_Inr)
  then show ?thesis using v assms(4) by (simp add: reader_init_def)
qed

lemma verify_members_unfold:
  assumes "verify_members pkg document = Inr decl"
  shows "verify_members pkg' document =
     rbind (scan_regular_files pkg') (\<lambda>found.
     require (set found = insert ''manifest.json'' (fst ` set decl)) (FrozenPackageError MEMBER_SET_MISMATCH) (
     rbind (rmap (verify_member pkg') decl) (\<lambda>_. Inr decl)))"
proof -
  obtain ms where ms: "jget document ''members'' = JList ms" "ms \<noteq> []" "rfold declare_member [] ms = Inr decl"
    and r: "set REQUIRED_MEMBERS \<subseteq> fst ` set decl"
    using assms unfolding verify_members_Inr members_sealed_def by blast
  have "filter (\<lambda>p. p \<notin> fst ` set decl) REQUIRED_MEMBERS = []" using r by (auto simp: filter_empty_conv)
  then show ?thesis using ms by (simp add: verify_members_def)
qed

lemma rmap_one_error:
  assumes "x \<in> set xs" and "f x = Inl e" and "\<And>y. y \<in> set xs \<Longrightarrow> f y = Inl e \<or> (\<exists>z. f y = Inr z)"
  shows "rmap f xs = Inl e"
  using assms
proof (induction xs)
  case (Cons y ys)
  show ?case
  proof (cases "f y")
    case (Inl e')
    then show ?thesis using Cons.prems(3) [of y] by auto
  next
    case (Inr z)
    then have "rmap f ys = Inl e" using Cons.prems by (intro Cons.IH) auto
    then show ?thesis using Inr by simp
  qed
qed simp

lemma replaced_member_rejected:
  assumes "reader_init pkg = Inr r" and "(p, h) \<in> set (declared r)" and "sha256_bytes b \<noteq> h"
  shows "reader_init (with_file pkg p (RegularFile b)) = Inl (FrozenPackageError MEMBER_HASH_MISMATCH)"
proof -
  let ?pkg = "with_file pkg p (RegularFile b)"
  have s: "members_sealed pkg (declared r)" and v: "verify_members pkg (reader_document r) = Inr (declared r)"
    using assms(1) by (simp_all add: reader_init_Inr verify_members_Inr)
  have "p \<in> fst ` set (declared r)" using assms(2) by force
  then have p: "p \<in> regular_files pkg" "p \<noteq> ''manifest.json''" "plain_tree pkg"
    using s unfolding members_sealed_def declared_ok_def by blast+
  have "regular_files ?pkg = regular_files pkg" using regular_files_with_file [of p pkg b] p(1) by (simp add: insert_absorb)
  then obtain found where "scan_regular_files ?pkg = Inr found" "set found = insert ''manifest.json'' (fst ` set (declared r))"
    using scan_plain [OF plain_tree_with_file [OF p(3)], of p b] s unfolding members_sealed_def by auto
  moreover have "rmap (verify_member ?pkg) (declared r) = Inl (FrozenPackageError MEMBER_HASH_MISMATCH)"
  proof (rule rmap_one_error [OF assms(2)])
    show e: "verify_member ?pkg (p, h) = Inl (FrozenPackageError MEMBER_HASH_MISMATCH)"
      using assms(3) by (simp add: verify_member_def hash_file_def path_defs)
    fix m assume m: "m \<in> set (declared r)"
    obtain q k where mq: "m = (q, k)" by fastforce
    show "verify_member ?pkg m = Inl (FrozenPackageError MEMBER_HASH_MISMATCH) \<or> (\<exists>z. verify_member ?pkg m = Inr z)"
    proof (cases "q = p")
      case True
      then have "k = h" using m mq assms(2) s by (auto simp: members_sealed_def declared_ok_def dest: eq_key_imp_eq_value)
      then show ?thesis using e mq True by simp
    next
      case False
      then have "verify_member ?pkg m = Inr ()" using m mq s by (auto simp: verify_member_Inr members_sealed_def)
      then show ?thesis by blast
    qed
  qed
  ultimately have "verify_members ?pkg (reader_document r) = Inl (FrozenPackageError MEMBER_HASH_MISMATCH)"
    by (simp add: verify_members_unfold [OF v])
  then show ?thesis using p(2) by (intro reader_init_changed [OF assms(1)]) auto
qed

lemma added_file_rejected:
  assumes "reader_init pkg = Inr r" and "entry_at pkg p = None"
  shows "reader_init (with_file pkg p (RegularFile b)) = Inl (FrozenPackageError MEMBER_SET_MISMATCH)"
proof -
  let ?pkg = "with_file pkg p (RegularFile b)"
  have s: "members_sealed pkg (declared r)" and v: "verify_members pkg (reader_document r) = Inr (declared r)"
    and m: "manifest_sealed pkg (reader_document r)"
    using assms(1) by (simp_all add: reader_init_Inr verify_members_Inr)
  have p: "p \<noteq> ''manifest.json''" using m assms(2) by (auto simp: manifest_sealed_def)
  have "p \<notin> regular_files pkg" using assms(2) by (force simp: regular_files_def entry_at_def map_of_eq_None_iff)
  moreover have pl: "plain_tree pkg" and "regular_files pkg = insert ''manifest.json'' (fst ` set (declared r))"
    using s by (simp_all add: members_sealed_def)
  ultimately have "regular_files ?pkg \<noteq> insert ''manifest.json'' (fst ` set (declared r))"
    using regular_files_with_file [of p pkg b] assms(2) by (metis insertI1)
  moreover obtain found where "scan_regular_files ?pkg = Inr found" "set found = regular_files ?pkg"
    using scan_plain [OF plain_tree_with_file [OF pl]] by metis
  ultimately have "verify_members ?pkg (reader_document r) = Inl (FrozenPackageError MEMBER_SET_MISMATCH)"
    by (simp add: verify_members_unfold [OF v])
  then show ?thesis using p by (intro reader_init_changed [OF assms(1)]) auto
qed

lemma link_rejected:
  assumes "reader_init pkg = Inr r" and "p \<noteq> ''manifest.json''" and "e = Symlink t \<or> e = SpecialFile"
  shows "reader_init (with_file pkg p e) \<in> {Inl (FrozenPackageError SYMLINK_FORBIDDEN), Inl (FrozenPackageError PATH_INVALID)}"
proof -
  have v: "verify_members pkg (reader_document r) = Inr (declared r)" using assms(1) by (simp add: reader_init_Inr)
  have "\<not> plain_tree (with_file pkg p e)"
    using assms(3) update_new [of p e "tree pkg"] by (force simp: plain_tree_def list_all_iff with_file_def)
  then have "verify_members (with_file pkg p e) (reader_document r)
      \<in> {Inl (FrozenPackageError SYMLINK_FORBIDDEN), Inl (FrozenPackageError PATH_INVALID)}"
    using scan_reject [of "with_file pkg p e"] by (auto simp: verify_members_unfold [OF v])
  then show ?thesis
    using reader_init_changed [OF assms(1), of "with_file pkg p e"] assms(2) by auto
qed

subsection \<open>Errors of the constructor\<close>

abbreviation package_errors :: "py_exc set" where
  "package_errors \<equiv> range FrozenPackageError \<union> {ValueError, NotModelled}"

lemma declare_member_raises: "only_raises (range FrozenPackageError) (declare_member decl item)"
  unfolding declare_member_def require_relative_member_def by (intro raises) auto

lemma verify_manifest_raises: "only_raises package_errors (verify_manifest document)"
  unfolding verify_manifest_def by (intro raises only_raises_mono [OF package_json_bytes_raises]) auto

lemma load_manifest_raises: "only_raises package_errors (load_manifest pkg)"
proof -
  let ?m = "entry_at pkg ''manifest.json''"
  have "only_raises package_errors (path_read_bytes ?m)" if "path_is_file ?m"
    using that by (auto simp: path_defs split: option.splits entry.splits)
  then show ?thesis unfolding load_manifest_def Let_def
    by (intro raises only_raises_mono [OF decode_canonical_json_raises]) auto
qed

lemma verify_members_raises:
  assumes "distinct (map fst (tree pkg))"
  shows "only_raises (range FrozenPackageError) (verify_members pkg document)"
proof -
  have v: "only_raises (range FrozenPackageError) (verify_member pkg m)"
    if "scan_regular_files pkg = Inr found" and "set found = fst ` set decl \<union> {''manifest.json''}" and "m \<in> set decl"
    for found decl m
  proof -
    obtain p h where m: "m = (p, h)" by fastforce
    have "plain_tree pkg" using scan_reject [of pkg] that(1) by force
    then have "regular_files pkg = set found" using scan_plain [of pkg] that(1) by auto
    then have "p \<in> regular_files pkg" using that(2,3) m by force
    then obtain b where "entry_at pkg p = Some (RegularFile b)"
      using assms by (auto simp: regular_files_def entry_at_def)
    then show ?thesis using m by (simp add: verify_member_def hash_file_def path_defs require_def)
  qed
  have "only_raises (range FrozenPackageError) (scan_regular_files pkg)"
    using scan_plain [of pkg] scan_reject [of pkg] by (cases "plain_tree pkg") auto
  then show ?thesis unfolding verify_members_def by (intro raises declare_member_raises v) auto
qed

lemma package_run_id_raises: "only_raises package_errors (package_run_id document)"
proof -
  have "only_raises {KeyError, ValueError, NotModelled} (rbind (rbind (jindex document ''capture_run_id'') py_str) uuid_of_str)"
    by (intro raises only_raises_mono [OF py_str_raises] only_raises_mono [OF uuid_of_str_raises])
      (auto simp: jindex_def split: option.splits)
  then show ?thesis unfolding package_run_id_def by (rule only_raises_reraise) auto
qed

lemma reader_init_raises:
  assumes "distinct (map fst (tree pkg))"
  shows "only_raises package_errors (reader_init pkg)"
  unfolding reader_init_def
  by (intro raises load_manifest_raises verify_manifest_raises package_run_id_raises
      only_raises_mono [OF verify_members_raises [OF assms]]) auto

subsection \<open>Written packages are accepted\<close>

text \<open>
  The package that holds the given files: its manifest is the canonical form of the flds
  below with the digest of the rest, as the format prescribes.
\<close>

definition member_entry :: "string \<times> string \<Rightarrow> json" where
  "member_entry f = JObj [(''path'', JStr (fst f)), (''sha256'', JStr (sha256_bytes (snd f)))]"

definition manifest_fields :: "uuid \<Rightarrow> int \<Rightarrow> string list \<Rightarrow> (string \<times> string) list \<Rightarrow> (string \<times> json) list" where
  "manifest_fields u started venues files =
     [(''schema'', JStr PACKAGE_SCHEMA), (''capture_run_id'', JStr (uuid_str u)), (''started_at_ms'', JInt started),
      (''venue_set'', JList (map JStr venues)), (''members'', JList (map member_entry files))]"

definition seal :: "(string \<times> json) list \<Rightarrow> (string \<times> json) list" where
  "seal flds = flds @ [(''manifest_sha256'', JStr (sha256_bytes (bytes_of (JObj flds))))]"

definition write_package :: "(string \<times> json) list \<Rightarrow> (string \<times> string) list \<Rightarrow> string list \<Rightarrow> package_dir" where
  "write_package flds files dirs =
     \<lparr>root_entry = Some Directory,
      tree = (''manifest.json'', RegularFile (bytes_of (JObj (seal flds))))
         # map (\<lambda>(p, b). (p, RegularFile b)) files @ map (\<lambda>d. (d, Directory)) dirs\<rparr>"

definition files_ok :: "(string \<times> string) list \<Rightarrow> bool" where
  "files_ok files \<longleftrightarrow> distinct (map fst files) \<and> ''manifest.json'' \<notin> fst ` set files
     \<and> set REQUIRED_MEMBERS \<subseteq> fst ` set files \<and> list_all (\<lambda>(p, b). require_relative_member p = Inr ()) files"

definition digests :: "(string \<times> string) list \<Rightarrow> (string \<times> string) list" where
  "digests files = map (\<lambda>(p, b). (p, sha256_bytes b)) files"

definition sealed_document :: "(string \<times> json) list \<Rightarrow> (string \<times> json) list" where
  "sealed_document flds = sort_key fst (map (\<lambda>(k, v). (k, canon v)) (seal flds))"

lemma fst_digests [simp]: "map fst (digests files) = map fst files" "fst ` set (digests files) = fst ` set files"
  by (auto simp: digests_def image_image case_prod_beta comp_def)

text \<open>What the reader looks at in the entry of a member.\<close>

definition declares :: "json \<Rightarrow> string \<times> string \<Rightarrow> bool" where
  "declares item f \<longleftrightarrow> (\<exists>m. item = JObj m \<and> distinct (map fst m) \<and> map_of m ''path'' = Some (JStr (fst f))
     \<and> map_of m ''sha256'' = Some (JStr (sha256_bytes (snd f))))"

lemma declare_member_declares:
  assumes "declares item f" and "fst f \<noteq> ''manifest.json''" "fst f \<notin> fst ` set acc" "require_relative_member (fst f) = Inr ()"
  shows "declare_member acc (canon item) = Inr (acc @ [(fst f, sha256_bytes (snd f))])"
proof -
  obtain m where m: "item = JObj m" "distinct (map fst m)" "map_of m ''path'' = Some (JStr (fst f))" "map_of m ''sha256'' = Some (JStr (sha256_bytes (snd f)))"
    using assms(1) by (auto simp: declares_def)
  let ?m = "map (\<lambda>(k, v). (k, canon v)) m"
  have "distinct (map fst ?m)" using m(2) by (simp add: case_prod_beta comp_def)
  then have "jget (sort_key fst ?m) k = jget ?m k" for k by (rule jget_sort)
  moreover have "jget ?m ''path'' = JStr (fst f)" "jget ?m ''sha256'' = JStr (sha256_bytes (snd f))"
    using m(3,4) by (simp_all add: jget_def map_of_map)
  ultimately show ?thesis using assms(2-4) by (simp add: declare_member_Inr m(1))
qed

lemma declare_written:
  assumes "list_all2 declares items files" and "distinct (map fst (acc @ digests files))" and "''manifest.json'' \<notin> fst ` set files"
    and "list_all (\<lambda>(p, b). require_relative_member p = Inr ()) files"
  shows "rfold declare_member acc (map canon items) = Inr (acc @ digests files)"
  using assms
proof (induction items files arbitrary: acc rule: list_all2_induct)
  case (Cons item items f files)
  have "declare_member acc (canon item) = Inr (acc @ [(fst f, sha256_bytes (snd f))])"
    using Cons.prems by (intro declare_member_declares [OF Cons.hyps(1)]) (auto simp: case_prod_beta)
  moreover have "rfold declare_member (acc @ [(fst f, sha256_bytes (snd f))]) (map canon items)
      = Inr ((acc @ [(fst f, sha256_bytes (snd f))]) @ digests files)"
    using Cons.prems by (intro Cons.IH) (auto simp: digests_def case_prod_beta comp_def)
  ultimately show ?case by (simp add: digests_def case_prod_beta)
qed (simp add: digests_def)

lemma json_ok_seal:
  assumes "json_ok (JObj flds)" and "''manifest_sha256'' \<notin> fst ` set flds"
  shows "json_ok (JObj (seal flds))"
  using assms by (simp add: seal_def)

lemma unsigned_document:
  assumes "json_ok (JObj flds)" and "''manifest_sha256'' \<notin> fst ` set flds"
  shows "AList.delete ''manifest_sha256'' (sealed_document flds) = sort_key fst (map (\<lambda>(k, v). (k, canon v)) flds)"
proof -
  have "filter (\<lambda>(k', _). ''manifest_sha256'' \<noteq> k') (map (\<lambda>(k, v). (k, canon v)) (seal flds)) = map (\<lambda>(k, v). (k, canon v)) flds"
    using assms(2) by (force simp: seal_def filter_id_conv)
  then show ?thesis unfolding sealed_document_def AList.delete_eq filter_sort by simp
qed

lemma sealed_document_get:
  assumes "json_ok (JObj flds)" and "''manifest_sha256'' \<notin> fst ` set flds"
  shows "jget (sealed_document flds) k = jget (map (\<lambda>(k, v). (k, canon v)) (seal flds)) k"
    and "jindex (sealed_document flds) k = jindex (map (\<lambda>(k, v). (k, canon v)) (seal flds)) k"
proof -
  have "distinct (map fst (map (\<lambda>(k, v). (k, canon v)) (seal flds)))"
    using assms by (simp add: seal_def case_prod_beta comp_def)
  then show "jget (sealed_document flds) k = jget (map (\<lambda>(k, v). (k, canon v)) (seal flds)) k"
    and "jindex (sealed_document flds) k = jindex (map (\<lambda>(k, v). (k, canon v)) (seal flds)) k"
    unfolding sealed_document_def by (simp_all only: jget_sort jindex_sort)
qed

text \<open>A directory that holds the files, the sealed manifest and directories, in any order.\<close>

definition holds_package :: "package_dir \<Rightarrow> (string \<times> json) list \<Rightarrow> (string \<times> string) list \<Rightarrow> bool" where
  "holds_package pkg flds files \<longleftrightarrow> root_entry pkg = Some Directory \<and> plain_tree pkg
     \<and> entry_at pkg ''manifest.json'' = Some (RegularFile (bytes_of (JObj (seal flds))))
     \<and> regular_files pkg = insert ''manifest.json'' (fst ` set files)
     \<and> list_all (\<lambda>(p, b). entry_at pkg p = Some (RegularFile b)) files"

definition manifest_ok :: "(string \<times> json) list \<Rightarrow> bool" where
  "manifest_ok flds \<longleftrightarrow> json_ok (JObj flds) \<and> ''manifest_sha256'' \<notin> fst ` set flds \<and> map_of flds ''schema'' = Some (JStr PACKAGE_SCHEMA)"

lemma sealed_document_field:
  assumes "manifest_ok flds" and "map_of flds k = Some v"
  shows "map_of (sealed_document flds) k = Some (canon v)"
proof -
  have "distinct (map fst (map (\<lambda>(k, v). (k, canon v)) (seal flds)))"
    using assms by (simp add: manifest_ok_def seal_def case_prod_beta comp_def)
  then have "map_of (sealed_document flds) k = map_of (map (\<lambda>(k, v). (k, canon v)) (seal flds)) k"
    unfolding sealed_document_def by (simp only: map_of_sort)
  also have "\<dots> = map_option canon (map_of (seal flds) k)" by (simp add: map_of_map)
  also have "map_of (seal flds) k = Some v" using assms(2) by (simp add: seal_def map_of_append)
  finally show ?thesis by simp
qed

lemma held_manifest:
  assumes "holds_package pkg flds files" and "manifest_ok flds"
  shows "manifest_sealed pkg (sealed_document flds)"
proof -
  have ok: "json_ok (JObj flds)" and ns: "''manifest_sha256'' \<notin> fst ` set flds" using assms(2) by (simp_all add: manifest_ok_def)
  have "decode_canonical_json (bytes_of (JObj (seal flds))) = Inr (JObj (sealed_document flds))"
    using bytes_of_decode [OF json_ok_seal [OF ok ns]] by (simp add: sealed_document_def)
  moreover have "jget (sealed_document flds) ''schema'' = JStr PACKAGE_SCHEMA"
    using sealed_document_field [OF assms(2), of "''schema''"] assms(2) by (simp add: manifest_ok_def jget_def)
  moreover have "package_json_bytes (JObj (AList.delete ''manifest_sha256'' (sealed_document flds))) = Inr (bytes_of (JObj flds))"
    using dumps_canon [OF ok, of True] package_bytes_of [OF ok] unfolding unsigned_document [OF ok ns]
    by (simp add: package_json_bytes_def)
  moreover have "map_of flds ''manifest_sha256'' = None" using ns by (simp add: map_of_eq_None_iff)
  then have "jget (sealed_document flds) ''manifest_sha256'' = JStr (sha256_bytes (bytes_of (JObj flds)))"
    unfolding sealed_document_get(1) [OF ok ns] by (simp add: jget_def seal_def map_of_map map_add_def)
  ultimately show ?thesis using assms(1) by (simp add: manifest_sealed_def holds_package_def)
qed

lemma held_members:
  assumes "holds_package pkg flds files" and "files_ok files"
  shows "members_sealed pkg (digests files)"
  using assms unfolding members_sealed_def fst_digests files_ok_def holds_package_def declared_ok_def
  by (auto simp: digests_def list_all_iff)

lemma held_package_accepted:
  assumes "holds_package pkg flds files" and "files_ok files" and "manifest_ok flds"
    and "map_of flds ''members'' = Some (JList ms)" "list_all2 declares ms files"
    and "map_of flds ''capture_run_id'' = Some (JStr (uuid_str u))" "uuid_int u < 2 ^ 128"
  shows "reader_init pkg = Inr \<lparr>reader_root = pkg, run_id = u, reader_document = sealed_document flds, declared = digests files\<rparr>"
proof -
  have d: "rfold declare_member [] (map canon ms) = Inr (digests files)"
    using declare_written [OF assms(5), of "[]"] assms(2) by (simp add: files_ok_def)
  have j: "jget (sealed_document flds) ''members'' = JList (map canon ms)"
    using sealed_document_field [OF assms(3,4)] by (simp add: jget_def)
  have "files \<noteq> []" using assms(2) by (auto simp: files_ok_def REQUIRED_MEMBERS_def)
  then have "ms \<noteq> []" using assms(5) by auto
  then have v: "verify_members pkg (sealed_document flds) = Inr (digests files)"
    unfolding verify_members_Inr using held_members [OF assms(1,2)] d j by simp
  have "jindex (sealed_document flds) ''capture_run_id'' = Inr (JStr (uuid_str u))"
    using sealed_document_field [OF assms(3,6)] by (simp add: jindex_def)
  then have "package_run_id (sealed_document flds) = Inr u"
    using uuid_roundtrip [OF assms(7)] by (simp add: package_run_id_def)
  then show ?thesis unfolding reader_init_Inr using held_manifest [OF assms(1,3)] v by simp
qed

lemma write_package_holds:
  assumes "files_ok files"
  shows "holds_package (write_package flds files dirs) flds files"
proof -
  have "entry_at (write_package flds files dirs) p = Some (RegularFile b)" if "(p, b) \<in> set files" for p b
  proof -
    have "map_of (map (\<lambda>(p, b). (p, RegularFile b)) files) p = Some (RegularFile b)"
      using that assms by (intro map_of_is_SomeI) (force simp: files_ok_def case_prod_beta comp_def image_iff)+
    moreover have "p \<noteq> ''manifest.json''" using that assms by (force simp: files_ok_def)
    ultimately show ?thesis by (simp add: entry_at_def write_package_def)
  qed
  then show ?thesis
    by (simp add: holds_package_def) (force simp: plain_tree_def regular_files_def write_package_def list_all_iff entry_at_def)
qed

lemma write_package_accepted:
  assumes "files_ok files" and "uuid_int u < 2 ^ 128" and "length (nat_str (nat \<bar>started\<bar>)) \<le> max_str_digits"
  shows "reader_init (write_package (manifest_fields u started venues files) files dirs) =
    Inr \<lparr>reader_root = write_package (manifest_fields u started venues files) files dirs, run_id = u,
         reader_document = sealed_document (manifest_fields u started venues files), declared = digests files\<rparr>"
proof (rule held_package_accepted [OF write_package_holds [OF assms(1)] assms(1) _ _ _ _ assms(2)])
  show "manifest_ok (manifest_fields u started venues files)"
    using assms(3) by (simp add: manifest_ok_def manifest_fields_def list_all_iff member_entry_def)
  show "map_of (manifest_fields u started venues files) ''members'' = Some (JList (map member_entry files))"
    "map_of (manifest_fields u started venues files) ''capture_run_id'' = Some (JStr (uuid_str u))"
    by (simp_all add: manifest_fields_def)
  show "list_all2 declares (map member_entry files) files"
    by (simp add: list_all2_conv_all_nth declares_def member_entry_def)
qed

subsection \<open>Properties\<close>

text \<open>A package with no books, for a given text of its \<open>terminal.json\<close>.\<close>

definition sample_files :: "string \<Rightarrow> (string \<times> string) list" where
  \<open>sample_files terminal = map (\<lambda>p. (p, if p = ''mapping_snapshot.json'' then ''{"mappings":[]}''
      else if p = ''terminal.json'' then terminal else [])) REQUIRED_MEMBERS\<close>

definition sample_terminal :: string where
  \<open>sample_terminal = ''{"terminated_at_ms":9,"status":"ok"}''\<close>

definition sample_package :: "string \<Rightarrow> package_dir" where
  "sample_package terminal = write_package (manifest_fields (UUID 5) 3 [''lighter''] (sample_files terminal)) (sample_files terminal)
     [''control_evidence'', ''raw_batches'', ''raw_envelopes'', ''quality_minutes'']"

definition sample_reader :: "string \<Rightarrow> FrozenPackageEvidenceReader" where
  "sample_reader terminal = \<lparr>reader_root = sample_package terminal, run_id = UUID 5,
     reader_document = sealed_document (manifest_fields (UUID 5) 3 [''lighter''] (sample_files terminal)),
     declared = digests (sample_files terminal)\<rparr>"

lemma required_relative: "p \<in> set REQUIRED_MEMBERS \<Longrightarrow> require_relative_member p = Inr ()"
proof -
  have "list_all (\<lambda>p. require_relative_member p = Inr ()) REQUIRED_MEMBERS" by code_simp
  then show "p \<in> set REQUIRED_MEMBERS \<Longrightarrow> require_relative_member p = Inr ()" by (simp add: list_all_iff)
qed

lemma sample_files_ok: "files_ok (sample_files terminal)"
proof -
  have "distinct REQUIRED_MEMBERS" and "''manifest.json'' \<notin> set REQUIRED_MEMBERS" by code_simp+
  moreover have "fst ` set (sample_files terminal) = set REQUIRED_MEMBERS" "map fst (sample_files terminal) = REQUIRED_MEMBERS"
    by (simp_all add: sample_files_def image_image comp_def)
  ultimately show ?thesis using required_relative
    by (simp add: files_ok_def) (auto simp: sample_files_def list_all_iff)
qed

lemma sample_accepted: "reader_init (sample_package terminal) = Inr (sample_reader terminal)"
  unfolding sample_package_def sample_reader_def
  by (rule write_package_accepted [OF sample_files_ok]) (simp_all add: nat_str_eval max_str_digits_def)

text \<open>
  C2. A reader exists only for a sealed package: the directory holds no symbolic links or
  special files, its regular files are exactly the manifest and the declared members, the
  required members are among them, every member has the declared SHA-256 digest, and the
  manifest is canonical, of the supported schema and carries the digest of its own content.
\<close>

theorem reader_accepts_only_sealed:
  assumes "reader_init pkg = Inr r"
  shows "package_sealed pkg r"
  using assms by (rule reader_init_sealed)

lemma reader_accepts_only_sealed_witness:
  "reader_init (sample_package sample_terminal) = Inr (sample_reader sample_terminal)
   \<and> package_sealed (sample_package sample_terminal) (sample_reader sample_terminal)"
  using sample_accepted reader_accepts_only_sealed [OF sample_accepted] by blast





end
