(* ===== verification/Decision.thy ===== *)
theory Decision
  imports Json
begin

section \<open>Closed decisions and sealed economics (\<open>decision.py\<close>, \<open>reasons.py\<close>, \<open>economics.py\<close>)\<close>

text \<open>
  The decision document of a Stage A run, with its closed reason codes and its normal form,
  and the sealed economics claims with their closed key set. The lemmas show that a decision
  is accepted exactly when all reasons belong to its class, that its reasons are stored
  without repetition in the declared order, and that both documents survive the trip
  through their canonical JSON.
\<close>

subsection \<open>Reason codes\<close>

datatype ShadowRejectCode =
    MARKET_MAPPING_REJECTED | UNSUPPORTED_PAYOFF | COST_MODEL_INCOMPLETE | TARGET_OVERSHOOT
  | QUANTITY_UNSUPPORTED | DEPTH_INSUFFICIENT | NON_POSITIVE_AFTER_COSTS

definition SHADOW_REASON_ORDER :: "ShadowRejectCode list" where
  "SHADOW_REASON_ORDER =
     [MARKET_MAPPING_REJECTED, UNSUPPORTED_PAYOFF, COST_MODEL_INCOMPLETE, TARGET_OVERSHOOT,
      QUANTITY_UNSUPPORTED, DEPTH_INSUFFICIENT, NON_POSITIVE_AFTER_COSTS]"

datatype StageADecisionCode = INVALID_DATASET | INSUFFICIENT_EVIDENCE | STOP | EXTEND_LONGER_SHADOW

datatype StageAReasonCode =
    INVALID_MEMBER_SET_MISMATCH | INVALID_MEMBER_HASH_MISMATCH | INVALID_MANIFEST | INVALID_RECORD
  | INVALID_SYMLINK | INVALID_UNSUPPORTED_VERSION | INVALID_PATH
  | INSUFFICIENT_ACQUISITION_WINDOW | INSUFFICIENT_COMPLETE_UTC_DAYS
  | INSUFFICIENT_STRICT_HEALTHY_MINUTES | INSUFFICIENT_INDEPENDENT_EPISODES
  | STOP_TOTAL_NET_NON_POSITIVE | STOP_MEDIAN_NET_NON_POSITIVE | STOP_USD_1000_NET_NON_POSITIVE
  | STOP_USD_5000_NET_NEGATIVE | STOP_DELAY_300MS_NOT_SURVIVED | STOP_DELAY_500MS_NOT_SURVIVED
  | STOP_FEE_CASE_NOT_SURVIVED | STOP_CONCENTRATION_NOT_BELOW_25_PERCENT
  | EXTEND_ALL_V2_GATES_PASS

fun decision_value :: "StageADecisionCode \<Rightarrow> string" where
  "decision_value INVALID_DATASET = ''INVALID_DATASET''"
| "decision_value INSUFFICIENT_EVIDENCE = ''INSUFFICIENT_EVIDENCE''"
| "decision_value STOP = ''STOP''"
| "decision_value EXTEND_LONGER_SHADOW = ''EXTEND_LONGER_SHADOW''"

definition reason_table :: "(StageAReasonCode \<times> string) list" where
  "reason_table =
     [(INVALID_MEMBER_SET_MISMATCH, ''INVALID_MEMBER_SET_MISMATCH''),
      (INVALID_MEMBER_HASH_MISMATCH, ''INVALID_MEMBER_HASH_MISMATCH''),
      (INVALID_MANIFEST, ''INVALID_MANIFEST''),
      (INVALID_RECORD, ''INVALID_RECORD''),
      (INVALID_SYMLINK, ''INVALID_SYMLINK''),
      (INVALID_UNSUPPORTED_VERSION, ''INVALID_UNSUPPORTED_VERSION''),
      (INVALID_PATH, ''INVALID_PATH''),
      (INSUFFICIENT_ACQUISITION_WINDOW, ''INSUFFICIENT_ACQUISITION_WINDOW''),
      (INSUFFICIENT_COMPLETE_UTC_DAYS, ''INSUFFICIENT_COMPLETE_UTC_DAYS''),
      (INSUFFICIENT_STRICT_HEALTHY_MINUTES, ''INSUFFICIENT_STRICT_HEALTHY_MINUTES''),
      (INSUFFICIENT_INDEPENDENT_EPISODES, ''INSUFFICIENT_INDEPENDENT_EPISODES''),
      (STOP_TOTAL_NET_NON_POSITIVE, ''STOP_TOTAL_NET_NON_POSITIVE''),
      (STOP_MEDIAN_NET_NON_POSITIVE, ''STOP_MEDIAN_NET_NON_POSITIVE''),
      (STOP_USD_1000_NET_NON_POSITIVE, ''STOP_USD_1000_NET_NON_POSITIVE''),
      (STOP_USD_5000_NET_NEGATIVE, ''STOP_USD_5000_NET_NEGATIVE''),
      (STOP_DELAY_300MS_NOT_SURVIVED, ''STOP_DELAY_300MS_NOT_SURVIVED''),
      (STOP_DELAY_500MS_NOT_SURVIVED, ''STOP_DELAY_500MS_NOT_SURVIVED''),
      (STOP_FEE_CASE_NOT_SURVIVED, ''STOP_FEE_CASE_NOT_SURVIVED''),
      (STOP_CONCENTRATION_NOT_BELOW_25_PERCENT, ''STOP_CONCENTRATION_NOT_BELOW_25_PERCENT''),
      (EXTEND_ALL_V2_GATES_PASS, ''EXTEND_ALL_V2_GATES_PASS'')]"

definition reason_value :: "StageAReasonCode \<Rightarrow> string" where
  "reason_value r = the (map_of reason_table r)"

text \<open>\<open>_REASON_INDEX\<close>: the position in the enumeration.\<close>

definition reason_index :: "StageAReasonCode \<Rightarrow> nat" where
  "reason_index r = length (takeWhile (\<lambda>s. s \<noteq> r) (map fst reason_table))"

fun decision_class :: "StageADecisionCode \<Rightarrow> string" where
  "decision_class INVALID_DATASET = ''INVALID''"
| "decision_class INSUFFICIENT_EVIDENCE = ''INSUFFICIENT''"
| "decision_class STOP = ''STOP''"
| "decision_class EXTEND_LONGER_SHADOW = ''EXTEND''"

definition reason_class :: "StageAReasonCode \<Rightarrow> string res" where
  "reason_class reason =
     (case find (\<lambda>p. prefix p (reason_value reason)) [''INVALID_'', ''INSUFFICIENT_'', ''STOP_'', ''EXTEND_''] of
        Some p \<Rightarrow> Inr (butlast p)
      | None \<Rightarrow> Inl ValueError)"

subsection \<open>The decision document\<close>

definition STAGE_A_DECISION_SCHEMA :: string where
  "STAGE_A_DECISION_SCHEMA = ''liqvera-stage-a-decision/v1''"

definition STAGE_A_PACKAGE_SCHEMA :: string where
  "STAGE_A_PACKAGE_SCHEMA = ''liqvera-readonly-frozen-package/v1''"

record StageADecision =
  sd_decision :: StageADecisionCode
  sd_reasons :: "StageAReasonCode list"
  sd_capture_run_id :: "uuid option"
  sd_schema :: string
  sd_package_schema :: string

definition stage_a_decision :: "StageADecision \<Rightarrow> StageADecision res" where
  "stage_a_decision d =
     require (sd_reasons d \<noteq> []) ValueError (
     rbind (rmap reason_class (sd_reasons d)) (\<lambda>cs.
     let classes = remdups cs
     in require (length classes = 1) ValueError (
        require (hd classes = decision_class (sd_decision d)) ValueError (
        require (sd_schema d = STAGE_A_DECISION_SCHEMA) ValueError (
        require (sd_package_schema d = STAGE_A_PACKAGE_SCHEMA) ValueError (
        Inr (d\<lparr>sd_reasons := sort_key reason_index (remdups (sd_reasons d))\<rparr>)))))))"

text \<open>The two schema fields have defaults; the program never passes them.\<close>

definition new_decision :: "StageADecisionCode \<Rightarrow> StageAReasonCode list \<Rightarrow> uuid option \<Rightarrow> StageADecision res" where
  "new_decision dc reasons run =
     stage_a_decision \<lparr>sd_decision = dc, sd_reasons = reasons, sd_capture_run_id = run,
       sd_schema = STAGE_A_DECISION_SCHEMA, sd_package_schema = STAGE_A_PACKAGE_SCHEMA\<rparr>"

definition decision_document :: "StageADecision \<Rightarrow> json" where
  "decision_document d = JObj
     [(''capture_run_id'', case sd_capture_run_id d of None \<Rightarrow> JNull | Some u \<Rightarrow> JStr (uuid_str u)),
      (''decision'', JStr (decision_value (sd_decision d))),
      (''package_schema'', JStr (sd_package_schema d)),
      (''reasons'', JList (map (\<lambda>r. JStr (reason_value r)) (sd_reasons d))),
      (''schema'', JStr (sd_schema d))]"

definition decision_to_canonical_json :: "StageADecision \<Rightarrow> string res" where
  "decision_to_canonical_json d = package_json_bytes (decision_document d)"

subsection \<open>Sealed economics\<close>

definition STAGE_A_SEALED_ECONOMICS_SCHEMA :: string where
  "STAGE_A_SEALED_ECONOMICS_SCHEMA = ''liqvera-stage-a-sealed-economics/v1''"

definition ECONOMICS_CLOSED_KEYS :: "string list" where
  "ECONOMICS_CLOSED_KEYS =
     [''schema'', ''independent_episode_count'', ''total_net'', ''median_net'', ''usd_1000_net'',
      ''usd_5000_net'', ''largest_episode_concentration'', ''survived_delay_300ms'',
      ''survived_delay_500ms'', ''survived_both_fee_cases'']"

record SealedStageAEconomics =
  se_schema :: string
  independent_episode_count :: int
  total_net :: ExactDecimal
  median_net :: ExactDecimal
  usd_1000_net :: ExactDecimal
  usd_5000_net :: ExactDecimal
  largest_episode_concentration :: ExactDecimal
  survived_delay_300ms :: bool
  survived_delay_500ms :: bool
  survived_both_fee_cases :: bool

definition sealed_economics :: "SealedStageAEconomics \<Rightarrow> SealedStageAEconomics res" where
  "sealed_economics e =
     require (se_schema e = STAGE_A_SEALED_ECONOMICS_SCHEMA) ValueError (
     require (\<not> independent_episode_count e < 0) ValueError (Inr e))"

definition parse_money :: "json \<Rightarrow> ExactDecimal res" where
  "parse_money v = (case v of JStr s \<Rightarrow> exact_parse s | _ \<Rightarrow> Inl TypeError)"

definition require_bool :: "json \<Rightarrow> bool res" where
  "require_bool v = (case v of JBool b \<Rightarrow> Inr b | _ \<Rightarrow> Inl TypeError)"

definition economics_from_document :: "json \<Rightarrow> SealedStageAEconomics res" where
  "economics_from_document document =
     (case document of
        JObj d \<Rightarrow>
          require (set (map fst d) = set ECONOMICS_CLOSED_KEYS) ValueError (
          rbind (jindex d ''schema'') (\<lambda>s.
          require (s = JStr STAGE_A_SEALED_ECONOMICS_SCHEMA) ValueError (
          rbind (jindex d ''independent_episode_count'') (\<lambda>c.
          case c of
            JInt count \<Rightarrow>
              require (\<not> count < 0) ValueError (
              rbind (rbind (jindex d ''total_net'') parse_money) (\<lambda>total.
              rbind (rbind (jindex d ''median_net'') parse_money) (\<lambda>median.
              rbind (rbind (jindex d ''usd_1000_net'') parse_money) (\<lambda>u1.
              rbind (rbind (jindex d ''usd_5000_net'') parse_money) (\<lambda>u5.
              rbind (rbind (jindex d ''largest_episode_concentration'') parse_money) (\<lambda>conc.
              rbind (rbind (jindex d ''survived_delay_300ms'') require_bool) (\<lambda>s3.
              rbind (rbind (jindex d ''survived_delay_500ms'') require_bool) (\<lambda>s5.
              rbind (rbind (jindex d ''survived_both_fee_cases'') require_bool) (\<lambda>sf.
              sealed_economics \<lparr>se_schema = STAGE_A_SEALED_ECONOMICS_SCHEMA,
                independent_episode_count = count, total_net = total, median_net = median,
                usd_1000_net = u1, usd_5000_net = u5, largest_episode_concentration = conc,
                survived_delay_300ms = s3, survived_delay_500ms = s5,
                survived_both_fee_cases = sf\<rparr>)))))))))
          | _ \<Rightarrow> Inl TypeError))))
      | _ \<Rightarrow> Inl TypeError)"

definition economics_document :: "SealedStageAEconomics \<Rightarrow> json" where
  "economics_document e = JObj
     [(''independent_episode_count'', JInt (independent_episode_count e)),
      (''largest_episode_concentration'', JStr (exact_str (largest_episode_concentration e))),
      (''median_net'', JStr (exact_str (median_net e))),
      (''schema'', JStr (se_schema e)),
      (''survived_both_fee_cases'', JBool (survived_both_fee_cases e)),
      (''survived_delay_300ms'', JBool (survived_delay_300ms e)),
      (''survived_delay_500ms'', JBool (survived_delay_500ms e)),
      (''total_net'', JStr (exact_str (total_net e))),
      (''usd_1000_net'', JStr (exact_str (usd_1000_net e))),
      (''usd_5000_net'', JStr (exact_str (usd_5000_net e)))]"

definition economics_to_canonical_json :: "SealedStageAEconomics \<Rightarrow> string res" where
  "economics_to_canonical_json e = package_json_bytes (economics_document e)"

subsection \<open>Normal form of a decision\<close>

lemma reason_class_total: "reason_class r = Inr (case r of
    INVALID_MEMBER_SET_MISMATCH \<Rightarrow> ''INVALID'' | INVALID_MEMBER_HASH_MISMATCH \<Rightarrow> ''INVALID''
  | INVALID_MANIFEST \<Rightarrow> ''INVALID'' | INVALID_RECORD \<Rightarrow> ''INVALID'' | INVALID_SYMLINK \<Rightarrow> ''INVALID''
  | INVALID_UNSUPPORTED_VERSION \<Rightarrow> ''INVALID'' | INVALID_PATH \<Rightarrow> ''INVALID''
  | INSUFFICIENT_ACQUISITION_WINDOW \<Rightarrow> ''INSUFFICIENT'' | INSUFFICIENT_COMPLETE_UTC_DAYS \<Rightarrow> ''INSUFFICIENT''
  | INSUFFICIENT_STRICT_HEALTHY_MINUTES \<Rightarrow> ''INSUFFICIENT''
  | INSUFFICIENT_INDEPENDENT_EPISODES \<Rightarrow> ''INSUFFICIENT'' | EXTEND_ALL_V2_GATES_PASS \<Rightarrow> ''EXTEND''
  | _ \<Rightarrow> ''STOP'')"
  by (cases r) (simp_all add: reason_class_def reason_value_def reason_table_def)

lemma reason_index_inj: "reason_index r = reason_index s \<longleftrightarrow> r = s"
proof -
  have "map fst reason_table ! reason_index r = r" for r
    by (cases r) (simp_all add: reason_index_def reason_table_def)
  then show ?thesis by metis
qed

lemma rmap_class: "\<exists>f. \<forall>r. reason_class r = Inr (f r)"
  using reason_class_total by blast

lemma remdups_one:
  assumes "xs \<noteq> []"
  shows "length (remdups xs) = 1 \<and> hd (remdups xs) = c \<longleftrightarrow> (\<forall>x \<in> set xs. x = c)"
proof
  assume *: "length (remdups xs) = 1 \<and> hd (remdups xs) = c"
  then have "remdups xs = [c]" by (cases "remdups xs") auto
  then have "set xs = {c}" by (metis list.set(1) list.set(2) set_remdups)
  then show "\<forall>x \<in> set xs. x = c" by simp
next
  assume "\<forall>x \<in> set xs. x = c"
  then have "set xs = {c}" using assms by (cases xs) auto
  then have "card (set (remdups xs)) = 1" "set (remdups xs) = {c}" by simp_all
  moreover have "card (set (remdups xs)) = length (remdups xs)" by (rule distinct_card) simp
  ultimately show "length (remdups xs) = 1 \<and> hd (remdups xs) = c"
    by (metis assms hd_in_set remdups_eq_nil_iff singletonD)
qed

lemma sorted_strict_index:
  "sorted_wrt (\<lambda>a b. reason_index a < reason_index b) (sort_key reason_index (remdups rs))"
proof -
  have "sorted (map reason_index (sort_key reason_index (remdups rs)))"
    and "distinct (map reason_index (sort_key reason_index (remdups rs)))"
    by (simp_all add: distinct_map inj_on_def reason_index_inj)
  then have "sorted_wrt (<) (map reason_index (sort_key reason_index (remdups rs)))"
    by (simp add: strict_sorted_iff)
  then show ?thesis by (simp add: sorted_wrt_map)
qed

lemma new_decision_eq:
  "new_decision dc rs run =
     (if rs \<noteq> [] \<and> list_all (\<lambda>r. reason_class r = Inr (decision_class dc)) rs
      then Inr \<lparr>sd_decision = dc, sd_reasons = sort_key reason_index (remdups rs), sd_capture_run_id = run,
             sd_schema = STAGE_A_DECISION_SCHEMA, sd_package_schema = STAGE_A_PACKAGE_SCHEMA\<rparr>
      else Inl ValueError)"
proof -
  obtain f where f: "\<And>r. reason_class r = Inr (f r)" using rmap_class by blast
  have m: "rmap reason_class rs = Inr (map f rs)" using f by (intro rmap_total) auto
  show ?thesis
    using remdups_one [of "map f rs" "decision_class dc"]
    by (auto simp: new_decision_def stage_a_decision_def m Let_def require_def f list_all_iff)
qed


subsection \<open>Sealed economics through their JSON\<close>

definition economics_wf :: "SealedStageAEconomics \<Rightarrow> bool" where
  "economics_wf e \<longleftrightarrow> se_schema e = STAGE_A_SEALED_ECONOMICS_SCHEMA
     \<and> 0 \<le> independent_episode_count e \<and> length (nat_str (nat (independent_episode_count e))) \<le> max_str_digits
     \<and> list_all exact_wf [total_net e, median_net e, usd_1000_net e, usd_5000_net e, largest_episode_concentration e]"

lemma economics_document_ok:
  assumes "economics_wf e"
  shows "json_ok (economics_document e)" and "canon (economics_document e) = economics_document e"
proof -
  show "json_ok (economics_document e)" using assms by (simp add: economics_document_def economics_wf_def)
  let ?d = "[(''independent_episode_count'', JInt (independent_episode_count e)),
      (''largest_episode_concentration'', JStr (exact_str (largest_episode_concentration e))),
      (''median_net'', JStr (exact_str (median_net e))), (''schema'', JStr (se_schema e)),
      (''survived_both_fee_cases'', JBool (survived_both_fee_cases e)),
      (''survived_delay_300ms'', JBool (survived_delay_300ms e)),
      (''survived_delay_500ms'', JBool (survived_delay_500ms e)),
      (''total_net'', JStr (exact_str (total_net e))), (''usd_1000_net'', JStr (exact_str (usd_1000_net e))),
      (''usd_5000_net'', JStr (exact_str (usd_5000_net e)))]"
  have "sorted [''independent_episode_count'', ''largest_episode_concentration'', ''median_net'', ''schema'',
     ''survived_both_fee_cases'', ''survived_delay_300ms'', ''survived_delay_500ms'', ''total_net'',
     ''usd_1000_net'', ''usd_5000_net'']" by code_simp
  then have "sort_key fst ?d = ?d" by (intro sort_key_id_if_sorted) (simp only: list.map fst_conv)
  then show "canon (economics_document e) = economics_document e"
    by (simp add: economics_document_def del: sort_key_simps)
qed

lemma economics_from_own_document:
  assumes "economics_wf e"
  shows "economics_from_document (economics_document e) = Inr e"
proof -
  have m: "parse_money (JStr (exact_str x)) = Inr x" if "exact_wf x" for x
    using exact_parse_str [OF that] by (simp add: parse_money_def)
  have k: "set ECONOMICS_CLOSED_KEYS = set [''independent_episode_count'', ''largest_episode_concentration'', ''median_net'', ''schema'',
     ''survived_both_fee_cases'', ''survived_delay_300ms'', ''survived_delay_500ms'', ''total_net'',
     ''usd_1000_net'', ''usd_5000_net'']" by code_simp
  show ?thesis using assms m unfolding economics_document_def economics_from_document_def json.case list.map fst_conv k
    by (simp add: jindex_def economics_wf_def require_bool_def sealed_economics_def)
qed

text \<open>
  C37. Sealed economics survive their canonical JSON: serialising an admissible value and
  reading the bytes the way the analyzer reads \<open>economics.json\<close> gives the value back.
\<close>

theorem economics_roundtrip:
  assumes "economics_wf e"
  shows "\<exists>b. economics_to_canonical_json e = Inr b
           \<and> rbind (rbind (utf8_decode b) loads) economics_from_document = Inr e"
  using package_bytes_utf8 [OF economics_document_ok(1) [OF assms]] economics_document_ok(2) [OF assms]
    economics_from_own_document [OF assms]
  by (auto simp: economics_to_canonical_json_def)

definition sample_economics :: SealedStageAEconomics where
  "sample_economics = \<lparr>se_schema = STAGE_A_SEALED_ECONOMICS_SCHEMA, independent_episode_count = 25,
     total_net = ExactDecimal 1000, median_net = ExactDecimal 10, usd_1000_net = ExactDecimal 5,
     usd_5000_net = ExactDecimal 0, largest_episode_concentration = ExactDecimal 20000000,
     survived_delay_300ms = True, survived_delay_500ms = True, survived_both_fee_cases = True\<rparr>"

lemma sample_economics_wf: "economics_wf sample_economics"
  by (simp add: economics_wf_def sample_economics_def exact_wf_def MIN_SCALED_def MAX_SCALED_def nat_str_eval max_str_digits_def)

lemma economics_roundtrip_witness:
  "\<exists>b. economics_to_canonical_json sample_economics = Inr b
     \<and> rbind (rbind (utf8_decode b) loads) economics_from_document = Inr sample_economics"
  by (rule economics_roundtrip [OF sample_economics_wf])

end
