(* ===== verification/Verdict.thy ===== *)
theory Verdict
  imports FrozenPackage Vwap Decision
begin

section \<open>The Stage A verdict (\<open>liqvera_readonly_analyzer/verdict.py\<close>)\<close>

text \<open>
  \<open>evaluate_frozen_package\<close> classifies a sealed package: it verifies the package, reads all its
  records, reconstructs and binds every book, and then applies the gates on the capture and,
  when all of them hold, the gates on the sealed economics.
\<close>

definition MS_PER_MINUTE :: int where "MS_PER_MINUTE = 60000"

definition MS_PER_DAY :: int where "MS_PER_DAY = 86400000"

definition MINUTES_PER_DAY :: int where "MINUTES_PER_DAY = 1440"

definition REQUIRED_COMPLETE_UTC_DAYS :: int where "REQUIRED_COMPLETE_UTC_DAYS = 5"

definition REQUIRED_HEALTHY_RATIO :: int where "REQUIRED_HEALTHY_RATIO = 95"

definition REQUIRED_INDEPENDENT_EPISODES :: int where "REQUIRED_INDEPENDENT_EPISODES = 20"

definition REQUIRED_WINDOW_MS :: int where "REQUIRED_WINDOW_MS = 7 * MS_PER_DAY"

definition REQUIRED_WINDOW_MINUTES :: int where "REQUIRED_WINDOW_MINUTES = 7 * MINUTES_PER_DAY"

definition CONCENTRATION_LIMIT :: ExactDecimal where "CONCENTRATION_LIMIT = ExactDecimal 25000000"

fun map_error :: "FrozenPackageErrorCode \<Rightarrow> StageAReasonCode" where
  "map_error INVALID_ARGUMENT = INVALID_PATH"
| "map_error MANIFEST_MISSING = INVALID_MANIFEST"
| "map_error MANIFEST_NON_CANONICAL = INVALID_MANIFEST"
| "map_error MANIFEST_HASH_INVALID = INVALID_MANIFEST"
| "map_error MANIFEST_HASH_MISMATCH = INVALID_MANIFEST"
| "map_error UNSUPPORTED_VERSION = INVALID_UNSUPPORTED_VERSION"
| "map_error MEMBER_SET_MISMATCH = INVALID_MEMBER_SET_MISMATCH"
| "map_error MEMBER_HASH_MISMATCH = INVALID_MEMBER_HASH_MISMATCH"
| "map_error MEMBER_HASH_INVALID = INVALID_MEMBER_HASH_MISMATCH"
| "map_error SYMLINK_FORBIDDEN = INVALID_SYMLINK"
| "map_error PATH_INVALID = StageAReasonCode.INVALID_PATH"
| "map_error RECORD_INVALID = INVALID_RECORD"
| "map_error RUN_MISMATCH = INVALID_RECORD"

definition invalid_dataset :: "FrozenPackageErrorCode \<Rightarrow> uuid option \<Rightarrow> StageADecision res" where
  "invalid_dataset c u = new_decision INVALID_DATASET [map_error c] u"

text \<open>\<open>covered\<close> as a dictionary from days to the minutes seen, in the order of first sight.\<close>

definition cover :: "(int \<times> int list) list \<Rightarrow> QualityMinuteRecord \<Rightarrow> (int \<times> int list) list" where
  "cover covered record =
     (let day = minute_start_ms record div MS_PER_DAY;
          minute_of_day = (minute_start_ms record div MS_PER_MINUTE) mod MINUTES_PER_DAY
      in AList.update day (List.insert minute_of_day (case map_of covered day of None \<Rightarrow> [] | Some s \<Rightarrow> s)) covered)"

definition complete_utc_days :: "QualityMinuteRecord list \<Rightarrow> int" where
  "complete_utc_days minutes =
     int (length (filter (\<lambda>(d, s). int (length s) \<ge> MINUTES_PER_DAY) (foldl cover [] minutes)))"

fun healthy_count :: "(int \<times> string) list \<Rightarrow> QualityMinuteRecord list \<Rightarrow> int" where
  "healthy_count seen [] = 0"
| "healthy_count seen (record # minutes) =
     (let key = (minute_start_ms record, qm_venue record)
      in if key \<in> set seen then healthy_count seen minutes
         else (if accepted record > 0 \<and> rejected record = 0 then 1 else 0) + healthy_count (key # seen) minutes)"

definition strict_healthy_minutes :: "QualityMinuteRecord list \<Rightarrow> int" where
  "strict_healthy_minutes minutes = healthy_count [] minutes"

definition insufficiency_reasons ::
  "CaptureManifest \<Rightarrow> CaptureTerminal \<Rightarrow> QualityMinuteRecord list \<Rightarrow> int \<Rightarrow> StageAReasonCode list" where
  "insufficiency_reasons manifest terminal minutes episodes =
     (if terminated_at_ms terminal - started_at_ms manifest < REQUIRED_WINDOW_MS
      then [INSUFFICIENT_ACQUISITION_WINDOW] else [])
     @ (if complete_utc_days minutes < REQUIRED_COMPLETE_UTC_DAYS then [INSUFFICIENT_COMPLETE_UTC_DAYS] else [])
     @ (if strict_healthy_minutes minutes * 100 < REQUIRED_HEALTHY_RATIO * REQUIRED_WINDOW_MINUTES
        then [INSUFFICIENT_STRICT_HEALTHY_MINUTES] else [])
     @ (if episodes < REQUIRED_INDEPENDENT_EPISODES then [INSUFFICIENT_INDEPENDENT_EPISODES] else [])"

definition stop_reasons :: "SealedStageAEconomics \<Rightarrow> StageAReasonCode list" where
  "stop_reasons ec =
     (if exact_le (total_net ec) (ExactDecimal 0) then [STOP_TOTAL_NET_NON_POSITIVE] else [])
     @ (if exact_le (median_net ec) (ExactDecimal 0) then [STOP_MEDIAN_NET_NON_POSITIVE] else [])
     @ (if exact_le (usd_1000_net ec) (ExactDecimal 0) then [STOP_USD_1000_NET_NON_POSITIVE] else [])
     @ (if exact_lt (usd_5000_net ec) (ExactDecimal 0) then [STOP_USD_5000_NET_NEGATIVE] else [])
     @ (if \<not> survived_delay_300ms ec then [STOP_DELAY_300MS_NOT_SURVIVED] else [])
     @ (if \<not> survived_delay_500ms ec then [STOP_DELAY_500MS_NOT_SURVIVED] else [])
     @ (if \<not> survived_both_fee_cases ec then [STOP_FEE_CASE_NOT_SURVIVED] else [])
     @ (if \<not> exact_lt (largest_episode_concentration ec) CONCENTRATION_LIMIT
        then [STOP_CONCENTRATION_NOT_BELOW_25_PERCENT] else [])"

definition decode_economics :: "string \<Rightarrow> SealedStageAEconomics res" where
  "decode_economics raw = rbind (rbind (utf8_decode raw) loads) economics_from_document"

definition read_economics :: "FrozenPackageEvidenceReader \<Rightarrow> SealedStageAEconomics option res" where
  "read_economics r =
     rbind (optional_member_bytes r ''economics.json'') (\<lambda>raw.
     case raw of
       None \<Rightarrow> Inr None
     | Some b \<Rightarrow>
         reraise (\<lambda>e. is_value_error e \<or> e = TypeError) (FrozenPackageError RECORD_INVALID)
           (rbind (decode_economics b) (\<lambda>ec. Inr (Some ec))))"

record sealed_records =
  sr_manifest :: CaptureManifest
  sr_terminal :: CaptureTerminal
  sr_envelopes :: "RawPublicEnvelope list"
  sr_minutes :: "QualityMinuteRecord list"
  sr_mappings :: "MarketMappingEvidence list"

definition read_records :: "FrozenPackageEvidenceReader \<Rightarrow> sealed_records res" where
  "read_records r =
     rbind (read_capture_manifest r (run_id r)) (\<lambda>manifest.
     rbind (capture_terminal r (run_id r)) (\<lambda>terminal.
     rbind (iter_control_evidence r (run_id r)) (\<lambda>_.
     rbind (iter_raw_batches r (run_id r)) (\<lambda>_.
     rbind (iter_raw_envelopes r (run_id r)) (\<lambda>envelopes.
     rbind (iter_quality_minutes r (run_id r)) (\<lambda>minutes.
     rbind (read_mapping_snapshot r (run_id r)) (\<lambda>snap.
     Inr \<lparr>sr_manifest = manifest, sr_terminal = terminal, sr_envelopes = envelopes, sr_minutes = minutes,
          sr_mappings = mappings snap\<rparr>)))))))"

definition bound_books :: "sealed_records \<Rightarrow> ReconstructedBook list res" where
  "bound_books rs =
     reraise (\<lambda>e. e = ReconstructionError \<or> e = IdentityBindError \<or> e = UnicodeDecodeError \<or> e = JSONDecodeError \<or> is_exact_error e)
       (FrozenPackageError RECORD_INVALID)
       (rbind (reconstruct_books (sr_envelopes rs) (sr_mappings rs)) (\<lambda>bs. bind_reconstructed_books bs (sr_mappings rs)))"

text \<open>The decision once the package has been read.\<close>

definition decide :: "uuid \<Rightarrow> sealed_records \<Rightarrow> SealedStageAEconomics option \<Rightarrow> StageADecision res" where
  "decide u rs economics =
     (let episodes = (case economics of None \<Rightarrow> 0 | Some ec \<Rightarrow> independent_episode_count ec);
          insufficient = insufficiency_reasons (sr_manifest rs) (sr_terminal rs) (sr_minutes rs) episodes
      in if insufficient \<noteq> [] then new_decision INSUFFICIENT_EVIDENCE insufficient (Some u)
         else (case economics of
             None \<Rightarrow> Inl RuntimeError
           | Some ec \<Rightarrow>
               if stop_reasons ec \<noteq> [] then new_decision STOP (stop_reasons ec) (Some u)
               else new_decision EXTEND_LONGER_SHADOW [EXTEND_ALL_V2_GATES_PASS] (Some u)))"

text \<open>
  \<open>try: m; except FrozenPackageError as error: return _invalid(error.code, run_id)\<close>. The
  handlers around reconstruction, binding and the economics return \<open>_invalid\<close> with the code
  \<open>RECORD_INVALID\<close>; \<open>bound_books\<close> and \<open>read_economics\<close> hand it over as that error.
\<close>

definition or_invalid :: "uuid option \<Rightarrow> 'a res \<Rightarrow> ('a \<Rightarrow> StageADecision res) \<Rightarrow> StageADecision res" where
  "or_invalid u m f =
     (case m of Inr x \<Rightarrow> f x
      | Inl e \<Rightarrow> (case e of FrozenPackageError c \<Rightarrow> invalid_dataset c u | _ \<Rightarrow> Inl e))"

definition evaluate_frozen_package :: "package_dir \<Rightarrow> StageADecision res" where
  "evaluate_frozen_package pkg =
     or_invalid None (reader_init pkg) (\<lambda>r.
     or_invalid (Some (run_id r)) (read_records r) (\<lambda>rs.
     or_invalid (Some (run_id r)) (bound_books rs) (\<lambda>_.
     or_invalid (Some (run_id r)) (read_economics r) (\<lambda>economics.
     decide (run_id r) rs economics))))"

subsection \<open>The decisions are well formed\<close>

lemma concentration_limit_parse: "exact_parse ''0.25'' = Inr CONCENTRATION_LIMIT"
  by (simp add: exact_eval py_defs CONCENTRATION_LIMIT_def)

definition capture_gates :: "sealed_records \<Rightarrow> bool" where
  "capture_gates rs \<longleftrightarrow>
     7 * 24 * 60 * 60 * 1000 \<le> terminated_at_ms (sr_terminal rs) - started_at_ms (sr_manifest rs)
     \<and> 5 \<le> complete_utc_days (sr_minutes rs)
     \<and> 95 * (7 * 24 * 60) \<le> 100 * strict_healthy_minutes (sr_minutes rs)"

definition economic_gates :: "SealedStageAEconomics \<Rightarrow> bool" where
  "economic_gates ec \<longleftrightarrow> 0 < exact_val (total_net ec) \<and> 0 < exact_val (median_net ec) \<and> 0 < exact_val (usd_1000_net ec)
     \<and> 0 \<le> exact_val (usd_5000_net ec) \<and> survived_delay_300ms ec \<and> survived_delay_500ms ec
     \<and> survived_both_fee_cases ec \<and> exact_val (largest_episode_concentration ec) < 1 / 4"

lemmas gate_constants = MS_PER_MINUTE_def MS_PER_DAY_def MINUTES_PER_DAY_def REQUIRED_COMPLETE_UTC_DAYS_def
  REQUIRED_HEALTHY_RATIO_def REQUIRED_INDEPENDENT_EPISODES_def REQUIRED_WINDOW_MS_def REQUIRED_WINDOW_MINUTES_def

lemma insufficiency_empty:
  "insufficiency_reasons (sr_manifest rs) (sr_terminal rs) (sr_minutes rs) n = [] \<longleftrightarrow> capture_gates rs \<and> 20 \<le> n"
  by (auto simp: insufficiency_reasons_def capture_gates_def gate_constants)

lemma exact_le_val: "exact_le x y \<longleftrightarrow> exact_val x \<le> exact_val y"
  by (cases x; cases y) (simp add: exact_le_def exact_val_def SCALE_def)

lemma exact_lt_val: "exact_lt x y \<longleftrightarrow> exact_val x < exact_val y"
  by (cases x; cases y) (simp add: exact_lt_def exact_val_def SCALE_def)

lemma exact_val_limits: "exact_val (ExactDecimal 0) = 0" "exact_val CONCENTRATION_LIMIT = 1 / 4"
  by (simp_all add: exact_val_def CONCENTRATION_LIMIT_def SCALE_def)

lemma stop_empty: "stop_reasons ec = [] \<longleftrightarrow> economic_gates ec"
  by (auto simp: stop_reasons_def economic_gates_def exact_le_val exact_lt_val exact_val_limits not_le not_less)

lemma reason_classes:
  "list_all (\<lambda>r. reason_class r = Inr (decision_class INSUFFICIENT_EVIDENCE)) (insufficiency_reasons m t ms n)"
  "list_all (\<lambda>r. reason_class r = Inr (decision_class STOP)) (stop_reasons ec)"
  "reason_class (map_error c) = Inr (decision_class INVALID_DATASET)"
  "reason_class EXTEND_ALL_V2_GATES_PASS = Inr (decision_class EXTEND_LONGER_SHADOW)"
  by (simp_all add: insufficiency_reasons_def stop_reasons_def reason_class_total)
    (cases c; simp add: reason_class_total)

text \<open>The decision of a package that could be read.\<close>

definition verdict :: "uuid \<Rightarrow> sealed_records \<Rightarrow> SealedStageAEconomics option \<Rightarrow> StageADecision" where
  "verdict u rs economics =
     (let episodes = (case economics of None \<Rightarrow> 0 | Some ec \<Rightarrow> independent_episode_count ec);
          mk = (\<lambda>dc reasons. \<lparr>sd_decision = dc, sd_reasons = sort_key reason_index (remdups reasons),
             sd_capture_run_id = Some u, sd_schema = STAGE_A_DECISION_SCHEMA, sd_package_schema = STAGE_A_PACKAGE_SCHEMA\<rparr>)
      in if \<not> (capture_gates rs \<and> 20 \<le> episodes)
         then mk INSUFFICIENT_EVIDENCE (insufficiency_reasons (sr_manifest rs) (sr_terminal rs) (sr_minutes rs) episodes)
         else if \<not> economic_gates (the economics) then mk STOP (stop_reasons (the economics))
         else mk EXTEND_LONGER_SHADOW [EXTEND_ALL_V2_GATES_PASS])"

lemma decide_verdict: "decide u rs economics = Inr (verdict u rs economics)"
proof -
  let ?n = "case economics of None \<Rightarrow> 0 | Some ec \<Rightarrow> independent_episode_count ec"
  have e: "economics \<noteq> None" if "20 \<le> ?n" using that by (auto split: option.splits)
  note g = insufficiency_empty [of rs ?n] stop_empty [of "the economics"]
  show ?thesis
  proof (cases "capture_gates rs \<and> 20 \<le> ?n")
    case False
    then show ?thesis using g(1)
      by (simp add: decide_def verdict_def new_decision_eq reason_classes Let_def del: decision_class.simps)
  next
    case True
    then obtain ec where "economics = Some ec" using e by auto
    then show ?thesis using True insufficiency_empty [of rs "independent_episode_count ec"] stop_empty [of ec]
      by (auto simp: decide_def verdict_def new_decision_eq reason_classes Let_def simp del: decision_class.simps)
  qed
qed

lemma invalid_dataset_ok:
  "invalid_dataset c u = Inr \<lparr>sd_decision = INVALID_DATASET, sd_reasons = [map_error c], sd_capture_run_id = u,
      sd_schema = STAGE_A_DECISION_SCHEMA, sd_package_schema = STAGE_A_PACKAGE_SCHEMA\<rparr>"
  by (simp add: invalid_dataset_def new_decision_eq reason_classes del: decision_class.simps)

text \<open>What has to be readable before the gates are looked at.\<close>

definition package_readable ::
  "package_dir \<Rightarrow> FrozenPackageEvidenceReader \<Rightarrow> sealed_records \<Rightarrow> SealedStageAEconomics option \<Rightarrow> bool" where
  "package_readable pkg r rs economics \<longleftrightarrow> reader_init pkg = Inr r \<and> read_records r = Inr rs
     \<and> (\<exists>bs. bound_books rs = Inr bs) \<and> read_economics r = Inr economics"

lemma or_invalid_cases:
  "or_invalid u m f = Inr d \<longleftrightarrow> (\<exists>x. m = Inr x \<and> f x = Inr d)
     \<or> (\<exists>c. m = Inl (FrozenPackageError c) \<and> invalid_dataset c u = Inr d)"
  by (cases m) (auto simp: or_invalid_def split: py_exc.splits)

lemma evaluate_cases:
  "evaluate_frozen_package pkg = Inr d \<longleftrightarrow>
     (\<exists>r rs economics. package_readable pkg r rs economics \<and> d = verdict (run_id r) rs economics)
     \<or> (sd_decision d = INVALID_DATASET \<and> evaluate_frozen_package pkg = Inr d)"
  by (auto simp: evaluate_frozen_package_def or_invalid_cases package_readable_def decide_verdict invalid_dataset_ok)

lemma verdict_not_invalid: "sd_decision (verdict u rs ec) \<noteq> INVALID_DATASET"
  by (simp add: verdict_def Let_def)

lemma verdict_extend: "sd_decision (verdict u rs ec) = EXTEND_LONGER_SHADOW \<longleftrightarrow>
    (\<exists>e. ec = Some e \<and> capture_gates rs \<and> 20 \<le> independent_episode_count e \<and> economic_gates e)"
  by (cases ec) (auto simp: verdict_def Let_def)

text \<open>
  C1. The program recommends a longer shadow run exactly for the packages that deserve it:
  verified, completely readable, every book reconstructed and bound, a capture of at least
  seven days with five complete UTC days and 95 percent healthy minutes, at least twenty
  independent episodes, and sealed economics that pass every profitability, delay, fee and
  concentration gate.
\<close>

theorem extend_exactly_when_all_gates_pass:
  "(\<exists>d. evaluate_frozen_package pkg = Inr d \<and> sd_decision d = EXTEND_LONGER_SHADOW) \<longleftrightarrow>
     (\<exists>r rs ec. package_readable pkg r rs (Some ec) \<and> capture_gates rs
        \<and> 20 \<le> independent_episode_count ec \<and> economic_gates ec)"
  using evaluate_cases [of pkg] verdict_extend by (metis StageADecisionCode.distinct(5))

subsection \<open>The counters behind the gates\<close>

definition minute_of :: "QualityMinuteRecord \<Rightarrow> int" where
  "minute_of r = minute_start_ms r div 60000"

definition day_minutes :: "QualityMinuteRecord list \<Rightarrow> int \<Rightarrow> int set" where
  "day_minutes ms d = {minute_of r mod 1440 | r. r \<in> set ms \<and> minute_of r div 1440 = d}"

lemma cover_day: "minute_start_ms r div MS_PER_DAY = minute_of r div 1440"
proof -
  have "minute_start_ms r div (60000 * 1440) = minute_start_ms r div 60000 div 1440"
    by (rule zdiv_zmult2_eq) simp
  then show ?thesis by (simp add: minute_of_def MS_PER_DAY_def)
qed

lemma cover_eq: "cover cov r = AList.update (minute_of r div 1440)
    (List.insert (minute_of r mod 1440) (case map_of cov (minute_of r div 1440) of None \<Rightarrow> [] | Some s \<Rightarrow> s)) cov"
  unfolding cover_def cover_day by (simp add: Let_def minute_of_def MS_PER_MINUTE_def MINUTES_PER_DAY_def)

definition cover_inv :: "QualityMinuteRecord list \<Rightarrow> (int \<times> int list) list \<Rightarrow> bool" where
  "cover_inv ms cov \<longleftrightarrow> distinct (map fst cov)
     \<and> (\<forall>d. case map_of cov d of None \<Rightarrow> day_minutes ms d = {} | Some s \<Rightarrow> distinct s \<and> set s = day_minutes ms d)"

lemma day_minutes_snoc:
  "day_minutes (ms @ [r]) d = (if minute_of r div 1440 = d then insert (minute_of r mod 1440) (day_minutes ms d) else day_minutes ms d)"
  by (auto simp: day_minutes_def)

lemma cover_step:
  assumes "cover_inv ms cov"
  shows "cover_inv (ms @ [r]) (cover cov r)"
proof -
  have i: "case map_of cov d of None \<Rightarrow> day_minutes ms d = {} | Some s \<Rightarrow> distinct s \<and> set s = day_minutes ms d" for d
    using assms by (simp add: cover_inv_def)
  have "case map_of (cover cov r) d of None \<Rightarrow> day_minutes (ms @ [r]) d = {}
      | Some s \<Rightarrow> distinct s \<and> set s = day_minutes (ms @ [r]) d" for d
    using i [of d] by (auto simp: cover_eq update_conv' day_minutes_snoc split: option.splits)
  then show ?thesis using assms by (auto simp: cover_inv_def cover_eq distinct_update)
qed

lemma cover_all: "cover_inv ms (foldl cover [] ms)"
  by (induction ms rule: rev_induct) (auto simp: cover_inv_def [of "[]"] day_minutes_def intro: cover_step)

lemma full_day: "1440 \<le> card (day_minutes ms d) \<longleftrightarrow> {d * 1440..<(d + 1) * 1440} \<subseteq> minute_of ` set ms"
proof -
  have sub: "day_minutes ms d \<subseteq> {0..<1440}" by (auto simp: day_minutes_def)
  have "1440 \<le> card (day_minutes ms d) \<longleftrightarrow> {0..<1440} \<subseteq> day_minutes ms d"
    using card_mono [OF _ sub] card_subset_eq [OF _ sub] card_mono [of "day_minutes ms d" "{0..<1440::int}"]
      finite_subset [OF sub] by fastforce
  also have "\<dots> \<longleftrightarrow> {d * 1440..<(d + 1) * 1440} \<subseteq> minute_of ` set ms"
  proof
    assume l: "{0..<1440} \<subseteq> day_minutes ms d"
    show "{d * 1440..<(d + 1) * 1440} \<subseteq> minute_of ` set ms"
    proof
      fix k assume "k \<in> {d * 1440..<(d + 1) * 1440}"
      then have "k - d * 1440 \<in> day_minutes ms d" using l by auto
      then obtain r where "r \<in> set ms" "k - d * 1440 = minute_of r mod 1440" "minute_of r div 1440 = d"
        by (auto simp: day_minutes_def)
      moreover from this have "k = minute_of r" using div_mult_mod_eq [of "minute_of r" 1440] by linarith
      ultimately show "k \<in> minute_of ` set ms" by blast
    qed
  next
    assume r: "{d * 1440..<(d + 1) * 1440} \<subseteq> minute_of ` set ms"
    show "{0..<1440} \<subseteq> day_minutes ms d"
    proof
      fix m :: int assume m: "m \<in> {0..<1440}"
      then have "d * 1440 + m \<in> minute_of ` set ms" using r by auto
      then obtain x where x: "x \<in> set ms" "minute_of x = d * 1440 + m" by auto
      moreover have "(d * 1440 + m) div 1440 = d" "(d * 1440 + m) mod 1440 = m" using m by auto
      ultimately have "m = minute_of x mod 1440" "minute_of x div 1440 = d" by simp_all
      then show "m \<in> day_minutes ms d" unfolding day_minutes_def using x(1) by blast
    qed
  qed
  finally show ?thesis .
qed

lemma complete_utc_days_eq:
  "complete_utc_days ms = int (card {d. {d * 1440..<(d + 1) * 1440} \<subseteq> minute_of ` set ms})"
proof -
  let ?c = "foldl cover [] ms" and ?P = "\<lambda>(d, s). int (length s) \<ge> MINUTES_PER_DAY"
  have inv: "cover_inv ms ?c" by (rule cover_all)
  then have dist: "distinct (map fst ?c)" by (simp add: cover_inv_def)
  then have "length (filter ?P ?c) = card (fst ` set (filter ?P ?c))"
    by (metis distinct_card distinct_map_filter length_map list.set_map)
  also have "fst ` set (filter ?P ?c) = {d. 1440 \<le> card (day_minutes ms d)}"
  proof (rule set_eqI)
    fix d
    have i: "case map_of ?c d of None \<Rightarrow> day_minutes ms d = {} | Some s \<Rightarrow> distinct s \<and> set s = day_minutes ms d"
      using inv by (simp add: cover_inv_def)
    show "d \<in> fst ` set (filter ?P ?c) \<longleftrightarrow> d \<in> {d. 1440 \<le> card (day_minutes ms d)}"
    proof (cases "map_of ?c d")
      case None
      then have "d \<notin> fst ` set ?c" by (simp add: map_of_eq_None_iff)
      then show ?thesis using i None by auto
    next
      case (Some s)
      then have "card (day_minutes ms d) = length s" using i distinct_card by fastforce
      moreover have "d \<in> fst ` set (filter ?P ?c) \<longleftrightarrow> ?P (d, s)"
        using map_of_SomeD [OF Some] by (force simp: image_iff dest: eq_key_imp_eq_value [OF dist, of d s])
      ultimately show ?thesis by (simp add: MINUTES_PER_DAY_def)
    qed
  qed
  finally show ?thesis by (simp add: complete_utc_days_def full_day)
qed

definition minute_key :: "QualityMinuteRecord \<Rightarrow> int \<times> string" where
  "minute_key r = (minute_start_ms r, qm_venue r)"

definition healthy :: "QualityMinuteRecord \<Rightarrow> bool" where
  "healthy r \<longleftrightarrow> 0 < accepted r \<and> rejected r = 0"

definition healthy_keys :: "QualityMinuteRecord list \<Rightarrow> (int \<times> string) set" where
  "healthy_keys ms = {k. \<exists>r. find (\<lambda>r. minute_key r = k) ms = Some r \<and> healthy r}"

lemma finite_healthy: "finite (healthy_keys ms)"
proof (rule finite_subset)
  show "healthy_keys ms \<subseteq> minute_key ` set ms"
    by (auto simp: healthy_keys_def find_Some_iff) (metis image_eqI nth_mem)
qed simp

lemma healthy_count_eq: "healthy_count seen ms = int (card (healthy_keys ms - set seen))"
proof (induction seen ms rule: healthy_count.induct)
  case (2 seen r ms)
  let ?k = "minute_key r"
  have s: "healthy_keys (r # ms) - {?k} = healthy_keys ms - {?k}" by (auto simp: healthy_keys_def)
  show ?case
  proof (cases "?k \<in> set seen")
    case True
    then have "healthy_keys (r # ms) - set seen = healthy_keys ms - set seen" using s by blast
    then show ?thesis using True 2 by (simp add: minute_key_def)
  next
    case False
    have "?k \<in> healthy_keys (r # ms) \<longleftrightarrow> healthy r" by (simp add: healthy_keys_def)
    then have "healthy_keys (r # ms) - set seen = (if healthy r then {?k} else {}) \<union> ((healthy_keys (r # ms) - {?k}) - set seen)"
      using False by auto
    then have "healthy_keys (r # ms) - set seen = (if healthy r then {?k} else {}) \<union> (healthy_keys ms - set (?k # seen))"
      unfolding s by auto
    then show ?thesis using False 2(2) [of ?k] finite_healthy [of ms]
      by (simp add: minute_key_def healthy_def)
  qed
qed (simp add: healthy_keys_def)


subsection \<open>Which exceptions escape\<close>

definition data_errors :: "py_exc set" where
  "data_errors = {e. is_value_error e} \<union> {TypeError, KeyError, InvalidOperation, NotModelled}"

named_theorems data \<open>computations that raise only errors of their data\<close>

lemma data_error [simp]:
  "e \<in> data_errors \<longleftrightarrow> is_value_error e \<or> e = TypeError \<or> e = KeyError \<or> e = InvalidOperation \<or> e = NotModelled"
  by (auto simp: data_errors_def)

lemma only_raises_data: "only_raises E m \<Longrightarrow> E \<subseteq> data_errors \<Longrightarrow> only_raises data_errors m"
  by (rule only_raises_mono)

lemma only_raises_reraise_data [raises]:
  "only_raises data_errors m \<Longrightarrow> is_value_error e \<Longrightarrow> only_raises data_errors (reraise p e m)"
  by (rule only_raises_reraise) auto

lemma only_raises_sum [raises]:
  "(\<And>e. m = Inl e \<Longrightarrow> only_raises E (f e)) \<Longrightarrow> (\<And>x. m = Inr x \<Longrightarrow> only_raises E (g x)) \<Longrightarrow>
     only_raises E (case m of Inl e \<Rightarrow> f e | Inr x \<Rightarrow> g x)"
  by (cases m) auto

lemma int_of_str_data [data]: "only_raises data_errors (int_of_str s)"
  unfolding int_of_str_def by (intro raises only_raises_data [OF int_of_digits_raises]) auto

lemma utf8_decode_data [data]: "only_raises data_errors (utf8_decode s)"
proof (induction s rule: utf8_decode.induct)
  case (2 b s)
  show ?case unfolding utf8_decode.simps(2) by (intro raises 2) auto
qed simp

lemma fromhex_data [data]: "only_raises data_errors (fromhex s)"
  by (induction s rule: fromhex.induct) (auto intro!: raises split: list.splits option.splits)

lemma py_int_data [data]: "only_raises data_errors (py_int j)"
  by (cases j) (auto intro: data)

lemma json_data [data]: "only_raises data_errors (loads s)" "only_raises data_errors (py_str j)"
  by (rule only_raises_data [OF loads_raises], simp) (rule only_raises_data [OF py_str_raises], simp)

lemma row_data [data]: "only_raises data_errors (row_index row k)" "only_raises data_errors (row_int row k)"
  "only_raises data_errors (row_str row k)"
  unfolding row_int_def row_str_def row_index_def jindex_def by (intro raises data; simp (no_asm))+

lemma record_data [data]:
  "only_raises data_errors (capture_manifest m)" "only_raises data_errors (capture_terminal_record t)"
  "only_raises data_errors (control_evidence_record c)" "only_raises data_errors (raw_batch_record b)"
  "only_raises data_errors (raw_public_envelope e)" "only_raises data_errors (quality_minute_record q)"
  "only_raises data_errors (mapping_snapshot s)"
  unfolding capture_manifest_def capture_terminal_record_def control_evidence_record_def raw_batch_record_def
    raw_public_envelope_def quality_minute_record_def mapping_snapshot_def require_evidence_sha256_def
    require_evidence_timestamp_def
  by (intro raises; simp (no_asm))+

lemma dec_data [data]: "only_raises data_errors (dec_le0 d)" "only_raises data_errors (dec_of_str s)"
  "only_raises data_errors (exact_parse t)"
  unfolding dec_le0_def dec_of_str_def dec_number_def dec_exponent_def exact_parse_def exact_init_def
  by (intro raises only_raises_data [OF int_of_digits_raises]; simp (no_asm))+

lemma mapping_data [data]: "only_raises data_errors (mapping_from_document item)"
proof -
  have c: "only_raises data_errors (require_printable_ascii a)" "only_raises data_errors (require_sha256 a)"
    "only_raises data_errors (require_timestamp t)" "only_raises data_errors (require_positive_decimal d)"
    "only_raises data_errors (require_optional_positive_decimal x)" "only_raises data_errors (require_optional_nonnegative_int y)"
    "only_raises data_errors (require_optional_positive_int y)" for a t d x y
    unfolding require_printable_ascii_def require_sha256_def require_timestamp_def require_positive_decimal_def
      require_optional_positive_decimal_def require_optional_nonnegative_int_def require_optional_positive_int_def
    by (intro raises data; simp (no_asm))+
  have r: "only_raises data_errors (rseq cs rest)"
    if "\<And>c. c \<in> set cs \<Longrightarrow> only_raises data_errors c" "only_raises data_errors rest"
    for cs and rest :: "MarketMappingEvidence res"
    using that by (induction cs) (auto simp: rseq_def intro!: raises)
  have m: "only_raises data_errors (market_mapping_evidence e)" for e
    unfolding market_mapping_evidence_def
    by (intro r raises; auto split: option.splits intro!: c raises)
  show ?thesis
    unfolding mapping_from_document_def identity_from_document_def mapping_market_index_def require_exact_keys_def
      mapping_decision_def optional_int_field_def optional_decimal_string_def decimal_string_def
    by (intro raises data m; simp (no_asm))
qed

lemma economics_data [data]: "only_raises data_errors (decode_economics raw)"
  unfolding decode_economics_def economics_from_document_def sealed_economics_def parse_money_def require_bool_def jindex_def
  by (intro raises data; simp (no_asm))

lemma level_data [data]: "only_raises data_errors (book_level p q)" "only_raises data_errors (parsed_level px sz)"
  "only_raises data_errors (book_levels pk sk raw)" "only_raises data_errors (delta_levels raw)"
  "only_raises data_errors (order_book_snapshot ob)"
  unfolding book_level_def parsed_level_def book_levels_def book_level_item_def delta_levels_def delta_item_def order_book_snapshot_def
  by (intro raises data; simp (no_asm))+

lemma decode_data [data]:
  "only_raises data_errors (decode_hyperliquid_l2book pl t)" "only_raises data_errors (decode_lighter_envelope pl)"
  unfolding decode_hyperliquid_l2book_def hyperliquid_decode_def hyperliquid_book_levels_def decode_lighter_envelope_def
    decode_envelope_def decode_snapshot_def decode_update_def lighter_channel_def optional_symbol_def recon_require_int_def
    lighter_book_levels_def
  by (intro raises data; simp (no_asm))+

lemma book_data [data]: "only_raises data_errors (reconstructed_book b)"
  unfolding reconstructed_book_def require_channel_def Let_def
  by (intro raises data; simp (no_asm))

lemma apply_data [data]: "only_raises data_errors (apply_lighter_update prev u t)"
  unfolding apply_lighter_update_def apply_side_def apply_delta_def by (intro raises data; simp (no_asm))

lemma reconstruct_data [data]: "only_raises data_errors (reconstruct_books envs ms)"
proof -
  have l: "only_raises data_errors (lighter_update_step st env u)" for st env u
    unfolding lighter_update_step_def append_book_def
    using only_raisesD [OF apply_data] by (intro raises data) auto
  show ?thesis
    unfolding reconstruct_books_def reconstruct_step_def hyperliquid_step_def lighter_step_def lighter_snapshot_step_def
      append_book_def lighter_ticker_for_channel_def lighter_snapshot_book_def
    by (intro raises data l; (simp (no_asm); fail)?) (auto split: decoded.splits intro!: raises data l)
qed

lemma bind_data [data]: "only_raises data_errors (bind_reconstructed_books bs ms)"
  unfolding bind_reconstructed_books_def bind_book_def book_candidates_def lighter_candidates_def
  by (intro raises data; simp (no_asm))

lemma sealed_read:
  assumes "reader_init pkg = Inr r" and "p \<in> fst ` set (declared r)"
  shows "only_raises data_errors (path_read_bytes (entry_at (reader_root r) p))"
proof -
  obtain h where h: "(p, h) \<in> set (declared r)" using assms(2) by auto
  have "reader_root r = pkg" and s: "members_sealed pkg (declared r)"
    using reader_init_sealed [OF assms(1)] by (simp_all add: package_sealed_def)
  moreover obtain b where "entry_at pkg p = Some (RegularFile b)" using s h unfolding members_sealed_def by fast
  ultimately show ?thesis by (simp add: path_read_bytes_def)
qed

lemma read_records_data:
  assumes "reader_init pkg = Inr r"
  shows "only_raises data_errors (read_records r)"
proof -
  have "set REQUIRED_MEMBERS \<subseteq> fst ` set (declared r)"
    using reader_init_sealed [OF assms] by (simp add: package_sealed_def members_sealed_def)
  then have p: "only_raises data_errors (path_read_bytes (entry_at (reader_root r) p))" if "p \<in> set REQUIRED_MEMBERS" for p
    using that by (intro sealed_read [OF assms]) auto
  show ?thesis
    unfolding read_records_def read_capture_manifest_def require_run_def venue_name_def capture_terminal_def
      iter_control_evidence_def iter_raw_batches_def iter_raw_envelopes_def iter_quality_minutes_def read_mapping_snapshot_def
      read_ndjson_def ndjson_row_def read_text_def control_row_def envelope_row_def quality_row_def
    by (intro raises data p; simp (no_asm) add: REQUIRED_MEMBERS_def)
qed

lemma read_economics_data:
  assumes "reader_init pkg = Inr r"
  shows "only_raises data_errors (read_economics r)"
  unfolding read_economics_def optional_member_bytes_def
  by (intro raises data sealed_read [OF assms]) (auto simp: is_value_error.simps)

lemma or_invalid_raises:
  assumes "only_raises data_errors m" and "\<And>x. m = Inr x \<Longrightarrow> only_raises (data_errors - range FrozenPackageError) (f x)"
  shows "only_raises (data_errors - range FrozenPackageError) (or_invalid u m f)"
proof (cases m)
  case (Inl e)
  then show ?thesis using assms(1) by (cases e) (simp_all add: or_invalid_def invalid_dataset_ok image_iff)
next
  case (Inr x)
  then show ?thesis using assms(2) by (simp add: or_invalid_def)
qed

lemma evaluate_raises:
  assumes "distinct (map fst (tree pkg))"
  shows "only_raises (data_errors - range FrozenPackageError) (evaluate_frozen_package pkg)"
proof -
  have i: "only_raises data_errors (reader_init pkg)"
    by (rule only_raises_mono [OF reader_init_raises [OF assms]]) auto
  have b: "only_raises data_errors (bound_books rs)" for rs
    unfolding bound_books_def by (intro raises data) simp
  show ?thesis unfolding evaluate_frozen_package_def decide_verdict
    by (intro or_invalid_raises i b) (auto intro: read_records_data read_economics_data)
qed

subsection \<open>A sample verdict\<close>

lemma sample_document:
  "jget (reader_document (sample_reader t)) ''venue_set'' = JList [JStr ''lighter'']"
  "jget (reader_document (sample_reader t)) ''started_at_ms'' = JInt 3"
proof -
  let ?f = "manifest_fields (UUID 5) 3 [''lighter''] (sample_files t)"
  have ok: "json_ok (JObj ?f)" and ns: "''manifest_sha256'' \<notin> fst ` set ?f"
    by (simp_all add: manifest_fields_def list_all_iff member_entry_def nat_str_eval max_str_digits_def)
  show "jget (reader_document (sample_reader t)) ''venue_set'' = JList [JStr ''lighter'']"
    "jget (reader_document (sample_reader t)) ''started_at_ms'' = JInt 3"
    unfolding sample_reader_def FrozenPackageEvidenceReader.simps sealed_document_get [OF ok ns]
    by (simp_all add: jget_def seal_def manifest_fields_def)
qed

definition sample_mapping_text :: string where
  \<open>sample_mapping_text = ''{"mappings":[]}''\<close>

lemma sample_entries:
  "entry_at (sample_package t) ''terminal.json'' = Some (RegularFile t)"
  "entry_at (sample_package t) ''mapping_snapshot.json'' = Some (RegularFile sample_mapping_text)"
  "entry_at (sample_package t) ''control_evidence/records.ndjson'' = Some (RegularFile [])"
  "entry_at (sample_package t) ''raw_batches/0.bin'' = Some (RegularFile [])"
  "entry_at (sample_package t) ''raw_envelopes/records.ndjson'' = Some (RegularFile [])"
  "entry_at (sample_package t) ''quality_minutes/records.ndjson'' = Some (RegularFile [])"
  by (simp_all add: entry_at_def sample_package_def write_package_def sample_files_def REQUIRED_MEMBERS_def sample_mapping_text_def)

lemma sample_texts:
  "rbind (utf8_decode sample_mapping_text) loads = Inr (JObj [(''mappings'', JList [])])"
  "utf8_decode sample_terminal = Inr sample_terminal" "universal_newlines sample_terminal = sample_terminal"
  "loads sample_terminal = Inr (JObj [(''terminated_at_ms'', JInt 9), (''status'', JStr ''ok'')])"
  "utf8_decode ''[]'' = Inr ''[]''" "universal_newlines ''[]'' = ''[]''" "loads ''[]'' = Inr (JList [])"
  by code_simp+

definition sample_records :: sealed_records where
  "sample_records = \<lparr>sr_manifest = \<lparr>mf_capture_run_id = UUID 5, started_at_ms = 3, venue_set = [''lighter''], schema_version = PACKAGE_SCHEMA\<rparr>,
     sr_terminal = \<lparr>tm_capture_run_id = UUID 5, terminated_at_ms = 9, status = ''ok''\<rparr>,
     sr_envelopes = [], sr_minutes = [], sr_mappings = []\<rparr>"

lemma sample_manifest:
  "read_capture_manifest (sample_reader t) (UUID 5) =
     Inr \<lparr>mf_capture_run_id = UUID 5, started_at_ms = 3, venue_set = [''lighter''], schema_version = PACKAGE_SCHEMA\<rparr>"
proof -
  have "run_id (sample_reader t) = UUID 5" by (simp add: sample_reader_def)
  then show ?thesis
    by (simp add: read_capture_manifest_def sample_document require_run_def venue_name_def capture_manifest_def
        require_evidence_timestamp_def PACKAGE_SCHEMA_def)
qed

lemma sample_parts: "run_id (sample_reader t) = UUID 5" "reader_root (sample_reader t) = sample_package t"
  "declared (sample_reader t) = digests (sample_files t)"
  by (simp_all add: sample_reader_def)

lemma sample_digest [simp]: "require_evidence_sha256 (sha256_bytes b) = Inr ()"
  by simp

lemma sample_read: "read_records (sample_reader sample_terminal) = Inr sample_records"
  by (simp add: read_records_def sample_parts sample_manifest sample_records_def capture_terminal_def require_run_def
      read_text_def path_read_bytes_def sample_entries sample_texts row_int_def row_str_def row_index_def jindex_def
      capture_terminal_record_def require_evidence_timestamp_def iter_control_evidence_def iter_raw_batches_def
      iter_raw_envelopes_def iter_quality_minutes_def read_mapping_snapshot_def read_ndjson_def raw_batch_record_def
      mapping_snapshot_def jget_def Let_def)

lemma sample_no_economics: "read_economics (sample_reader t) = Inr None"
proof -
  have "''economics.json'' \<notin> fst ` set (digests (sample_files t))"
    unfolding fst_digests by (simp add: sample_files_def REQUIRED_MEMBERS_def)
  then show ?thesis by (simp add: read_economics_def optional_member_bytes_def sample_parts)
qed

lemma sample_verdict:
  "evaluate_frozen_package (sample_package sample_terminal) = Inr (verdict (UUID 5) sample_records None)"
proof -
  have "bound_books sample_records = Inr []"
    by (simp add: bound_books_def sample_records_def reconstruct_books_def recon_init_def bind_reconstructed_books_def)
  then show ?thesis
    by (simp add: evaluate_frozen_package_def or_invalid_def sample_accepted sample_read sample_parts sample_no_economics decide_verdict)
qed

lemma malformed_terminal: "evaluate_frozen_package (sample_package ''[]'') = Inl TypeError"
proof -
  have "read_records (sample_reader ''[]'') = Inl TypeError"
    by (simp add: read_records_def sample_parts sample_manifest capture_terminal_def require_run_def
        read_text_def path_read_bytes_def sample_entries sample_texts row_int_def row_index_def)
  then show ?thesis by (simp add: evaluate_frozen_package_def or_invalid_def sample_accepted)
qed

lemma sample_distinct: "distinct (map fst (tree (sample_package t)))"
  by (simp add: sample_package_def write_package_def sample_files_def REQUIRED_MEMBERS_def)

subsection \<open>The gates one by one\<close>

definition capture_gate_fails :: "sealed_records \<Rightarrow> int \<Rightarrow> StageAReasonCode \<Rightarrow> bool" where
  "capture_gate_fails rs n g = (case g of
     INSUFFICIENT_ACQUISITION_WINDOW \<Rightarrow> terminated_at_ms (sr_terminal rs) - started_at_ms (sr_manifest rs) < 7 * 24 * 60 * 60 * 1000
   | INSUFFICIENT_COMPLETE_UTC_DAYS \<Rightarrow> complete_utc_days (sr_minutes rs) < 5
   | INSUFFICIENT_STRICT_HEALTHY_MINUTES \<Rightarrow> 100 * strict_healthy_minutes (sr_minutes rs) < 95 * (7 * 24 * 60)
   | INSUFFICIENT_INDEPENDENT_EPISODES \<Rightarrow> n < 20
   | _ \<Rightarrow> False)"

definition economic_gate_fails :: "SealedStageAEconomics \<Rightarrow> StageAReasonCode \<Rightarrow> bool" where
  "economic_gate_fails ec g = (case g of
     STOP_TOTAL_NET_NON_POSITIVE \<Rightarrow> exact_val (total_net ec) \<le> 0
   | STOP_MEDIAN_NET_NON_POSITIVE \<Rightarrow> exact_val (median_net ec) \<le> 0
   | STOP_USD_1000_NET_NON_POSITIVE \<Rightarrow> exact_val (usd_1000_net ec) \<le> 0
   | STOP_USD_5000_NET_NEGATIVE \<Rightarrow> exact_val (usd_5000_net ec) < 0
   | STOP_DELAY_300MS_NOT_SURVIVED \<Rightarrow> \<not> survived_delay_300ms ec
   | STOP_DELAY_500MS_NOT_SURVIVED \<Rightarrow> \<not> survived_delay_500ms ec
   | STOP_FEE_CASE_NOT_SURVIVED \<Rightarrow> \<not> survived_both_fee_cases ec
   | STOP_CONCENTRATION_NOT_BELOW_25_PERCENT \<Rightarrow> 1 / 4 \<le> exact_val (largest_episode_concentration ec)
   | _ \<Rightarrow> False)"

lemma insufficiency_set:
  "set (insufficiency_reasons (sr_manifest rs) (sr_terminal rs) (sr_minutes rs) n) = {g. capture_gate_fails rs n g}"
proof (rule set_eqI)
  fix g show "g \<in> set (insufficiency_reasons (sr_manifest rs) (sr_terminal rs) (sr_minutes rs) n) \<longleftrightarrow> g \<in> {g. capture_gate_fails rs n g}"
    by (cases g) (auto simp: insufficiency_reasons_def capture_gate_fails_def gate_constants)
qed

lemma stop_set: "set (stop_reasons ec) = {g. economic_gate_fails ec g}"
proof (rule set_eqI)
  fix g show "g \<in> set (stop_reasons ec) \<longleftrightarrow> g \<in> {g. economic_gate_fails ec g}"
    by (cases g) (auto simp: stop_reasons_def economic_gate_fails_def exact_le_val exact_lt_val exact_val_limits)
qed

text \<open>The reasons a readable package is given.\<close>

definition expected_reasons :: "sealed_records \<Rightarrow> SealedStageAEconomics option \<Rightarrow> StageAReasonCode set" where
  "expected_reasons rs economics =
     (let n = (case economics of None \<Rightarrow> 0 | Some ec \<Rightarrow> independent_episode_count ec);
          missing = {g. capture_gate_fails rs n g};
          failed = {g. economic_gate_fails (the economics) g}
      in if missing \<noteq> {} then missing else if failed \<noteq> {} then failed else {EXTEND_ALL_V2_GATES_PASS})"

lemma verdict_facts:
  "set (sd_reasons (verdict u rs economics)) = expected_reasons rs economics"
  "sd_capture_run_id (verdict u rs economics) = Some u"
  "sorted_wrt (\<lambda>a b. reason_index a < reason_index b) (sd_reasons (verdict u rs economics))"
proof -
  let ?n = "case economics of None \<Rightarrow> 0 | Some ec \<Rightarrow> independent_episode_count ec"
  note i = insufficiency_empty [of rs ?n] insufficiency_set [of rs ?n] and s = stop_empty [of "the economics"] stop_set [of "the economics"]
  have "{g. capture_gate_fails rs ?n g} = {} \<longleftrightarrow> capture_gates rs \<and> 20 \<le> ?n" using i by (metis set_empty)
  moreover have "{g. economic_gate_fails (the economics) g} = {} \<longleftrightarrow> economic_gates (the economics)" using s by (metis set_empty)
  ultimately show "set (sd_reasons (verdict u rs economics)) = expected_reasons rs economics"
    using i(2) s(2) unfolding verdict_def expected_reasons_def Let_def by auto
  show "sd_capture_run_id (verdict u rs economics) = Some u" by (simp add: verdict_def Let_def)
  show "sorted_wrt (\<lambda>a b. reason_index a < reason_index b) (sd_reasons (verdict u rs economics))"
    using sorted_strict_index by (simp add: verdict_def Let_def)
qed

lemma readable_verdict:
  "package_readable pkg r rs economics \<Longrightarrow> evaluate_frozen_package pkg = Inr (verdict (run_id r) rs economics)"
  by (auto simp: package_readable_def evaluate_frozen_package_def or_invalid_def decide_verdict)

subsection \<open>Properties of the verdict\<close>



text \<open>
  C13. The gates on the capture come first and report everything that is missing at once: the
  reasons of a readable package are exactly the capture gates that fail; if none fails, exactly
  the economic gates that fail; if none fails, the pass. They are listed in the order of the
  code, each once, under the identity of the run.
\<close>

theorem verdict_reports_failed_gates:
  assumes "package_readable pkg r rs economics"
  shows "\<exists>d. evaluate_frozen_package pkg = Inr d \<and> set (sd_reasons d) = expected_reasons rs economics
    \<and> sorted_wrt (\<lambda>a b. reason_index a < reason_index b) (sd_reasons d) \<and> sd_capture_run_id d = Some (run_id r)"
  using readable_verdict [OF assms] verdict_facts by auto

lemma verdict_reports_failed_gates_witness:
  "\<exists>d. evaluate_frozen_package (sample_package sample_terminal) = Inr d
     \<and> set (sd_reasons d) = expected_reasons sample_records None \<and> sd_capture_run_id d = Some (UUID 5)"
proof -
  have "package_readable (sample_package sample_terminal) (sample_reader sample_terminal) sample_records None"
    using sample_accepted sample_read sample_no_economics
    by (simp add: package_readable_def bound_books_def sample_records_def reconstruct_books_def recon_init_def bind_reconstructed_books_def)
  from verdict_reports_failed_gates [OF this] show ?thesis by (auto simp: sample_parts)
qed


end
