(* ===== verification/CapturePackage.thy ===== *)
theory CapturePackage
  imports Verdict
begin

section \<open>The capture process (\<open>liqvera_public_capture\<close>: \<open>config.py\<close>, \<open>package.py\<close>, \<open>runtime.py\<close>)\<close>

text \<open>
  The process that writes frozen packages, and the entry of the analyzer that reads them. The
  directory is the value that the reader uses; failures of the operating system (a full disk,
  missing permissions) are outside the model. What is left of a directory after an exception
  is not modelled, since no caller looks at it.
\<close>

subsection \<open>Configuration (\<open>config.py\<close> of both packages)\<close>

text \<open>
  \<open>str.upper\<close> below U+0100; the two letters whose capitals lie above U+00FF are left as they are,
  which changes neither the presence nor the absence of a marker.
\<close>

definition upper_char :: "char \<Rightarrow> string" where
  "upper_char c =
     (if 97 \<le> code c \<and> code c \<le> 122 then [char_of (code c - 32)]
      else if code c = 223 then ''SS''
      else if 224 \<le> code c \<and> code c \<le> 254 \<and> code c \<noteq> 247 then [char_of (code c - 32)]
      else [c])"

definition upper :: "string \<Rightarrow> string" where
  "upper s = concat (map upper_char s)"

fun has_substring :: "string \<Rightarrow> string \<Rightarrow> bool" where
  "has_substring w [] \<longleftrightarrow> w = []"
| "has_substring w (c # s) \<longleftrightarrow> take (length w) (c # s) = w \<or> has_substring w s"

type_synonym environment = "(string \<times> string) list"

definition FORBIDDEN_ENV_MARKERS :: "string list" where
  "FORBIDDEN_ENV_MARKERS = [''SECRET'', ''TOKEN'', ''PASSWORD'', ''PRIVATE'', ''WALLET'', ''SIGNER'', ''API_KEY'', ''APIKEY'']"

definition credential_key :: "string \<Rightarrow> bool" where
  "credential_key key \<longleftrightarrow> list_ex (\<lambda>marker. has_substring marker (upper key)) FORBIDDEN_ENV_MARKERS"

definition env_get :: "environment \<Rightarrow> string \<Rightarrow> string \<Rightarrow> string" where
  "env_get env key dflt = (case map_of env key of None \<Rightarrow> dflt | Some v \<Rightarrow> v)"

definition ALLOWED_VENUES :: "string list" where
  "ALLOWED_VENUES = [''hyperliquid'', ''lighter'']"

definition ALLOWED_MODES :: "string list" where
  "ALLOWED_MODES = [''public'']"

definition ALLOWED_SOURCES :: "string list" where
  "ALLOWED_SOURCES = [''fixture'', ''public'']"

record PublicCaptureConfig =
  pc_venues :: "string list"
  pc_mode :: string
  pc_source :: string
  pc_output :: "string option"

definition load_public_configuration :: "environment \<Rightarrow> PublicCaptureConfig res" where
  "load_public_configuration env =
     require (\<not> list_ex (\<lambda>(key, v). credential_key key) env) PublicConfigError (
     let raw_venues = env_get env ''LIQVERA_PUBLIC_VENUES'' ''hyperliquid,lighter'';
         venues = filter (\<lambda>v. v \<noteq> []) (map strip (split_on CHR '','' raw_venues))
     in require (venues \<noteq> [] \<and> \<not> list_ex (\<lambda>v. v \<notin> set ALLOWED_VENUES) venues) PublicConfigError (
        let mode = env_get env ''LIQVERA_PUBLIC_MODE'' ''public''
        in require (mode \<in> set ALLOWED_MODES) PublicConfigError (
           let source = env_get env ''LIQVERA_CAPTURE_SOURCE'' ''fixture''
           in require (source \<in> set ALLOWED_SOURCES) PublicConfigError (
              let raw_output = env_get env ''LIQVERA_CAPTURE_OUT'' []
              in require (raw_output = [] \<or> posix_root raw_output \<noteq> []) PublicConfigError (
                 Inr \<lparr>pc_venues = venues, pc_mode = mode, pc_source = source,
                   pc_output = (if raw_output = [] then None else Some raw_output)\<rparr>)))))"

text \<open>The analyzer needs one existing directory; \<open>lookup\<close> is what an absolute path names.\<close>

definition load_analyzer_configuration :: "(string \<Rightarrow> entry option) \<Rightarrow> environment \<Rightarrow> string res" where
  "load_analyzer_configuration lookup env =
     require (\<not> list_ex (\<lambda>(key, v). credential_key key) env) AnalyzerConfigError (
     let raw = env_get env ''LIQVERA_FROZEN_PACKAGE'' []
     in require (raw \<noteq> []) AnalyzerConfigError (
        require (posix_root raw \<noteq> [] \<and> path_exists (lookup raw) \<and> path_is_dir (lookup raw)) AnalyzerConfigError (Inr raw)))"

subsection \<open>Writing a package (\<open>package.py\<close>)\<close>

definition capture_json_bytes :: "json \<Rightarrow> string res" where
  "capture_json_bytes document = rbind (dumps True document) (\<lambda>txt. ascii_decode (txt @ [CHR 0x0A]))"

text \<open>\<open>json.dumps(document) + "\n"\<close>, and the bytes of such lines.\<close>

definition json_line :: "json \<Rightarrow> string res" where
  "json_line document = rbind (dumps_default document) (\<lambda>txt. Inr (txt @ [CHR 0x0A]))"

definition bytes_hex :: "string \<Rightarrow> string" where
  "bytes_hex b = concat (map (\<lambda>c. [hex_digit (code c div 16), hex_digit (code c mod 16)]) b)"

definition envelope_document :: "int \<Rightarrow> int \<times> string \<times> string \<Rightarrow> json" where
  "envelope_document started_at = (\<lambda>(index, venue, body).
     JObj [(''envelope_index'', JInt index), (''observed_at_ms'', JInt started_at), (''venue'', JStr venue),
       (''payload_hex'', JStr (bytes_hex body))])"

definition enumerate_from_0 :: "'a list \<Rightarrow> (int \<times> 'a) list" where
  "enumerate_from_0 xs = zip (map int [0..<length xs]) xs"

definition envelope_ndjson :: "int \<Rightarrow> (string \<times> string) list \<Rightarrow> string res" where
  "envelope_ndjson started_at envelopes =
     rbind (rmap (\<lambda>e. json_line (envelope_document started_at e)) (enumerate_from_0 envelopes)) (\<lambda>lines.
     Inr (utf8_encode (concat lines)))"

definition package_members :: "int \<Rightarrow> int \<Rightarrow> string list \<Rightarrow> (string \<times> string) list \<Rightarrow> json list \<Rightarrow> (string \<times> string) list res" where
  "package_members started_at terminated_at venues envelopes mapping_documents =
     (let batch_payload = snd (hd envelopes) in
      rbind (envelope_ndjson started_at envelopes) (\<lambda>envelope_lines.
      rbind (json_line (JObj [(''recorded_at_ms'', JInt started_at), (''kind'', JStr ''epoch''),
               (''payload_sha256'', JStr (sha256_bytes batch_payload))])) (\<lambda>control.
      rbind (if venues = [] then Inl IndexError else
             json_line (JObj [(''minute_start_ms'', JInt (started_at - started_at mod 60000)), (''venue'', JStr (hd venues)),
               (''accepted'', JInt 1), (''rejected'', JInt 0)])) (\<lambda>quality.
      rbind (json_line (JObj [(''mappings'', JList mapping_documents)])) (\<lambda>snapshot.
      rbind (json_line (JObj [(''terminated_at_ms'', JInt terminated_at), (''status'', JStr ''sealed'')])) (\<lambda>terminal_line.
      rbind (ascii_decode terminal_line) (\<lambda>terminal.
      Inr [(''control_evidence/records.ndjson'', utf8_encode control), (''raw_batches/0.bin'', batch_payload),
           (''raw_envelopes/records.ndjson'', envelope_lines), (''quality_minutes/records.ndjson'', utf8_encode quality),
           (''mapping_snapshot.json'', utf8_encode snapshot), (''terminal.json'', terminal)])))))))"

text \<open>
  Removing what is in the directory: a child that is a directory goes with everything below it,
  any other child is unlinked.
\<close>

definition top_part :: "string \<Rightarrow> string" where
  "top_part p = hd (split_on CHR ''/'' p)"

definition children :: "(string \<times> entry) list \<Rightarrow> string list" where
  "children t = filter (\<lambda>p. CHR ''/'' \<notin> set p) (map fst t)"

definition clear_child :: "(string \<times> entry) list \<Rightarrow> string \<Rightarrow> (string \<times> entry) list" where
  "clear_child t child =
     (if path_is_dir (map_of t child) \<and> \<not> path_is_symlink (map_of t child)
      then filter (\<lambda>(p, e). top_part p \<noteq> child) t
      else filter (\<lambda>(p, e). p \<noteq> child) t)"

definition clear_package_root :: "(string \<times> entry) list \<Rightarrow> (string \<times> entry) list" where
  "clear_package_root t = foldl clear_child t (children t)"

text \<open>\<open>target.parent.mkdir(parents=True, exist_ok=True)\<close> and \<open>target.write_bytes(payload)\<close> below the root.\<close>

definition parent_paths :: "string \<Rightarrow> string list" where
  "parent_paths p = (let parts = split_on CHR ''/'' p in map (\<lambda>i. join ''/'' (take i parts)) [1..<length parts])"

definition make_directory :: "(string \<times> entry) list \<Rightarrow> string \<Rightarrow> (string \<times> entry) list res" where
  "make_directory t p =
     (case map_of t p of
        None \<Rightarrow> Inr (t @ [(p, Directory)])
      | Some e \<Rightarrow> if path_is_dir (Some e) then Inr t else Inl FileExistsError)"

definition write_bytes :: "(string \<times> entry) list \<Rightarrow> string \<Rightarrow> string \<Rightarrow> (string \<times> entry) list res" where
  "write_bytes t p body =
     (case map_of t p of
        None \<Rightarrow> Inr (t @ [(p, RegularFile body)])
      | Some (RegularFile _) \<Rightarrow> Inr (AList.update p (RegularFile body) t)
      | Some Directory \<Rightarrow> Inl OSError
      | Some _ \<Rightarrow> Inl NotModelled)"

definition put_member :: "(string \<times> entry) list \<Rightarrow> string \<times> string \<Rightarrow> (string \<times> entry) list res" where
  "put_member t m = (case m of (p, body) \<Rightarrow> rbind (rfold make_directory t (parent_paths p)) (\<lambda>t'. write_bytes t' p body))"

definition declared_member :: "string \<times> string \<Rightarrow> json" where
  "declared_member m = (case m of (p, body) \<Rightarrow>
     JObj [(''path'', JStr p), (''sha256'', JStr (sha256_bytes body)), (''length'', JInt (int (length body)))])"

definition unsigned_manifest :: "uuid \<Rightarrow> int \<Rightarrow> string list \<Rightarrow> (string \<times> string) list \<Rightarrow> (string \<times> json) list" where
  "unsigned_manifest u started_at venues members =
     [(''schema'', JStr PACKAGE_SCHEMA), (''capture_run_id'', JStr (uuid_str u)), (''started_at_ms'', JInt started_at),
      (''venue_set'', JList (map JStr venues)), (''members'', JList (map declared_member members))]"

definition write_frozen_package ::
  "string \<Rightarrow> uuid \<Rightarrow> int \<Rightarrow> int \<Rightarrow> string list \<Rightarrow> (string \<times> string) list \<Rightarrow> json list \<Rightarrow> package_dir \<Rightarrow> package_dir res" where
  "write_frozen_package root_path u started_at terminated_at venues envelopes mapping_documents before_dir =
     require (posix_root root_path \<noteq> []) ValueError (
     require (\<not> (path_exists (root_entry before_dir) \<and> (path_is_symlink (root_entry before_dir) \<or> \<not> path_is_dir (root_entry before_dir)))) ValueError (
     require (envelopes \<noteq> []) ValueError (
     require (root_entry before_dir = None \<or> path_is_dir (root_entry before_dir)) FileExistsError (
     let cleared = (if root_entry before_dir = None then [] else clear_package_root (tree before_dir))
     in rbind (package_members started_at terminated_at venues envelopes mapping_documents) (\<lambda>members.
        rbind (rfold put_member cleared members) (\<lambda>t.
        let unsigned = unsigned_manifest u started_at venues members
        in rbind (capture_json_bytes (JObj unsigned)) (\<lambda>unsigned_bytes.
           rbind (capture_json_bytes (JObj (unsigned @ [(''manifest_sha256'', JStr (sha256_bytes unsigned_bytes))]))) (\<lambda>manifest.
           rbind (write_bytes t ''manifest.json'' manifest) (\<lambda>t'.
           Inr \<lparr>root_entry = Some Directory, tree = t'\<rparr>)))))))))"

subsection \<open>The run (\<open>runtime.py\<close>)\<close>

definition reviewed_identity :: json where
  "reviewed_identity = JObj [(''base_asset'', JStr ''BTC''), (''quote_asset'', JStr ''USD''), (''product_kind'', JStr ''perp''),
     (''settlement_asset'', JStr ''USD''), (''payoff_kind'', JStr ''linear'')]"

definition REVIEWED_BTC :: json where
  "REVIEWED_BTC = JObj [(''mapping_id'', JStr ''btc-usd-linear-perpetual''), (''mapping_version'', JStr ''v1''), (''decision'', JStr ''APPROVED''),
     (''venue'', JStr ''hyperliquid''), (''symbol'', JStr ''BTC''), (''identity'', reviewed_identity),
     (''evidence_sha256'', JStr (replicate 64 CHR ''a'')), (''evidence_reference'', JStr ''reviewed/v1''), (''valid_from_ms'', JInt 0),
     (''valid_until_ms'', JNull), (''reviewed_contract_multiplier'', JStr ''1''), (''displayed_size_unit'', JStr ''coin''),
     (''quantity_step'', JStr ''0.001''), (''price_tick'', JStr ''0.1''), (''price_decimals'', JNull),
     (''max_price_significant_digits'', JNull), (''min_quantity'', JNull), (''min_notional'', JStr ''10'')]"

definition REVIEWED_LIGHTER_BTC :: json where
  "REVIEWED_LIGHTER_BTC = JObj [(''mapping_id'', JStr ''lighter-btc-usd-linear-perpetual''), (''mapping_version'', JStr ''v1''), (''decision'', JStr ''APPROVED''),
     (''venue'', JStr ''lighter''), (''symbol'', JStr ''BTC''), (''identity'', reviewed_identity),
     (''evidence_sha256'', JStr (replicate 64 CHR ''a'')), (''evidence_reference'', JStr ''reviewed/v1''), (''valid_from_ms'', JInt 0),
     (''valid_until_ms'', JNull), (''reviewed_contract_multiplier'', JStr ''1''), (''displayed_size_unit'', JStr ''coin''),
     (''quantity_step'', JStr ''0.001''), (''price_tick'', JStr ''0.1''), (''price_decimals'', JNull),
     (''max_price_significant_digits'', JNull), (''min_quantity'', JNull), (''min_notional'', JStr ''10''), (''lighter_market_index'', JInt 1)]"

definition FIXTURE_BOOK :: string where
  \<open>FIXTURE_BOOK = ''{"coin":"BTC","time":1,"levels":[[{"px":"1.0","sz":"1.0"}],[{"px":"1.1","sz":"1.0"}]]}''\<close>

definition FIXTURE_LIGHTER_SNAPSHOT :: string where
  \<open>FIXTURE_LIGHTER_SNAPSHOT = ''{"channel":"order_book:1","type":"subscribed/order_book","timestamp":1,''
     @ ''"order_book":{"nonce":10,"bids":[{"price":"1.0","size":"1.0"}],'' @ ''"asks":[{"price":"1.1","size":"1.0"}]}}''\<close>

definition fixture_envelopes :: "string list \<Rightarrow> (string \<times> string) list \<times> json list" where
  "fixture_envelopes venues = foldl (\<lambda>(envelopes, mapping_documents) venue.
     if venue = ''hyperliquid'' then (envelopes @ [(''hyperliquid'', FIXTURE_BOOK)], mapping_documents @ [REVIEWED_BTC])
     else if venue = ''lighter'' then (envelopes @ [(''lighter'', FIXTURE_LIGHTER_SNAPSHOT)], mapping_documents @ [REVIEWED_LIGHTER_BTC])
     else (envelopes, mapping_documents)) ([], []) venues"

text \<open>\<open>live\<close> is what the request for the live Hyperliquid book returns or raises.\<close>

definition envelopes_and_mappings :: "string res \<Rightarrow> PublicCaptureConfig \<Rightarrow> ((string \<times> string) list \<times> json list) res" where
  "envelopes_and_mappings live config =
     (if pc_source config = ''fixture'' then Inr (fixture_envelopes (pc_venues config))
      else require (pc_source config = ''public'') ValueError (
           require (''hyperliquid'' \<in> set (pc_venues config)) ValueError (
           rbind live (\<lambda>body. Inr ([(''hyperliquid'', body)], [REVIEWED_BTC])))))"

text \<open>The exit code, and the directory when one was written; the clock and the fresh run identity are arguments.\<close>

definition run_public_capture :: "string res \<Rightarrow> int \<Rightarrow> uuid \<Rightarrow> PublicCaptureConfig \<Rightarrow> package_dir \<Rightarrow> int \<times> package_dir option" where
  "run_public_capture live started u config before_dir =
     (if pc_mode config \<noteq> ''public'' then (2, None)
      else if list_ex (\<lambda>v. v \<notin> {''hyperliquid'', ''lighter''}) (pc_venues config) then (2, None)
      else case pc_output config of
          None \<Rightarrow> (0, None)
        | Some root_path \<Rightarrow>
            (case rbind (envelopes_and_mappings live config) (\<lambda>(envelopes, mapping_documents).
                 write_frozen_package root_path u started (started + 1) (pc_venues config) envelopes mapping_documents before_dir) of
               Inl _ \<Rightarrow> (1, None)
             | Inr pkg \<Rightarrow> (0, Some pkg)))"

text \<open>The console entries: exit codes, and the standard output of the analyzer.\<close>

definition capture_main :: "string res \<Rightarrow> int \<Rightarrow> uuid \<Rightarrow> environment \<Rightarrow> package_dir \<Rightarrow> int \<times> package_dir option" where
  "capture_main live started u env before_dir =
     (case load_public_configuration env of
        Inl _ \<Rightarrow> (2, None)
      | Inr config \<Rightarrow> run_public_capture live started u config before_dir)"

definition analyzer_main :: "(string \<Rightarrow> entry option) \<Rightarrow> (string \<Rightarrow> package_dir) \<Rightarrow> environment \<Rightarrow> (int \<times> string) res" where
  "analyzer_main lookup directory env =
     (case load_analyzer_configuration lookup env of
        Inl _ \<Rightarrow> Inr (2, [])
      | Inr root_path \<Rightarrow>
          (case evaluate_frozen_package (directory root_path) of
             Inl _ \<Rightarrow> Inr (1, [])
           | Inr d \<Rightarrow> rbind (decision_to_canonical_json d) (\<lambda>out. Inr (if sd_decision d = INVALID_DATASET then 1 else 0, out))))"

subsection \<open>Clearing the directory\<close>

text \<open>A listing of a directory: paths are distinct, and what lies below another entry lies below a directory.\<close>

definition listing_ok :: "(string \<times> entry) list \<Rightarrow> bool" where
  "listing_ok t \<longleftrightarrow> distinct (map fst t)
     \<and> list_all (\<lambda>(p, e). CHR ''/'' \<in> set p \<longrightarrow> map_of t (top_part p) = Some Directory) t"

lemma split_on_parts: "q \<in> set (split_on c s) \<Longrightarrow> c \<notin> set q"
  by (induction s arbitrary: q) (auto split: list.splits if_splits)

lemma top_part_plain: "CHR ''/'' \<notin> set p \<Longrightarrow> top_part p = p"
  by (simp add: top_part_def split_on_none)

lemma top_part_child:
  assumes "listing_ok t" and "(p, e) \<in> set t"
  shows "top_part p \<in> set (children t)"
proof (cases "CHR ''/'' \<in> set p")
  case True
  then have d: "(top_part p, Directory) \<in> set t" using assms by (auto simp: listing_ok_def list_all_iff dest: map_of_SomeD)
  have "CHR ''/'' \<notin> set (top_part p)"
  proof -
    obtain x xs where "split_on CHR ''/'' p = x # xs" using split_on_nonempty by (cases "split_on CHR ''/'' p") auto
    moreover have "\<And>q. q \<in> set (split_on CHR ''/'' p) \<Longrightarrow> CHR ''/'' \<notin> set q" by (rule split_on_parts)
    ultimately show ?thesis by (simp add: top_part_def)
  qed
  then show ?thesis using d by (force simp: children_def)
next
  case False
  then show ?thesis using assms(2) by (force simp: children_def top_part_plain)
qed

lemma clear_children:
  assumes "listing_ok t" and "set cs \<subseteq> set (children t)" and "distinct cs"
  shows "foldl clear_child t cs = filter (\<lambda>(p, e). top_part p \<notin> set cs) t"
  using assms(2,3)
proof (induction cs rule: rev_induct)
  case (snoc c cs)
  let ?u = "filter (\<lambda>(p, e). top_part p \<notin> set cs) t"
  have ih: "foldl clear_child t cs = ?u" using snoc by simp
  have c: "CHR ''/'' \<notin> set c" "c \<notin> set cs" using snoc.prems by (auto simp: children_def)
  have m: "map_of ?u c = map_of t c"
    using c by (induction t) (auto simp: top_part_plain)
  have "clear_child ?u c = filter (\<lambda>(p, e). top_part p \<notin> set (cs @ [c])) t"
  proof (cases "path_is_dir (map_of t c) \<and> \<not> path_is_symlink (map_of t c)")
    case True
    then show ?thesis using m by (auto simp: clear_child_def intro!: filter_cong)
  next
    case False
    have "top_part p = c \<longleftrightarrow> p = c" if "(p, e) \<in> set t" for p e
    proof (cases "CHR ''/'' \<in> set p")
      case True
      then have "map_of t (top_part p) = Some Directory" using assms(1) that by (auto simp: listing_ok_def list_all_iff)
      then have "top_part p \<noteq> c" using False by (auto simp: path_defs)
      then show ?thesis using True c by auto
    qed (simp add: top_part_plain)
    then show ?thesis using m False by (auto simp: clear_child_def intro!: filter_cong)
  qed
  then show ?case using ih by simp
qed simp

lemma clear_package_root_empty: "listing_ok t \<Longrightarrow> clear_package_root t = []"
proof -
  assume ok: "listing_ok t"
  have "distinct (children t)" using ok by (simp add: children_def listing_ok_def)
  then have "clear_package_root t = filter (\<lambda>(p, e). top_part p \<notin> set (children t)) t"
    unfolding clear_package_root_def by (intro clear_children [OF ok]) simp_all
  also have "\<dots> = []" using top_part_child [OF ok] by (auto simp: filter_empty_conv)
  finally show ?thesis .
qed

subsection \<open>Lines of JSON\<close>

definition printable :: "string \<Rightarrow> bool" where
  "printable s \<longleftrightarrow> list_all (\<lambda>c. 32 \<le> code c \<and> code c < 128) s"

lemma printable_simps [simp]: "printable (s @ t) \<longleftrightarrow> printable s \<and> printable t"
  "printable (c # s) \<longleftrightarrow> 32 \<le> code c \<and> code c < 128 \<and> printable s" "printable []"
  by (simp_all add: printable_def)

lemma printable_join: "list_all printable ts \<Longrightarrow> printable sep \<Longrightarrow> printable (join sep ts)"
  by (induction sep ts rule: join.induct) auto

lemma printable_dump_string: "printable (dump_string True s)"
proof -
  have h: "d < 16 \<Longrightarrow> 32 \<le> code (hex_digit d) \<and> code (hex_digit d) < 128" for d by (auto simp: hex_digit_def)
  have "code c div 16 < 16" for c by (simp add: div_less_iff_less_mult)
  then have "printable (escape_char True c)" for c using h by (auto simp: escape_char_def)
  then have "printable (concat (map (escape_char True) s))" by (induction s) auto
  then show ?thesis by (simp add: dump_string_def)
qed

lemma printable_int: "printable (int_str i)"
proof -
  have "is_ascii_digit c \<Longrightarrow> 32 \<le> code c \<and> code c < 128" for c by (simp add: is_ascii_digit_def)
  then have "printable (nat_str n)" for n using nat_str_digits [of n] by (auto simp: printable_def list_all_iff)
  then show ?thesis by (simp add: int_str_def)
qed

lemma printable_dumps_default: "dumps_default v = Inr t \<Longrightarrow> printable t"
proof (induction v arbitrary: t)
  case (JList vs)
  then obtain ts where ts: "rmap dumps_default vs = Inr ts" "t = CHR ''['' # join '', '' ts @ '']''"
    by (auto simp: rbind_eq_Inr)
  then have "list_all printable ts" using JList.IH by (auto simp: list_all_iff dest!: rmap_Inr_set)
  then show ?case using ts by (simp add: printable_join)
next
  case (JObj kvs)
  then obtain ts where ts: "rmap (\<lambda>(k, t). rbind t (\<lambda>t. Inr (dump_string True k @ '': '' @ t))) (map (\<lambda>(k, v). (k, dumps_default v)) kvs) = Inr ts"
      "t = CHR ''{'' # join '', '' ts @ ''}''"
    by (auto simp: rbind_eq_Inr)
  have "printable u" if "u \<in> set ts" for u
    using rmap_Inr_set [OF ts(1) that] JObj.IH by (auto simp: rbind_eq_Inr printable_dump_string snds.simps prod_set_simps)
  then show ?case using ts by (simp add: printable_join list_all_iff)
qed (auto simp: dump_int_def printable_int printable_dump_string split: if_splits)

text \<open>A value without floats and repeated keys can be read back once it has been written.\<close>

fun keys_ok :: "json \<Rightarrow> bool" where
  "keys_ok (JList vs) \<longleftrightarrow> list_all keys_ok vs"
| "keys_ok (JObj kvs) \<longleftrightarrow> distinct (map fst kvs) \<and> list_all (\<lambda>(k, v). keys_ok v) kvs"
| "keys_ok v \<longleftrightarrow> True"

lemma dumps_default_json_ok: "dumps_default v = Inr t \<Longrightarrow> keys_ok v \<Longrightarrow> json_ok v"
proof (induction v arbitrary: t)
  case (JList vs)
  then obtain ts where "rmap dumps_default vs = Inr ts" by (auto simp: rbind_eq_Inr)
  then have "\<exists>t. dumps_default v = Inr t" if "v \<in> set vs" for v using that rmap_unit_Inr [of dumps_default vs] by blast
  then show ?case using JList by (auto simp: list_all_iff)
next
  case (JObj kvs)
  let ?f = "\<lambda>(k, t). rbind t (\<lambda>t. Inr (dump_string True k @ '': '' @ t))" and ?g = "\<lambda>(k, v). (k, dumps_default v)"
  obtain ts where "rmap ?f (map ?g kvs) = Inr ts" using JObj.prems by (auto simp: rbind_eq_Inr)
  then have "\<forall>x \<in> set (map ?g kvs). \<exists>y. ?f x = Inr y" using rmap_unit_Inr [of ?f "map ?g kvs"] by blast
  then have "\<exists>t. dumps_default v = Inr t" if "(k, v) \<in> set kvs" for k v using that by (force simp: rbind_eq_Inr)
  then show ?case using JObj by (fastforce simp: list_all_iff snds.simps prod_set_simps)
qed (auto simp: dump_int_def split: if_splits)

lemma dumps_json_ok: "dumps asc v = Inr t \<Longrightarrow> keys_ok v \<Longrightarrow> json_ok v"
proof (induction v arbitrary: t)
  case (JList vs)
  then obtain ts where "rmap (dumps asc) vs = Inr ts" by (auto simp: rbind_eq_Inr)
  then have "\<exists>t. dumps asc v = Inr t" if "v \<in> set vs" for v using that rmap_unit_Inr [of "dumps asc" vs] by blast
  then show ?case using JList by (auto simp: list_all_iff)
next
  case (JObj kvs)
  let ?f = "\<lambda>(k, t). rbind t (\<lambda>t. Inr (dump_string asc k @ CHR '':'' # t))" and ?g = "\<lambda>(k, v). (k, dumps asc v)"
  obtain ts where "rmap ?f (sort_key fst (map ?g kvs)) = Inr ts" using JObj.prems by (auto simp: rbind_eq_Inr)
  then have "\<forall>x \<in> set (sort_key fst (map ?g kvs)). \<exists>y. ?f x = Inr y" using rmap_unit_Inr [of ?f "sort_key fst (map ?g kvs)"] by blast
  then have "\<exists>t. dumps asc v = Inr t" if "(k, v) \<in> set kvs" for k v using that by (force simp: rbind_eq_Inr)
  then show ?case using JObj by (fastforce simp: list_all_iff snds.simps prod_set_simps)
qed (auto simp: dump_int_def split: if_splits)

lemma json_line_Inr:
  assumes "json_line v = Inr l" and "keys_ok v"
  shows "\<exists>t. l = t @ [CHR 0x0A] \<and> printable t \<and> loads t = Inr v \<and> loads l = Inr v"
proof -
  obtain t where t: "dumps_default v = Inr t" "l = t @ [CHR 0x0A]" using assms(1) by (auto simp: json_line_def)
  have ok: "json_ok v" by (rule dumps_default_json_ok [OF t(1) assms(2)])
  show ?thesis using t printable_dumps_default [OF t(1)] loads_default [OF ok t(1), of "[]"] loads_default [OF ok t(1), of "[CHR 0x0A]"] by auto
qed

lemma universal_newlines_id: "CHR 0x0D \<notin> set s \<Longrightarrow> universal_newlines s = s"
  by (induction s) auto

lemma printable_breaks: "printable t \<Longrightarrow> c \<in> set t \<Longrightarrow> \<not> is_line_break c \<and> c \<noteq> CHR 0x0D"
  by (auto simp: printable_def list_all_iff is_line_break_def)

lemma splitlines_line: "printable t \<Longrightarrow> splitlines (t @ CHR 0x0A # s) = t # splitlines s"
proof (induction t)
  case Nil
  then show ?case by (simp add: is_line_break_def)
next
  case (Cons c t)
  then have ih: "splitlines (t @ CHR 0x0A # s) = t # splitlines s" by simp
  have c: "\<not> is_line_break c" using printable_breaks [OF Cons.prems] by simp
  show ?case
  proof (cases t)
    case Nil
    then show ?thesis using c ih by (simp add: is_line_break_def)
  next
    case (Cons d u)
    then have "\<not> is_line_break d" using printable_breaks [OF \<open>printable (c # t)\<close>] by simp
    then show ?thesis using c ih Cons by simp
  qed
qed

definition text_lines :: "string list \<Rightarrow> string" where
  "text_lines ts = concat (map (\<lambda>t. t @ [CHR 0x0A]) ts)"

lemma splitlines_lines: "list_all printable ts \<Longrightarrow> splitlines (text_lines ts) = ts"
  by (induction ts) (simp_all add: text_lines_def splitlines_line)

lemma printable_no_return: "printable t \<Longrightarrow> CHR 0x0D \<notin> set t"
  using printable_breaks by blast

lemma text_lines_plain: "list_all printable ts \<Longrightarrow> universal_newlines (text_lines ts) = text_lines ts"
proof (rule universal_newlines_id)
  show "list_all printable ts \<Longrightarrow> CHR 0x0D \<notin> set (text_lines ts)"
    by (induction ts) (simp_all add: text_lines_def printable_no_return)
qed

subsection \<open>Hexadecimal payloads\<close>

lemma fromhex_bytes_hex: "fromhex (bytes_hex b) = Inr b"
proof (induction b)
  case (Cons c b)
  let ?h = "code c div 16" and ?l = "code c mod 16"
  have d: "?h < 16" "?l < 16" by (simp_all add: div_less_iff_less_mult)
  have s: "\<not> is_ascii_space (hex_digit ?h)" using d(1) by (auto simp: is_ascii_space_def hex_digit_def)
  have "char_of (16 * ?h + ?l) = c" by simp
  then show ?case using Cons d s by (simp add: bytes_hex_def hex_val_digit)
qed (simp add: bytes_hex_def)

subsection \<open>What is written\<close>

record member_bytes =
  mb_control :: string
  mb_batch :: string
  mb_envelopes :: string
  mb_quality :: string
  mb_mapping :: string
  mb_terminal :: string

definition member_files :: "member_bytes \<Rightarrow> (string \<times> string) list" where
  "member_files m = [(''control_evidence/records.ndjson'', mb_control m), (''raw_batches/0.bin'', mb_batch m),
     (''raw_envelopes/records.ndjson'', mb_envelopes m), (''quality_minutes/records.ndjson'', mb_quality m),
     (''mapping_snapshot.json'', mb_mapping m), (''terminal.json'', mb_terminal m)]"

definition written_tree :: "member_bytes \<Rightarrow> (string \<times> entry) list" where
  "written_tree m = [(''control_evidence'', Directory), (''control_evidence/records.ndjson'', RegularFile (mb_control m)),
     (''raw_batches'', Directory), (''raw_batches/0.bin'', RegularFile (mb_batch m)),
     (''raw_envelopes'', Directory), (''raw_envelopes/records.ndjson'', RegularFile (mb_envelopes m)),
     (''quality_minutes'', Directory), (''quality_minutes/records.ndjson'', RegularFile (mb_quality m)),
     (''mapping_snapshot.json'', RegularFile (mb_mapping m)), (''terminal.json'', RegularFile (mb_terminal m))]"

lemma member_parents:
  "parent_paths ''control_evidence/records.ndjson'' = [''control_evidence'']" "parent_paths ''raw_batches/0.bin'' = [''raw_batches'']"
  "parent_paths ''raw_envelopes/records.ndjson'' = [''raw_envelopes'']" "parent_paths ''quality_minutes/records.ndjson'' = [''quality_minutes'']"
  "parent_paths ''mapping_snapshot.json'' = []" "parent_paths ''terminal.json'' = []"
  by code_simp+

lemma put_members: "rfold put_member [] (member_files m) = Inr (written_tree m)"
  by (simp add: member_files_def written_tree_def put_member_def make_directory_def write_bytes_def member_parents)

lemma written_files_ok: "files_ok (member_files m)"
proof -
  have "map fst (member_files m) = REQUIRED_MEMBERS" by (simp add: member_files_def REQUIRED_MEMBERS_def)
  then have f: "map fst (member_files m) = REQUIRED_MEMBERS" "fst ` set (member_files m) = set REQUIRED_MEMBERS" by (auto simp flip: set_map)
  have "distinct REQUIRED_MEMBERS" and "''manifest.json'' \<notin> set REQUIRED_MEMBERS" by code_simp+
  moreover have "list_all (\<lambda>(p, b). require_relative_member p = Inr ()) (member_files m)"
  proof -
    have "require_relative_member p = Inr ()" if "(p, b) \<in> set (member_files m)" for p b
    proof -
      have "p \<in> fst ` set (member_files m)" using that by force
      then show ?thesis unfolding f(2) by (rule required_relative)
    qed
    then show ?thesis by (auto simp: list_all_iff)
  qed
  ultimately show ?thesis unfolding files_ok_def f by simp
qed

lemma capture_json_bytes_eq: "capture_json_bytes = package_json_bytes"
  by (simp add: fun_eq_iff capture_json_bytes_def package_json_bytes_def)

lemma unsigned_manifest_ok:
  assumes "package_json_bytes (JObj (unsigned_manifest u started venues files)) = Inr b"
  shows "manifest_ok (unsigned_manifest u started venues files)"
proof -
  obtain t where "dumps True (JObj (unsigned_manifest u started venues files)) = Inr t" using assms by (auto simp: package_json_bytes_def rbind_eq_Inr)
  moreover have "keys_ok (JObj (unsigned_manifest u started venues files))"
    by (simp add: unsigned_manifest_def list_all_iff declared_member_def case_prod_beta)
  ultimately have "json_ok (JObj (unsigned_manifest u started venues files))" by (rule dumps_json_ok)
  then show ?thesis by (simp add: manifest_ok_def unsigned_manifest_def)
qed

lemma written_package_holds:
  assumes "pkg = \<lparr>root_entry = Some Directory, tree = written_tree m @ [(''manifest.json'', RegularFile (bytes_of (JObj (seal flds))))]\<rparr>"
  shows "holds_package pkg flds (member_files m)"
proof -
  have "plain_tree pkg" by (simp add: assms plain_tree_def written_tree_def)
  moreover have "regular_files pkg = insert ''manifest.json'' (fst ` set (member_files m))"
  proof -
    have "regular_files pkg = set (map fst (filter (\<lambda>(p, e). case e of RegularFile _ \<Rightarrow> True | _ \<Rightarrow> False) (tree pkg)))"
      by (force simp: regular_files_def split: entry.splits)
    also have "map fst (filter (\<lambda>(p, e). case e of RegularFile _ \<Rightarrow> True | _ \<Rightarrow> False) (tree pkg)) = map fst (member_files m) @ [''manifest.json'']"
      by (simp add: assms written_tree_def member_files_def)
    finally show ?thesis by simp
  qed
  moreover have "entry_at pkg ''manifest.json'' = Some (RegularFile (bytes_of (JObj (seal flds))))"
    by (simp add: assms entry_at_def written_tree_def)
  moreover have "list_all (\<lambda>(p, b). entry_at pkg p = Some (RegularFile b)) (member_files m)"
    by (simp add: assms entry_at_def written_tree_def member_files_def)
  ultimately show ?thesis by (simp add: holds_package_def assms)
qed

lemma written_accepted:
  assumes "package_json_bytes (JObj (unsigned_manifest u started venues (member_files m))) = Inr b" and "uuid_int u < 2 ^ 128"
    and "pkg = \<lparr>root_entry = Some Directory,
      tree = written_tree m @ [(''manifest.json'', RegularFile (bytes_of (JObj (seal (unsigned_manifest u started venues (member_files m))))))]\<rparr>"
  shows "reader_init pkg = Inr \<lparr>reader_root = pkg, run_id = u, reader_document = sealed_document (unsigned_manifest u started venues (member_files m)),
    declared = digests (member_files m)\<rparr>"
proof (rule held_package_accepted [OF written_package_holds [OF assms(3)] written_files_ok unsigned_manifest_ok [OF assms(1)] _ _ _ assms(2)])
  show "map_of (unsigned_manifest u started venues (member_files m)) ''members'' = Some (JList (map declared_member (member_files m)))"
    "map_of (unsigned_manifest u started venues (member_files m)) ''capture_run_id'' = Some (JStr (uuid_str u))"
    by (simp_all add: unsigned_manifest_def)
  show "list_all2 declares (map declared_member (member_files m)) (member_files m)"
    by (simp add: list_all2_conv_all_nth declares_def declared_member_def case_prod_beta)
qed

lemma package_members_Inr:
  assumes "package_members started terminated venues envelopes docs = Inr members"
  shows "\<exists>m ls cl ql sl tl. members = member_files m \<and> venues \<noteq> [] \<and> mb_batch m = snd (hd envelopes)
    \<and> rmap (\<lambda>e. json_line (envelope_document started e)) (enumerate_from_0 envelopes) = Inr ls \<and> mb_envelopes m = utf8_encode (concat ls)
    \<and> json_line (JObj [(''recorded_at_ms'', JInt started), (''kind'', JStr ''epoch''), (''payload_sha256'', JStr (sha256_bytes (snd (hd envelopes))))]) = Inr cl
    \<and> mb_control m = utf8_encode cl
    \<and> json_line (JObj [(''minute_start_ms'', JInt (started - started mod 60000)), (''venue'', JStr (hd venues)), (''accepted'', JInt 1), (''rejected'', JInt 0)]) = Inr ql
    \<and> mb_quality m = utf8_encode ql
    \<and> json_line (JObj [(''mappings'', JList docs)]) = Inr sl \<and> mb_mapping m = utf8_encode sl
    \<and> json_line (JObj [(''terminated_at_ms'', JInt terminated), (''status'', JStr ''sealed'')]) = Inr tl \<and> mb_terminal m = tl"
proof -
  obtain ls cl ql sl tl where k: "rmap (\<lambda>e. json_line (envelope_document started e)) (enumerate_from_0 envelopes) = Inr ls" "venues \<noteq> []"
    "json_line (JObj [(''recorded_at_ms'', JInt started), (''kind'', JStr ''epoch''), (''payload_sha256'', JStr (sha256_bytes (snd (hd envelopes))))]) = Inr cl"
    "json_line (JObj [(''minute_start_ms'', JInt (started - started mod 60000)), (''venue'', JStr (hd venues)), (''accepted'', JInt 1), (''rejected'', JInt 0)]) = Inr ql"
    "json_line (JObj [(''mappings'', JList docs)]) = Inr sl"
    "json_line (JObj [(''terminated_at_ms'', JInt terminated), (''status'', JStr ''sealed'')]) = Inr tl"
    and m: "members = member_files \<lparr>mb_control = utf8_encode cl, mb_batch = snd (hd envelopes), mb_envelopes = utf8_encode (concat ls),
       mb_quality = utf8_encode ql, mb_mapping = utf8_encode sl, mb_terminal = tl\<rparr>"
    using assms unfolding package_members_def envelope_ndjson_def Let_def
    by (elim rbind_InrE) (auto simp: rbind_eq_Inr ascii_decode_def require_eq_Inr member_files_def split: if_splits)
  show ?thesis
    by (rule exI [of _ "\<lparr>mb_control = utf8_encode cl, mb_batch = snd (hd envelopes), mb_envelopes = utf8_encode (concat ls),
       mb_quality = utf8_encode ql, mb_mapping = utf8_encode sl, mb_terminal = tl\<rparr>"], intro exI conjI) (rule m k | simp)+
qed

lemma written_tree_no_manifest: "map_of (written_tree m) ''manifest.json'' = None"
  by (simp add: written_tree_def)

lemma write_frozen_package_Inr:
  assumes "write_frozen_package path u started terminated venues envelopes docs before_dir = Inr pkg" and "listing_ok (tree before_dir)"
  shows "\<exists>m b. package_members started terminated venues envelopes docs = Inr (member_files m)
    \<and> package_json_bytes (JObj (unsigned_manifest u started venues (member_files m))) = Inr b
    \<and> pkg = \<lparr>root_entry = Some Directory,
      tree = written_tree m @ [(''manifest.json'', RegularFile (bytes_of (JObj (seal (unsigned_manifest u started venues (member_files m))))))]\<rparr>"
proof -
  have clear: "(if root_entry before_dir = None then [] else clear_package_root (tree before_dir)) = []"
    using clear_package_root_empty [OF assms(2)] by simp
  obtain members t b manifest t' where s: "package_members started terminated venues envelopes docs = Inr members"
      "rfold put_member [] members = Inr t" "package_json_bytes (JObj (unsigned_manifest u started venues members)) = Inr b"
      "package_json_bytes (JObj (unsigned_manifest u started venues members @ [(''manifest_sha256'', JStr (sha256_bytes b))])) = Inr manifest"
      "write_bytes t ''manifest.json'' manifest = Inr t'" "(Inr \<lparr>root_entry = Some Directory, tree = t'\<rparr> :: package_dir res) = Inr pkg"
  proof -
    show thesis using assms(1) unfolding write_frozen_package_def Let_def clear capture_json_bytes_eq require_eq_Inr
      by (elim conjE rbind_InrE) (rule that, assumption+)
  qed
  obtain m where m: "members = member_files m" using package_members_Inr [OF s(1)] by blast
  have t: "t = written_tree m" using s(2) put_members [of m] by (simp add: m)
  have b: "b = bytes_of (JObj (unsigned_manifest u started venues members))" using s(3) by (simp add: bytes_of_def)
  have "manifest = bytes_of (JObj (seal (unsigned_manifest u started venues members)))"
    using s(4) by (simp add: seal_def b bytes_of_def)
  moreover have "t' = t @ [(''manifest.json'', RegularFile manifest)]" using s(5) by (simp add: write_bytes_def t written_tree_no_manifest)
  ultimately have "pkg = \<lparr>root_entry = Some Directory,
      tree = written_tree m @ [(''manifest.json'', RegularFile (bytes_of (JObj (seal (unsigned_manifest u started venues (member_files m))))))]\<rparr>"
    using s(6) t m by simp
  then show ?thesis using s(1,3) m by blast
qed

subsection \<open>Reading it back\<close>

lemma utf8_encode_printable: "printable s \<Longrightarrow> utf8_encode s = s" "utf8_encode (s @ t) = utf8_encode s @ utf8_encode t"
  by (induction s) (simp_all add: utf8_encode_def utf8_char_def)

lemma lines_read:
  assumes "rmap (\<lambda>x. json_line (f x)) xs = Inr ls" and "list_all (\<lambda>x. keys_ok (f x) \<and> (\<exists>d. f x = JObj d)) xs"
  shows "\<exists>ts. concat ls = text_lines ts \<and> list_all printable ts \<and> rmap ndjson_row ts = Inr (map f xs)"
  using assms
proof (induction xs arbitrary: ls)
  case (Cons x xs)
  obtain l ks where l: "json_line (f x) = Inr l" "rmap (\<lambda>x. json_line (f x)) xs = Inr ks" "ls = l # ks"
    using Cons.prems(1) by (auto simp: rbind_eq_Inr)
  obtain t where t: "l = t @ [CHR 0x0A]" "printable t" "loads t = Inr (f x)" using json_line_Inr [OF l(1)] Cons.prems(2) by auto
  obtain ts where ts: "concat ks = text_lines ts" "list_all printable ts" "rmap ndjson_row ts = Inr (map f xs)"
    using Cons.IH [OF l(2)] Cons.prems(2) by auto
  have "ndjson_row t = Inr (f x)" using t(3) Cons.prems(2) by (auto simp: ndjson_row_def)
  then show ?case using l(3) t ts by (intro exI [of _ "t # ts"]) (simp add: text_lines_def)
qed (simp add: text_lines_def)

lemma read_ndjson_lines:
  assumes "entry_at (reader_root r) p = Some (RegularFile (utf8_encode (text_lines ts)))" and "list_all printable ts"
  shows "read_ndjson r p = rmap ndjson_row ts"
proof -
  have "read_text r p = Inr (text_lines ts)"
    using assms by (simp add: read_text_def path_defs utf8_roundtrip text_lines_plain)
  moreover have "text_lines ts = [] \<longleftrightarrow> ts = []" by (cases ts) (simp_all add: text_lines_def)
  ultimately show ?thesis using splitlines_lines [OF assms(2)] by (simp add: read_ndjson_def)
qed

lemma read_one_line:
  assumes "json_line (JObj d) = Inr l" and "keys_ok (JObj d)" and "entry_at (reader_root r) p = Some (RegularFile (utf8_encode l))"
  shows "read_ndjson r p = Inr [JObj d]"
proof -
  obtain ts where ts: "concat [l] = text_lines ts" "list_all printable ts" "rmap ndjson_row ts = Inr (map (\<lambda>x. JObj d) [()])"
    using lines_read [of "\<lambda>x. JObj d" "[()]" "[l]"] assms(1,2) by auto
  then have e: "entry_at (reader_root r) p = Some (RegularFile (utf8_encode (text_lines ts)))" using assms(3) by simp
  then show ?thesis using ts(3) by (simp add: read_ndjson_lines [OF e ts(2)])
qed

definition captured_envelope :: "uuid \<Rightarrow> int \<Rightarrow> int \<times> string \<times> string \<Rightarrow> RawPublicEnvelope" where
  "captured_envelope u started = (\<lambda>(i, venue, body). \<lparr>en_capture_run_id = u, en_index = i, observed_at_ms = started, en_venue = venue,
     en_payload_sha256 = sha256_bytes body, payload = body\<rparr>)"

lemma envelope_row_document:
  assumes "0 \<le> fst e" "fst (snd e) \<noteq> []" "0 \<le> started"
  shows "envelope_row r (envelope_document started e) = Inr (captured_envelope (run_id r) started e)"
  using assms
  by (cases e) (simp add: envelope_row_def envelope_document_def row_str_def row_int_def row_index_def jindex_def fromhex_bytes_hex
      raw_public_envelope_Inr envelope_wf_def captured_envelope_def is_sha256_digest)

lemma enumerate_facts: "set (enumerate_from_0 xs) \<subseteq> {e. 0 \<le> fst e \<and> snd e \<in> set xs}"
  by (auto simp: enumerate_from_0_def in_set_zip)

text \<open>The records that a package written for these arguments holds.\<close>

definition captured_records :: "uuid \<Rightarrow> int \<Rightarrow> int \<Rightarrow> string list \<Rightarrow> (string \<times> string) list \<Rightarrow> MarketMappingEvidence list \<Rightarrow> sealed_records" where
  "captured_records u started terminated venues envelopes ms =
     \<lparr>sr_manifest = \<lparr>mf_capture_run_id = u, started_at_ms = started, venue_set = venues, schema_version = PACKAGE_SCHEMA\<rparr>,
      sr_terminal = \<lparr>tm_capture_run_id = u, terminated_at_ms = terminated, status = ''sealed''\<rparr>,
      sr_envelopes = map (captured_envelope u started) (enumerate_from_0 envelopes),
      sr_minutes = [\<lparr>qm_capture_run_id = u, minute_start_ms = started - started mod 60000, qm_venue = hd venues, accepted = 1, rejected = 0\<rparr>],
      sr_mappings = ms\<rparr>"

lemma written_envelopes:
  assumes "rmap (\<lambda>e. json_line (envelope_document started e)) (enumerate_from_0 envelopes) = Inr ls"
    and "entry_at (reader_root r) ''raw_envelopes/records.ndjson'' = Some (RegularFile (utf8_encode (concat ls)))"
    and "0 \<le> started" and "list_all (\<lambda>(v, b). v \<noteq> []) envelopes"
  shows "iter_raw_envelopes r (run_id r) = Inr (map (captured_envelope (run_id r) started) (enumerate_from_0 envelopes))"
proof -
  have ok: "list_all (\<lambda>e. keys_ok (envelope_document started e) \<and> (\<exists>d. envelope_document started e = JObj d)) (enumerate_from_0 envelopes)"
    by (auto simp: list_all_iff envelope_document_def)
  obtain ts where ts: "concat ls = text_lines ts" "list_all printable ts"
      "rmap ndjson_row ts = Inr (map (envelope_document started) (enumerate_from_0 envelopes))"
    using lines_read [OF assms(1) ok] by (elim exE conjE)
  have "entry_at (reader_root r) ''raw_envelopes/records.ndjson'' = Some (RegularFile (utf8_encode (text_lines ts)))" using assms(2) ts(1) by simp
  then have rd: "read_ndjson r ''raw_envelopes/records.ndjson'' = Inr (map (envelope_document started) (enumerate_from_0 envelopes))"
    using read_ndjson_lines [OF _ ts(2)] ts(3) by simp
  have "rmap (envelope_row r) (map (envelope_document started) (enumerate_from_0 envelopes))
      = Inr (map (captured_envelope (run_id r) started) (enumerate_from_0 envelopes))"
    unfolding rmap_map
  proof (rule rmap_total)
    fix e assume "e \<in> set (enumerate_from_0 envelopes)"
    then have "0 \<le> fst e" "snd e \<in> set envelopes" using enumerate_facts by auto
    moreover have "fst (snd e) \<noteq> []" using assms(4) calculation(2) by (auto simp: list_all_iff case_prod_beta)
    ultimately show "envelope_row r (envelope_document started e) = Inr (captured_envelope (run_id r) started e)"
      using assms(3) by (intro envelope_row_document)
  qed
  then show ?thesis by (simp add: iter_raw_envelopes_def require_run_def rd)
qed

lemma written_singles:
  assumes "json_line (JObj [(''recorded_at_ms'', JInt started), (''kind'', JStr ''epoch''), (''payload_sha256'', JStr (sha256_bytes body))]) = Inr cl"
    and "entry_at (reader_root r) ''control_evidence/records.ndjson'' = Some (RegularFile (utf8_encode cl))"
    and "json_line (JObj [(''minute_start_ms'', JInt (started - started mod 60000)), (''venue'', JStr v), (''accepted'', JInt 1), (''rejected'', JInt 0)]) = Inr ql"
    and "entry_at (reader_root r) ''quality_minutes/records.ndjson'' = Some (RegularFile (utf8_encode ql))"
    and "0 \<le> started" "v \<noteq> []"
  shows "\<exists>c. iter_control_evidence r (run_id r) = Inr c"
    and "iter_quality_minutes r (run_id r) = Inr [\<lparr>qm_capture_run_id = run_id r, minute_start_ms = started - started mod 60000, qm_venue = v, accepted = 1, rejected = 0\<rparr>]"
proof -
  have "started mod 60000 \<le> started" using assms(5) by (simp add: zmod_le_nonneg_dividend)
  note rows = read_one_line [OF assms(1) _ assms(2)] read_one_line [OF assms(3) _ assms(4)]
  show "\<exists>c. iter_control_evidence r (run_id r) = Inr c"
    using assms(5) by (simp add: iter_control_evidence_def require_run_def rows(1) control_row_def row_str_def row_int_def row_index_def jindex_def
        control_evidence_record_def is_sha256_digest require_evidence_timestamp_def)
  show "iter_quality_minutes r (run_id r) = Inr [\<lparr>qm_capture_run_id = run_id r, minute_start_ms = started - started mod 60000, qm_venue = v, accepted = 1, rejected = 0\<rparr>]"
    using assms(6) \<open>started mod 60000 \<le> started\<close>
    by (simp add: iter_quality_minutes_def require_run_def rows(2) quality_row_def row_str_def row_int_def row_index_def jindex_def
        quality_minute_record_def require_evidence_timestamp_def)
qed

lemma written_terminal:
  assumes "json_line (JObj [(''terminated_at_ms'', JInt terminated), (''status'', JStr ''sealed'')]) = Inr tline"
    and "entry_at (reader_root r) ''terminal.json'' = Some (RegularFile tline)" and "0 \<le> terminated"
  shows "capture_terminal r (run_id r) = Inr \<lparr>tm_capture_run_id = run_id r, terminated_at_ms = terminated, status = ''sealed''\<rparr>"
proof -
  obtain t where t: "tline = t @ [CHR 0x0A]" "printable t" "loads tline = Inr (JObj [(''terminated_at_ms'', JInt terminated), (''status'', JStr ''sealed'')])"
    using json_line_Inr [OF assms(1)] by auto
  have n: "universal_newlines tline = tline" using text_lines_plain [of "[t]"] t(1,2) by (simp add: text_lines_def)
  have "utf8_encode tline = tline" using t(1,2) utf8_encode_printable by (simp add: utf8_encode_def utf8_char_def)
  then have "utf8_decode tline = Inr tline" using utf8_roundtrip [of tline] by simp
  then show ?thesis using assms(2,3) t(3) n
    by (simp add: capture_terminal_def require_run_def read_text_def path_defs row_str_def row_int_def row_index_def jindex_def capture_terminal_record_def require_evidence_timestamp_def)
qed

lemma written_mappings:
  assumes "json_line (JObj [(''mappings'', JList docs)]) = Inr sl" and "list_all keys_ok docs"
    and "entry_at (reader_root r) ''mapping_snapshot.json'' = Some (RegularFile (utf8_encode sl))"
    and "rmap mapping_from_document docs = Inr ms"
  shows "\<exists>snap. read_mapping_snapshot r (run_id r) = Inr snap \<and> mappings snap = ms"
proof -
  have "loads sl = Inr (JObj [(''mappings'', JList docs)])" using json_line_Inr [OF assms(1)] assms(2) by auto
  then show ?thesis using assms(3,4)
    by (simp add: read_mapping_snapshot_def require_run_def path_defs utf8_roundtrip jget_def mapping_snapshot_def is_sha256_digest)
qed

lemma written_batch:
  assumes "entry_at (reader_root r) ''raw_batches/0.bin'' = Some (RegularFile b)"
  shows "\<exists>bs. iter_raw_batches r (run_id r) = Inr bs"
  using assms by (simp add: iter_raw_batches_def require_run_def path_defs raw_batch_record_def is_sha256_digest Let_def)

lemma written_manifest:
  assumes "manifest_ok (unsigned_manifest u started venues files)" and "reader_document r = sealed_document (unsigned_manifest u started venues files)"
    and "venues \<noteq> []" "0 \<le> started"
  shows "read_capture_manifest r (run_id r) = Inr \<lparr>mf_capture_run_id = run_id r, started_at_ms = started, venue_set = venues, schema_version = PACKAGE_SCHEMA\<rparr>"
proof -
  have "jget (reader_document r) ''venue_set'' = JList (map JStr venues)"
    using sealed_document_field [OF assms(1), of "''venue_set''"] by (simp add: assms(2) jget_def unsigned_manifest_def comp_def)
  moreover have "jget (reader_document r) ''started_at_ms'' = JInt started"
    using sealed_document_field [OF assms(1), of "''started_at_ms''"] by (simp add: assms(2) jget_def unsigned_manifest_def)
  moreover have "rmap venue_name (map JStr venues) = Inr venues" by (induction venues) (simp_all add: venue_name_def)
  ultimately show ?thesis using assms(3,4)
    by (simp add: read_capture_manifest_def require_run_def capture_manifest_def PACKAGE_SCHEMA_def require_evidence_timestamp_def)
qed

lemma written_entries:
  assumes "pkg = \<lparr>root_entry = Some Directory, tree = written_tree m @ [(''manifest.json'', x)]\<rparr>"
  shows "entry_at pkg ''control_evidence/records.ndjson'' = Some (RegularFile (mb_control m))" "entry_at pkg ''raw_batches/0.bin'' = Some (RegularFile (mb_batch m))"
    "entry_at pkg ''raw_envelopes/records.ndjson'' = Some (RegularFile (mb_envelopes m))" "entry_at pkg ''quality_minutes/records.ndjson'' = Some (RegularFile (mb_quality m))"
    "entry_at pkg ''mapping_snapshot.json'' = Some (RegularFile (mb_mapping m))" "entry_at pkg ''terminal.json'' = Some (RegularFile (mb_terminal m))"
  by (simp_all add: assms entry_at_def written_tree_def)

lemma written_read_back:
  assumes "write_frozen_package path u started terminated venues envelopes docs before_dir = Inr pkg" and "listing_ok (tree before_dir)"
    and "uuid_int u < 2 ^ 128" "0 \<le> started" "0 \<le> terminated"
    and "[] \<notin> set venues" "list_all (\<lambda>(v, b). v \<noteq> []) envelopes" "list_all keys_ok docs" "rmap mapping_from_document docs = Inr ms"
  shows "\<exists>r. reader_init pkg = Inr r \<and> run_id r = u \<and> read_records r = Inr (captured_records u started terminated venues envelopes ms)"
proof -
  obtain m b where w: "package_members started terminated venues envelopes docs = Inr (member_files m)"
      "package_json_bytes (JObj (unsigned_manifest u started venues (member_files m))) = Inr b"
    and pkg: "pkg = \<lparr>root_entry = Some Directory,
      tree = written_tree m @ [(''manifest.json'', RegularFile (bytes_of (JObj (seal (unsigned_manifest u started venues (member_files m))))))]\<rparr>"
    using write_frozen_package_Inr [OF assms(1,2)] by (elim exE conjE)
  obtain m' ls cl ql sl tline where k: "member_files m = member_files m'" "venues \<noteq> []"
      "rmap (\<lambda>e. json_line (envelope_document started e)) (enumerate_from_0 envelopes) = Inr ls" "mb_envelopes m' = utf8_encode (concat ls)"
      "json_line (JObj [(''recorded_at_ms'', JInt started), (''kind'', JStr ''epoch''), (''payload_sha256'', JStr (sha256_bytes (snd (hd envelopes))))]) = Inr cl"
      "mb_control m' = utf8_encode cl"
      "json_line (JObj [(''minute_start_ms'', JInt (started - started mod 60000)), (''venue'', JStr (hd venues)), (''accepted'', JInt 1), (''rejected'', JInt 0)]) = Inr ql"
      "mb_quality m' = utf8_encode ql" "json_line (JObj [(''mappings'', JList docs)]) = Inr sl" "mb_mapping m' = utf8_encode sl"
      "json_line (JObj [(''terminated_at_ms'', JInt terminated), (''status'', JStr ''sealed'')]) = Inr tline" "mb_terminal m' = tline"
    using package_members_Inr [OF w(1)] by (elim exE conjE)
  have mm: "mb_control m = mb_control m'" "mb_batch m = mb_batch m'" "mb_envelopes m = mb_envelopes m'" "mb_quality m = mb_quality m'"
    "mb_mapping m = mb_mapping m'" "mb_terminal m = mb_terminal m'"
    using k(1) by (simp_all add: member_files_def)
  define r where "r = \<lparr>reader_root = pkg, run_id = u, reader_document = sealed_document (unsigned_manifest u started venues (member_files m)),
    declared = digests (member_files m)\<rparr>"
  have acc: "reader_init pkg = Inr r" unfolding r_def by (rule written_accepted [OF w(2) assms(3) pkg])
  have u: "run_id r = u" and root: "reader_root r = pkg" and doc: "reader_document r = sealed_document (unsigned_manifest u started venues (member_files m))"
    by (simp_all add: r_def)
  note e = written_entries [OF pkg, folded root, unfolded mm k(4,6,8,10,12)]
  have hv: "hd venues \<noteq> []" using k(2) assms(6) by (cases venues) auto
  obtain c where c: "iter_control_evidence r (run_id r) = Inr c" using written_singles(1) [OF k(5) e(1) k(7) e(4) assms(4) hv] by blast
  obtain bs where bs: "iter_raw_batches r (run_id r) = Inr bs" using written_batch [OF e(2)] by blast
  obtain snap where snap: "read_mapping_snapshot r (run_id r) = Inr snap" "mappings snap = ms" using written_mappings [OF k(9) assms(8) e(5) assms(9)] by blast
  have "read_records r = Inr (captured_records u started terminated venues envelopes ms)"
    unfolding read_records_def
    using written_manifest [OF unsigned_manifest_ok [OF w(2)] doc k(2) assms(4)] written_terminal [OF k(11) e(6) assms(5)] c bs snap
      written_envelopes [OF k(3) e(3) assms(4,7)] written_singles(2) [OF k(5) e(1) k(7) e(4) assms(4) hv]
    by (simp add: captured_records_def u)
  then show ?thesis using acc u by blast
qed

subsection \<open>Writing succeeds\<close>

text \<open>An upper bound of the length of a dumped value.\<close>

fun weight :: "json \<Rightarrow> nat" where
  "weight (JStr s) = 6 * length s + 2"
| "weight (JInt i) = length (int_str i)"
| "weight (JList vs) = sum_list (map (\<lambda>v. weight v + 2) vs) + 2"
| "weight (JObj kvs) = sum_list (map (\<lambda>(k, w). 6 * length k + w + 6) (map (\<lambda>(k, v). (k, weight v)) kvs)) + 2"
| "weight v = 5"

lemma length_dump_string: "length (dump_string True s) \<le> 6 * length s + 2"
proof -
  have "length (escape_char True c) \<le> 6" for c by (simp add: escape_char_def)
  then have "length (concat (map (escape_char True) s)) \<le> 6 * length s"
  proof (induction s)
    case (Cons c s)
    then show ?case using add_mono [OF Cons.prems [of c] Cons.IH [OF Cons.prems]] by simp
  qed simp
  then show ?thesis by (simp add: dump_string_def)
qed

lemma length_join: "length (join '', '' ts) \<le> sum_list (map (\<lambda>t. length t + 2) ts)"
proof (induction ts rule: induct_list012)
  case (3 x y zs)
  then show ?case by simp
qed simp_all

lemma weight_bound: "dumps_default v = Inr t \<Longrightarrow> length t \<le> weight v"
proof (induction v arbitrary: t)
  case (JList vs)
  then obtain ts where ts: "rmap dumps_default vs = Inr ts" "t = CHR ''['' # join '', '' ts @ '']''" by (auto simp: rbind_eq_Inr)
  have "sum_list (map (\<lambda>t. length t + 2) ts) \<le> sum_list (map (\<lambda>v. weight v + 2) vs)"
    using ts(1) JList.IH by (induction vs arbitrary: ts) (fastforce simp: rbind_eq_Inr intro: add_mono)+
  then show ?case using length_join [of ts] ts(2) by simp
next
  case (JObj kvs)
  let ?f = "\<lambda>(k, t). rbind t (\<lambda>t. Inr (dump_string True k @ '': '' @ t))" and ?g = "\<lambda>(k, v). (k, dumps_default v)"
  obtain ts where ts: "rmap ?f (map ?g kvs) = Inr ts" "t = CHR ''{'' # join '', '' ts @ ''}''" using JObj.prems by (auto simp: rbind_eq_Inr)
  have ih: "dumps_default (snd kv) = Inr t \<Longrightarrow> length t \<le> weight (snd kv)" if "kv \<in> set kvs" for kv t
    using JObj.IH [of kv "snd kv"] that by (auto simp: snds.simps prod_set_simps)
  have "sum_list (map (\<lambda>t. length t + 2) ts) \<le> sum_list (map (\<lambda>(k, w). 6 * length k + w + 6) (map (\<lambda>(k, v). (k, weight v)) kvs))"
    using ts(1) ih
  proof (induction kvs arbitrary: ts)
    case (Cons kv kvs)
    obtain k v where kv: "kv = (k, v)" by fastforce
    obtain d ds where d: "dumps_default v = Inr d" "rmap ?f (map ?g kvs) = Inr ds" "ts = (dump_string True k @ '': '' @ d) # ds"
      using Cons.prems(1) kv by (auto simp: rbind_eq_Inr)
    have "length d \<le> weight v" using Cons.prems(2) [of kv d] d(1) kv by simp
    moreover have "sum_list (map (\<lambda>t. length t + 2) ds) \<le> sum_list (map (\<lambda>(k, w). 6 * length k + w + 6) (map (\<lambda>(k, v). (k, weight v)) kvs))"
      using Cons.IH [OF d(2)] Cons.prems(2) by simp
    ultimately show ?case using length_dump_string [of k] d(3) kv by simp
  qed simp
  then show ?case using length_join [of ts] ts(2) by simp
qed (use length_dump_string in \<open>auto simp: dump_int_def split: if_splits\<close>)

lemma json_line_total:
  assumes "json_ok v"
  shows "\<exists>l. json_line v = Inr l \<and> utf8_encode l = l \<and> list_all (\<lambda>c. code c < 128) l \<and> length l \<le> weight v + 1"
proof -
  obtain t where t: "dumps_default v = Inr t" using dumps_default_reads [OF assms] by blast
  have p: "printable t" by (rule printable_dumps_default [OF t])
  then have "utf8_encode (t @ [CHR 0x0A]) = t @ [CHR 0x0A]"
    unfolding utf8_encode_printable(2) using utf8_encode_printable(1) [OF p] by (simp add: utf8_encode_def utf8_char_def)
  moreover have "list_all (\<lambda>c. code c < 128) (t @ [CHR 0x0A])" using p by (auto simp: printable_def list_all_iff)
  ultimately show ?thesis using t weight_bound [OF t] by (simp add: json_line_def)
qed

lemma json_lines_total:
  assumes "list_all (\<lambda>x. json_ok (f x)) xs"
  shows "\<exists>ls. rmap (\<lambda>x. json_line (f x)) xs = Inr ls \<and> utf8_encode (concat ls) = concat ls
    \<and> length (concat ls) \<le> sum_list (map (\<lambda>x. weight (f x) + 1) xs)"
  using assms
proof (induction xs)
  case (Cons x xs)
  obtain l where l: "json_line (f x) = Inr l" "utf8_encode l = l" "length l \<le> weight (f x) + 1" using json_line_total Cons.prems by auto
  obtain ls where ls: "rmap (\<lambda>x. json_line (f x)) xs = Inr ls" "utf8_encode (concat ls) = concat ls"
      "length (concat ls) \<le> sum_list (map (\<lambda>x. weight (f x) + 1) xs)" using Cons by auto
  have "utf8_encode (concat (l # ls)) = concat (l # ls)" using l(2) ls(2) by (simp add: utf8_encode_def)
  then show ?case using l ls by (intro exI [of _ "l # ls"]) simp
qed (simp add: utf8_encode_def)

definition small_int :: "int \<Rightarrow> bool" where
  "small_int i \<longleftrightarrow> 0 \<le> i \<and> i < 10 ^ 18"

lemma small_int_digits: "small_int i \<Longrightarrow> length (nat_str (nat \<bar>i\<bar>)) \<le> 18"
proof (rule length_nat_str_le)
  assume "small_int i"
  then show "nat \<bar>i\<bar> < 10 ^ 18" by (subst nat_less_iff) (simp_all add: small_int_def)
qed simp

lemma small_int_ok: "small_int i \<Longrightarrow> json_ok (JInt i)" "small_int i \<Longrightarrow> weight (JInt i) \<le> 18"
  using small_int_digits [of i] by (auto simp: max_str_digits_def int_str_def small_int_def)

text \<open>The members of a small capture: they can be dumped, and their lengths in the manifest too.\<close>

definition capture_small :: "int \<Rightarrow> int \<Rightarrow> string list \<Rightarrow> (string \<times> string) list \<Rightarrow> json list \<Rightarrow> bool" where
  "capture_small started terminated venues envelopes docs \<longleftrightarrow> small_int started \<and> small_int terminated \<and> venues \<noteq> []
     \<and> list_all json_ok docs \<and> length (hd venues) < 1000 \<and> length (snd (hd envelopes)) < 10 ^ 6 \<and> length envelopes < 1000
     \<and> weight (JObj [(''mappings'', JList docs)]) < 10 ^ 6 - 1
     \<and> sum_list (map (\<lambda>e. weight (envelope_document started e) + 1) (enumerate_from_0 envelopes)) < 10 ^ 6"

lemma package_members_total:
  assumes "capture_small started terminated venues envelopes docs"
  shows "\<exists>m. package_members started terminated venues envelopes docs = Inr (member_files m) \<and> list_all (\<lambda>(p, b). length b < 10 ^ 6) (member_files m)"
proof -
  have small: "small_int started" "small_int terminated" "venues \<noteq> []" "small_int (started - started mod 60000)" "small_int 1" "small_int 0"
    using assms pos_mod_sign [of 60000 started] zmod_le_nonneg_dividend [of started 60000]
    by (auto simp: capture_small_def small_int_def)
  note ok = small_int_ok(1) [OF small(1)] small_int_ok(1) [OF small(2)] small_int_ok(1) [OF small(4)] small_int_ok(1) [OF small(5)] small_int_ok(1) [OF small(6)]
  note wt = small_int_ok(2) [OF small(1)] small_int_ok(2) [OF small(2)] small_int_ok(2) [OF small(4)] small_int_ok(2) [OF small(5)] small_int_ok(2) [OF small(6)]
  have env: "list_all (\<lambda>e. json_ok (envelope_document started e)) (enumerate_from_0 envelopes)"
  proof -
    have "small_int i" if "(i, e) \<in> set (enumerate_from_0 envelopes)" for i e
      using that assms by (auto simp: enumerate_from_0_def in_set_zip capture_small_def small_int_def)
    then show ?thesis using ok(1) small_int_ok(1) by (fastforce simp: list_all_iff envelope_document_def)
  qed
  obtain ls where ls: "rmap (\<lambda>e. json_line (envelope_document started e)) (enumerate_from_0 envelopes) = Inr ls" "utf8_encode (concat ls) = concat ls"
      "length (concat ls) \<le> sum_list (map (\<lambda>e. weight (envelope_document started e) + 1) (enumerate_from_0 envelopes))"
    using json_lines_total [OF env] by blast
  let ?c = "JObj [(''recorded_at_ms'', JInt started), (''kind'', JStr ''epoch''), (''payload_sha256'', JStr (sha256_bytes (snd (hd envelopes))))]"
  let ?q = "JObj [(''minute_start_ms'', JInt (started - started mod 60000)), (''venue'', JStr (hd venues)), (''accepted'', JInt 1), (''rejected'', JInt 0)]"
  let ?s = "JObj [(''mappings'', JList docs)]" and ?t = "JObj [(''terminated_at_ms'', JInt terminated), (''status'', JStr ''sealed'')]"
  obtain cl where cl: "json_line ?c = Inr cl" "utf8_encode cl = cl" "length cl \<le> weight ?c + 1" using json_line_total [of ?c] ok by auto
  obtain ql where ql: "json_line ?q = Inr ql" "utf8_encode ql = ql" "length ql \<le> weight ?q + 1" using json_line_total [of ?q] ok by auto
  obtain sl where sl: "json_line ?s = Inr sl" "utf8_encode sl = sl" "length sl \<le> weight ?s + 1" using json_line_total [of ?s] assms by (auto simp: capture_small_def)
  obtain tline where tl: "json_line ?t = Inr tline" "list_all (\<lambda>c. code c < 128) tline" "length tline \<le> weight ?t + 1" using json_line_total [of ?t] ok by auto
  let ?m = "\<lparr>mb_control = cl, mb_batch = snd (hd envelopes), mb_envelopes = concat ls, mb_quality = ql, mb_mapping = sl, mb_terminal = tline\<rparr>"
  have "package_members started terminated venues envelopes docs = Inr (member_files ?m)"
    using small(3) ls(1,2) cl(1,2) ql(1,2) sl(1,2) tl(1,2)
    by (simp add: package_members_def envelope_ndjson_def ascii_decode_def member_files_def Let_def del: weight.simps)
  moreover have "length cl < 10 ^ 6" "length ql < 10 ^ 6" "length tline < 10 ^ 6"
    using cl(3) ql(3) tl(3) wt length_digest assms by (simp_all add: capture_small_def)
  then have "list_all (\<lambda>(p, b). length b < 10 ^ 6) (member_files ?m)"
    using ls(3) sl(3) assms by (simp add: member_files_def capture_small_def del: weight.simps)
  ultimately show ?thesis by blast
qed

lemma write_frozen_package_total:
  assumes "capture_small started terminated venues envelopes docs" and "posix_root path \<noteq> []" "envelopes \<noteq> []"
    and "root_entry before_dir = None \<or> root_entry before_dir = Some Directory" "listing_ok (tree before_dir)"
  shows "\<exists>pkg. write_frozen_package path u started terminated venues envelopes docs before_dir = Inr pkg"
proof -
  obtain m where m: "package_members started terminated venues envelopes docs = Inr (member_files m)"
      "list_all (\<lambda>(p, b). length b < 10 ^ 6) (member_files m)" using package_members_total [OF assms(1)] by blast
  have "length (nat_str (length b)) \<le> max_str_digits" if "(p, b) \<in> set (member_files m)" for p b
  proof -
    have "length b < 10 ^ 6" using m(2) that by (auto simp: list_all_iff)
    then have "length (nat_str (length b)) \<le> 6" by (intro length_nat_str_le) simp_all
    then show ?thesis by (simp add: max_str_digits_def)
  qed
  moreover have "json_ok (JInt started)" using assms(1) small_int_ok(1) by (simp add: capture_small_def)
  ultimately have ok: "json_ok (JObj (unsigned_manifest u started venues (member_files m)))"
    by (auto simp: unsigned_manifest_def list_all_iff declared_member_def)
  then have ok2: "json_ok (JObj (unsigned_manifest u started venues (member_files m) @ [(''manifest_sha256'', JStr h)]))" for h
    by (simp add: unsigned_manifest_def)
  have clear: "(if root_entry before_dir = None then [] else clear_package_root (tree before_dir)) = []"
    using clear_package_root_empty [OF assms(5)] by simp
  show ?thesis
    unfolding write_frozen_package_def Let_def clear capture_json_bytes_eq
    using assms(2-4) package_bytes_of [OF ok] package_bytes_of [OF ok2]
    by (auto simp: m(1) put_members write_bytes_def written_tree_no_manifest path_defs)
qed

subsection \<open>Properties\<close>

lemma reviewed_mappings: "\<exists>m. mapping_from_document REVIEWED_BTC = Inr m" "\<exists>m. mapping_from_document REVIEWED_LIGHTER_BTC = Inr m"
proof -
  have "(case mapping_from_document REVIEWED_BTC of Inl e \<Rightarrow> False | Inr m \<Rightarrow> True)"
    "(case mapping_from_document REVIEWED_LIGHTER_BTC of Inl e \<Rightarrow> False | Inr m \<Rightarrow> True)" by code_simp+
  then show "\<exists>m. mapping_from_document REVIEWED_BTC = Inr m" "\<exists>m. mapping_from_document REVIEWED_LIGHTER_BTC = Inr m"
    by (auto split: sum.splits)
qed

lemma reviewed_documents: "json_ok REVIEWED_BTC" "json_ok REVIEWED_LIGHTER_BTC" "keys_ok REVIEWED_BTC" "keys_ok REVIEWED_LIGHTER_BTC"
  "weight REVIEWED_BTC < 10000" "weight REVIEWED_LIGHTER_BTC < 10000"
  by (simp_all add: REVIEWED_BTC_def REVIEWED_LIGHTER_BTC_def reviewed_identity_def nat_str_eval max_str_digits_def int_str_def)

lemma fixture_lengths: "length FIXTURE_BOOK < 200" "length FIXTURE_LIGHTER_SNAPSHOT < 200"
  by (simp_all add: FIXTURE_BOOK_def FIXTURE_LIGHTER_SNAPSHOT_def)

lemma venue_lists:
  assumes "distinct vs" "vs \<noteq> []" "set vs \<subseteq> {a, b}"
  shows "vs = [a] \<or> vs = [b] \<or> vs = [a, b] \<or> vs = [b, a]"
proof -
  have "length vs = card (set vs)" using assms(1) by (simp add: distinct_card)
  also have "\<dots> \<le> card {a, b}" using assms(3) by (intro card_mono) auto
  also have "\<dots> \<le> 2" by (simp add: card_insert_if)
  finally consider x where "vs = [x]" | x y where "vs = [x, y]" using assms(2) by (cases vs; cases "tl vs"; cases "tl (tl vs)") auto
  then show ?thesis using assms(1,3) by cases auto
qed

lemma envelope_weight:
  assumes "small_int i" "small_int started" "length v < 20" "length b < 200"
  shows "weight (envelope_document started (i, v, b)) < 3000"
proof -
  have "length (bytes_hex b) = 2 * length b" by (induction b) (simp_all add: bytes_hex_def)
  then show ?thesis using small_int_ok(2) [OF assms(1)] small_int_ok(2) [OF assms(2)] assms(3,4) by (simp add: envelope_document_def)
qed

lemma fixture_small:
  assumes "vs = [''hyperliquid''] \<or> vs = [''lighter''] \<or> vs = [''hyperliquid'', ''lighter''] \<or> vs = [''lighter'', ''hyperliquid'']"
    and "0 \<le> started" "started < 10 ^ 17"
  shows "capture_small started (started + 1) vs (fst (fixture_envelopes vs)) (snd (fixture_envelopes vs))"
    and "fst (fixture_envelopes vs) \<noteq> []" "list_all (\<lambda>(v, b). v \<noteq> []) (fst (fixture_envelopes vs))" "list_all keys_ok (snd (fixture_envelopes vs))"
    and "\<exists>ms. rmap mapping_from_document (snd (fixture_envelopes vs)) = Inr ms"
proof -
  have s: "small_int started" "small_int (started + 1)" "small_int 0" "small_int 1" using assms(2,3) by (simp_all add: small_int_def)
  note w = envelope_weight [OF s(3) s(1)] envelope_weight [OF s(4) s(1)]
  note w4 = w [of "''hyperliquid''" FIXTURE_BOOK] w [of "''lighter''" FIXTURE_LIGHTER_SNAPSHOT]
  show "capture_small started (started + 1) vs (fst (fixture_envelopes vs)) (snd (fixture_envelopes vs))"
    using assms(1) s w4 reviewed_documents fixture_lengths
    by (elim disjE) (simp_all add: capture_small_def fixture_envelopes_def enumerate_from_0_def)
  show "fst (fixture_envelopes vs) \<noteq> []" "list_all (\<lambda>(v, b). v \<noteq> []) (fst (fixture_envelopes vs))" "list_all keys_ok (snd (fixture_envelopes vs))"
    using assms(1) reviewed_documents by (auto simp: fixture_envelopes_def)
  obtain m m' where "mapping_from_document REVIEWED_BTC = Inr m" "mapping_from_document REVIEWED_LIGHTER_BTC = Inr m'" using reviewed_mappings by blast
  then show "\<exists>ms. rmap mapping_from_document (snd (fixture_envelopes vs)) = Inr ms" using assms(1) by (auto simp: fixture_envelopes_def)
qed

text \<open>
  C15. What the capture process writes is what the analyzer reads. Whenever a package has been
  written over an arbitrary directory, the reader accepts it under the same run identity, and the
  records it returns are the arguments of the writer: the manifest, the terminal record, every
  envelope in order with its payload byte for byte, the quality minute and the reviewed mappings.
\<close>

theorem captured_package_read_back:
  assumes "write_frozen_package path u started terminated venues envelopes docs before_dir = Inr pkg" and "listing_ok (tree before_dir)"
    and "uuid_int u < 2 ^ 128" "0 \<le> started" "0 \<le> terminated"
    and "[] \<notin> set venues" "list_all (\<lambda>(v, b). v \<noteq> []) envelopes" "list_all keys_ok docs" "rmap mapping_from_document docs = Inr ms"
  shows "\<exists>r. reader_init pkg = Inr r \<and> run_id r = u \<and> read_records r = Inr (captured_records u started terminated venues envelopes ms)"
  by (rule written_read_back [OF assms])

text \<open>
  C16. A fixture run of the capture process ends with exit code 0 and leaves such a package, for
  every choice of the allowed venues, whatever the output directory held before.
\<close>

theorem fixture_capture_complete:
  assumes "pc_mode config = ''public''" "pc_source config = ''fixture''" "pc_output config = Some path" "posix_root path \<noteq> []"
    and "distinct (pc_venues config)" "pc_venues config \<noteq> []" "set (pc_venues config) \<subseteq> {''hyperliquid'', ''lighter''}"
    and "root_entry before_dir = None \<or> root_entry before_dir = Some Directory" "listing_ok (tree before_dir)"
    and "uuid_int u < 2 ^ 128" "0 \<le> started" "started < 10 ^ 17"
  shows "\<exists>pkg r ms. run_public_capture live started u config before_dir = (0, Some pkg) \<and> reader_init pkg = Inr r
    \<and> rmap mapping_from_document (snd (fixture_envelopes (pc_venues config))) = Inr ms
    \<and> read_records r = Inr (captured_records u started (started + 1) (pc_venues config) (fst (fixture_envelopes (pc_venues config))) ms)"
proof -
  let ?vs = "pc_venues config"
  note fx = fixture_small [OF venue_lists [OF assms(5-7)] assms(11,12)]
  obtain ms where ms: "rmap mapping_from_document (snd (fixture_envelopes ?vs)) = Inr ms" using fx(5) by blast
  obtain pkg where pkg: "write_frozen_package path u started (started + 1) ?vs (fst (fixture_envelopes ?vs)) (snd (fixture_envelopes ?vs)) before_dir = Inr pkg"
    using write_frozen_package_total [OF fx(1) assms(4) fx(2) assms(8,9)] by blast
  have "[] \<notin> set ?vs" using assms(7) by auto
  then obtain r where r: "reader_init pkg = Inr r"
      "read_records r = Inr (captured_records u started (started + 1) ?vs (fst (fixture_envelopes ?vs)) ms)"
    using written_read_back [OF pkg assms(9,10,11) _ _ fx(3,4) ms] assms(11) by auto
  have "\<not> list_ex (\<lambda>v. v \<notin> {''hyperliquid'', ''lighter''}) ?vs" using assms(7) by (auto simp: list_ex_iff)
  then have "run_public_capture live started u config before_dir = (0, Some pkg)"
    using assms(1-3) pkg by (simp add: run_public_capture_def envelopes_and_mappings_def case_prod_beta)
  then show ?thesis using r ms by blast
qed

definition sample_config :: PublicCaptureConfig where
  "sample_config = \<lparr>pc_venues = [''hyperliquid'', ''lighter''], pc_mode = ''public'', pc_source = ''fixture'', pc_output = Some ''/x''\<rparr>"

definition sample_before :: package_dir where
  "sample_before = \<lparr>root_entry = Some Directory, tree = [(''old'', Directory), (''old/a'', RegularFile []), (''b'', Symlink None)]\<rparr>"

lemma sample_before_ok: "listing_ok (tree sample_before)"
  by (simp add: sample_before_def listing_ok_def top_part_def)

lemma fixture_capture_complete_witness:
  "\<exists>pkg r ms. run_public_capture (Inl OSError) 1000 (UUID 7) sample_config sample_before = (0, Some pkg) \<and> reader_init pkg = Inr r
    \<and> rmap mapping_from_document (snd (fixture_envelopes (pc_venues sample_config))) = Inr ms
    \<and> read_records r = Inr (captured_records (UUID 7) 1000 (1000 + 1) (pc_venues sample_config) (fst (fixture_envelopes (pc_venues sample_config))) ms)"
  by (rule fixture_capture_complete [where path = "''/x''", OF _ _ _ _ _ _ _ _ sample_before_ok])
    (simp_all add: sample_config_def sample_before_def posix_root_def)

lemma captured_package_read_back_witness:
  "\<exists>pkg r ms. write_frozen_package ''/x'' (UUID 7) 1000 1001 [''lighter''] (fst (fixture_envelopes [''lighter''])) (snd (fixture_envelopes [''lighter''])) sample_before = Inr pkg
    \<and> reader_init pkg = Inr r \<and> read_records r = Inr (captured_records (UUID 7) 1000 1001 [''lighter''] (fst (fixture_envelopes [''lighter''])) ms)"
proof -
  have "(1000 :: int) < 10 ^ 17" by simp
  note fx = fixture_small [of "[''lighter'']" 1000, OF _ _ this, simplified]
  obtain ms where ms: "rmap mapping_from_document (snd (fixture_envelopes [''lighter''])) = Inr ms" using fx(5) by blast
  obtain pkg where pkg: "write_frozen_package ''/x'' (UUID 7) 1000 1001 [''lighter''] (fst (fixture_envelopes [''lighter''])) (snd (fixture_envelopes [''lighter''])) sample_before = Inr pkg"
    using write_frozen_package_total [OF fx(1) _ fx(2) _ sample_before_ok, of "''/x''" "UUID 7"] by (auto simp: posix_root_def sample_before_def)
  show ?thesis using captured_package_read_back [OF pkg sample_before_ok _ _ _ _ fx(3,4) ms] pkg by auto
qed

text \<open>What the configuration guarantees to the run: no credentials in the environment, allowed venues, an absolute output.\<close>

lemma configuration_safe:
  assumes "load_public_configuration env = Inr config"
  shows "list_all (\<lambda>(key, v). \<not> credential_key key) env" "pc_mode config = ''public''" "pc_source config = ''fixture'' \<or> pc_source config = ''public''"
    "pc_venues config \<noteq> []" "set (pc_venues config) \<subseteq> {''hyperliquid'', ''lighter''}"
    "pc_output config = Some path \<Longrightarrow> posix_root path \<noteq> []"
proof -
  let ?raw = "env_get env ''LIQVERA_CAPTURE_OUT'' []"
  let ?vs = "filter (\<lambda>v. v \<noteq> []) (map strip (split_on CHR '','' (env_get env ''LIQVERA_PUBLIC_VENUES'' ''hyperliquid,lighter'')))"
  have k: "\<not> list_ex (\<lambda>(key, v). credential_key key) env" "?vs \<noteq> [] \<and> \<not> list_ex (\<lambda>v. v \<notin> set ALLOWED_VENUES) ?vs"
      "env_get env ''LIQVERA_PUBLIC_MODE'' ''public'' \<in> set ALLOWED_MODES" "env_get env ''LIQVERA_CAPTURE_SOURCE'' ''fixture'' \<in> set ALLOWED_SOURCES"
      "?raw = [] \<or> posix_root ?raw \<noteq> []"
    and c: "config = \<lparr>pc_venues = ?vs, pc_mode = env_get env ''LIQVERA_PUBLIC_MODE'' ''public'', pc_source = env_get env ''LIQVERA_CAPTURE_SOURCE'' ''fixture'',
      pc_output = (if ?raw = [] then None else Some ?raw)\<rparr>"
    using assms unfolding load_public_configuration_def Let_def require_eq_Inr by (elim conjE; simp only: sum.inject)+
  show "list_all (\<lambda>(key, v). \<not> credential_key key) env" using k(1) by (simp add: list_all_iff list_ex_iff case_prod_beta)
  show "pc_mode config = ''public''" using k(3) by (simp add: c ALLOWED_MODES_def)
  show "pc_source config = ''fixture'' \<or> pc_source config = ''public''" using k(4) by (simp add: c ALLOWED_SOURCES_def)
  show "pc_venues config \<noteq> []" using k(2) by (simp add: c)
  have "set ?vs \<subseteq> set ALLOWED_VENUES" using k(2) unfolding list_ex_iff by blast
  then show "set (pc_venues config) \<subseteq> {''hyperliquid'', ''lighter''}" unfolding c by (simp add: ALLOWED_VENUES_def)
  show "pc_output config = Some path \<Longrightarrow> posix_root path \<noteq> []" using k(5) by (auto simp: c split: if_splits)
qed

lemma credentials_rejected:
  assumes "(key, v) \<in> set env" and "credential_key key"
  shows "capture_main live started u env before_dir = (2, None)" "analyzer_main lookup directory env = Inr (2, [])"
  using assms by (auto simp: capture_main_def analyzer_main_def load_public_configuration_def load_analyzer_configuration_def list_ex_iff require_def)

end
