(* ===== verification/EvidenceIO.thy ===== *)
theory EvidenceIO
  imports Calendar CapturePackage
begin

section \<open>The strict boundary of evidence (\<open>liqvera_evidence_report/evidence_io.py\<close>)\<close>

text \<open>
  Everything a report is made of enters through this module: JSON without repeated keys and
  without binary floating point, identifiers and member names of one form, and directories read
  under limits. A rejection carries a code; \<open>rejected_dataset\<close> abbreviates the most frequent one.
\<close>

abbreviation rejected_dataset :: py_exc where
  "rejected_dataset \<equiv> EvidenceRejected ''INVALID_DATASET''"

abbreviation rejected_input :: py_exc where
  "rejected_input \<equiv> EvidenceRejected ''INVALID_INPUT''"

definition MAX_BUNDLE_BYTES :: nat where
  "MAX_BUNDLE_BYTES = 10 * 1024 * 1024"

definition MAX_MEMBER_BYTES :: nat where
  "MAX_MEMBER_BYTES = 4 * 1024 * 1024"

definition MAX_MEMBERS :: nat where
  "MAX_MEMBERS = 32"

definition digest :: "string \<Rightarrow> string" where
  "digest raw = sha256_bytes raw"

subsection \<open>Strict JSON\<close>

definition strict_hooks :: json_hooks where
  "strict_hooks = \<lparr>object_pairs_hook = (\<lambda>items. require (distinct (map fst items)) rejected_dataset (Inr (JObj items))),
     parse_float = (\<lambda>t. Inl rejected_dataset), parse_constant = (\<lambda>t. Inl rejected_dataset)\<rparr>"

text \<open>
  \<open>unicodedata.normalize("NFC", s)\<close>: a text of code points below U+0100 is in normal form, since no
  combining mark lies in that range.
\<close>

definition normalize_nfc :: "string \<Rightarrow> string" where
  "normalize_nfc s = s"

definition check_string :: "string \<Rightarrow> unit res" where
  "check_string s = require (normalize_nfc s = s) rejected_dataset (Inr ())"

fun check_strings :: "json \<Rightarrow> unit res" where
  "check_strings (JStr s) = check_string s"
| "check_strings (JObj kvs) = rbind (rmap (\<lambda>(k, v). rbind (check_string k) (\<lambda>_. check_strings v)) kvs) (\<lambda>_. Inr ())"
| "check_strings (JList vs) = rbind (rmap check_strings vs) (\<lambda>_. Inr ())"
| "check_strings _ = Inr ()"

definition strict_json :: "string \<Rightarrow> json res" where
  "strict_json raw =
     reraise is_value_error rejected_dataset
       (rbind (utf8_decode raw) (\<lambda>t. rbind (loads_with strict_hooks t) (\<lambda>v. rbind (check_strings v) (\<lambda>_. Inr v))))"

subsection \<open>Checked values\<close>

definition object_keys :: "json \<Rightarrow> string list \<Rightarrow> (string \<times> json) list res" where
  "object_keys v keys = (case v of JObj d \<Rightarrow> require (fst ` set d = set keys) rejected_dataset (Inr d) | _ \<Rightarrow> Inl rejected_dataset)"

definition integer :: "json \<Rightarrow> int \<Rightarrow> int res" where
  "integer v minimum = (case v of JInt i \<Rightarrow> require (\<not> i < minimum) rejected_dataset (Inr i) | _ \<Rightarrow> Inl rejected_dataset)"

definition evidence_identifier :: "json \<Rightarrow> string res" where
  "evidence_identifier v =
     (case v of
        JStr s \<Rightarrow> reraise is_value_error rejected_input (rbind (uuid_of_str s) (\<lambda>u. require (uuid_str u = s) ValueError (Inr s)))
      | _ \<Rightarrow> Inl rejected_input)"

text \<open>The pattern \<open>[A-Za-z0-9_-][A-Za-z0-9_.-]*\<close>, segments separated by \<open>/\<close>.\<close>

definition name_start :: "char \<Rightarrow> bool" where
  "name_start c \<longleftrightarrow> c \<in> set ''ABCDEFGHIJKLMNOPQRSTUVWXYZabcdefghijklmnopqrstuvwxyz0123456789_-''"

definition name_segment :: "string \<Rightarrow> bool" where
  "name_segment s \<longleftrightarrow> s \<noteq> [] \<and> name_start (hd s) \<and> list_all (\<lambda>c. name_start c \<or> c = CHR ''.'') s"

definition safe_name :: "string \<Rightarrow> bool" where
  "safe_name name \<longleftrightarrow> \<not> length name > 180 \<and> list_all name_segment (split_on CHR ''/'' name)"

definition safe_member :: "json \<Rightarrow> string res" where
  "safe_member v = (case v of JStr name \<Rightarrow> require (safe_name name) rejected_dataset (Inr name) | _ \<Rightarrow> Inl rejected_dataset)"

subsection \<open>Reading a directory\<close>

text \<open>
  What \<open>lstat\<close> sees below an opened directory: files, directories, and everything else (symbolic
  links, devices). The tree does not change while it is read, so the comparisons of inode, size and
  modification time before and after a read hold; opening and reading do not fail.
\<close>

datatype disk = DiskFile string | DiskDir "(string \<times> disk) list" | DiskOther

type_synonym members = "(string \<times> string) list"

text \<open>\<open>members[name]\<close>.\<close>

definition member_bytes_of :: "members \<Rightarrow> string \<Rightarrow> string res" where
  "member_bytes_of ms name = (case map_of ms name of None \<Rightarrow> Inl KeyError | Some raw \<Rightarrow> Inr raw)"

lemma rfold_cong [fundef_cong]:
  "xs = ys \<Longrightarrow> s = t \<Longrightarrow> (\<And>x s. x \<in> set ys \<Longrightarrow> f s x = g s x) \<Longrightarrow> rfold f s xs = rfold g t ys"
  by (induction ys arbitrary: xs s t) (auto simp: rbind_def split: sum.splits)

definition add_file :: "string \<Rightarrow> string \<Rightarrow> members \<times> nat \<Rightarrow> (members \<times> nat) res" where
  "add_file relative raw st =
     (case st of (result, amount) \<Rightarrow>
        require (\<not> (length result \<ge> MAX_MEMBERS \<or> length raw > MAX_MEMBER_BYTES)) rejected_dataset (
        require (\<not> amount + length raw > MAX_BUNDLE_BYTES) rejected_dataset (
        Inr (AList.update relative raw result, amount + length raw))))"

lemma size_list_member: "x \<in> set xs \<Longrightarrow> f x < size_list f xs"
  by (induction xs) auto

function visit :: "string \<Rightarrow> (string \<times> disk) list \<Rightarrow> members \<times> nat \<Rightarrow> (members \<times> nat) res" where
  "visit path names st =
     require (\<not> length names > MAX_MEMBERS) rejected_dataset (
     rfold (\<lambda>st entry.
        case entry of (name, node) \<Rightarrow>
          rbind (safe_member (JStr (path @ name))) (\<lambda>relative.
          case node of
            DiskDir child \<Rightarrow>
              require (\<not> length (filter (\<lambda>c. c = CHR ''/'') relative) \<ge> 2) rejected_dataset (
              require (child \<noteq> []) rejected_dataset (visit (relative @ ''/'') child st))
          | DiskFile raw \<Rightarrow> add_file relative raw st
          | DiskOther \<Rightarrow> Inl rejected_dataset))
       st (sort_key fst names))"
  by pat_completeness auto
termination
proof (relation "measure (\<lambda>(path, names, st). size_list (size_prod (\<lambda>_. 0) size) names)", goal_cases)
  case (2 path names st x s xa y relative child)
  then have "x \<in> set names" by simp
  then have "size_prod (\<lambda>_. 0) size x < size_list (size_prod (\<lambda>_. 0) size) names" by (rule size_list_member)
  then show ?case using 2 by auto
qed simp

definition read_tree :: "disk \<Rightarrow> members res" where
  "read_tree dir = (case dir of DiskDir names \<Rightarrow> rbind (visit [] names ([], 0)) (\<lambda>(result, amount). Inr result) | _ \<Rightarrow> Inl rejected_dataset)"


declare visit.simps [simp del]

subsection \<open>What strict decoding returns\<close>

lemma check_string_ok [simp]: "check_string s = Inr ()"
  by (simp add: check_string_def normalize_nfc_def)

lemma check_strings_ok [simp]: "check_strings v = Inr ()"
proof (induction v)
  case (JList vs)
  then have "rmap check_strings vs = Inr (map (\<lambda>_. ()) vs)" by (intro rmap_total) auto
  then show ?case by simp
next
  case (JObj kvs)
  have "rmap (\<lambda>(k, v). rbind (check_string k) (\<lambda>_. check_strings v)) kvs = Inr (map (\<lambda>_. ()) kvs)"
    using JObj by (intro rmap_total) (auto simp: snds.simps prod_set_simps)
  then show ?case by simp
qed simp_all

lemma keeps_strict: "keeps_objects strict_hooks"
  by (simp add: keeps_objects_def strict_hooks_def)

lemma strict_json_raises: "only_raises {rejected_dataset, NotModelled} (strict_json raw)"
proof -
  have u: "only_raises {UnicodeDecodeError, NotModelled} (utf8_decode s)" for s
    by (induction s rule: utf8_decode.induct) (auto simp: only_raises_def rbind_eq_Inl split: if_splits list.splits)
  have "hooks_raise (insert rejected_dataset json_errors) strict_hooks"
    by (auto simp: hooks_raise_def strict_hooks_def intro: raises)
  then have "only_raises (insert rejected_dataset json_errors) (loads_with strict_hooks t)" for t
    by (rule loads_with_raises) auto
  moreover have "loads_with strict_hooks t \<noteq> Inl OutOfFuel" for t
    by (rule loads_with_fuel) (auto simp: never_out_of_fuel_def strict_hooks_def require_def)
  ultimately have "only_raises {rejected_dataset, JSONDecodeError, ValueError, NotModelled} (loads_with strict_hooks t)" for t
    by (auto simp: only_raises_def)
  note l = this
  have "only_raises {UnicodeDecodeError, rejected_dataset, JSONDecodeError, ValueError, NotModelled}
      (rbind (utf8_decode raw) (\<lambda>t. rbind (loads_with strict_hooks t) (\<lambda>v. rbind (check_strings v) (\<lambda>_. Inr v))))"
    by (intro raises only_raises_mono [OF u] only_raises_mono [OF l]) auto
  then show ?thesis unfolding strict_json_def by (rule only_raises_reraise) auto
qed

lemma strict_json_canonical:
  assumes "json_ok v" and "canonical_json_bytes v = Inr b"
  shows "strict_json b = Inr (canon v)"
proof -
  obtain t where t: "dumps False v = Inr t" and b: "b = utf8_encode (t @ [CHR 0x0A])"
    using assms(2) by (auto simp: canonical_json_bytes_def rbind_eq_Inr)
  have "loads_with strict_hooks (t @ [CHR 0x0A]) = Inr (canon v)"
    by (rule loads_with_dumps [OF assms(1) t _ keeps_strict]) simp
  then show ?thesis by (simp add: strict_json_def b utf8_roundtrip)
qed

lemma canonical_total: "json_ok v \<Longrightarrow> \<exists>b. canonical_json_bytes v = Inr b"
  using dumps_reads [of v False] require_json_ok [of v] by (auto simp: canonical_json_bytes_def)

text \<open>A strictly decoded value can be written again: no repeated key, no float, no oversized integer.\<close>

definition good :: "(json \<times> string) res \<Rightarrow> bool" where
  "good m \<longleftrightarrow> (\<forall>v r. m = Inr (v, r) \<longrightarrow> json_ok v)"

lemma good_simps [simp]: "good (Inl e)" "good (Inr (v, r)) \<longleftrightarrow> json_ok v"
  by (auto simp: good_def)

lemma good_rbind: "(\<And>x. m = Inr x \<Longrightarrow> good (f x)) \<Longrightarrow> good (rbind m f)"
  by (cases m) auto

lemma good_if: "(b \<Longrightarrow> good x) \<Longrightarrow> (\<not> b \<Longrightarrow> good y) \<Longrightarrow> good (if b then x else y)"
  by simp

lemma number_shape:
  assumes "(if ds = [] then Inl e else if b then rbind (int_of_digits ds) (\<lambda>n. Inr (JInt (if c then n else - n), u))
            else Inr (JFloat t, w)) = Inr (v, r)"
  shows "(\<exists>i n. v = JInt i \<and> int_of_digits ds = Inr n \<and> (i = n \<or> i = - n)) \<or> (\<exists>t. v = JFloat t)"
  using assms by (auto simp: rbind_eq_Inr split: if_splits)

lemma number_digits:
  assumes "int_of_digits ds = Inr n" and "i = n \<or> i = - n"
  shows "length (nat_str (nat \<bar>i\<bar>)) \<le> max_str_digits"
proof -
  have ds: "length ds \<le> max_str_digits" "n = int (digits_val ds)" "list_all is_ascii_digit ds" "ds \<noteq> []"
    using assms(1) by (auto simp: int_of_digits_def split: if_splits)
  then have "nat \<bar>i\<bar> < 10 ^ length ds" using assms(2) digits_val_less [of ds] by auto
  then have "length (nat_str (nat \<bar>i\<bar>)) \<le> length ds" using ds(4) by (intro length_nat_str_le) auto
  then show ?thesis using ds(1) by simp
qed

lemma good_number: "good (rbind (parse_number s) (hook_number (parse_float strict_hooks)))"
proof (rule good_rbind)
  fix vr assume n: "parse_number s = Inr vr"
  obtain v r where vr: "vr = (v, r)" by fastforce
  have "(\<exists>i ds n. v = JInt i \<and> int_of_digits ds = Inr n \<and> (i = n \<or> i = - n)) \<or> (\<exists>t. v = JFloat t)"
    using number_shape [OF n [unfolded parse_number_def Let_def vr]] by blast
  then show "good (hook_number (parse_float strict_hooks) vr)"
    using number_digits by (auto simp: vr hook_number_def strict_hooks_def)
qed

lemma good_literal: "find (\<lambda>(w, v). take (length w) s = w) literals = Some (w, v) \<Longrightarrow> good (hook_number (parse_constant strict_hooks) (v, r))"
  by (auto simp: literals_def hook_number_def strict_hooks_def split: if_splits)

lemma good_pairs:
  assumes "list_all (\<lambda>(k, v). json_ok v) kvs"
  shows "good (rbind (object_pairs_hook strict_hooks kvs) (\<lambda>d. Inr (d, r)))"
  using assms by (auto simp: strict_hooks_def require_def)

lemma parse_good:
  "good (parse_value strict_hooks n s) \<and> (list_all json_ok acc \<longrightarrow> good (parse_elements strict_hooks n s acc))
   \<and> (list_all (\<lambda>(k, v). json_ok v) macc \<longrightarrow> good (parse_members strict_hooks n s macc))"
proof (induction n arbitrary: s acc macc)
  case (Suc n)
  have v: "good (parse_value strict_hooks n s)" for s using Suc by blast
  have ok: "json_ok w" if "parse_value strict_hooks n x = Inr (w, r)" for x w r using that v [of x] by simp
  have e: "list_all json_ok acc \<Longrightarrow> good (parse_elements strict_hooks n s acc)"
    and m: "list_all (\<lambda>(k, v). json_ok v) macc \<Longrightarrow> good (parse_members strict_hooks n s macc)" for s acc macc using Suc by blast+
  have 1: "good (parse_value strict_hooks (Suc n) s)"
    unfolding parse_value.simps Let_def
    by (intro good_if good_pairs m e good_rbind) (auto intro: good_number good_literal split: option.splits)
  have 2: "good (parse_elements strict_hooks (Suc n) s acc)" if "list_all json_ok acc"
    using that unfolding parse_elements.simps Let_def by (intro good_rbind) (auto intro!: e, (rule ok, assumption)+)
  have 3: "good (parse_members strict_hooks (Suc n) s macc)" if "list_all (\<lambda>(k, v). json_ok v) macc"
    using that unfolding parse_members.simps Let_def by (intro good_rbind good_if) (auto intro!: good_rbind good_pairs m, (rule ok, assumption)+)
  show ?case using 1 2 3 by blast
qed simp

lemma strict_json_ok:
  assumes "strict_json raw = Inr v"
  shows "json_ok v"
proof -
  obtain t r where "parse_value strict_hooks (2 * length t + 2) (skip_ws t) = Inr (v, r)"
    using assms by (auto simp: strict_json_def loads_with_def rbind_eq_Inr require_eq_Inr)
  then show ?thesis using parse_good [of "2 * length t + 2" "skip_ws t" "[]" "[]"] by (simp add: good_def)
qed

subsection \<open>Canonical forms\<close>

text \<open>
  The contract of a canonical encoding: a text is accepted exactly when it is the encoding of what it
  decodes to. Canonical JSON and evidence archives both keep it; what a verifier needs of it is
  proved here once.
\<close>

locale canonical_form =
  fixes encode :: "'a \<Rightarrow> string res" and decode :: "string \<Rightarrow> 'a res" and valid :: "'a \<Rightarrow> bool"
  assumes accepted: "decode raw = Inr x \<longleftrightarrow> encode x = Inr raw \<and> valid x"
begin

lemma decode_encode: "encode x = Inr raw \<Longrightarrow> valid x \<Longrightarrow> decode raw = Inr x"
  by (simp add: accepted)

lemma encode_decode: "decode raw = Inr x \<Longrightarrow> encode x = Inr raw"
  by (simp add: accepted)

lemma encode_inject: "encode x = Inr raw \<Longrightarrow> encode y = Inr raw \<Longrightarrow> valid x \<Longrightarrow> valid y \<Longrightarrow> x = y"
  using decode_encode by (metis sum.inject(2))

text \<open>Two texts with the same content are the same text: a change of one byte is seen.\<close>

lemma tampered: "decode raw = Inr x \<Longrightarrow> raw' \<noteq> raw \<Longrightarrow> decode raw' \<noteq> Inr x"
  using encode_decode by (metis sum.inject(2))

end

text \<open>Decoding that also compares the canonical bytes of the result with the bytes read.\<close>

definition canonical_document :: "string \<Rightarrow> json res" where
  "canonical_document raw =
     rbind (strict_json raw) (\<lambda>v. rbind (canonical_json_bytes v) (\<lambda>b. require (\<not> b \<noteq> raw) rejected_dataset (Inr v)))"

definition canonical_json :: "json \<Rightarrow> bool" where
  "canonical_json v \<longleftrightarrow> json_ok v \<and> canon v = v"

interpretation cj: canonical_form canonical_json_bytes canonical_document canonical_json
proof unfold_locales
  fix raw v
  have "canon v = v" if "strict_json raw = Inr v" "canonical_json_bytes v = Inr raw"
    using strict_json_canonical [OF strict_json_ok [OF that(1)] that(2)] that(1) by simp
  then show "canonical_document raw = Inr v \<longleftrightarrow> canonical_json_bytes v = Inr raw \<and> canonical_json v"
    using strict_json_ok strict_json_canonical
    by (auto simp: canonical_document_def canonical_json_def rbind_eq_Inr require_eq_Inr)
qed

lemma canon_idem: "json_ok v \<Longrightarrow> canon (canon v) = canon v \<and> json_ok (canon v)"
proof -
  assume ok: "json_ok v"
  obtain b where b: "canonical_json_bytes v = Inr b" using canonical_total [OF ok] by blast
  have s: "strict_json b = Inr (canon v)" by (rule strict_json_canonical [OF ok b])
  have ok': "json_ok (canon v)" by (rule strict_json_ok [OF s])
  have "canonical_json_bytes (canon v) = Inr b"
    using b dumps_canon [OF ok, of False] require_json_ok [OF ok] require_json_ok [OF ok'] by (simp add: canonical_json_bytes_def)
  then show ?thesis using strict_json_canonical [OF ok'] s ok' by simp
qed

end
