(* ===== verification/Archive.thy ===== *)
theory Archive
  imports EvidenceIO
begin

section \<open>Evidence archives (\<open>_zip\<close> and \<open>_read_archive\<close> of \<open>evidence_bundle.py\<close>)\<close>

text \<open>
  A bundle is a ZIP file in one fixed form: members sorted by name, stored without compression, with
  constant metadata. The format is written out here byte by byte, as Python's \<open>zipfile\<close> writes it
  for entries of this kind, and read back with every check of the code: the end record, the central
  directory, the local headers, the checksums, and at last the comparison with the canonical form.
\<close>

unbundle bit_operations_syntax

subsection \<open>CRC-32 (\<open>zlib.crc32\<close>)\<close>

definition crc_shift :: "w32 \<Rightarrow> w32" where
  "crc_shift c = (if bit c 0 then drop_bit 1 c XOR 3988292384 else drop_bit 1 c)"

definition crc_byte :: "w32 \<Rightarrow> char \<Rightarrow> w32" where
  "crc_byte c b = (crc_shift ^^ 8) (c XOR of_nat (code b))"

definition crc32 :: "string \<Rightarrow> nat" where
  "crc32 raw = unat (NOT (foldl crc_byte (NOT 0) raw))"

subsection \<open>Little-endian fields (\<open>struct\<close>)\<close>

primrec le_bytes :: "nat \<Rightarrow> nat \<Rightarrow> string" where
  "le_bytes 0 n = []"
| "le_bytes (Suc k) n = char_of (n mod 256) # le_bytes k (n div 256)"

primrec le_val :: "string \<Rightarrow> nat" where
  "le_val [] = 0"
| "le_val (c # s) = code c + 256 * le_val s"

text \<open>The field of \<open>k\<close> bytes at position \<open>i\<close>.\<close>

definition le_at :: "string \<Rightarrow> nat \<Rightarrow> nat \<Rightarrow> nat" where
  "le_at s i k = le_val (take k (drop i s))"

subsection \<open>Writing\<close>

definition STAMP_DATE :: nat where
  "STAMP_DATE = 33"

definition MODE :: nat where
  "MODE = 2175008768"

definition LOCAL_SIGNATURE :: string where
  "LOCAL_SIGNATURE = [CHR ''P'', CHR ''K'', CHR 0x03, CHR 0x04]"

definition CENTRAL_SIGNATURE :: string where
  "CENTRAL_SIGNATURE = [CHR ''P'', CHR ''K'', CHR 0x01, CHR 0x02]"

definition END_SIGNATURE :: string where
  "END_SIGNATURE = [CHR ''P'', CHR ''K'', CHR 0x05, CHR 0x06]"

text \<open>
  A local header: version 20, no flags, stored, the time and the date of \<open>STAMP\<close>, checksum, sizes,
  the length of the name and of no extra field; then the name.
\<close>

definition local_header :: "string \<Rightarrow> string \<Rightarrow> string" where
  "local_header name raw =
     LOCAL_SIGNATURE @ le_bytes 2 20 @ le_bytes 2 0 @ le_bytes 2 0 @ le_bytes 2 0 @ le_bytes 2 STAMP_DATE
     @ le_bytes 4 (crc32 raw) @ le_bytes 4 (length raw) @ le_bytes 4 (length raw) @ le_bytes 2 (length name) @ le_bytes 2 0 @ name"

definition central_header :: "string \<Rightarrow> string \<Rightarrow> nat \<Rightarrow> string" where
  "central_header name raw offset =
     CENTRAL_SIGNATURE @ le_bytes 1 20 @ le_bytes 1 3 @ le_bytes 1 20 @ le_bytes 1 0 @ le_bytes 2 0 @ le_bytes 2 0 @ le_bytes 2 0 @ le_bytes 2 STAMP_DATE
     @ le_bytes 4 (crc32 raw) @ le_bytes 4 (length raw) @ le_bytes 4 (length raw) @ le_bytes 2 (length name) @ le_bytes 2 0 @ le_bytes 2 0
     @ le_bytes 2 0 @ le_bytes 2 0 @ le_bytes 4 MODE @ le_bytes 4 offset @ name"

definition end_record :: "nat \<Rightarrow> nat \<Rightarrow> nat \<Rightarrow> string" where
  "end_record count length_cd offset =
     END_SIGNATURE @ le_bytes 2 0 @ le_bytes 2 0 @ le_bytes 2 count @ le_bytes 2 count @ le_bytes 4 length_cd @ le_bytes 4 offset @ le_bytes 2 0"

text \<open>One \<open>archive.writestr\<close>: the bytes written so far and the central directory that \<open>close\<close> will append.\<close>

definition write_entry :: "string \<times> string \<Rightarrow> string \<times> string \<Rightarrow> string \<times> string" where
  "write_entry out m =
     (case (out, m) of ((written, central), (name, raw)) \<Rightarrow>
        (written @ local_header name raw @ raw, central @ central_header name raw (length written)))"

definition archive_bytes :: "members \<Rightarrow> string" where
  "archive_bytes ms =
     (case foldl write_entry ([], []) ms of (written, central) \<Rightarrow>
        written @ central @ end_record (length ms) (length central) (length written))"

definition OUTER_NAMES :: "string list" where
  "OUTER_NAMES = [''manifest.json'', ''report.json'', ''algorithm.json'', ''runtime-dependencies.txt'']"

definition DEX_NAMES :: "string list" where
  "DEX_NAMES = [''mezo-dex/capture.json'', ''mezo-dex/calls.json'', ''mezo-dex/Pool.testnet.json'',
     ''mezo-dex/Router.testnet.json'', ''mezo-dex/PoolFactory.testnet.json'']"

definition TROVE_ABIS :: "string list" where
  "TROVE_ABIS = [''TroveManager.implementation.testnet.json'', ''SortedTroves.implementation.testnet.json'',
     ''PriceFeed.implementation.testnet.json'']"

definition TROVE_NAMES :: "string list" where
  "TROVE_NAMES = [''mezo-troves/capture.json'', ''mezo-troves/calls.json''] @ map (\<lambda>n. ''mezo-troves/'' @ n) TROVE_ABIS"

definition BASE_MEMBERS :: "string list" where
  "BASE_MEMBERS = [''manifest.json'', ''control_evidence/records.ndjson'', ''raw_batches/0.bin'',
     ''raw_envelopes/records.ndjson'', ''quality_minutes/records.ndjson'', ''mapping_snapshot.json'', ''terminal.json'',
     ''source/capture.json'', ''source/metadata.bin'', ''source/book.bin'']"

definition ALLOWED_NAMES :: "string list" where
  "ALLOWED_NAMES = TROVE_NAMES @ DEX_NAMES @ OUTER_NAMES @ map (\<lambda>n. ''sealed-input/'' @ n) BASE_MEMBERS
     @ [''sealed-input/source/mapping-evidence.json'', ''sealed-input/source/mezo-dex.json'']"

definition check_member :: "string \<times> string \<Rightarrow> unit res" where
  "check_member m =
     (case m of (name, raw) \<Rightarrow>
        rbind (safe_member (JStr name)) (\<lambda>n.
        require (\<not> (n \<notin> set ALLOWED_NAMES \<or> length raw > MAX_MEMBER_BYTES)) rejected_dataset (Inr ())))"

definition zip_members :: "members \<Rightarrow> string res" where
  "zip_members ms =
     require (\<not> (length ms > MAX_MEMBERS \<or> sum_list (map (\<lambda>(n, raw). length raw) ms) > MAX_BUNDLE_BYTES)) rejected_dataset (
     rbind (rmap check_member (sort_key fst ms)) (\<lambda>_.
     let raw = archive_bytes (sort_key fst ms)
     in require (\<not> length raw > MAX_BUNDLE_BYTES) rejected_dataset (Inr raw)))"

subsection \<open>Reading\<close>

text \<open>What \<open>zipfile\<close> keeps of an entry of the central directory.\<close>

record ZipInfo =
  zi_filename :: string
  zi_create_system :: nat
  zi_flag_bits :: nat
  zi_compress_type :: nat
  zi_time :: nat
  zi_date :: nat
  zi_CRC :: nat
  zi_compress_size :: nat
  zi_file_size :: nat
  zi_extra :: string
  zi_comment :: string
  zi_external_attr :: nat
  zi_header_offset :: nat

definition central_info :: "string \<Rightarrow> ZipInfo" where
  "central_info s =
     (let n = le_at s 28 2; e = le_at s 30 2; c = le_at s 32 2 in
      \<lparr>zi_filename = take n (drop 46 s), zi_create_system = le_at s 5 1, zi_flag_bits = le_at s 8 2,
       zi_compress_type = le_at s 10 2, zi_time = le_at s 12 2, zi_date = le_at s 14 2, zi_CRC = le_at s 16 4,
       zi_compress_size = le_at s 20 4, zi_file_size = le_at s 24 4, zi_extra = take e (drop (46 + n) s),
       zi_comment = take c (drop (46 + n + e) s), zi_external_attr = le_at s 38 4, zi_header_offset = le_at s 42 4\<rparr>)"

text \<open>
  The entries of a central directory. The bytes of a name stand for themselves: any that are not
  ASCII, and the bytes after a null byte, are refused by the check of the name below, whatever
  \<open>zipfile\<close> makes of them.
\<close>

function infolist :: "string \<Rightarrow> ZipInfo list res" where
  "infolist s =
     (if s = [] then Inr []
      else if length s < 46 \<or> take 4 s \<noteq> CENTRAL_SIGNATURE then Inl BadZipFile
      else if le_at s 6 1 > 63 then Inl RuntimeError
      else rbind (infolist (drop (46 + le_at s 28 2 + le_at s 30 2 + le_at s 32 2) s)) (\<lambda>rest. Inr (central_info s # rest)))"
  by pat_completeness auto
termination by (relation "measure length") auto

declare infolist.simps [simp del]

text \<open>The checks of one entry, on its central and on its local header.\<close>

definition info_ok :: "nat \<Rightarrow> nat \<Rightarrow> string list \<Rightarrow> ZipInfo \<Rightarrow> bool" where
  "info_ok cd_offset cursor names info \<longleftrightarrow>
     \<not> (zi_filename info \<notin> set ALLOWED_NAMES \<or> zi_filename info \<in> set names
        \<or> zi_compress_type info \<noteq> 0 \<or> zi_file_size info \<noteq> zi_compress_size info
        \<or> \<not> (1 \<le> zi_file_size info \<and> zi_file_size info \<le> MAX_MEMBER_BYTES)
        \<or> zi_flag_bits info \<noteq> 0 \<or> zi_extra info \<noteq> [] \<or> zi_comment info \<noteq> []
        \<or> zi_create_system info \<noteq> 3 \<or> zi_external_attr info \<noteq> MODE \<or> zi_date info \<noteq> STAMP_DATE \<or> zi_time info \<noteq> 0
        \<or> zi_header_offset info \<noteq> cursor \<or> zi_header_offset info + 30 > cd_offset)"

definition local_ok :: "string \<Rightarrow> nat \<Rightarrow> ZipInfo \<Rightarrow> bool" where
  "local_ok raw cursor info \<longleftrightarrow>
     (let h = drop cursor raw; name_size = length (zi_filename info) in
      \<not> (take 4 h \<noteq> LOCAL_SIGNATURE \<or> le_at h 4 2 \<noteq> 20 \<or> le_at h 6 2 \<noteq> 0 \<or> le_at h 8 2 \<noteq> 0
         \<or> le_at h 14 4 \<noteq> zi_CRC info \<or> le_at h 18 4 \<noteq> zi_file_size info \<or> le_at h 22 4 \<noteq> zi_file_size info
         \<or> le_at h 26 2 \<noteq> name_size \<or> le_at h 28 2 \<noteq> 0 \<or> take (le_at h 26 2) (drop 30 h) \<noteq> zi_filename info))"

text \<open>The loop over the entries: the names seen, the position in the file, the bytes of the members.\<close>

definition check_entry :: "string \<Rightarrow> nat \<Rightarrow> string list \<times> nat \<times> nat \<Rightarrow> ZipInfo \<Rightarrow> (string list \<times> nat \<times> nat) res" where
  "check_entry raw cd_offset st info =
     (case st of (names, cursor, amount) \<Rightarrow>
        rbind (safe_member (JStr (zi_filename info))) (\<lambda>name.
        require (info_ok cd_offset cursor names info) rejected_dataset (
        require (local_ok raw cursor info) rejected_dataset (
        let cursor' = cursor + 30 + length name + zi_file_size info; amount' = amount + zi_file_size info
        in require (\<not> (cursor' > cd_offset \<or> amount' > MAX_BUNDLE_BYTES)) rejected_dataset
             (Inr (names @ [name], cursor', amount'))))))"

text \<open>Reading the body of a member; at its end \<open>zipfile\<close> compares the checksum.\<close>

definition read_body :: "string \<Rightarrow> ZipInfo \<Rightarrow> (string \<times> string) res" where
  "read_body raw info =
     (let content = take (zi_file_size info) (drop (zi_header_offset info + 30 + length (zi_filename info)) raw)
      in require (crc32 content = zi_CRC info) BadZipFile (
         require (length content = zi_file_size info) rejected_dataset (Inr (zi_filename info, content))))"

text \<open>
  The last 22 bytes are the end record. A ZIP64 locator in front of it would let \<open>zipfile\<close> look for
  another end record; no canonical archive has one, since its central directory ends with a name of
  at least 20 characters, so the model refuses it at once.
\<close>

definition ZIP64_LOCATOR :: string where
  "ZIP64_LOCATOR = [CHR ''P'', CHR ''K'', CHR 0x06, CHR 0x07]"

definition read_archive :: "string \<Rightarrow> members res" where
  "read_archive raw =
     require (22 \<le> length raw \<and> length raw \<le> MAX_BUNDLE_BYTES) rejected_dataset (
     let tail = drop (length raw - 22) raw; disk_no = le_at tail 4 2; cd_disk = le_at tail 6 2;
         disk_count = le_at tail 8 2; total_count = le_at tail 10 2; cd_size = le_at tail 12 4;
         cd_offset = le_at tail 16 4; comment_len = le_at tail 20 2
     in require (take 4 tail = END_SIGNATURE) rejected_dataset (
        require (\<not> (disk_no \<noteq> 0 \<or> cd_disk \<noteq> 0 \<or> disk_count \<noteq> total_count \<or> \<not> (4 \<le> total_count \<and> total_count \<le> MAX_MEMBERS)
                    \<or> comment_len \<noteq> 0 \<or> cd_offset + cd_size \<noteq> length raw - 22)) rejected_dataset (
        require (take 4 (drop (length raw - 42) raw) \<noteq> ZIP64_LOCATOR) BadZipFile (
        rbind (infolist (take cd_size (drop cd_offset raw))) (\<lambda>infos.
        require (length infos = total_count) rejected_dataset (
        rbind (rfold (check_entry raw cd_offset) ([], 0, 0) infos) (\<lambda>(names, cursor, amount).
        require (\<not> (names \<noteq> sort names \<or> cursor \<noteq> cd_offset \<or> \<not> set OUTER_NAMES \<subseteq> set names)) rejected_dataset (
        rbind (rmap (read_body raw) infos) (\<lambda>result.
        rbind (zip_members result) (\<lambda>again.
        require (again = raw) rejected_dataset (Inr result)))))))))))"



subsection \<open>Fields\<close>

lemma length_le_bytes [simp]: "length (le_bytes k n) = k"
  by (induction k arbitrary: n) auto

lemma le_val_le_bytes: "le_val (le_bytes k n) = n mod 256 ^ k"
proof (induction k arbitrary: n)
  case (Suc k)
  have "code (char_of (n mod 256)) = n mod 256" by simp
  then show ?case using Suc [of "n div 256"] by (simp add: mod_mult2_eq)
qed simp

lemma crc32_less: "crc32 raw < 4294967296"
  using unsigned_less [of "NOT (foldl crc_byte (NOT 0) raw)", where ?'a = nat] by (simp add: crc32_def)

lemma signature_lengths [simp]:
  "length LOCAL_SIGNATURE = 4" "length CENTRAL_SIGNATURE = 4" "length END_SIGNATURE = 4"
  by (simp_all add: LOCAL_SIGNATURE_def CENTRAL_SIGNATURE_def END_SIGNATURE_def)

lemma length_local_header [simp]: "length (local_header name raw) = 30 + length name"
  by (simp add: local_header_def)

lemma length_central_header [simp]: "length (central_header name raw off) = 46 + length name"
  by (simp add: central_header_def)

lemma length_end_record [simp]: "length (end_record n l off) = 22"
  by (simp add: end_record_def)

lemma central_fields:
  fixes rest name raw :: string and off :: nat
  defines "s \<equiv> central_header name raw off @ rest"
  assumes "length name < 65536" "length raw < 4294967296" "off < 4294967296"
  shows "take 4 s = CENTRAL_SIGNATURE" "le_at s 5 1 = 3" "le_at s 6 1 = 20" "le_at s 8 2 = 0" "le_at s 10 2 = 0" "le_at s 12 2 = 0"
    "le_at s 14 2 = STAMP_DATE" "le_at s 16 4 = crc32 raw" "le_at s 20 4 = length raw" "le_at s 24 4 = length raw"
    "le_at s 28 2 = length name" "le_at s 30 2 = 0" "le_at s 32 2 = 0" "le_at s 38 4 = MODE" "le_at s 42 4 = off"
    "take (length name) (drop 46 s) = name"
  using assms(2-4) crc32_less [of raw]
  by (simp_all add: s_def central_header_def le_at_def le_val_le_bytes STAMP_DATE_def MODE_def)

lemma local_fields:
  fixes rest name raw :: string
  defines "s \<equiv> local_header name raw @ rest"
  assumes "length name < 65536" "length raw < 4294967296"
  shows "take 4 s = LOCAL_SIGNATURE" "le_at s 4 2 = 20" "le_at s 6 2 = 0" "le_at s 8 2 = 0" "le_at s 14 4 = crc32 raw"
    "le_at s 18 4 = length raw" "le_at s 22 4 = length raw" "le_at s 26 2 = length name" "le_at s 28 2 = 0"
    "take (length name) (drop 30 s) = name"
  using assms(2-3) crc32_less [of raw]
  by (simp_all add: s_def local_header_def le_at_def le_val_le_bytes)

lemma end_fields:
  assumes "count < 65536" "l < 4294967296" "off < 4294967296"
  shows "take 4 (end_record count l off) = END_SIGNATURE" "le_at (end_record count l off) 4 2 = 0" "le_at (end_record count l off) 6 2 = 0"
    "le_at (end_record count l off) 8 2 = count" "le_at (end_record count l off) 10 2 = count" "le_at (end_record count l off) 12 4 = l"
    "le_at (end_record count l off) 16 4 = off" "le_at (end_record count l off) 20 2 = 0"
  using assms by (simp_all add: end_record_def le_at_def le_val_le_bytes)


subsection \<open>The layout of an archive\<close>

fun local_part :: "members \<Rightarrow> string" where
  "local_part [] = []"
| "local_part ((name, raw) # ms) = local_header name raw @ raw @ local_part ms"

fun central_part :: "nat \<Rightarrow> members \<Rightarrow> string" where
  "central_part off [] = []"
| "central_part off ((name, raw) # ms) = central_header name raw off @ central_part (off + (30 + length name + length raw)) ms"

lemma write_entries: "foldl write_entry (w, c) ms = (w @ local_part ms, c @ central_part (length w) ms)"
  by (induction ms arbitrary: w c) (auto simp: write_entry_def)

lemma archive_layout:
  "archive_bytes ms = local_part ms @ central_part 0 ms @ end_record (length ms) (length (central_part 0 ms)) (length (local_part ms))"
  by (simp add: archive_bytes_def write_entries)

lemma length_local_part: "length (local_part ms) = sum_list (map (\<lambda>(n, r). 30 + length n + length r) ms)"
  by (induction ms rule: local_part.induct) auto

text \<open>What the central directory says of a member.\<close>

definition info_of :: "nat \<Rightarrow> string \<times> string \<Rightarrow> ZipInfo" where
  "info_of off m = \<lparr>zi_filename = fst m, zi_create_system = 3, zi_flag_bits = 0, zi_compress_type = 0, zi_time = 0,
     zi_date = STAMP_DATE, zi_CRC = crc32 (snd m), zi_compress_size = length (snd m), zi_file_size = length (snd m),
     zi_extra = [], zi_comment = [], zi_external_attr = MODE, zi_header_offset = off\<rparr>"

fun infos_of :: "nat \<Rightarrow> members \<Rightarrow> ZipInfo list" where
  "infos_of off [] = []"
| "infos_of off (m # ms) = info_of off m # infos_of (off + (30 + length (fst m) + length (snd m))) ms"

lemma infos_of_facts [simp]:
  "length (infos_of off ms) = length ms" "map zi_filename (infos_of off ms) = map fst ms"
  by (induction ms arbitrary: off) (auto simp: info_of_def)

definition small_member :: "string \<times> string \<Rightarrow> bool" where
  "small_member m \<longleftrightarrow> length (fst m) < 65536 \<and> length (snd m) < 4294967296"

lemma infolist_central:
  assumes "list_all small_member ms" and "off + length (local_part ms) < 4294967296"
  shows "infolist (central_part off ms) = Inr (infos_of off ms)"
  using assms
proof (induction ms arbitrary: off)
  case (Cons m ms)
  obtain n r where m: "m = (n, r)" by fastforce
  let ?off = "off + (30 + length n + length r)"
  let ?s = "central_part off (m # ms)"
  have s: "?s = central_header n r off @ central_part ?off ms" using m by simp
  have sm: "length n < 65536" "length r < 4294967296" "off < 4294967296" using Cons.prems m by (auto simp: small_member_def)
  note f = central_fields [OF sm, where rest = "central_part ?off ms", folded s]
  have ih: "infolist (central_part ?off ms) = Inr (infos_of ?off ms)" using Cons m by (intro Cons.IH) auto
  have dr: "drop (46 + le_at ?s 28 2 + le_at ?s 30 2 + le_at ?s 32 2) ?s = central_part ?off ms"
    unfolding f by (simp add: s)
  have info: "central_info ?s = info_of off m"
    unfolding central_info_def Let_def f by (simp add: info_of_def m)
  have "?s \<noteq> []" "\<not> length ?s < 46" unfolding s by (auto simp: central_header_def CENTRAL_SIGNATURE_def)
  moreover have "infolist ?s = rbind (infolist (central_part ?off ms)) (\<lambda>rest. Inr (info_of off m # rest))"
    using calculation f(1,3) by (subst infolist.simps) (simp only: dr info, simp)
  ultimately show ?case using ih by (simp add: m)
qed (simp add: infolist.simps)


subsection \<open>Reading what was written\<close>

lemma allowed_names_safe: "list_all (\<lambda>n. safe_name n \<and> length n < 100 \<and> length n \<ge> 11) ALLOWED_NAMES"
  by code_simp

definition member_ok :: "string \<times> string \<Rightarrow> bool" where
  "member_ok m \<longleftrightarrow> fst m \<in> set ALLOWED_NAMES \<and> 1 \<le> length (snd m) \<and> length (snd m) \<le> MAX_MEMBER_BYTES"

lemma member_okD:
  assumes "member_ok m"
  shows "safe_name (fst m)" "length (fst m) < 100" "small_member m" "length (snd m) \<le> 4194304"
  using assms allowed_names_safe by (auto simp: member_ok_def small_member_def list_all_iff MAX_MEMBER_BYTES_def)

definition content_size :: "members \<Rightarrow> nat" where
  "content_size ms = sum_list (map (\<lambda>(n, raw). length raw) ms)"

lemma content_size_simps [simp]: "content_size [] = 0" "content_size (m # ms) = length (snd m) + content_size ms"
  by (auto simp: content_size_def case_prod_beta)

lemma check_entry_written:
  assumes ok: "member_ok m" and raw: "raw = before_m @ local_header (fst m) (snd m) @ snd m @ after_m" and cur: "length before_m = cursor"
    and cd: "cursor + (30 + length (fst m) + length (snd m)) \<le> cd" and new: "fst m \<notin> set names" and amount: "amount + length (snd m) \<le> MAX_BUNDLE_BYTES"
  shows "check_entry raw cd (names, cursor, amount) (info_of cursor m)
         = Inr (names @ [fst m], cursor + (30 + length (fst m) + length (snd m)), amount + length (snd m))"
proof -
  note mok = member_okD [OF ok]
  have "drop cursor raw = local_header (fst m) (snd m) @ snd m @ after_m" using raw cur by simp
  moreover have "length (fst m) < 65536" "length (snd m) < 4294967296" using mok by simp_all
  note lf = local_fields [OF this, where rest = "snd m @ after_m"]
  ultimately have "local_ok raw cursor (info_of cursor m)"
    unfolding local_ok_def Let_def by (simp only: lf) (simp add: info_of_def lf)
  moreover have "info_ok cd cursor names (info_of cursor m)"
    using ok cd new by (simp add: info_ok_def info_of_def member_ok_def)
  moreover have "safe_member (JStr (zi_filename (info_of cursor m))) = Inr (fst m)"
    using mok(1) by (simp add: safe_member_def info_of_def)
  moreover have "zi_file_size (info_of cursor m) = length (snd m)" by (simp add: info_of_def)
  ultimately show ?thesis using cd amount by (simp add: check_entry_def Let_def)
qed

lemma check_entries_written:
  assumes "list_all member_ok ms" and "raw = before_ms @ local_part ms @ after_ms" and "length before_ms = cursor"
    and "cd = cursor + length (local_part ms)" and "distinct (names @ map fst ms)" and "amount + content_size ms \<le> MAX_BUNDLE_BYTES"
  shows "rfold (check_entry raw cd) (names, cursor, amount) (infos_of cursor ms)
         = Inr (names @ map fst ms, cd, amount + content_size ms)"
  using assms
proof (induction ms arbitrary: before_ms cursor names amount)
  case (Cons m ms)
  obtain n r where m: "m = (n, r)" by fastforce
  let ?c = "cursor + (30 + length (fst m) + length (snd m))"
  have step: "check_entry raw cd (names, cursor, amount) (info_of cursor m) = Inr (names @ [fst m], ?c, amount + length (snd m))"
    using Cons.prems m by (intro check_entry_written [where before_m = before_ms and after_m = "local_part ms @ after_ms"]) auto
  have "rfold (check_entry raw cd) (names @ [fst m], ?c, amount + length (snd m)) (infos_of ?c ms)
      = Inr ((names @ [fst m]) @ map fst ms, cd, (amount + length (snd m)) + content_size ms)"
    using Cons.prems m by (intro Cons.IH [where before_ms = "before_ms @ local_header n r @ r"]) auto
  then show ?case using step by simp
qed simp

lemma read_bodies_written:
  assumes "raw = before_ms @ local_part ms @ after_ms" and "length before_ms = cursor"
  shows "rmap (read_body raw) (infos_of cursor ms) = Inr ms"
  using assms
proof (induction ms arbitrary: before_ms cursor)
  case (Cons m ms)
  obtain n r where m: "m = (n, r)" by fastforce
  let ?c = "cursor + (30 + length n + length r)"
  have raw: "raw = (before_ms @ local_header n r) @ r @ local_part ms @ after_ms" using Cons.prems m by simp
  have "drop (cursor + 30 + length n) raw = r @ local_part ms @ after_ms"
    unfolding raw using Cons.prems(2) by simp
  then have "read_body raw (info_of cursor m) = Inr m"
    by (simp add: read_body_def info_of_def m)
  moreover have "rmap (read_body raw) (infos_of ?c ms) = Inr ms"
    using Cons.prems m by (intro Cons.IH [where before_ms = "before_ms @ local_header n r @ r"]) auto
  ultimately show ?case by (simp add: m)
qed simp

text \<open>The last name of a sorted set of members that includes \<open>runtime-dependencies.txt\<close> is long.\<close>

lemma late_names: "list_all (\<lambda>n. n < ''runtime-dependencies.txt'' \<or> length n \<ge> 20) ALLOWED_NAMES"
  by code_simp

lemma central_part_snoc: "\<exists>u. central_part off (ms @ [(n, r)]) = u @ n \<and> length u \<ge> 46"
proof (induction ms arbitrary: off)
  case Nil
  then show ?case
    by (intro exI [of _ "take 46 (central_header n r off)"]) (simp add: central_header_def)
next
  case (Cons m ms)
  obtain n' r' where m: "m = (n', r')" by fastforce
  then show ?case using Cons [of "off + (30 + length n' + length r')"] by (force simp: m)
qed


lemma allowed_no_control: "list_all (\<lambda>n. CHR 0x06 \<notin> set n) ALLOWED_NAMES"
  by code_simp

lemma no_locator:
  assumes "list_all member_ok ms" and "sorted (map fst ms)" and "set OUTER_NAMES \<subseteq> fst ` set ms" and raw: "raw = archive_bytes ms"
  shows "take 4 (drop (length raw - 42) raw) \<noteq> ZIP64_LOCATOR"
proof -
  let ?rd = "''runtime-dependencies.txt''"
  have rd: "?rd \<in> fst ` set ms" using assms(3) by (simp add: OUTER_NAMES_def subset_iff)
  then have "ms \<noteq> []" by auto
  then obtain xs n r where ms: "ms = xs @ [(n, r)]" by (metis prod.collapse rev_exhaust)
  have "?rd \<le> n" using rd assms(2) ms by (auto simp: sorted_append)
  moreover have n: "n \<in> set ALLOWED_NAMES" using assms(1) ms by (simp add: member_ok_def)
  ultimately have len: "length n \<ge> 20" using late_names by (auto simp: list_all_iff not_less)
  obtain u where u: "central_part 0 ms = u @ n" using central_part_snoc ms by blast
  define e where "e = end_record (length ms) (length (central_part 0 ms)) (length (local_part ms))"
  have e: "length e = 22" "raw = (local_part ms @ u) @ n @ e" using raw u by (simp_all add: archive_layout e_def)
  then have "drop (length raw - 42) raw = drop (length n - 20) n @ e" using len by simp
  then have "take 4 (drop (length raw - 42) raw) = take 4 (drop (length n - 20) n)" using len by simp
  moreover have "CHR 0x06 \<notin> set (take 4 (drop (length n - 20) n))"
    using allowed_no_control n by (auto simp: list_all_iff dest: in_set_takeD in_set_dropD)
  moreover have "CHR 0x06 \<in> set ZIP64_LOCATOR" by (simp add: ZIP64_LOCATOR_def)
  ultimately show ?thesis by metis
qed

text \<open>Members in the form that an archive keeps them.\<close>

definition archivable :: "members \<Rightarrow> bool" where
  "archivable ms \<longleftrightarrow> sorted (map fst ms) \<and> distinct (map fst ms) \<and> set OUTER_NAMES \<subseteq> fst ` set ms \<and> list_all (\<lambda>(n, raw). raw \<noteq> []) ms"

lemma zip_sorted:
  assumes "zip_members ms = Inr raw" and "sorted (map fst ms)"
  shows "raw = archive_bytes ms" "length ms \<le> MAX_MEMBERS" "content_size ms \<le> MAX_BUNDLE_BYTES" "length raw \<le> MAX_BUNDLE_BYTES"
    and "list_all (\<lambda>(n, r). n \<in> set ALLOWED_NAMES \<and> length r \<le> MAX_MEMBER_BYTES) ms"
proof -
  have s: "sort_key fst ms = ms" using assms(2) by (simp add: sorted_sort_id sort_key_id_if_sorted)
  note z = assms(1) [unfolded zip_members_def s Let_def require_eq_Inr rbind_eq_Inr]
  show "raw = archive_bytes ms" "length ms \<le> MAX_MEMBERS" "content_size ms \<le> MAX_BUNDLE_BYTES" "length raw \<le> MAX_BUNDLE_BYTES"
    using z by (auto simp: content_size_def)
  obtain us where "rmap check_member ms = Inr us" using z by blast
  then show "list_all (\<lambda>(n, r). n \<in> set ALLOWED_NAMES \<and> length r \<le> MAX_MEMBER_BYTES) ms"
    by (auto simp: rmap_eq_Inr list_all2_conv_all_nth list_all_length check_member_def safe_member_def rbind_eq_Inr require_eq_Inr split: prod.splits)
qed

lemma four_outer_names:
  assumes "set OUTER_NAMES \<subseteq> fst ` set ms"
  shows "4 \<le> length ms"
proof -
  have "card (set OUTER_NAMES) = 4" by (simp add: OUTER_NAMES_def)
  then have "4 \<le> card (fst ` set ms)" using card_mono [OF _ assms] by simp
  also have "\<dots> \<le> card (set ms)" by (rule card_image_le) simp
  also have "\<dots> \<le> length ms" by (rule card_length)
  finally show ?thesis .
qed

lemma read_archive_written:
  assumes zip: "zip_members ms = Inr raw" and ok: "archivable ms"
  shows "read_archive raw = Inr ms"
proof -
  have srt: "sorted (map fst ms)" "distinct (map fst ms)" and outer: "set OUTER_NAMES \<subseteq> fst ` set ms" and ne: "list_all (\<lambda>(n, raw). raw \<noteq> []) ms"
    using ok by (simp_all add: archivable_def)
  note z = zip_sorted [OF zip srt(1)]
  have mok: "list_all member_ok ms"
    using z(5) ne by (auto simp: list_all_iff member_ok_def Suc_le_eq)
  let ?L = "local_part ms" and ?C = "central_part 0 ms"
  let ?E = "end_record (length ms) (length ?C) (length ?L)"
  have raw: "raw = ?L @ ?C @ ?E" using z(1) archive_layout by simp
  have small: "length ms < 65536" "length ?C < 4294967296" "length ?L < 4294967296"
    using z(2,4) raw by (auto simp: MAX_MEMBERS_def MAX_BUNDLE_BYTES_def)
  note e = end_fields [OF small]
  have tail: "drop (length raw - 22) raw = ?E" using raw by simp
  have infos: "infolist (take (length ?C) (drop (length ?L) raw)) = Inr (infos_of 0 ms)"
    using infolist_central [of ms 0] mok small(3) raw by (auto simp: list_all_iff dest: member_okD(3))
  have checks: "rfold (check_entry raw (length ?L)) ([], 0, 0) (infos_of 0 ms) = Inr (map fst ms, length ?L, content_size ms)"
    using check_entries_written [OF mok, where before_ms = "[]" and names = "[]" and amount = 0 and raw = raw] raw srt(2) z(3) by simp
  have bodies: "rmap (read_body raw) (infos_of 0 ms) = Inr ms"
    using read_bodies_written [of raw "[]" ms] raw by simp
  have loc: "take 4 (drop (length raw - 42) raw) \<noteq> ZIP64_LOCATOR" using no_locator [OF mok srt(1) outer z(1)] .
  have len: "22 \<le> length raw \<and> length raw \<le> MAX_BUNDLE_BYTES" using z(4) raw by simp
  have cnt: "4 \<le> length ms" "length ms \<le> MAX_MEMBERS" using four_outer_names [OF outer] z(2) by auto
  have sz: "length ?L + length ?C = length raw - 22" using raw by simp
  have srt': "sort (map fst ms) = map fst ms" using srt(1) by (simp add: sorted_sort_id)
  show ?thesis
    unfolding read_archive_def Let_def tail e
    using len cnt sz infos checks bodies loc outer zip by (simp add: srt')
qed


subsection \<open>What is accepted\<close>

lemma check_entry_names:
  assumes "check_entry raw cd (names, cursor, amount) info = Inr (names', cursor', amount')"
  shows "names' = names @ [zi_filename info]" "zi_filename info \<notin> set names" "1 \<le> zi_file_size info"
proof -
  note c = assms [unfolded check_entry_def prod.case Let_def rbind_eq_Inr require_eq_Inr]
  then obtain name where "safe_member (JStr (zi_filename info)) = Inr name" "info_ok cd cursor names info"
    "names' = names @ [name]" by blast
  then show "names' = names @ [zi_filename info]" "zi_filename info \<notin> set names" "1 \<le> zi_file_size info"
    by (auto simp: safe_member_def require_eq_Inr info_ok_def)
qed

lemma check_entries_names:
  assumes "rfold (check_entry raw cd) st infos = Inr (names, cursor, amount)" and "distinct (fst st)"
  shows "names = fst st @ map zi_filename infos \<and> distinct names \<and> list_all (\<lambda>i. 1 \<le> zi_file_size i) infos"
  using assms
proof (induction infos arbitrary: st)
  case (Cons i infos)
  obtain ns c a where st: "st = (ns, c, a)" by (cases st)
  obtain ns' c' a' where step: "check_entry raw cd (ns, c, a) i = Inr (ns', c', a')"
    and rest: "rfold (check_entry raw cd) (ns', c', a') infos = Inr (names, cursor, amount)"
    using Cons.prems(1) st by (auto simp: rbind_eq_Inr)
  note n = check_entry_names [OF step]
  have "distinct (fst (ns', c', a'))" using n Cons.prems(2) st by simp
  note ih = Cons.IH [OF rest this]
  have "names = fst st @ map zi_filename (i # infos)" using ih n(1) st by simp
  moreover have "list_all (\<lambda>i. 1 \<le> zi_file_size i) (i # infos)" using ih n(3) by simp
  ultimately show ?case using ih by blast
qed simp

lemma read_archive_accepts:
  assumes "read_archive raw = Inr ms"
  shows "zip_members ms = Inr raw" "archivable ms"
proof -
  obtain infos cd names cursor amount where
    infos: "rfold (check_entry raw cd) ([], 0, 0) infos = Inr (names, cursor, amount)"
    and n: "\<not> (names \<noteq> sort names \<or> cursor \<noteq> cd \<or> \<not> set OUTER_NAMES \<subseteq> set names)"
    and bodies: "rmap (read_body raw) infos = Inr ms" and z: "zip_members ms = Inr raw"
    using assms unfolding read_archive_def Let_def rbind_eq_Inr require_eq_Inr by (auto simp: rbind_eq_Inr require_eq_Inr)
  show "zip_members ms = Inr raw" by (rule z)
  have names: "names = map zi_filename infos" "distinct names" and sz: "list_all (\<lambda>i. 1 \<le> zi_file_size i) infos"
    using check_entries_names [OF infos] by auto
  have b: "length ms = length infos" "i < length infos \<Longrightarrow> read_body raw (infos ! i) = Inr (ms ! i)" for i
    using bodies by (auto simp: rmap_eq_Inr list_all2_conv_all_nth)
  have body: "fst (ms ! i) = zi_filename (infos ! i)" "length (snd (ms ! i)) = zi_file_size (infos ! i)" if "i < length infos" for i
    using b(2) [OF that] by (cases "ms ! i"; auto simp: read_body_def Let_def require_eq_Inr)+
  have mn: "map fst ms = names" using b(1) body(1) by (auto simp: names(1) intro!: nth_equalityI)
  have "list_all (\<lambda>(n, raw). raw \<noteq> []) ms"
    using b(1) body(2) sz by (force simp: list_all_length case_prod_beta)
  moreover have "sorted names" using n by (metis sorted_sort)
  moreover have "set OUTER_NAMES \<subseteq> fst ` set ms" using n mn by (metis list.set_map)
  ultimately show "archivable ms" using names(2) mn by (simp add: archivable_def)
qed

interpretation ar: canonical_form zip_members read_archive archivable
  by unfold_locales (use read_archive_accepts read_archive_written in blast)

text \<open>
  C9. An archive is accepted exactly when it is the one canonical archive of its members: the bytes
  that the writer produces for them, with the members in sorted order, without repeated names, none
  empty, the four outer members among them. No other ZIP file with the same contents is accepted.
\<close>

theorem archive_accepted_exactly:
  "read_archive raw = Inr ms \<longleftrightarrow> zip_members ms = Inr raw \<and> archivable ms"
  by (rule ar.accepted)

end
