(* ===== verification/Bundle.thy ===== *)
theory Bundle
  imports Archive
begin

section \<open>Building bundles (\<open>build_bundle\<close> of \<open>evidence_bundle.py\<close>)\<close>

text \<open>
  A built report with everything that reproduces it, and the archive made of it. The packaged
  resources of the distribution and the JSON Schema validator (the package \<open>jsonschema\<close>) are the
  fields of a record that the operations take as an argument.
\<close>

record Resources =
  schema_valid :: "string \<Rightarrow> json \<Rightarrow> bool"
  runtime_dependencies :: string
  abi_resource :: "string \<Rightarrow> string"

text \<open>
  What is relied on: JSON objects are unordered, so that validation does not depend on the order of
  keys; and no packaged file is empty.
\<close>

definition resources_ok :: "Resources \<Rightarrow> bool" where
  "resources_ok res \<longleftrightarrow>
     (\<forall>name v. json_ok v \<longrightarrow> schema_valid res name (canon v) = schema_valid res name v)
     \<and> runtime_dependencies res \<noteq> [] \<and> (\<forall>name. abi_resource res name \<noteq> [])"

definition validate :: "Resources \<Rightarrow> string \<Rightarrow> json \<Rightarrow> unit res" where
  "validate res name v = require (schema_valid res name v) rejected_dataset (Inr ())"

record BuiltReport =
  br_document :: json
  br_report_bytes :: string
  br_report_sha256 :: string
  br_input_members :: members
  br_algorithm_bytes :: string
  br_dependency_bytes :: string
  br_extra_members :: members

definition dict_update :: "('k \<times> 'v) list \<Rightarrow> ('k \<times> 'v) list \<Rightarrow> ('k \<times> 'v) list" where
  "dict_update d kvs = foldl (\<lambda>d (k, v). AList.update k v d) d kvs"

definition bundle_members :: "BuiltReport \<Rightarrow> members" where
  "bundle_members built =
     dict_update
       (dict_update (map (\<lambda>(name, raw). (''sealed-input/'' @ name, raw)) (br_input_members built))
          [(''report.json'', br_report_bytes built), (''algorithm.json'', br_algorithm_bytes built),
           (''runtime-dependencies.txt'', br_dependency_bytes built)])
       (br_extra_members built)"

definition bundle_entry :: "string \<times> string \<Rightarrow> json" where
  "bundle_entry m =
     JObj [(''path'', JStr (fst m)), (''sha256'', JStr (digest (snd m))), (''length'', JInt (int (length (snd m))))]"

definition bundle_manifest :: "BuiltReport \<Rightarrow> json" where
  "bundle_manifest built =
     JObj [(''schema'', JStr ''liqvera-evidence-bundle-manifest/v1''), (''serialization_version'', JStr ''canonical-json/v1''),
       (''report_sha256'', JStr (br_report_sha256 built)),
       (''members'', JList (map bundle_entry (sort_key fst (bundle_members built))))]"

definition build_bundle :: "Resources \<Rightarrow> BuiltReport \<Rightarrow> string res" where
  "build_bundle res built =
     require (\<not> digest (br_report_bytes built) \<noteq> br_report_sha256 built) rejected_dataset (
     rbind (validate res ''bundle-manifest.schema.json'' (bundle_manifest built)) (\<lambda>_.
     rbind (canonical_json_bytes (bundle_manifest built)) (\<lambda>manifest.
     zip_members (AList.update ''manifest.json'' manifest (bundle_members built)))))"

end
