(* ===== verification/Hex.thy ===== *)
theory Hex
  imports Calculation
begin

section \<open>Hexadecimal text\<close>

text \<open>
  What the Mezo modules use of Python's string library: \<open>str.lower\<close> below U+0100, the test
  \<open>[0-9a-fA-F]\<close>, \<open>f"{n:064x}"\<close>, \<open>zfill\<close> on unsigned text (\<open>int(text, 16)\<close> is \<^term>\<open>int_of_hex\<close>). Rendering and
  reading a number are inverse to each other.
\<close>

definition lower_char :: "char \<Rightarrow> char" where
  "lower_char c =
     (if 65 \<le> code c \<and> code c \<le> 90 then char_of (code c + 32)
      else if 192 \<le> code c \<and> code c \<le> 222 \<and> code c \<noteq> 215 then char_of (code c + 32)
      else c)"

definition lower :: "string \<Rightarrow> string" where
  "lower s = map lower_char s"

definition is_hex :: "char \<Rightarrow> bool" where
  "is_hex c \<longleftrightarrow> c \<in> set ''0123456789abcdefABCDEF''"

definition hex_digit_val :: "char \<Rightarrow> int" where
  "hex_digit_val c =
     (let n = of_char c in if 97 \<le> n then n - 87 else if 65 \<le> n then n - 55 else n - 48)"

definition hex_number :: "string \<Rightarrow> int" where
  "hex_number s = foldl (\<lambda>n c. 16 * n + hex_digit_val c) 0 s"

function hex_str :: "int \<Rightarrow> string" where
  "hex_str n = (if n < 16 then [hex_digit (nat n)] else hex_str (n div 16) @ [hex_digit (nat (n mod 16))])"
  by pat_completeness auto
termination by (relation "measure nat") auto

declare hex_str.simps [simp del]

definition zfill :: "nat \<Rightarrow> string \<Rightarrow> string" where
  "zfill w s = replicate (w - length s) CHR ''0'' @ s"

text \<open>\<open>f"{n:0wx}"\<close> of a number that is not negative.\<close>

definition hex_width :: "nat \<Rightarrow> int \<Rightarrow> string" where
  "hex_width w n = zfill w (hex_str n)"

subsection \<open>Rendering and reading\<close>

text \<open>The small letter, bit by bit.\<close>

lemma lower_char_code [code]:
  "lower_char (Char b0 b1 b2 b3 b4 b5 b6 b7) =
     (if b6 \<and> \<not> b5 \<and> (if b7 then \<not> (b0 \<and> b1 \<and> b2 \<and> b4) else (b0 \<or> b1 \<or> b2 \<or> b3 \<or> b4) \<and> \<not> (b4 \<and> b3 \<and> (b2 \<or> (b1 \<and> b0))))
      then Char b0 b1 b2 b3 b4 True b6 b7 else Char b0 b1 b2 b3 b4 b5 b6 b7)"
  by (cases b0; cases b1; cases b2; cases b3; cases b4; cases b5; cases b6; cases b7; simp add: lower_char_def char_of_def bit_0)

lemma hex_digit_facts: "d < 16 \<Longrightarrow> is_hex (hex_digit d) \<and> hex_digit_val (hex_digit d) = int d \<and> lower_char (hex_digit d) = hex_digit d"
proof -
  assume "d < 16"
  then have "d \<in> set [0..<16]" by simp
  moreover have "list_all (\<lambda>d. is_hex (hex_digit d) \<and> hex_digit_val (hex_digit d) = int d \<and> lower_char (hex_digit d) = hex_digit d) [0..<16]"
    by code_simp
  ultimately show ?thesis by (simp only: list_all_iff)
qed

lemma hex_number_append: "hex_number (s @ t) = hex_number s * 16 ^ length t + hex_number t"
proof -
  have step: "foldl (\<lambda>n c. 16 * n + hex_digit_val c) m t = m * 16 ^ length t + foldl (\<lambda>n c. 16 * n + hex_digit_val c) 0 t" for m
  proof (induction t arbitrary: m)
    case (Cons c t)
    show ?case using Cons [of "16 * m + hex_digit_val c"] Cons [of "hex_digit_val c"] by (simp add: algebra_simps)
  qed simp
  show ?thesis using step [of "hex_number s"] by (simp add: hex_number_def)
qed

lemma hex_number_simps [simp]: "hex_number [] = 0" "hex_number [c] = hex_digit_val c"
  by (simp_all add: hex_number_def)

lemma hex_number_str [simp]: "0 \<le> n \<Longrightarrow> hex_number (hex_str n) = n"
proof (induction n rule: hex_str.induct)
  case (1 n)
  then show ?case by (subst hex_str.simps) (auto simp: hex_number_append hex_digit_facts)
qed

lemma hex_str_chars: "0 \<le> n \<Longrightarrow> list_all is_hex (hex_str n) \<and> lower (hex_str n) = hex_str n \<and> hex_str n \<noteq> []"
proof (induction n rule: hex_str.induct)
  case (1 n)
  then show ?case by (subst (1 2 3 4) hex_str.simps) (auto simp: lower_def hex_digit_facts)
qed

lemma hex_number_zeros [simp]: "hex_number (replicate k CHR ''0'') = 0"
  by (induction k) (simp_all add: hex_number_def hex_digit_val_def)

lemma hex_number_width [simp]: "0 \<le> n \<Longrightarrow> hex_number (hex_width w n) = n"
  by (simp add: hex_width_def zfill_def hex_number_append)

lemma length_hex_str: "n < 16 ^ k \<Longrightarrow> 0 < k \<Longrightarrow> length (hex_str n) \<le> k"
proof (induction n arbitrary: k rule: hex_str.induct)
  case (1 n)
  show ?case
  proof (cases "n < 16")
    case True
    then show ?thesis using 1(3) by (subst hex_str.simps) simp
  next
    case False
    obtain j where j: "k = Suc j" using 1(3) by (cases k) auto
    have "n < 16 ^ j * 16" using 1(2) j by simp
    then have "n div 16 < 16 ^ j" by (simp add: zdiv_less_iff)
    moreover have "0 < j" using False 1(2) j by (cases j) auto
    ultimately show ?thesis using 1(1) [OF False] False j by (subst hex_str.simps) simp
  qed
qed

lemma length_hex_width: "n < 16 ^ w \<Longrightarrow> 0 < w \<Longrightarrow> length (hex_width w n) = w"
  using length_hex_str [of n w] by (simp add: hex_width_def zfill_def)

lemma hex_width_chars: "0 \<le> n \<Longrightarrow> list_all is_hex (hex_width w n) \<and> lower (hex_width w n) = hex_width w n \<and> hex_width w n \<noteq> []"
proof -
  have "is_hex CHR ''0''" "lower_char CHR ''0'' = CHR ''0''" by code_simp+
  then show "0 \<le> n \<Longrightarrow> ?thesis" using hex_str_chars [of n] by (auto simp: hex_width_def zfill_def lower_def list_all_iff)
qed

lemma hex_digit_val_range: "is_hex c \<Longrightarrow> 0 \<le> hex_digit_val c \<and> hex_digit_val c < 16"
proof -
  have "list_all (\<lambda>c. 0 \<le> hex_digit_val c \<and> hex_digit_val c < 16) ''0123456789abcdefABCDEF''" by code_simp
  then show "is_hex c \<Longrightarrow> ?thesis" unfolding is_hex_def list_all_iff by blast
qed

lemma hex_number_range: "list_all is_hex s \<Longrightarrow> 0 \<le> hex_number s \<and> hex_number s < 16 ^ length s"
proof (induction s rule: rev_induct)
  case (snoc c s)
  then have "0 \<le> hex_number s" "hex_number s < 16 ^ length s" "0 \<le> hex_digit_val c" "hex_digit_val c < 16" using hex_digit_val_range by simp_all
  then show ?case by (simp add: hex_number_append)
qed simp

text \<open>\<open>int(text, 16)\<close> reads the same digits; the equation evaluates it without unary numbers.\<close>

lemma hex_val_digit_val: "hex_val c = Some d \<Longrightarrow> hex_digit_val c = int d"
proof -
  assume a: "hex_val c = Some d"
  have "(of_char c :: int) = int (code c)" by (simp add: of_nat_of_char)
  then show ?thesis using a by (auto simp: hex_val_def hex_digit_val_def Let_def of_nat_diff split: if_splits)
qed

lemma hex_num_number: "list_all (\<lambda>c. hex_val c \<noteq> None) s \<Longrightarrow> \<exists>n. hex_num s a = Some n \<and> int n = foldl (\<lambda>n c. 16 * n + hex_digit_val c) (int a) s"
proof (induction s arbitrary: a)
  case (Cons c s)
  then obtain d where d: "hex_val c = Some d" by auto
  then show ?case using Cons.IH [of "16 * a + d"] Cons.prems hex_val_digit_val [OF d] by simp
qed simp

lemma hex_digits_us_valid: "hex_digits_us s = Some t \<Longrightarrow> list_all (\<lambda>c. hex_val c \<noteq> None) t"
  by (induction s arbitrary: t rule: hex_digits_us.induct) (auto split: if_splits)

lemma int_of_hex_code [code]:
  "int_of_hex raw =
     (let s = strip raw;
          neg = (s \<noteq> [] \<and> hd s = CHR ''-'');
          b = (if s \<noteq> [] \<and> (hd s = CHR ''-'' \<or> hd s = CHR ''+'') then tl s else s);
          b' = (if take 2 b = ''0x'' \<or> take 2 b = ''0X''
                then (if take 1 (drop 2 b) = ''_'' then drop 3 b else drop 2 b) else b)
      in case hex_digits_us b' of
           None \<Rightarrow> Inl ValueError
         | Some ds \<Rightarrow> Inr (if neg then - hex_number ds else hex_number ds))"
proof -
  have "(case hex_num ds 0 of None \<Rightarrow> Inl ValueError | Some n \<Rightarrow> Inr (if neg then - int n else int n))
      = (Inr (if neg then - hex_number ds else hex_number ds) :: int res)" if "hex_digits_us b = Some ds" for b ds neg
    using hex_num_number [OF hex_digits_us_valid [OF that], of 0] by (auto simp: hex_number_def)
  then show ?thesis by (auto simp: int_of_hex_def Let_def split: option.splits)
qed

lemma hex_val_code [code]:
  "hex_val c = map_of (zip ''0123456789abcdefABCDEF'' [0, 1, 2, 3, 4, 5, 6, 7, 8, 9, 10, 11, 12, 13, 14, 15, 10, 11, 12, 13, 14, 15]) c"
proof (cases c)
  case (Char b0 b1 b2 b3 b4 b5 b6 b7)
  show ?thesis unfolding Char hex_val_def
    by (cases b0; cases b1; cases b2; cases b3; cases b4; cases b5; cases b6; cases b7; simp)
qed

end
