(* ===== verification/MezoDex.thy ===== *)
theory MezoDex
  imports Calculation Hex
begin

section \<open>The Mezo exchange capture (\<open>public_adapters/mezo_dex.py\<close>, \<open>liqvera_evidence_report/mezo_dex.py\<close>)\<close>

text \<open>
  A capture holds raw JSON-RPC responses of one block. \<open>verify_capture\<close> decodes them again
  without trusting any decoded field and checks the quote; \<open>capture_dex\<close> asks a node, whose
  transport is the argument \<open>rpc\<close>: the response to the \<open>i\<close>-th request with a method and
  parameters, or the exception it raises. \<open>build_dex_report\<close> computes the report.
  Mappings with fixed keys that the code builds are records.
\<close>

definition RPC_URL :: string where
  "RPC_URL = ''https://rpc.test.mezo.org''"

definition POOL :: string where
  "POOL = ''0xd16A5Df82120ED8D626a1a15232bFcE2366d6AA9''"

definition ROUTER :: string where
  "ROUTER = ''0x9a1ff7FE3a0F69959A3fBa1F1e5ee18e1A9CD7E9''"

definition FACTORY :: string where
  "FACTORY = ''0x4947243CC818b627A5D06d14C4eCe7398A23Ce1A''"

definition MUSD :: string where
  "MUSD = ''0x118917a40FAF1CD7a13dB0Ef56C86De7973Ac503''"

definition BTC :: string where
  "BTC = ''0x7b7C000000000000000000000000000000000000''"

abbreviation dex_invalid :: py_exc where
  "dex_invalid \<equiv> CodedValueError ''MEZO_DEX_INVALID_EVIDENCE''"

text \<open>\<open>re.fullmatch(r"0x[0-9a-fA-F]+", raw)\<close>\<close>

definition is_hex_text :: "string \<Rightarrow> bool" where
  "is_hex_text s \<longleftrightarrow> take 2 s = ''0x'' \<and> drop 2 s \<noteq> [] \<and> list_all is_hex (drop 2 s)"

definition abi_words :: "json \<Rightarrow> nat \<Rightarrow> int list res" where
  "abi_words raw count =
     (case raw of
        JStr s \<Rightarrow>
          require (is_hex_text s) dex_invalid (
          require (length s = 2 + 64 * count) dex_invalid (
          Inr (map (\<lambda>i. hex_number (take 64 (drop (2 + 64 * i) s))) [0..<count])))
      | _ \<Rightarrow> Inl dex_invalid)"

definition address_word :: "string \<Rightarrow> string" where
  "address_word a = zfill 64 (lower (drop 2 a))"

definition router_calldata :: "int \<Rightarrow> string \<Rightarrow> string \<Rightarrow> string res" where
  "router_calldata amount token_in token_out =
     require (0 \<le> amount \<and> amount < 2 ^ 256) dex_invalid (
     require ((token_in, token_out) \<in> {(BTC, MUSD), (MUSD, BTC)}) dex_invalid (
     Inr (''0x5509a1ac'' @ hex_width 64 amount @ hex_width 64 64 @ hex_width 64 1
          @ address_word token_in @ address_word token_out @ hex_width 64 0 @ address_word FACTORY)))"

text \<open>\<open>v[k]\<close> of a decoded value: anything but a mapping raises \<open>TypeError\<close> for a text key.\<close>

definition item :: "json \<Rightarrow> string \<Rightarrow> json res" where
  "item v k = (case v of JObj d \<Rightarrow> jindex d k | _ \<Rightarrow> Inl TypeError)"

definition item_lower :: "json \<Rightarrow> string \<Rightarrow> string res" where
  "item_lower v k = rbind (item v k) (\<lambda>x. case x of JStr s \<Rightarrow> Inr (lower s) | _ \<Rightarrow> Inl AttributeError)"

definition has_key :: "string \<Rightarrow> (string \<times> json) list \<Rightarrow> bool" where
  "has_key k d \<longleftrightarrow> map_of d k \<noteq> None"

type_synonym call_table = "((string \<times> string) \<times> json) list"

definition add_call :: "string \<Rightarrow> call_table \<Rightarrow> json \<Rightarrow> call_table res" where
  "add_call block calls call =
     rbind (item call ''block'') (\<lambda>b.
     require (b = JStr block) dex_invalid (
     rbind (item_lower call ''to'') (\<lambda>to.
     rbind (item_lower call ''data'') (\<lambda>data.
     require (map_of calls (to, data) = None) dex_invalid (
     Inr (calls @ [((to, data), call)]))))))"

text \<open>The local \<open>words\<close>: the response to a call, without an error, as words.\<close>

definition call_words :: "call_table \<Rightarrow> string \<Rightarrow> string \<Rightarrow> nat \<Rightarrow> int list res" where
  "call_words calls address data count =
     (case map_of calls (lower address, lower data) of
        None \<Rightarrow> Inl KeyError
      | Some call \<Rightarrow>
          rbind (item call ''response'') (\<lambda>response.
          case response of
            JObj d \<Rightarrow>
              require (\<not> has_key ''error'' d \<and> jget d ''jsonrpc'' = JStr ''2.0'') dex_invalid (
              rbind (jindex d ''result'') (\<lambda>result. abi_words result count))
          | _ \<Rightarrow> Inl TypeError))"

definition call_word :: "call_table \<Rightarrow> string \<Rightarrow> string \<Rightarrow> int res" where
  "call_word calls address data = rbind (call_words calls address data 1) (\<lambda>ws. Inr (ws ! 0))"

record DexQuote =
  dq_block_number :: string
  dq_block_hash :: string
  dq_block_timestamp :: int
  dq_reserve_musd :: int
  dq_reserve_btc :: int
  dq_fee_bps :: int
  dq_btc_decimals :: int
  dq_pool_amount_out :: int
  dq_router_amount_out :: int
  dq_amount_in :: int

text \<open>\<open>re.fullmatch(r"0x[1-9a-f][0-9a-f]*", block)\<close> and \<open>re.fullmatch(r"0x[0-9a-fA-F]{64}", hash)\<close>\<close>

definition is_block_number :: "string \<Rightarrow> bool" where
  "is_block_number s \<longleftrightarrow> take 2 s = ''0x'' \<and> drop 2 s \<noteq> [] \<and> hd (drop 2 s) \<noteq> CHR ''0'' \<and> list_all is_hex_lower (drop 2 s)"

definition is_hash :: "string \<Rightarrow> bool" where
  "is_hash s \<longleftrightarrow> take 2 s = ''0x'' \<and> length s = 66 \<and> list_all is_hex (drop 2 s)"

text \<open>The block header of a probe: number, hash and timestamp, unchanged after the calls.\<close>

definition probe_header :: "json \<Rightarrow> (string \<times> string \<times> int) res" where
  "probe_header probe =
     rbind (rbind (item probe ''block'') (\<lambda>b. item b ''result'')) (\<lambda>header.
     rbind (item header ''number'') (\<lambda>number.
     case number of
       JStr block \<Rightarrow>
         require (is_block_number block) dex_invalid (
         rbind (item header ''hash'') (\<lambda>h.
         case h of
           JStr hash \<Rightarrow>
             require (is_hash hash) dex_invalid (
             rbind (item header ''timestamp'') (\<lambda>t.
             case t of
               JStr ts \<Rightarrow>
                 rbind (int_of_hex ts) (\<lambda>timestamp.
                 rbind (case probe of
                          JObj d \<Rightarrow>
                            (case map_of d ''block_after'' of
                               None \<Rightarrow> Inr ()
                             | Some a \<Rightarrow>
                                 rbind (item a ''result'') (\<lambda>after.
                                 rbind (item after ''number'') (\<lambda>n'.
                                 require (n' = JStr block) dex_invalid (
                                 rbind (item after ''hash'') (\<lambda>h'.
                                 require (h' = JStr hash) dex_invalid (
                                 rbind (item after ''timestamp'') (\<lambda>t'.
                                 require (t' = JStr ts) dex_invalid (Inr ()))))))))
                        | _ \<Rightarrow> Inl TypeError) (\<lambda>_.
                 Inr (block, hash, timestamp)))
             | _ \<Rightarrow> Inl TypeError))
         | _ \<Rightarrow> Inl TypeError))
     | _ \<Rightarrow> Inl dex_invalid))"

definition probe_calls :: "json \<Rightarrow> string \<Rightarrow> call_table res" where
  "probe_calls probe block =
     rbind (item probe ''calls'') (\<lambda>cs.
     case cs of
       JList items \<Rightarrow>
         require (8 \<le> length items \<and> length items \<le> 64) dex_invalid (rfold (add_call block) [] items)
     | _ \<Rightarrow> Inl dex_invalid)"

text \<open>The checks on the pool: its tokens, its kind, its reserves, the unit and the fee.\<close>

definition pool_state :: "call_table \<Rightarrow> int \<Rightarrow> (int \<times> int \<times> int \<times> int) res" where
  "pool_state calls timestamp =
     rbind (call_words calls POOL ''0x0dfe1681'' 1) (\<lambda>token0.
     rbind (int_of_hex MUSD) (\<lambda>musd_word.
     require (token0 = [musd_word]) dex_invalid (
     rbind (call_words calls POOL ''0xd21220a7'' 1) (\<lambda>token1.
     rbind (int_of_hex BTC) (\<lambda>btc_word.
     require (token1 = [btc_word]) dex_invalid (
     rbind (call_words calls POOL ''0x22be3de1'' 1) (\<lambda>stable.
     require (stable = [0]) dex_invalid (
     rbind (call_words calls POOL ''0x0902f1ac'' 3) (\<lambda>reserves.
     let musd = reserves ! 0; btc = reserves ! 1; last = reserves ! 2
     in require (musd > 0 \<and> btc > 0 \<and> 0 \<le> last \<and> last \<le> timestamp) dex_invalid (
     rbind (call_word calls BTC ''0x313ce567'') (\<lambda>decimals.
     require (decimals = 18) dex_invalid (
     rbind (call_word calls FACTORY (''0xcc56b2c5'' @ address_word POOL @ replicate 64 CHR ''0'')) (\<lambda>fee.
     require (0 \<le> fee \<and> fee < 10000) dex_invalid (
     Inr (musd, btc, decimals, fee)))))))))))))))"

text \<open>The quotes of pool and router, against the formula.\<close>

definition probe_quote :: "call_table \<Rightarrow> string \<Rightarrow> string \<Rightarrow> int \<Rightarrow> int \<Rightarrow> string \<Rightarrow> DexQuote res" where
  "probe_quote calls block hash timestamp amount token_in =
     rbind (pool_state calls timestamp) (\<lambda>(musd, btc, decimals, fee).
     require (0 < amount \<and> amount < 2 ^ 256 \<and> token_in \<in> {BTC, MUSD}) dex_invalid (
     let token_out = (if token_in = BTC then MUSD else BTC)
     in rbind (call_word calls POOL (''0xf140a35a'' @ hex_width 64 amount @ address_word token_in)) (\<lambda>out.
     rbind (rbind (router_calldata amount token_in token_out) (\<lambda>data. call_words calls ROUTER data 4)) (\<lambda>router.
     require (take 3 router = [32, 2, amount]) dex_invalid (
     require (amount * fee < 2 ^ 256) dex_invalid (
     let net = amount - amount * fee div 10000;
         reserve_in = (if token_in = BTC then btc else musd);
         reserve_out = (if token_in = BTC then musd else btc)
     in require (net * reserve_out < 2 ^ 256 \<and> reserve_in + net < 2 ^ 256) dex_invalid (
        let expected = net * reserve_out div (reserve_in + net)
        in require (out = router ! 3 \<and> router ! 3 = expected) dex_invalid (
     rbind (int_of_hex block) (\<lambda>number.
     Inr \<lparr>dq_block_number = int_str number, dq_block_hash = hash, dq_block_timestamp = timestamp,
          dq_reserve_musd = musd, dq_reserve_btc = btc, dq_fee_bps = fee, dq_btc_decimals = decimals,
          dq_pool_amount_out = out, dq_router_amount_out = router ! 3, dq_amount_in = amount\<rparr>)))))))))"

definition dex_caught :: "py_exc \<Rightarrow> bool" where
  "dex_caught e \<longleftrightarrow> e \<in> {KeyError, TypeError, AttributeError, OverflowError} \<or> is_value_error e"

definition decode_probe :: "json \<Rightarrow> int \<Rightarrow> string \<Rightarrow> DexQuote res" where
  "decode_probe probe amount token_in =
     reraise dex_caught dex_invalid (
       case probe of
         JObj _ \<Rightarrow>
           rbind (item probe ''rpc_url'') (\<lambda>url.
           require (url = JStr RPC_URL) dex_invalid (
           rbind (rbind (item probe ''chain'') (\<lambda>c. item c ''result'')) (\<lambda>chain.
           require (chain = JStr ''0x7b7b'') dex_invalid (
           rbind (probe_header probe) (\<lambda>(block, hash, timestamp).
           rbind (probe_calls probe block) (\<lambda>calls.
           probe_quote calls block hash timestamp amount token_in))))))
       | _ \<Rightarrow> Inl dex_invalid)"

definition buy_input :: "int \<Rightarrow> int \<Rightarrow> int \<Rightarrow> int \<Rightarrow> int res" where
  "buy_input wanted reserve_musd reserve_btc fee =
     require (0 < wanted \<and> wanted < reserve_btc \<and> reserve_musd > 0 \<and> 0 \<le> fee \<and> fee < 10000) dex_invalid (
     let denominator = reserve_btc - wanted;
         net = (wanted * reserve_musd + denominator - 1) div denominator
     in Inr ((net - 1) * 10000 div (10000 - fee) + 1))"

record VerifiedDex =
  vd_quote :: DexQuote
  vd_side :: string
  vd_quantity_wei :: int

text \<open>\<open>re.fullmatch(r"[1-9][0-9]{0,77}", text)\<close>\<close>

definition is_wei_text :: "string \<Rightarrow> bool" where
  "is_wei_text s \<longleftrightarrow> s \<noteq> [] \<and> length s \<le> 78 \<and> hd s \<noteq> CHR ''0'' \<and> list_all is_ascii_digit s"

text \<open>The amount in the calldata of the one call to the router.\<close>

definition planned_amount :: "json \<Rightarrow> int res" where
  "planned_amount capture =
     rbind (rbind (item capture ''probe'') (\<lambda>p. item p ''calls'')) (\<lambda>cs.
     case cs of
       JList items \<Rightarrow>
         rbind (rmap (\<lambda>c. rbind (item_lower c ''to'') (\<lambda>to. Inr (to, c))) items) (\<lambda>tagged.
         case filter (\<lambda>(to, c). to = lower ROUTER) tagged of
           [(_, c)] \<Rightarrow>
             rbind (item c ''data'') (\<lambda>data.
             case data of
               JStr s \<Rightarrow> require (length s \<ge> 74) dex_invalid (int_of_hex (take 64 (drop 10 s)))
             | _ \<Rightarrow> Inl dex_invalid)
         | _ \<Rightarrow> Inl dex_invalid)
     | _ \<Rightarrow> Inl TypeError)"

text \<open>The request that a capture states: its side and quantity.\<close>

definition capture_request :: "(string \<times> json) list \<Rightarrow> (string \<times> int) res" where
  "capture_request d =
     require (set (map fst d) = {''schema'', ''source'', ''side'', ''quantity_wei'', ''probe''}) dex_invalid (
     rbind (jindex d ''schema'') (\<lambda>schema.
     require (schema = JStr ''liqvera-mezo-dex-capture/v1'') dex_invalid (
     rbind (jindex d ''source'') (\<lambda>source.
     require (source = JStr ''mezo-dex:MUSD-BTC:testnet'') dex_invalid (
     rbind (jindex d ''side'') (\<lambda>side.
     rbind (jindex d ''quantity_wei'') (\<lambda>text.
     case (side, text) of
       (JStr sd, JStr t) \<Rightarrow>
         require (sd \<in> {''BUY'', ''SELL''} \<and> is_wei_text t) dex_invalid (
         rbind (int_of_str t) (\<lambda>wanted.
         require (wanted < 2 ^ 256) dex_invalid (Inr (sd, wanted))))
     | _ \<Rightarrow> Inl dex_invalid)))))))"

text \<open>The planned amount is the quantity itself, or the least input that reaches it.\<close>

definition check_amount :: "string \<Rightarrow> int \<Rightarrow> int \<Rightarrow> DexQuote \<Rightarrow> unit res" where
  "check_amount sd wanted amount q =
     (if sd = ''SELL'' then require (amount = wanted) dex_invalid (Inr ())
      else rbind (buy_input wanted (dq_reserve_musd q) (dq_reserve_btc q) (dq_fee_bps q)) (\<lambda>b.
           require (amount = b) dex_invalid (
           require (dq_router_amount_out q \<ge> wanted) dex_invalid (Inr ()))))"

definition verify_capture :: "json \<Rightarrow> VerifiedDex res" where
  "verify_capture capture =
     reraise dex_caught dex_invalid (
       case capture of
         JObj d \<Rightarrow>
           rbind (capture_request d) (\<lambda>(sd, wanted).
           rbind (planned_amount capture) (\<lambda>amount.
           rbind (jindex d ''probe'') (\<lambda>probe.
           rbind (decode_probe probe amount (if sd = ''SELL'' then BTC else MUSD)) (\<lambda>q.
           rbind (check_amount sd wanted amount q) (\<lambda>_.
           Inr \<lparr>vd_quote = q, vd_side = sd, vd_quantity_wei = wanted\<rparr>)))))
       | _ \<Rightarrow> Inl dex_invalid)"

subsection \<open>Capturing from a node\<close>

type_synonym rpc = "nat \<Rightarrow> string \<Rightarrow> json list \<Rightarrow> json res"

abbreviation source_unavailable :: py_exc where
  "source_unavailable \<equiv> CodedValueError ''MEZO_SOURCE_UNAVAILABLE''"

text \<open>The local \<open>call\<close>: one read at the fixed block, recorded with its raw response.\<close>

definition dex_call :: "rpc \<Rightarrow> string \<Rightarrow> json list \<Rightarrow> string \<Rightarrow> string \<Rightarrow> (json list \<times> json) res" where
  "dex_call rpc block calls to data =
     rbind (rpc (3 + length calls) ''eth_call'' [JObj [(''to'', JStr to), (''data'', JStr data)], JStr block]) (\<lambda>response.
     case response of
       JObj d \<Rightarrow>
         require (\<not> has_key ''error'' d \<and> has_key ''result'' d) dex_invalid (
         Inr (calls @ [JObj [(''to'', JStr to), (''data'', JStr data), (''block'', JStr block), (''response'', response)]],
              jget d ''result''))
     | _ \<Rightarrow> Inl dex_invalid)"

definition dex_reads :: "rpc \<Rightarrow> string \<Rightarrow> string \<Rightarrow> int \<Rightarrow> json list res" where
  "dex_reads rpc block side wanted =
     rbind (dex_call rpc block [] POOL ''0x0dfe1681'') (\<lambda>(c1, _).
     rbind (dex_call rpc block c1 POOL ''0xd21220a7'') (\<lambda>(c2, _).
     rbind (dex_call rpc block c2 POOL ''0x22be3de1'') (\<lambda>(c3, _).
     rbind (dex_call rpc block c3 POOL ''0x0902f1ac'') (\<lambda>(c4, raw).
     rbind (abi_words raw 3) (\<lambda>reserves.
     rbind (dex_call rpc block c4 BTC ''0x313ce567'') (\<lambda>(c5, _).
     rbind (dex_call rpc block c5 FACTORY (''0xcc56b2c5'' @ address_word POOL @ replicate 64 CHR ''0'')) (\<lambda>(c6, raw_fee).
     rbind (abi_words raw_fee 1) (\<lambda>fees.
     rbind (if side = ''SELL'' then Inr wanted else buy_input wanted (reserves ! 0) (reserves ! 1) (fees ! 0)) (\<lambda>amount.
     let token_in = (if side = ''SELL'' then BTC else MUSD); token_out = (if side = ''SELL'' then MUSD else BTC)
     in rbind (dex_call rpc block c6 POOL (''0xf140a35a'' @ hex_width 64 amount @ address_word token_in)) (\<lambda>(c7, _).
        rbind (router_calldata amount token_in token_out) (\<lambda>data.
        rbind (dex_call rpc block c7 ROUTER data) (\<lambda>(c8, _). Inr c8))))))))))))"

definition source_caught :: "py_exc \<Rightarrow> bool" where
  "source_caught e \<longleftrightarrow> e \<in> {OSError, FileExistsError, KeyError, TypeError} \<or> is_value_error e"

definition capture_dex :: "rpc \<Rightarrow> string \<Rightarrow> int \<Rightarrow> json res" where
  "capture_dex rpc side wanted =
     require (side \<in> {''BUY'', ''SELL''} \<and> 0 < wanted \<and> wanted < 2 ^ 256) (CodedValueError ''MEZO_DEX_INVALID_INPUT'') (
     reraise source_caught source_unavailable (
       rbind (rbind (rpc 0 ''eth_blockNumber'' []) (\<lambda>r. item r ''result'')) (\<lambda>number.
       case number of
         JStr block \<Rightarrow>
           require (is_block_number block) dex_invalid (
           rbind (rpc 1 ''eth_chainId'' []) (\<lambda>chain.
           case chain of
             JObj cd \<Rightarrow>
               require (jget cd ''result'' = JStr ''0x7b7b'') dex_invalid (
               rbind (rpc 2 ''eth_getBlockByNumber'' [JStr block, JBool False]) (\<lambda>header.
               rbind (rbind (item header ''result'') (\<lambda>h. item h ''number'')) (\<lambda>n.
               require (n = JStr block) dex_invalid (
               rbind (dex_reads rpc block side wanted) (\<lambda>calls.
               rbind (rpc 11 ''eth_getBlockByNumber'' [JStr block, JBool False]) (\<lambda>after.
               rbind (rbind (item after ''result'') (\<lambda>h. item h ''hash'')) (\<lambda>after_hash.
               rbind (rbind (item header ''result'') (\<lambda>h. item h ''hash'')) (\<lambda>header_hash.
               require (after_hash = header_hash) dex_invalid (
               let capture = JObj [(''schema'', JStr ''liqvera-mezo-dex-capture/v1''), (''source'', JStr ''mezo-dex:MUSD-BTC:testnet''),
                     (''side'', JStr side), (''quantity_wei'', JStr (int_str wanted)),
                     (''probe'', JObj [(''rpc_url'', JStr RPC_URL), (''chain'', chain), (''block'', header),
                        (''block_after'', after), (''calls'', JList calls)])]
               in rbind (verify_capture capture) (\<lambda>_. Inr capture))))))))))
           | _ \<Rightarrow> Inl AttributeError))
       | _ \<Rightarrow> Inl dex_invalid)))"

subsection \<open>The report\<close>

text \<open>\<open>Fraction(text)\<close> for signed decimal text; other notations of the constructor are not modelled.\<close>

definition fraction_of_str :: "string \<Rightarrow> rat res" where
  "fraction_of_str raw =
     (let s = strip raw;
          neg = (s \<noteq> [] \<and> hd s = CHR ''-'');
          body = (if s \<noteq> [] \<and> (hd s = CHR ''-'' \<or> hd s = CHR ''+'') then tl s else s);
          sg = (if neg then -1 else 1)
      in case split_on CHR ''.'' body of
           [w] \<Rightarrow> if w \<noteq> [] \<and> list_all is_ascii_digit w then Inr (sg * of_nat (digits_val w)) else Inl NotModelled
         | [w, f] \<Rightarrow> if w @ f \<noteq> [] \<and> list_all is_ascii_digit (w @ f)
                    then Inr (sg * (of_nat (digits_val (w @ f)) / 10 ^ length f)) else Inl NotModelled
         | _ \<Rightarrow> Inl NotModelled)"

text \<open>The local \<open>quote\<close>: input, output, average price and impact of a size, and the displayed row.\<close>

definition quote_amounts :: "string \<Rightarrow> int \<Rightarrow> int \<Rightarrow> int \<Rightarrow> int \<Rightarrow> (int \<times> int \<times> rat \<times> rat) res" where
  "quote_amounts side musd btc fee q =
     (let mid = rat_of_int musd / of_int btc in
      if side = ''SELL'' then
        rbind (amm_amount_out q btc musd fee) (\<lambda>out.
        require (out \<noteq> 0) (CodedValueError ''INSUFFICIENT_LIQUIDITY'') (
        require (q \<noteq> 0) ZeroDivisionError (
        let average = rat_of_int out / of_int q in Inr (q, out, average, (mid - average) * 10000 / mid))))
      else
        rbind (amm_amount_in q musd btc fee) (\<lambda>amount_in.
        rbind (amm_amount_out amount_in musd btc fee) (\<lambda>out.
        require (out \<noteq> 0) ZeroDivisionError (
        let average = rat_of_int amount_in / of_int out in Inr (amount_in, out, average, (average - mid) * 10000 / mid)))))"

definition dex_quote :: "string \<Rightarrow> int \<Rightarrow> int \<Rightarrow> int \<Rightarrow> int \<Rightarrow> (int \<times> int \<times> (string \<times> json) list) res" where
  "dex_quote side musd btc fee q =
     rbind (quote_amounts side musd btc fee q) (\<lambda>(amount_in, out, average, impact).
     rbind (display (of_int q / 10 ^ 18)) (\<lambda>dq.
     rbind (display average) (\<lambda>da.
     rbind (display impact) (\<lambda>di.
     Inr (amount_in, out, [(''quantity_btc'', JStr dq), (''amount_in'', JStr (int_str amount_in)),
       (''amount_out'', JStr (int_str out)), (''avg_price_musd'', JStr da), (''price_impact_bps'', JStr di)])))))"

definition ladder_sizes :: "int list" where
  "ladder_sizes = [10 ^ 16, 10 ^ 17, 10 ^ 18, 5 * 10 ^ 18, 10 * 10 ^ 18]"

definition ladder_row :: "string \<Rightarrow> int \<Rightarrow> int \<Rightarrow> int \<Rightarrow> int \<Rightarrow> json res" where
  "ladder_row side musd btc fee q =
     (case dex_quote side musd btc fee q of
        Inr (_, _, row) \<Rightarrow> Inr (JObj row)
      | Inl e \<Rightarrow>
          if e = CodedValueError ''INSUFFICIENT_LIQUIDITY'' then
            rbind (display (of_int q / 10 ^ 18)) (\<lambda>dq.
            Inr (JObj [(''quantity_btc'', JStr dq), (''status'', JStr ''INSUFFICIENT_LIQUIDITY'')]))
          else Inl e)"

definition dex_caveats :: "string list" where
  "dex_caveats = [''Mezo Testnet liquidity; excludes gas and execution guarantees.'',
     ''BUY is a minimum-input exact-input quote reaching at least the requested BTC.'',
     ''Depth ladder is calculated from reserves; only the requested size is RPC cross-checked.'',
     ''RPC observations are not independently authenticated chain inclusion proofs.'']"

definition build_dex_report :: "json \<Rightarrow> string \<Rightarrow> string \<Rightarrow> json res" where
  "build_dex_report capture side quantity_btc =
     rbind (verify_capture capture) (\<lambda>decoded.
     rbind (fraction_of_str quantity_btc) (\<lambda>f.
     let wanted = f * 10 ^ 18; q = vd_quote decoded;
         musd = dq_reserve_musd q; btc = dq_reserve_btc q; fee = dq_fee_bps q
     in require (\<not> (denom wanted \<noteq> 1 \<or> numer wanted \<noteq> vd_quantity_wei decoded \<or> side \<noteq> vd_side decoded))
          (CodedValueError ''MEZO_DEX_REQUEST_MISMATCH'') (
        require (btc \<noteq> 0) ZeroDivisionError (
        rbind (dex_quote side musd btc fee (numer wanted)) (\<lambda>(amount_in, amount_out, result).
        require (\<not> (int_str amount_in \<noteq> int_str (dq_amount_in q) \<or> int_str amount_out \<noteq> int_str (dq_router_amount_out q)))
          (CodedValueError ''MEZO_DEX_FORMULA_MISMATCH'') (
        rbind (rmap (ladder_row side musd btc fee) ladder_sizes) (\<lambda>ladder.
        rbind (display (of_int musd / of_int btc)) (\<lambda>mid.
        let explorer = ''https://explorer.test.mezo.org''
        in Inr (JObj ([(''side'', JStr side)] @ result @ [(''mid_price_musd'', JStr mid), (''fee_bps'', JInt fee),
             (''router_amount_out'', JStr (int_str (dq_router_amount_out q))), (''formula_amount_out'', JStr (int_str amount_out)),
             (''match'', JBool True), (''depth_ladder'', JList ladder), (''block_number'', JStr (dq_block_number q)),
             (''block_hash'', JStr (dq_block_hash q)),
             (''explorer_links'', JObj [(''pool'', JStr (explorer @ ''/address/'' @ POOL)), (''router'', JStr (explorer @ ''/address/'' @ ROUTER)),
                (''block'', JStr (explorer @ ''/block/'' @ dq_block_number q))]),
             (''caveats'', JList (map JStr dex_caveats))]))))))))))"

definition venue_comparison :: "int \<Rightarrow> int \<Rightarrow> rat \<Rightarrow> string \<Rightarrow> json res" where
  "venue_comparison amount_in amount_out hl_vwap side =
     require ((if side = ''SELL'' then amount_in else amount_out) \<noteq> 0) ZeroDivisionError (
     let average = (if side = ''SELL'' then rat_of_int amount_out / of_int amount_in else of_int amount_in / of_int amount_out);
         better = (if average = hl_vwap then ''equal''
                   else if (if side = ''SELL'' then average > hl_vwap else average < hl_vwap) then ''mezo'' else ''hyperliquid'')
     in rbind (display hl_vwap) (\<lambda>h.
        rbind (display average) (\<lambda>m.
        require (hl_vwap \<noteq> 0) ZeroDivisionError (
        rbind (display ((average - hl_vwap) * 10000 / hl_vwap)) (\<lambda>s.
        Inr (JObj [(''hyperliquid_avg_price'', JStr h), (''mezo_avg_price'', JStr m), (''spread_bps'', JStr s),
          (''better_venue'', JStr better),
          (''caveats'', JList (map JStr [''Hyperliquid BTC perpetual USD quote versus Mezo BTC spot MUSD quote; not equivalent assets.'',
             ''Testnet liquidity; excludes gas, Hyperliquid fees and funding.'',
             ''Separate source timestamps; comparison is hypothetical, not an execution recommendation.'']))]))))))"

subsection \<open>What a verified capture guarantees\<close>

definition word_range :: "int \<Rightarrow> bool" where
  "word_range w \<longleftrightarrow> 0 \<le> w \<and> w < 2 ^ 256"

lemma abi_words_range:
  assumes "abi_words raw n = Inr ws"
  shows "length ws = n \<and> list_all word_range ws"
proof -
  obtain s where s: "raw = JStr s" "is_hex_text s" "length s = 2 + 64 * n"
      "ws = map (\<lambda>i. hex_number (take 64 (drop (2 + 64 * i) s))) [0..<n]"
    using assms by (cases raw) (auto simp: abi_words_def require_eq_Inr)
  have "word_range (hex_number (take 64 (drop (2 + 64 * i) s)))" if "i < n" for i
  proof -
    have "set (take 64 (drop (2 + 64 * i) s)) \<subseteq> set (drop 2 s)"
      by (meson set_take_subset set_drop_subset_set_drop le_add1 order_trans)
    then have "list_all is_hex (take 64 (drop (2 + 64 * i) s))" using s(2) by (auto simp: is_hex_text_def list_all_iff)
    moreover have "length (take 64 (drop (2 + 64 * i) s)) = 64" using that s(3) by simp
    ultimately show ?thesis using hex_number_range [of "take 64 (drop (2 + 64 * i) s)"] by (simp add: word_range_def)
  qed
  then show ?thesis by (auto simp: s(4) list_all_iff)
qed

lemma case_json_Inr:
  "(case v of JObj d \<Rightarrow> f d | _ \<Rightarrow> Inl e) = Inr y \<longleftrightarrow> (\<exists>d. v = JObj d \<and> f d = Inr y)"
  "(case v of JStr s \<Rightarrow> g s | _ \<Rightarrow> Inl e) = Inr y \<longleftrightarrow> (\<exists>s. v = JStr s \<and> g s = Inr y)"
  "(case v of JList xs \<Rightarrow> h xs | _ \<Rightarrow> Inl e) = Inr y \<longleftrightarrow> (\<exists>xs. v = JList xs \<and> h xs = Inr y)"
  by (cases v; auto)+

lemma case_json_pair_Inr:
  "(case (v, w) of (JStr s, JStr t) \<Rightarrow> f s t | _ \<Rightarrow> Inl e) = Inr y \<longleftrightarrow> (\<exists>s t. v = JStr s \<and> w = JStr t \<and> f s t = Inr y)"
  by (cases v; cases w; auto)

lemma require_InrE: "require b e r = Inr y \<Longrightarrow> (b \<Longrightarrow> r = Inr y \<Longrightarrow> P) \<Longrightarrow> P"
  by (simp add: require_eq_Inr)

lemma call_words_range: "call_words calls a d n = Inr ws \<Longrightarrow> length ws = n \<and> list_all word_range ws"
  by (cases "map_of calls (lower a, lower d)")
    (auto simp: call_words_def rbind_eq_Inr require_eq_Inr case_json_Inr abi_words_range)

lemma pool_state_Inr:
  assumes "pool_state calls ts = Inr (musd, btc, decimals, fee)"
  shows "word_range musd \<and> word_range btc \<and> 0 < musd \<and> 0 < btc \<and> 0 \<le> fee \<and> fee < 10000"
proof -
  obtain rs where f: "call_words calls POOL ''0x0902f1ac'' 3 = Inr rs" "musd = rs ! 0" "btc = rs ! 1" "0 < rs ! 0" "0 < rs ! 1"
      "0 \<le> fee" "fee < 10000"
    using assms unfolding pool_state_def Let_def rbind_eq_Inr require_eq_Inr by blast
  have "length rs = 3" "list_all word_range rs" using call_words_range [OF f(1)] by auto
  then have "word_range (rs ! 0)" "word_range (rs ! 1)" by (simp_all add: list_all_length)
  then show ?thesis using f by simp
qed

lemma probe_quote_Inr:
  assumes "probe_quote calls block hash ts amount token_in = Inr q"
  shows "dq_amount_in q = amount \<and> 0 < amount \<and> 0 < dq_reserve_musd q \<and> 0 < dq_reserve_btc q \<and>
    (if token_in = BTC then amm_amount_out amount (dq_reserve_btc q) (dq_reserve_musd q) (dq_fee_bps q)
     else amm_amount_out amount (dq_reserve_musd q) (dq_reserve_btc q) (dq_fee_bps q)) = Inr (dq_router_amount_out q)"
proof -
  obtain musd btc decimals fee where ps: "pool_state calls ts = Inr (musd, btc, decimals, fee)"
    using assms unfolding probe_quote_def by (elim rbind_InrE) (metis prod_cases4)
  have f: "0 < amount" "amount < 2 ^ 256" "amount * fee < 2 ^ 256"
      "(amount - amount * fee div 10000) * (if token_in = BTC then musd else btc) < 2 ^ 256"
      "(if token_in = BTC then btc else musd) + (amount - amount * fee div 10000) < 2 ^ 256"
      "dq_router_amount_out q = (amount - amount * fee div 10000) * (if token_in = BTC then musd else btc)
         div ((if token_in = BTC then btc else musd) + (amount - amount * fee div 10000))"
      "dq_amount_in q = amount" "dq_reserve_musd q = musd" "dq_reserve_btc q = btc" "dq_fee_bps q = fee"
    using assms unfolding probe_quote_def ps Let_def rbind_simps prod.case
    by (elim rbind_InrE require_InrE conjE; simp only: sum.inject; hypsubst; simp only: DexQuote.simps)+
  have "amm_inputs amount btc musd fee" "amm_inputs amount musd btc fee"
    using f(1,2) pool_state_Inr [OF ps] by (simp_all add: amm_inputs_def word_range_def)
  then show ?thesis using f pool_state_Inr [OF ps] by (auto simp: amm_amount_out_Inr net_in_def pool_out_def)
qed

lemma decode_probe_Inr:
  assumes "decode_probe probe amount token_in = Inr q"
  shows "\<exists>calls block hash ts. probe_quote calls block hash ts amount token_in = Inr q"
  using assms by (auto simp: decode_probe_def case_json_Inr rbind_eq_Inr require_eq_Inr)

lemma buy_input_least:
  "buy_input w musd btc fee = Inr a \<longleftrightarrow> 0 < w \<and> w < btc \<and> 0 < musd \<and> 0 \<le> fee \<and> fee < 10000 \<and> a = least_input w musd btc fee"
  by (auto simp: buy_input_def require_eq_Inr Let_def least_input_def)

text \<open>The quote a verified capture carries, in terms of the pool's own arithmetic.\<close>

definition quote_ok :: "VerifiedDex \<Rightarrow> bool" where
  "quote_ok r \<longleftrightarrow> (let q = vd_quote r; musd = dq_reserve_musd q; btc = dq_reserve_btc q; fee = dq_fee_bps q in
     0 < vd_quantity_wei r \<and> 0 < musd \<and> 0 < btc \<and>
     (if vd_side r = ''SELL''
      then dq_amount_in q = vd_quantity_wei r \<and> amm_amount_out (vd_quantity_wei r) btc musd fee = Inr (dq_router_amount_out q)
      else vd_side r = ''BUY'' \<and> amm_amount_in (vd_quantity_wei r) musd btc fee = Inr (dq_amount_in q)
         \<and> amm_amount_out (dq_amount_in q) musd btc fee = Inr (dq_router_amount_out q)))"

lemma BTC_neq_MUSD: "MUSD \<noteq> BTC"
  by (simp add: MUSD_def BTC_def)

lemma is_wei_text_pos:
  assumes "is_wei_text t" and "int_of_str t = Inr w"
  shows "0 < w"
proof -
  obtain c s where t: "t = c # s" "is_ascii_digit c" "c \<noteq> CHR ''0''" "list_all is_ascii_digit s" "length t \<le> 78"
    using assms(1) by (cases t) (auto simp: is_wei_text_def)
  have dg: "list_all is_ascii_digit t" using t by simp
  have ns: "\<not> is_space x" if "is_ascii_digit x" for x using that by (auto simp: is_ascii_digit_def is_space_def)
  have "last t \<in> set t" "hd t \<in> set t" using t(1) by simp_all
  then have sp: "strip t = t" using ns dg by (intro strip_id) (auto simp: list_all_iff)
  have us: "drop_underscores x = Some x" if "x \<noteq> []" "list_all is_ascii_digit x" for x
    using that by (induction x rule: drop_underscores.induct) (auto simp: is_ascii_digit_def)
  have sg: "c \<noteq> CHR ''-''" "c \<noteq> CHR ''+''" using t(2) by (auto simp: is_ascii_digit_def)
  have "int_of_digits t = Inr w" using assms(2) sp us [OF _ dg] t(1) sg by (simp add: int_of_str_def Let_def rbind_eq_Inr)
  then have "w = int (digits_val t)" using int_of_digits_InrD by blast
  moreover have "digits_val t = digits_val [c] * 10 ^ length s + digits_val s" using digits_val_append [of "[c]" s] t(1) by simp
  moreover have "code c \<noteq> 48"
  proof
    assume "code c = 48"
    then have "c = char_of (48::nat)" by (metis char_of_char)
    moreover have "char_of (48::nat) = CHR ''0''" by code_simp
    ultimately show False using t(3) by simp
  qed
  then have "0 < digits_val [c]" using t(2) by (simp add: digits_val_def digit_val_def is_ascii_digit_def)
  ultimately show ?thesis by (simp add: add_pos_nonneg)
qed

lemma capture_request_Inr:
  assumes "capture_request d = Inr (sd, w)"
  shows "sd \<in> {''BUY'', ''SELL''} \<and> 0 < w \<and> (\<exists>t. jget d ''side'' = JStr sd \<and> jget d ''quantity_wei'' = JStr t \<and> int_of_str t = Inr w)"
proof -
  obtain t where t: "jindex d ''side'' = Inr (JStr sd)" "jindex d ''quantity_wei'' = Inr (JStr t)" "sd \<in> {''BUY'', ''SELL''}"
      "is_wei_text t" "int_of_str t = Inr w"
    using assms unfolding capture_request_def
    by (elim rbind_InrE require_InrE) (simp only: case_json_pair_Inr rbind_eq_Inr require_eq_Inr sum.inject prod.inject, blast)
  moreover have "jindex d k = Inr v \<Longrightarrow> jget d k = v" for k v by (auto simp: jindex_def jget_def split: option.splits)
  ultimately show ?thesis using is_wei_text_pos by blast
qed

lemma verify_capture_steps:
  assumes "verify_capture capture = Inr r"
  shows "\<exists>d probe amount. capture = JObj d \<and> capture_request d = Inr (vd_side r, vd_quantity_wei r)
    \<and> decode_probe probe amount (if vd_side r = ''SELL'' then BTC else MUSD) = Inr (vd_quote r)
    \<and> check_amount (vd_side r) (vd_quantity_wei r) amount (vd_quote r) = Inr ()"
  using assms unfolding verify_capture_def reraise_eq_Inr case_json_Inr rbind_eq_Inr by force

lemma verified_quote_ok:
  assumes "verify_capture capture = Inr r"
  shows "quote_ok r"
proof -
  let ?q = "vd_quote r" and ?w = "vd_quantity_wei r"
  obtain d probe amount where c: "capture_request d = Inr (vd_side r, ?w)"
      "decode_probe probe amount (if vd_side r = ''SELL'' then BTC else MUSD) = Inr ?q"
      "check_amount (vd_side r) ?w amount ?q = Inr ()"
    using verify_capture_steps [OF assms] by blast
  have sd: "vd_side r \<in> {''BUY'', ''SELL''}" and w: "0 < ?w" using capture_request_Inr [OF c(1)] by blast+
  note p = decode_probe_Inr [OF c(2)]
  show ?thesis
  proof (cases "vd_side r = ''SELL''")
    case True
    then have "amount = ?w" using c(3) by (simp add: check_amount_def require_eq_Inr)
    then show ?thesis using p True w by (auto simp: quote_ok_def Let_def dest!: probe_quote_Inr)
  next
    case False
    then have a: "buy_input ?w (dq_reserve_musd ?q) (dq_reserve_btc ?q) (dq_fee_bps ?q) = Inr amount"
      using c(3) by (simp add: check_amount_def rbind_eq_Inr require_eq_Inr)
    have o: "dq_amount_in ?q = amount \<and> 0 < dq_reserve_musd ?q \<and> 0 < dq_reserve_btc ?q
        \<and> amm_amount_out amount (dq_reserve_musd ?q) (dq_reserve_btc ?q) (dq_fee_bps ?q) = Inr (dq_router_amount_out ?q)"
      using p False BTC_neq_MUSD by (auto dest!: probe_quote_Inr)
    then have "amm_inputs ?w (dq_reserve_musd ?q) (dq_reserve_btc ?q) (dq_fee_bps ?q)"
      using a w by (auto simp: amm_amount_out_Inr amm_inputs_def buy_input_least)
    then have "amm_amount_in ?w (dq_reserve_musd ?q) (dq_reserve_btc ?q) (dq_fee_bps ?q) = Inr amount"
      using a o by (auto simp: amm_amount_in_eq buy_input_least)
    then show ?thesis using o False sd w by (simp add: quote_ok_def Let_def)
  qed
qed

text \<open>Every price the report shows is a quotient of small enough numbers.\<close>

definition small :: "int \<Rightarrow> bool" where
  "small x \<longleftrightarrow> 0 < x \<and> x < 2 ^ 256"

lemma small_product: "small a \<Longrightarrow> small b \<Longrightarrow> 0 < a * b \<and> a * b \<le> 2 ^ 256 * 2 ^ 256"
  unfolding small_def by (intro conjI mult_mono) auto

lemma scaled_difference: "0 < A \<Longrightarrow> A \<le> M \<Longrightarrow> 0 < B \<Longrightarrow> B \<le> M \<Longrightarrow> \<bar>(A - B) * 10000\<bar> \<le> M * 10000 \<and> B \<le> M * 10000" for A B M :: int
  by (simp add: abs_le_iff)

lemma quotient_renderable: "small a \<Longrightarrow> small b \<Longrightarrow> renderable (of_int a / of_int b)"
  unfolding small_def by (rule renderable_quotient) auto

lemma impact_renderable:
  assumes "small a" "small b" "small x" "small y"
  shows "renderable ((of_int a / of_int b - of_int x / of_int y) * 10000 / (of_int x / of_int y))"
    and "renderable ((of_int x / of_int y - of_int a / of_int b) * 10000 / (of_int x / of_int y))"
proof -
  let ?A = "a * y" and ?B = "b * x" and ?M = "2 ^ 256 * 2 ^ 256 :: int"
  have p: "0 < ?A" "?A \<le> ?M" "0 < ?B" "?B \<le> ?M" using small_product assms by blast+
  have m: "?M * 10000 < 10 ^ 200" by simp
  have b: "?B < 10 ^ 200" "\<bar>(?A - ?B) * 10000\<bar> < 10 ^ 200" "\<bar>(?B - ?A) * 10000\<bar> < 10 ^ 200"
    using scaled_difference [OF p(1,2,3,4)] scaled_difference [OF p(3,4,1,2)] m by (meson order.strict_trans1)+
  have nz: "rat_of_int a \<noteq> 0" "rat_of_int b \<noteq> 0" "rat_of_int x \<noteq> 0" "rat_of_int y \<noteq> 0" using assms by (auto simp: small_def)
  have "(of_int a / of_int b - of_int x / of_int y) * 10000 / (of_int x / of_int y) = rat_of_int ((?A - ?B) * 10000) / of_int ?B"
    "(of_int x / of_int y - of_int a / of_int b) * 10000 / (of_int x / of_int y) = rat_of_int ((?B - ?A) * 10000) / of_int ?B"
    using nz by (simp_all add: field_simps)
  then show "renderable ((of_int a / of_int b - of_int x / of_int y) * 10000 / (of_int x / of_int y))"
    "renderable ((of_int x / of_int y - of_int a / of_int b) * 10000 / (of_int x / of_int y))"
    using renderable_quotient [OF p(3) b(1,2)] renderable_quotient [OF p(3) b(1,3)] by simp_all
qed

lemma amm_amount_out_small: "amm_amount_out a x y f = Inr v \<Longrightarrow> 0 < a \<Longrightarrow> v \<noteq> 0 \<Longrightarrow> small a \<and> small v \<and> small x \<and> small y"
proof -
  assume r: "amm_amount_out a x y f = Inr v" "0 < a" "v \<noteq> 0"
  then have i: "amm_inputs a x y f" and v: "v = pool_out x y (net_in f a)" by (auto simp: amm_amount_out_Inr)
  have p: "0 < x" "0 < y" "0 \<le> net_in f a" using net_in_bounds i by (auto simp: amm_inputs_def)
  have "0 \<le> v" "v < y" using p pool_out_less by (simp_all add: v pool_out_def pos_imp_zdiv_nonneg_iff)
  then show ?thesis using i r(2,3) by (auto simp: amm_inputs_def small_def)
qed

definition dex_failures :: "py_exc set" where
  "dex_failures = {CodedValueError ''INSUFFICIENT_LIQUIDITY'', CodedValueError ''MEZO_DEX_ARITHMETIC_OVERFLOW'',
     CodedValueError ''MEZO_DEX_INVALID_INPUT''}"

lemma amm_out_raises: "only_raises dex_failures (amm_amount_out a x y f)"
  by (auto simp: amm_amount_out_def Let_def dex_failures_def only_raises_def require_def)

lemma amm_in_raises: "only_raises dex_failures (amm_amount_in q x y f)"
  unfolding amm_amount_in_def Let_def
  by (intro raises amm_out_raises; simp (no_asm) add: dex_failures_def)

lemma display_raises: "renderable v \<Longrightarrow> only_raises E (display v)"
  using display_total [of v] by (auto simp: only_raises_def)

lemma wei_renderable: "small q \<Longrightarrow> renderable (of_int q / 10 ^ 18)"
  using quotient_renderable [of q "10 ^ 18"] by (simp add: small_def)

lemma quote_amounts_Inr:
  assumes "quote_amounts side musd btc fee q = Inr (a, v, average, impact)" and "0 < q"
  shows "renderable average \<and> renderable impact \<and> v \<noteq> 0 \<and>
    (if side = ''SELL'' then a = q \<and> amm_amount_out q btc musd fee = Inr v
     else amm_amount_in q musd btc fee = Inr a \<and> amm_amount_out a musd btc fee = Inr v)"
proof (cases "side = ''SELL''")
  case True
  then have f: "amm_amount_out q btc musd fee = Inr v" "v \<noteq> 0" "a = q" "average = of_int v / of_int q"
      "impact = (of_int musd / of_int btc - of_int v / of_int q) * 10000 / (of_int musd / of_int btc)"
    using assms(1) unfolding quote_amounts_def Let_def if_P [OF True] rbind_eq_Inr require_eq_Inr by blast+
  have "small q" "small v" "small btc" "small musd" using amm_amount_out_small [OF f(1) assms(2) f(2)] by blast+
  then show ?thesis using f True quotient_renderable impact_renderable(2) by (simp only: if_True simp_thms)
next
  case False
  then have f: "amm_amount_in q musd btc fee = Inr a" "amm_amount_out a musd btc fee = Inr v" "v \<noteq> 0" "average = of_int a / of_int v"
      "impact = (of_int a / of_int v - of_int musd / of_int btc) * 10000 / (of_int musd / of_int btc)"
    using assms(1) unfolding quote_amounts_def Let_def if_not_P [OF False] rbind_eq_Inr require_eq_Inr by blast+
  have "0 < a" using f(1) assms(2) least_input_pos [of musd fee q btc] by (auto simp: amm_amount_in_eq amm_inputs_def)
  then have "small a" "small v" "small btc" "small musd" using amm_amount_out_small [OF f(2) _ f(3)] by blast+
  then show ?thesis using f False quotient_renderable impact_renderable(1) by (simp only: if_False simp_thms)
qed

lemma quote_amounts_raises:
  assumes "0 < q"
  shows "only_raises dex_failures (quote_amounts side musd btc fee q)"
proof -
  have nz: "v \<noteq> 0" if "amm_amount_in q musd btc fee = Inr a" "amm_amount_out a musd btc fee = Inr v" for a v
    using that assms by (auto simp: amm_amount_in_least)
  have "CodedValueError ''INSUFFICIENT_LIQUIDITY'' \<in> dex_failures" by (simp add: dex_failures_def)
  then show ?thesis using assms nz unfolding quote_amounts_def Let_def
    by (intro only_raises_if only_raises_rbind only_raises_require amm_in_raises amm_out_raises only_raises_Inr) auto
qed

lemma dex_quote_raises:
  assumes "small q"
  shows "only_raises dex_failures (dex_quote side musd btc fee q)"
proof -
  have q: "0 < q" using assms by (simp add: small_def)
  show ?thesis unfolding dex_quote_def
    by (intro only_raises_rbind only_raises_prod quote_amounts_raises [OF q] display_raises wei_renderable [OF assms] only_raises_Inr)
      (auto dest!: quote_amounts_Inr [OF _ q])
qed

lemma dex_quote_Inr:
  "dex_quote side musd btc fee q = Inr (a, v, row) \<Longrightarrow> \<exists>av im. quote_amounts side musd btc fee q = Inr (a, v, av, im)
     \<and> jget row ''amount_in'' = JStr (int_str a) \<and> jget row ''amount_out'' = JStr (int_str v) \<and> map_of row ''side'' = None"
  by (auto simp: dex_quote_def rbind_eq_Inr jget_def)

lemma ladder_row_raises:
  assumes "small q"
  shows "only_raises dex_failures (ladder_row side musd btc fee q)"
  using dex_quote_raises [OF assms] display_raises [OF wei_renderable [OF assms]]
  by (auto simp: ladder_row_def only_raises_def rbind_eq_Inl split: sum.splits if_splits)

lemma ladder_small: "q \<in> set ladder_sizes \<Longrightarrow> small q"
  by (auto simp: ladder_sizes_def small_def)

lemma numer_denom_of_int: "numer (of_int w) = w" "denom (of_int w) = 1"
proof -
  show d: "denom (of_int w) = 1" by (simp add: denom_one_iff)
  have "rat_of_int w = of_int (numer (of_int w)) / of_int (denom (of_int w))" by (rule frac_eq)
  then show "numer (of_int w) = w" unfolding d by simp
qed

lemma build_dex_report_outcomes:
  assumes v: "verify_capture capture = Inr r" and f: "fraction_of_str text = Inr f" "f * 10 ^ 18 = of_int (vd_quantity_wei r)"
  shows "case build_dex_report capture (vd_side r) text of
      Inl e \<Rightarrow> e \<in> dex_failures
    | Inr rep \<Rightarrow> \<exists>d. rep = JObj d \<and> jget d ''amount_in'' = JStr (int_str (dq_amount_in (vd_quote r)))
        \<and> jget d ''amount_out'' = JStr (int_str (dq_router_amount_out (vd_quote r)))"
proof -
  let ?q = "vd_quote r" and ?w = "vd_quantity_wei r" and ?sd = "vd_side r"
  let ?musd = "dq_reserve_musd ?q" and ?btc = "dq_reserve_btc ?q" and ?fee = "dq_fee_bps ?q"
  have ok: "quote_ok r" by (rule verified_quote_ok [OF v])
  have nd: "numer (f * 10 ^ 18) = ?w" "denom (f * 10 ^ 18) = 1" unfolding f(2) by (rule numer_denom_of_int)+
  have sm: "small ?w" "small ?musd" "small ?btc" using ok by (auto simp: quote_ok_def Let_def small_def amm_amount_out_Inr amm_amount_in_eq amm_inputs_def split: if_splits)
  have am: "a = dq_amount_in ?q \<and> w = dq_router_amount_out ?q" if "quote_amounts ?sd ?musd ?btc ?fee ?w = Inr (a, w, av, im)" for a w av im
    using quote_amounts_Inr [OF that] ok by (auto simp: quote_ok_def Let_def split: if_splits)
  show ?thesis
  proof (cases "dex_quote ?sd ?musd ?btc ?fee ?w")
    case (Inl e)
    then have "e \<in> dex_failures" using only_raisesD [OF dex_quote_raises [OF sm(1)]] by blast
    moreover have "build_dex_report capture ?sd text = Inl e" using v f(1) nd sm(3) Inl by (simp add: build_dex_report_def Let_def small_def)
    ultimately show ?thesis by simp
  next
    case (Inr x)
    obtain a w row where x: "x = (a, w, row)" by (cases x)
    then have q: "a = dq_amount_in ?q" "w = dq_router_amount_out ?q" "jget row ''amount_in'' = JStr (int_str a)"
        "jget row ''amount_out'' = JStr (int_str w)"
      using dex_quote_Inr [of ?sd ?musd ?btc ?fee ?w a w row] am Inr by blast+
    show ?thesis
    proof (cases "rmap (ladder_row ?sd ?musd ?btc ?fee) ladder_sizes")
      case l: (Inl e)
      have "only_raises dex_failures (rmap (ladder_row ?sd ?musd ?btc ?fee) ladder_sizes)"
        using ladder_row_raises ladder_small by (intro only_raises_rmap) blast
      then have "e \<in> dex_failures" using l only_raisesD by blast
      moreover have "build_dex_report capture ?sd text = Inl e"
        using v f(1) nd sm(3) Inr x q(1,2) l by (simp add: build_dex_report_def Let_def small_def)
      ultimately show ?thesis by simp
    next
      case l: (Inr ladder)
      obtain mid where "display (of_int ?musd / of_int ?btc) = Inr mid" using display_total quotient_renderable [OF sm(2,3)] by blast
      then have "\<exists>tail. build_dex_report capture ?sd text = Inr (JObj ([(''side'', JStr ?sd)] @ row @ tail))"
        using v f(1) nd sm(3) Inr x q(1,2) l by (simp add: build_dex_report_def Let_def small_def)
      then show ?thesis using q by (auto simp: jget_def map_add_def split: option.splits)
    qed
  qed
qed

lemma int_of_str_int_str:
  assumes "0 \<le> w" "w < 2 ^ 256"
  shows "int_of_str (int_str w) = Inr w"
proof -
  have n: "int_str w = nat_str (nat w)" using assms(1) by (simp add: int_str_def)
  let ?t = "nat_str (nat w)"
  have dg: "list_all is_ascii_digit ?t" by (rule nat_str_digits)
  have ns: "\<not> is_space x" if "is_ascii_digit x" for x using that by (auto simp: is_ascii_digit_def is_space_def)
  have "last ?t \<in> set ?t" "hd ?t \<in> set ?t" by simp_all
  then have sp: "strip ?t = ?t" using ns dg by (intro strip_id) (auto simp: list_all_iff)
  have us: "drop_underscores x = Some x" if "x \<noteq> []" "list_all is_ascii_digit x" for x
    using that by (induction x rule: drop_underscores.induct) (auto simp: is_ascii_digit_def)
  have hd: "hd ?t \<noteq> CHR ''-''" "hd ?t \<noteq> CHR ''+''" using hd_nat_str [of "nat w"] by (auto simp: is_ascii_digit_def)
  have "nat w < 10 ^ 78" using assms(2) by (simp add: nat_less_iff)
  then have "length ?t \<le> max_str_digits" using length_nat_str_le [of 78 "nat w"] by (simp add: max_str_digits_def)
  then have "int_of_digits ?t = Inr w" using int_of_digits_nat_str [of "nat w"] assms(1) by simp
  then show ?thesis using sp us [OF _ dg] hd by (simp add: int_of_str_def Let_def n)
qed

lemma capture_dex_Inr:
  assumes "capture_dex rpc side w = Inr c"
  shows "0 < w \<and> w < 2 ^ 256 \<and> (\<exists>probe r. c = JObj [(''schema'', JStr ''liqvera-mezo-dex-capture/v1''), (''source'', JStr ''mezo-dex:MUSD-BTC:testnet''),
     (''side'', JStr side), (''quantity_wei'', JStr (int_str w)), (''probe'', probe)] \<and> verify_capture c = Inr r)"
  using assms unfolding capture_dex_def Let_def require_eq_Inr reraise_eq_Inr rbind_eq_Inr case_json_Inr by blast

lemma capture_dex_verified:
  assumes "capture_dex rpc side w = Inr c"
  shows "\<exists>r. verify_capture c = Inr r \<and> vd_side r = side \<and> vd_quantity_wei r = w"
proof -
  obtain probe r where c: "c = JObj [(''schema'', JStr ''liqvera-mezo-dex-capture/v1''), (''source'', JStr ''mezo-dex:MUSD-BTC:testnet''),
     (''side'', JStr side), (''quantity_wei'', JStr (int_str w)), (''probe'', probe)]" and r: "verify_capture c = Inr r" and w: "0 < w" "w < 2 ^ 256"
    using capture_dex_Inr [OF assms] by blast
  obtain d where d: "c = JObj d" "capture_request d = Inr (vd_side r, vd_quantity_wei r)" using verify_capture_steps [OF r] by blast
  have "jget d ''side'' = JStr side" "jget d ''quantity_wei'' = JStr (int_str w)" using c d(1) by (auto simp: jget_def)
  then have "vd_side r = side" "int_of_str (int_str w) = Inr (vd_quantity_wei r)" using capture_request_Inr [OF d(2)] by auto
  then show ?thesis using r int_of_str_int_str w by simp
qed

subsection \<open>An honest node\<close>

text \<open>
  A node of a chain whose pool has the given reserves and fee: what it answers to every request
  of the capture. Words are encoded as the contract interface does.
\<close>

definition encode_words :: "int list \<Rightarrow> string" where
  "encode_words ws = ''0x'' @ concat (map (hex_width 64) ws)"

definition data_word :: "nat \<Rightarrow> string \<Rightarrow> string" where
  "data_word i data = take 64 (drop (10 + 64 * i) data)"

definition swap_out :: "int \<Rightarrow> int \<Rightarrow> int \<Rightarrow> string \<Rightarrow> int \<Rightarrow> int" where
  "swap_out musd btc fee token amount =
     (if token = address_word BTC then pool_out btc musd (net_in fee amount) else pool_out musd btc (net_in fee amount))"

definition node_answer :: "int \<Rightarrow> int \<Rightarrow> int \<Rightarrow> int \<Rightarrow> string \<Rightarrow> string \<Rightarrow> int list" where
  "node_answer musd btc updated fee to data =
     (if to = FACTORY then [fee]
      else if to = BTC then [18]
      else if to = ROUTER then
        [32, 2, hex_number (data_word 0 data), swap_out musd btc fee (data_word 3 data) (hex_number (data_word 0 data))]
      else if data = ''0x0dfe1681'' then [hex_number (drop 2 MUSD)]
      else if data = ''0xd21220a7'' then [hex_number (drop 2 BTC)]
      else if data = ''0x22be3de1'' then [0]
      else if data = ''0x0902f1ac'' then [musd, btc, updated]
      else [swap_out musd btc fee (data_word 1 data) (hex_number (data_word 0 data))])"

definition node_header :: "string \<Rightarrow> string \<Rightarrow> string \<Rightarrow> json" where
  "node_header block hash ts = JObj [(''result'', JObj [(''number'', JStr block), (''hash'', JStr hash), (''timestamp'', JStr ts)])]"

definition node_response :: "int list \<Rightarrow> json" where
  "node_response ws = JObj [(''jsonrpc'', JStr ''2.0''), (''result'', JStr (encode_words ws))]"

definition honest_rpc :: "string \<Rightarrow> string \<Rightarrow> string \<Rightarrow> int \<Rightarrow> int \<Rightarrow> int \<Rightarrow> int \<Rightarrow> rpc" where
  "honest_rpc block hash ts musd btc updated fee i method ps =
     (if method = ''eth_blockNumber'' then Inr (JObj [(''result'', JStr block)])
      else if method = ''eth_chainId'' then Inr (JObj [(''result'', JStr ''0x7b7b'')])
      else if method = ''eth_getBlockByNumber'' then Inr (node_header block hash ts)
      else (case ps of
          JObj [(_, JStr to), (_, JStr data)] # _ \<Rightarrow> Inr (node_response (node_answer musd btc updated fee to data))
        | _ \<Rightarrow> Inl OSError))"

lemma abi_words_encode:
  assumes "list_all word_range ws" "ws \<noteq> []"
  shows "abi_words (JStr (encode_words ws)) (length ws) = Inr ws"
proof -
  let ?b = "concat (map (hex_width 64) ws)"
  have l: "length (hex_width 64 w) = 64" if "w \<in> set ws" for w
    using that assms(1) by (intro length_hex_width) (auto simp: list_all_iff word_range_def)
  have len: "length ?b = 64 * length ws" using l by (induction ws) auto
  have blk: "take 64 (drop (64 * i) ?b) = hex_width 64 (ws ! i)" if "i < length ws" for i
    using that l
  proof (induction ws arbitrary: i)
    case (Cons w ws)
    then show ?case by (cases i) (simp_all)
  qed simp
  have "list_all is_hex ?b" using assms(1) hex_width_chars by (force simp: list_all_iff word_range_def)
  moreover have "?b \<noteq> []" using len assms(2) by (metis length_0_conv mult_eq_0_iff zero_neq_numeral)
  ultimately have t: "is_hex_text (encode_words ws)" by (simp add: is_hex_text_def encode_words_def)
  have "hex_number (take 64 (drop (2 + 64 * i) (encode_words ws))) = ws ! i" if "i < length ws" for i
    using blk [OF that] that assms(1) by (simp add: encode_words_def list_all_length word_range_def)
  then have "map (\<lambda>i. hex_number (take 64 (drop (2 + 64 * i) (encode_words ws)))) [0..<length ws] = ws"
    by (intro nth_equalityI) simp_all
  then show ?thesis using t len by (simp add: abi_words_def encode_words_def)
qed

lemma hex_not_special: "is_hex c \<Longrightarrow> \<not> is_space c \<and> c \<noteq> CHR ''-'' \<and> c \<noteq> CHR ''+'' \<and> c \<noteq> CHR ''x'' \<and> c \<noteq> CHR ''X'' \<and> c \<noteq> CHR ''_'' \<and> hex_val c \<noteq> None"
proof -
  have "list_all (\<lambda>c. \<not> is_space c \<and> c \<noteq> CHR ''-'' \<and> c \<noteq> CHR ''+'' \<and> c \<noteq> CHR ''x'' \<and> c \<noteq> CHR ''X'' \<and> c \<noteq> CHR ''_'' \<and> hex_val c \<noteq> None)
    ''0123456789abcdefABCDEF''" by code_simp
  then show "is_hex c \<Longrightarrow> ?thesis" unfolding is_hex_def list_all_iff by blast
qed

lemma hex_digits_us_hex: "s \<noteq> [] \<Longrightarrow> list_all is_hex s \<Longrightarrow> hex_digits_us s = Some s"
  by (induction s rule: hex_digits_us.induct) (auto dest: hex_not_special)

lemma int_of_hex_digits:
  assumes "s \<noteq> []" "list_all is_hex s"
  shows "int_of_hex s = Inr (hex_number s)"
proof -
  have "hd s \<in> set s" "last s \<in> set s" using assms(1) by simp_all
  then have h: "is_hex (hd s)" "is_hex (last s)" using assms(2) by (auto simp: list_all_iff)
  then have st: "strip s = s" using hex_not_special by (intro strip_id) blast
  have "take 2 s \<noteq> ''0x''" "take 2 s \<noteq> ''0X''"
  proof -
    have "x \<in> set s" if "take 2 s = [CHR ''0'', x]" for x using that by (metis in_set_takeD list.set_intros(1,2))
    then show "take 2 s \<noteq> ''0x''" "take 2 s \<noteq> ''0X''" using assms(2) hex_not_special by (metis list_all_iff)+
  qed
  then show ?thesis using assms st h hex_not_special [OF h(1)] hex_digits_us_hex by (simp add: int_of_hex_code Let_def)
qed

definition node_call :: "string \<Rightarrow> (string \<Rightarrow> string \<Rightarrow> int list) \<Rightarrow> string \<times> string \<Rightarrow> json" where
  "node_call block answer q = JObj [(''to'', JStr (fst q)), (''data'', JStr (snd q)), (''block'', JStr block),
     (''response'', node_response (answer (fst q) (snd q)))]"

lemma node_call_items [simp]:
  "item (node_call block answer q) ''block'' = Inr (JStr block)" "item (node_call block answer q) ''data'' = Inr (JStr (snd q))"
  "item (node_call block answer q) ''response'' = Inr (node_response (answer (fst q) (snd q)))"
  "item_lower (node_call block answer q) ''to'' = Inr (lower (fst q))" "item_lower (node_call block answer q) ''data'' = Inr (lower (snd q))"
  by (simp_all add: node_call_def item_def item_lower_def jindex_def)

lemma dex_call_honest:
  "dex_call (honest_rpc block hash ts musd btc upd fee) block calls to data =
     Inr (calls @ [node_call block (node_answer musd btc upd fee) (to, data)], JStr (encode_words (node_answer musd btc upd fee to data)))"
  by (simp add: dex_call_def honest_rpc_def node_response_def node_call_def has_key_def jget_def)

definition call_key :: "string \<times> string \<Rightarrow> string \<times> string" where
  "call_key q = (lower (fst q), lower (snd q))"

lemma add_calls_honest:
  assumes "distinct (map call_key (pre @ qs))"
  shows "rfold (add_call block) (map (\<lambda>q. (call_key q, node_call block answer q)) pre) (map (node_call block answer) qs)
     = Inr (map (\<lambda>q. (call_key q, node_call block answer q)) (pre @ qs))"
  using assms
proof (induction qs arbitrary: pre)
  case (Cons q qs)
  let ?t = "map (\<lambda>q. (call_key q, node_call block answer q)) pre"
  have "map_of ?t (call_key q) = None" using Cons.prems by (auto simp: map_of_eq_None_iff image_image)
  then have "add_call block ?t (node_call block answer q) = Inr (map (\<lambda>q. (call_key q, node_call block answer q)) (pre @ [q]))"
    by (simp add: add_call_def call_key_def)
  then show ?case using Cons.IH [of "pre @ [q]"] Cons.prems by simp
qed simp

lemma call_words_honest:
  assumes "distinct (map call_key qs)" "(to, data) \<in> set qs" "list_all word_range (answer to data)" "answer to data \<noteq> []" "n = length (answer to data)"
  shows "call_words (map (\<lambda>q. (call_key q, node_call block answer q)) qs) to data n = Inr (answer to data)"
proof -
  have "map_of (map (\<lambda>q. (call_key q, node_call block answer q)) qs) (call_key (to, data)) = Some (node_call block answer (to, data))"
    using assms(1,2) by (intro map_of_is_SomeI) (auto simp: comp_def)
  then have "map_of (map (\<lambda>q. (call_key q, node_call block answer q)) qs) (lower to, lower data) = Some (node_call block answer (to, data))"
    by (simp add: call_key_def)
  then show ?thesis using abi_words_encode [OF assms(3,4)] assms(5)
    by (simp add: call_words_def node_response_def has_key_def jget_def jindex_def)
qed

subsection \<open>The eight reads\<close>

definition pool_data :: "int \<Rightarrow> string \<Rightarrow> string" where
  "pool_data amount token = ''0xf140a35a'' @ hex_width 64 amount @ address_word token"

definition fee_data :: string where
  "fee_data = ''0xcc56b2c5'' @ address_word POOL @ replicate 64 CHR ''0''"

definition swap_data :: "int \<Rightarrow> string \<Rightarrow> string \<Rightarrow> string" where
  "swap_data amount token_in token_out = ''0x5509a1ac'' @ hex_width 64 amount @ hex_width 64 64 @ hex_width 64 1
     @ address_word token_in @ address_word token_out @ hex_width 64 0 @ address_word FACTORY"

definition dex_queries :: "int \<Rightarrow> string \<Rightarrow> string \<Rightarrow> (string \<times> string) list" where
  "dex_queries amount token_in token_out = [(POOL, ''0x0dfe1681''), (POOL, ''0xd21220a7''), (POOL, ''0x22be3de1''), (POOL, ''0x0902f1ac''),
     (BTC, ''0x313ce567''), (FACTORY, fee_data), (POOL, pool_data amount token_in), (ROUTER, swap_data amount token_in token_out)]"

lemma address_facts:
  "distinct [POOL, ROUTER, FACTORY, BTC]" "distinct [lower POOL, lower ROUTER, lower FACTORY, lower BTC]"
  "length (address_word BTC) = 64" "length (address_word MUSD) = 64" "address_word MUSD \<noteq> address_word BTC"
  "int_of_hex MUSD = Inr (hex_number (drop 2 MUSD))" "int_of_hex BTC = Inr (hex_number (drop 2 BTC))"
  "word_range (hex_number (drop 2 MUSD))" "word_range (hex_number (drop 2 BTC))"
  "distinct [lower ''0x0dfe1681'', lower ''0xd21220a7'', lower ''0x22be3de1'', lower ''0x0902f1ac'']"
  by code_simp+

lemma address_neq [simp]:
  "POOL \<noteq> ROUTER" "POOL \<noteq> FACTORY" "POOL \<noteq> BTC" "ROUTER \<noteq> FACTORY" "ROUTER \<noteq> BTC" "FACTORY \<noteq> BTC"
  "ROUTER \<noteq> POOL" "FACTORY \<noteq> POOL" "BTC \<noteq> POOL" "FACTORY \<noteq> ROUTER" "BTC \<noteq> ROUTER" "BTC \<noteq> FACTORY"
  "lower POOL \<noteq> lower ROUTER" "lower POOL \<noteq> lower FACTORY" "lower POOL \<noteq> lower BTC" "lower ROUTER \<noteq> lower FACTORY"
  "lower ROUTER \<noteq> lower BTC" "lower FACTORY \<noteq> lower BTC"
  "lower ROUTER \<noteq> lower POOL" "lower FACTORY \<noteq> lower POOL" "lower BTC \<noteq> lower POOL" "lower FACTORY \<noteq> lower ROUTER"
  "lower BTC \<noteq> lower ROUTER" "lower BTC \<noteq> lower FACTORY"
  using address_facts(1,2) by (simp_all add: eq_commute)

lemma length_hex64: "word_range w \<Longrightarrow> length (hex_width 64 w) = 64"
  by (rule length_hex_width) (simp_all add: word_range_def)

lemma length_lower [simp]: "length (lower s) = length s"
  by (simp add: lower_def)

lemma pool_data_words:
  assumes "word_range a" "length (address_word t) = 64"
  shows "data_word 0 (pool_data a t) = hex_width 64 a" "data_word 1 (pool_data a t) = address_word t" "length (pool_data a t) = 138"
  using length_hex64 [OF assms(1)] assms(2) by (simp_all add: data_word_def pool_data_def)

lemma swap_data_words:
  assumes "word_range a" "length (address_word t) = 64"
  shows "data_word 0 (swap_data a t u) = hex_width 64 a" "data_word 3 (swap_data a t u) = address_word t" "length (swap_data a t u) \<ge> 74"
proof -
  have l: "length (hex_width 64 a) = 64" "length (hex_width 64 64) = 64" "length (hex_width 64 1) = 64"
    using assms(1) by (auto intro!: length_hex64 simp: word_range_def)
  show "data_word 0 (swap_data a t u) = hex_width 64 a" "data_word 3 (swap_data a t u) = address_word t" "length (swap_data a t u) \<ge> 74"
    using l assms(2) by (simp_all add: data_word_def swap_data_def)
qed

lemma dex_queries_distinct:
  assumes "word_range a" "length (address_word t) = 64"
  shows "distinct (map call_key (dex_queries a t u))"
proof -
  have "lower s \<noteq> lower (pool_data a t)" if "length s = 10" for s
    using pool_data_words(3) [OF assms] that by (auto dest!: arg_cong [where f = length])
  then show ?thesis using address_facts(10) by (simp add: dex_queries_def call_key_def)
qed

text \<open>A chain state on which the wanted quote exists.\<close>

record chain_state =
  cs_block :: string
  cs_hash :: string
  cs_ts :: string
  cs_time :: int
  cs_musd :: int
  cs_btc :: int
  cs_updated :: int
  cs_fee :: int

definition chain_ok :: "chain_state \<Rightarrow> bool" where
  "chain_ok s \<longleftrightarrow> is_block_number (cs_block s) \<and> is_hash (cs_hash s) \<and> int_of_hex (cs_ts s) = Inr (cs_time s)
     \<and> small (cs_musd s) \<and> small (cs_btc s) \<and> 0 \<le> cs_updated s \<and> cs_updated s \<le> cs_time s \<and> cs_updated s < 2 ^ 256
     \<and> 0 \<le> cs_fee s \<and> cs_fee s < 10000"

definition node :: "chain_state \<Rightarrow> rpc" where
  "node s = honest_rpc (cs_block s) (cs_hash s) (cs_ts s) (cs_musd s) (cs_btc s) (cs_updated s) (cs_fee s)"

definition answer :: "chain_state \<Rightarrow> string \<Rightarrow> string \<Rightarrow> int list" where
  "answer s = node_answer (cs_musd s) (cs_btc s) (cs_updated s) (cs_fee s)"

definition amount_for :: "chain_state \<Rightarrow> string \<Rightarrow> int \<Rightarrow> int res" where
  "amount_for s side w = (if side = ''SELL'' then Inr w else amm_amount_in w (cs_musd s) (cs_btc s) (cs_fee s))"

definition out_for :: "chain_state \<Rightarrow> string \<Rightarrow> int \<Rightarrow> int res" where
  "out_for s side a = (if side = ''SELL'' then amm_amount_out a (cs_btc s) (cs_musd s) (cs_fee s)
     else amm_amount_out a (cs_musd s) (cs_btc s) (cs_fee s))"

definition token_of :: "string \<Rightarrow> string" where
  "token_of side = (if side = ''SELL'' then BTC else MUSD)"

definition other_token :: "string \<Rightarrow> string" where
  "other_token side = (if side = ''SELL'' then MUSD else BTC)"

lemma token_length: "length (address_word (token_of side)) = 64"
  using address_facts(3,4) by (simp add: token_of_def)

lemma answers:
  "answer s POOL ''0x0dfe1681'' = [hex_number (drop 2 MUSD)]" "answer s POOL ''0xd21220a7'' = [hex_number (drop 2 BTC)]"
  "answer s POOL ''0x22be3de1'' = [0]" "answer s POOL ''0x0902f1ac'' = [cs_musd s, cs_btc s, cs_updated s]"
  "answer s BTC ''0x313ce567'' = [18]" "answer s FACTORY fee_data = [cs_fee s]"
  by (simp_all add: answer_def node_answer_def)

lemma swap_out_for: "out_for s side a = Inr v \<Longrightarrow> swap_out (cs_musd s) (cs_btc s) (cs_fee s) (address_word (token_of side)) a = v"
  using address_facts(5) by (auto simp: out_for_def swap_out_def token_of_def amm_amount_out_Inr split: if_splits)

lemma out_range: "out_for s side a = Inr v \<Longrightarrow> 0 < a \<Longrightarrow> word_range a \<and> word_range v"
proof -
  assume "out_for s side a = Inr v" "0 < a"
  then obtain x y where "amm_amount_out a x y (cs_fee s) = Inr v" by (auto simp: out_for_def split: if_splits)
  then show ?thesis using \<open>0 < a\<close> amm_amount_out_small [of a x y "cs_fee s" v]
    by (cases "v = 0") (auto simp: amm_amount_out_Inr amm_inputs_def word_range_def small_def)
qed

lemma quote_answers:
  assumes "out_for s side a = Inr v" "0 < a"
  shows "answer s POOL (pool_data a (token_of side)) = [v]"
    "answer s ROUTER (swap_data a (token_of side) (other_token side)) = [32, 2, a, v]"
proof -
  have r: "word_range a" "0 \<le> a" using out_range [OF assms] by (auto simp: word_range_def)
  note p = pool_data_words [OF r(1) token_length] and q = swap_data_words [OF r(1) token_length]
  have "pool_data a (token_of side) \<noteq> x" if "length x = 10" for x using p(3) that by auto
  then show "answer s POOL (pool_data a (token_of side)) = [v]"
    using p swap_out_for [OF assms(1)] r(2) by (simp add: answer_def node_answer_def)
  show "answer s ROUTER (swap_data a (token_of side) (other_token side)) = [32, 2, a, v]"
    using q swap_out_for [OF assms(1)] r(2) by (simp add: answer_def node_answer_def)
qed

lemma token_pair: "(token_of side, other_token side) \<in> {(BTC, MUSD), (MUSD, BTC)}"
  by (simp add: token_of_def other_token_def)

lemma router_calldata_honest:
  "word_range a \<Longrightarrow> router_calldata a (token_of side) (other_token side) = Inr (swap_data a (token_of side) (other_token side))"
  using token_pair [of side] by (simp add: router_calldata_def swap_data_def word_range_def)

lemma buy_input_amount: "amm_amount_in w x y f = Inr a \<Longrightarrow> 0 < w \<Longrightarrow> buy_input w x y f = Inr a"
  by (auto simp: amm_amount_in_eq buy_input_least amm_inputs_def)

lemma chain_words:
  assumes "chain_ok s"
  shows "abi_words (JStr (encode_words [cs_musd s, cs_btc s, cs_updated s])) 3 = Inr [cs_musd s, cs_btc s, cs_updated s]"
    "abi_words (JStr (encode_words [cs_fee s])) 1 = Inr [cs_fee s]"
  using abi_words_encode [of "[cs_musd s, cs_btc s, cs_updated s]"] abi_words_encode [of "[cs_fee s]"] assms
  by (simp_all add: chain_ok_def small_def word_range_def eval_nat_numeral)

lemma dex_reads_honest:
  assumes c: "chain_ok s" and w: "0 < w" "amount_for s side w = Inr a" "word_range a" "0 < a"
  shows "dex_reads (node s) (cs_block s) side w
     = Inr (map (node_call (cs_block s) (answer s)) (dex_queries a (token_of side) (other_token side)))"
proof -
  have call: "dex_call (node s) (cs_block s) cs to data = Inr (cs @ [node_call (cs_block s) (answer s) (to, data)], JStr (encode_words (answer s to data)))" for cs to data
    by (simp only: node_def answer_def dex_call_honest)
  have amt: "(if side = ''SELL'' then Inr w else buy_input w (cs_musd s) (cs_btc s) (cs_fee s)) = Inr a"
    using w(1,2) buy_input_amount by (auto simp: amount_for_def)
  have tok: "(if side = ''SELL'' then BTC else MUSD) = token_of side" "(if side = ''SELL'' then MUSD else BTC) = other_token side"
    by (simp_all add: token_of_def other_token_def)
  have at: "[x, y, z] ! 0 = x" "[x, y, z] ! 1 = y" "[x] ! 0 = x" for x y z :: int by simp_all
  have pd: "''0xf140a35a'' @ hex_width 64 a @ address_word (token_of side) = pool_data a (token_of side)" by (simp only: pool_data_def)
  show ?thesis
    unfolding dex_reads_def call rbind_simps prod.case answers chain_words [OF c] fee_data_def [symmetric] at amt Let_def tok pd
      router_calldata_honest [OF w(3)]
    by (simp add: dex_queries_def)
qed

definition honest_probe :: "chain_state \<Rightarrow> json list \<Rightarrow> json" where
  "honest_probe s calls = JObj [(''rpc_url'', JStr RPC_URL), (''chain'', JObj [(''result'', JStr ''0x7b7b'')]),
     (''block'', node_header (cs_block s) (cs_hash s) (cs_ts s)), (''block_after'', node_header (cs_block s) (cs_hash s) (cs_ts s)),
     (''calls'', JList calls)]"

definition honest_table :: "chain_state \<Rightarrow> (string \<times> string) list \<Rightarrow> call_table" where
  "honest_table s qs = map (\<lambda>q. (call_key q, node_call (cs_block s) (answer s) q)) qs"

lemma honest_probe_items [simp]:
  "item (honest_probe s calls) ''rpc_url'' = Inr (JStr RPC_URL)" "item (honest_probe s calls) ''calls'' = Inr (JList calls)"
  "rbind (item (honest_probe s calls) ''chain'') (\<lambda>c. item c ''result'') = Inr (JStr ''0x7b7b'')"
  by (simp_all add: honest_probe_def item_def jindex_def)

lemma probe_header_honest: "chain_ok s \<Longrightarrow> probe_header (honest_probe s calls) = Inr (cs_block s, cs_hash s, cs_time s)"
  by (simp add: probe_header_def honest_probe_def node_header_def item_def jindex_def chain_ok_def)

lemma probe_calls_honest:
  assumes "word_range a"
  shows "probe_calls (honest_probe s (map (node_call (cs_block s) (answer s)) (dex_queries a (token_of side) u))) (cs_block s)
     = Inr (honest_table s (dex_queries a (token_of side) u))"
proof -
  have "length (dex_queries a (token_of side) u) = 8" by (simp add: dex_queries_def)
  moreover have "rfold (add_call (cs_block s)) [] (map (node_call (cs_block s) (answer s)) (dex_queries a (token_of side) u))
     = Inr (honest_table s (dex_queries a (token_of side) u))"
    using add_calls_honest [of "[]", OF _] dex_queries_distinct [OF assms token_length] by (simp add: honest_table_def)
  ultimately show ?thesis by (simp add: probe_calls_def)
qed

lemma honest_lookup:
  assumes "word_range a" "(to, data) \<in> set (dex_queries a (token_of side) u)" "answer s to data = ws" "list_all word_range ws" "ws \<noteq> []" "n = length ws"
  shows "call_words (honest_table s (dex_queries a (token_of side) u)) to data n = Inr ws"
  using call_words_honest [OF dex_queries_distinct [OF assms(1) token_length] assms(2), of "answer s" n] assms(3-6)
  by (simp add: honest_table_def)

lemma pool_state_honest:
  assumes c: "chain_ok s" and a: "word_range a"
  shows "pool_state (honest_table s (dex_queries a (token_of side) u)) (cs_time s) = Inr (cs_musd s, cs_btc s, 18, cs_fee s)"
proof -
  let ?t = "honest_table s (dex_queries a (token_of side) u)"
  have r: "word_range 0" "word_range 18" "word_range (cs_musd s)" "word_range (cs_btc s)" "word_range (cs_updated s)" "word_range (cs_fee s)"
    using c by (auto simp: chain_ok_def small_def word_range_def)
  have w: "call_words ?t POOL ''0x0dfe1681'' 1 = Inr [hex_number (drop 2 MUSD)]" "call_words ?t POOL ''0xd21220a7'' 1 = Inr [hex_number (drop 2 BTC)]"
    "call_words ?t POOL ''0x22be3de1'' 1 = Inr [0]" "call_words ?t POOL ''0x0902f1ac'' 3 = Inr [cs_musd s, cs_btc s, cs_updated s]"
    "call_words ?t BTC ''0x313ce567'' 1 = Inr [18]" "call_words ?t FACTORY fee_data 1 = Inr [cs_fee s]"
    by (rule honest_lookup [OF a _ answers(1)] honest_lookup [OF a _ answers(2)] honest_lookup [OF a _ answers(3)]
          honest_lookup [OF a _ answers(4)] honest_lookup [OF a _ answers(5)] honest_lookup [OF a _ answers(6)];
        simp add: dex_queries_def r address_facts(8,9))+
  have at: "[x, y, z] ! 0 = x" "[x, y, z] ! 1 = y" "[x, y, z] ! 2 = z" "[x] ! 0 = x" for x y z :: int by simp_all
  show ?thesis using c
    unfolding pool_state_def call_word_def w rbind_simps address_facts(6,7) fee_data_def [symmetric] Let_def at
    by (simp add: chain_ok_def small_def)
qed

lemma hex_lower_is_hex: "is_hex_lower c \<Longrightarrow> is_hex c"
  unfolding is_hex_lower_def is_hex_def by auto

lemma int_of_hex_prefixed:
  assumes "take 2 s = ''0x''" "drop 2 s \<noteq> []" "list_all is_hex (drop 2 s)"
  shows "int_of_hex s = Inr (hex_number (drop 2 s))"
proof -
  obtain t where t: "s = CHR ''0'' # CHR ''x'' # t" "t \<noteq> []" "list_all is_hex t"
  proof -
    have "s = take 2 s @ drop 2 s" by simp
    then show thesis using that [of "drop 2 s"] assms by simp
  qed
  have "last t \<in> set t" using t(2) by simp
  then have "\<not> is_space (last s)" "\<not> is_space (hd s)" using t hex_not_special by (auto simp: list_all_iff is_space_def)
  then have st: "strip s = s" by (intro strip_id) blast
  have "hd t \<in> set t" using t(2) by simp
  then have "take 1 t \<noteq> ''_''" using t(2,3) hex_not_special by (cases t) auto
  then show ?thesis using st t hex_digits_us_hex [OF t(2,3)] by (simp add: int_of_hex_code Let_def)
qed

lemma probe_quote_honest:
  assumes c: "chain_ok s" and a: "0 < a" "out_for s side a = Inr v"
  shows "\<exists>q. probe_quote (honest_table s (dex_queries a (token_of side) (other_token side))) (cs_block s) (cs_hash s) (cs_time s) a (token_of side) = Inr q
     \<and> dq_reserve_musd q = cs_musd s \<and> dq_reserve_btc q = cs_btc s \<and> dq_fee_bps q = cs_fee s \<and> dq_router_amount_out q = v"
proof -
  let ?t = "honest_table s (dex_queries a (token_of side) (other_token side))"
  have r: "word_range a" "word_range v" using out_range [OF a(2,1)] by auto
  have w: "call_words ?t POOL (pool_data a (token_of side)) 1 = Inr [v]"
    "call_words ?t ROUTER (swap_data a (token_of side) (other_token side)) 4 = Inr [32, 2, a, v]"
    by (rule honest_lookup [OF r(1) _ quote_answers(1) [OF a(2,1)]] honest_lookup [OF r(1) _ quote_answers(2) [OF a(2,1)]];
        simp add: dex_queries_def r word_range_def [of 32] word_range_def [of 2])+
  have tok: "(if token_of side = BTC then MUSD else BTC) = other_token side" "token_of side \<in> {BTC, MUSD}"
      "token_of side = BTC \<longleftrightarrow> side = ''SELL''"
    using BTC_neq_MUSD by (simp_all add: token_of_def other_token_def)
  have "drop 2 (cs_block s) \<noteq> []" "list_all is_hex_lower (drop 2 (cs_block s))" "take 2 (cs_block s) = ''0x''"
    using c by (auto simp: chain_ok_def is_block_number_def)
  then obtain n where n: "int_of_hex (cs_block s) = Inr n" using int_of_hex_prefixed hex_lower_is_hex by (simp add: list_all_iff)
  have e: "[32, 2, a, v] ! 3 = v" "take 3 [32, 2, a, v] = [32, 2, a]" by (simp_all add: eval_nat_numeral)
  show ?thesis using a(2) n r(1) a(1) tok(2)
    unfolding probe_quote_def pool_state_honest [OF c r(1)] rbind_simps prod.case Let_def tok(1) call_word_def
      pool_data_def [symmetric] w router_calldata_honest [OF r(1)]
    by (auto simp: e tok(3) out_for_def amm_amount_out_Inr net_in_def pool_out_def word_range_def)
qed

lemma planned_amount_honest:
  assumes "word_range a" "d = [(''schema'', x), (''source'', y), (''side'', z), (''quantity_wei'', w),
     (''probe'', honest_probe s (map (node_call (cs_block s) (answer s)) (dex_queries a (token_of side) u)))]"
  shows "planned_amount (JObj d) = Inr a"
proof -
  let ?c = "node_call (cs_block s) (answer s)"
  have "rmap (\<lambda>c. rbind (item_lower c ''to'') (\<lambda>to. Inr (to, c))) (map ?c qs) = Inr (map (\<lambda>q. (lower (fst q), ?c q)) qs)" for qs
    by (induction qs) simp_all
  moreover have "filter (\<lambda>(to, c). to = lower ROUTER) (map (\<lambda>q. (lower (fst q), ?c q)) (dex_queries a (token_of side) u))
      = [(lower ROUTER, ?c (ROUTER, swap_data a (token_of side) u))]"
    by (simp add: dex_queries_def)
  moreover have "int_of_hex (take 64 (drop 10 (swap_data a (token_of side) u))) = Inr a"
    using swap_data_words(1) [OF assms(1) token_length, of side u] assms(1) int_of_hex_digits [of "hex_width 64 a"] hex_width_chars [of a 64]
    by (simp add: data_word_def word_range_def)
  moreover have "item (JObj d) ''probe'' = Inr (honest_probe s (map ?c (dex_queries a (token_of side) u)))"
    by (simp add: assms(2) item_def jindex_def)
  ultimately show ?thesis using swap_data_words(3) [OF assms(1) token_length, of side u] by (simp add: planned_amount_def)
qed

lemma verify_honest:
  assumes c: "chain_ok s" and w: "0 < w" "w < 2 ^ 256" and sd: "side \<in> {''BUY'', ''SELL''}"
    and a: "amount_for s side w = Inr a" "0 < a" "out_for s side a = Inr v" "w \<le> v \<or> side = ''SELL''"
  shows "\<exists>r. verify_capture (JObj [(''schema'', JStr ''liqvera-mezo-dex-capture/v1''), (''source'', JStr ''mezo-dex:MUSD-BTC:testnet''),
     (''side'', JStr side), (''quantity_wei'', JStr (int_str w)),
     (''probe'', honest_probe s (map (node_call (cs_block s) (answer s)) (dex_queries a (token_of side) (other_token side))))]) = Inr r"
proof -
  let ?p = "honest_probe s (map (node_call (cs_block s) (answer s)) (dex_queries a (token_of side) (other_token side)))"
  let ?d = "[(''schema'', JStr ''liqvera-mezo-dex-capture/v1''), (''source'', JStr ''mezo-dex:MUSD-BTC:testnet''),
     (''side'', JStr side), (''quantity_wei'', JStr (int_str w)), (''probe'', ?p)]"
  have r: "word_range a" using out_range [OF a(3,2)] by simp
  have "int_str w = nat_str (nat w)" "nat w < 10 ^ 78" "0 < nat w" using w by (simp_all add: int_str_def nat_less_iff)
  then have wt: "is_wei_text (int_str w)"
    using nat_str_digits [of "nat w"] length_nat_str_le [of 78 "nat w"] nat_str_hd_zero [of "nat w"] by (simp add: is_wei_text_def)
  have ji: "jindex ?d ''schema'' = Inr (JStr ''liqvera-mezo-dex-capture/v1'')" "jindex ?d ''source'' = Inr (JStr ''mezo-dex:MUSD-BTC:testnet'')"
     "jindex ?d ''side'' = Inr (JStr side)" "jindex ?d ''quantity_wei'' = Inr (JStr (int_str w))" "jindex ?d ''probe'' = Inr ?p"
     "set (map fst ?d) = {''schema'', ''source'', ''side'', ''quantity_wei'', ''probe''}"
    by (simp_all add: jindex_def)
  have cr: "capture_request ?d = Inr (side, w)"
    unfolding capture_request_def ji rbind_simps prod.case json.case using sd wt int_of_str_int_str w by simp
  obtain q where q: "probe_quote (honest_table s (dex_queries a (token_of side) (other_token side))) (cs_block s) (cs_hash s) (cs_time s) a (token_of side) = Inr q"
      "dq_reserve_musd q = cs_musd s" "dq_reserve_btc q = cs_btc s" "dq_fee_bps q = cs_fee s" "dq_router_amount_out q = v"
    using probe_quote_honest [OF c a(2,3)] by blast
  have pj: "(case ?p of JObj _ \<Rightarrow> m | _ \<Rightarrow> n) = m" for m n :: "DexQuote res" by (simp add: honest_probe_def)
  have dp: "decode_probe ?p a (token_of side) = Inr q"
    unfolding decode_probe_def pj using probe_header_honest [OF c] probe_calls_honest [OF r] q(1) by simp
  have "check_amount side w a q = Inr ()"
    using a(1,4) q(2-5) w(1) buy_input_amount by (auto simp: check_amount_def amount_for_def)
  then show ?thesis using cr planned_amount_honest [OF r refl, of "JStr ''liqvera-mezo-dex-capture/v1''"] dp ji(5)
    unfolding verify_capture_def by (simp add: token_of_def)
qed

lemma capture_honest:
  assumes c: "chain_ok s" and w: "0 < w" "w < 2 ^ 256" and sd: "side \<in> {''BUY'', ''SELL''}"
    and a: "amount_for s side w = Inr a" "out_for s side a = Inr v"
  shows "\<exists>capture. capture_dex (node s) side w = Inr capture"
proof -
  have a0: "0 < a" and wv: "w \<le> v \<or> side = ''SELL''"
  proof -
    show "0 < a" using a(1) w least_input_pos [of "cs_musd s" "cs_fee s" w "cs_btc s"]
      by (auto simp: amount_for_def amm_amount_in_eq amm_inputs_def split: if_splits)
    show "w \<le> v \<or> side = ''SELL''" using a by (auto simp: amount_for_def out_for_def amm_amount_in_least split: if_splits)
  qed
  have r: "word_range a" using out_range [OF a(2) a0] by simp
  have rpc: "node s 0 ''eth_blockNumber'' [] = Inr (JObj [(''result'', JStr (cs_block s))])"
    "node s 1 ''eth_chainId'' [] = Inr (JObj [(''result'', JStr ''0x7b7b'')])"
    "node s i ''eth_getBlockByNumber'' ps = Inr (node_header (cs_block s) (cs_hash s) (cs_ts s))" for i ps
    by (simp_all add: node_def honest_rpc_def)
  have it: "rbind (item (node_header b h t) ''result'') (\<lambda>h. item h ''number'') = Inr (JStr b)"
    "rbind (item (node_header b h t) ''result'') (\<lambda>h. item h ''hash'') = Inr (JStr h)" for b h t
    by (simp_all add: node_header_def item_def jindex_def)
  have j: "item (JObj [(''result'', x)]) ''result'' = Inr x" "jget [(''result'', x)] ''result'' = x" for x
    by (simp_all add: item_def jindex_def jget_def)
  have b: "is_block_number (cs_block s)" using c by (simp add: chain_ok_def)
  obtain rr where "verify_capture (JObj [(''schema'', JStr ''liqvera-mezo-dex-capture/v1''), (''source'', JStr ''mezo-dex:MUSD-BTC:testnet''),
     (''side'', JStr side), (''quantity_wei'', JStr (int_str w)),
     (''probe'', honest_probe s (map (node_call (cs_block s) (answer s)) (dex_queries a (token_of side) (other_token side))))]) = Inr rr"
    using verify_honest [OF c w sd a(1) a0 a(2) wv] by blast
  then show ?thesis using sd w b
    unfolding capture_dex_def rpc rbind_simps j json.case it dex_reads_honest [OF c w(1) a(1) r a0] honest_probe_def Let_def by simp
qed

subsection \<open>Properties\<close>

text \<open>
  C25. A capture that verifies carries a quote that is right in the pool's own arithmetic. A sale
  offers exactly the quantity and its output is what the checked formula gives on the captured
  reserves and fee; a purchase pays exactly the least input that reaches the quantity. And
  whatever the node answers, a capture returned for a side and quantity verifies for them.
\<close>

theorem verified_capture_quote_exact:
  assumes "capture_dex rpc side w = Inr capture"
  shows "\<exists>r q. verify_capture capture = Inr r \<and> vd_side r = side \<and> vd_quantity_wei r = w \<and> vd_quote r = q \<and>
    (if side = ''SELL''
     then dq_amount_in q = w \<and> amm_amount_out w (dq_reserve_btc q) (dq_reserve_musd q) (dq_fee_bps q) = Inr (dq_router_amount_out q)
     else amm_amount_in w (dq_reserve_musd q) (dq_reserve_btc q) (dq_fee_bps q) = Inr (dq_amount_in q)
        \<and> amm_amount_out (dq_amount_in q) (dq_reserve_musd q) (dq_reserve_btc q) (dq_fee_bps q) = Inr (dq_router_amount_out q))"
proof -
  obtain r where r: "verify_capture capture = Inr r" "vd_side r = side" "vd_quantity_wei r = w"
    using capture_dex_verified [OF assms] by blast
  have "quote_ok r" by (rule verified_quote_ok [OF r(1)])
  then show ?thesis using r by (auto simp: quote_ok_def Let_def)
qed

definition sample_chain :: chain_state where
  "sample_chain = \<lparr>cs_block = ''0x10'', cs_hash = ''0x'' @ replicate 64 CHR ''0'', cs_ts = ''0x64'', cs_time = 100,
     cs_musd = 60000000 * 10 ^ 18, cs_btc = 1000 * 10 ^ 18, cs_updated = 99, cs_fee = 30\<rparr>"

lemma sample_chain_ok: "chain_ok sample_chain" "amount_for sample_chain ''SELL'' (10 ^ 18) = Inr (10 ^ 18)"
  "\<exists>v. out_for sample_chain ''SELL'' (10 ^ 18) = Inr v"
proof -
  show "chain_ok sample_chain" by code_simp
  show "amount_for sample_chain ''SELL'' (10 ^ 18) = Inr (10 ^ 18)" by (simp add: amount_for_def)
  have "\<not> isl (out_for sample_chain ''SELL'' (10 ^ 18))" by code_simp
  then show "\<exists>v. out_for sample_chain ''SELL'' (10 ^ 18) = Inr v" by (cases "out_for sample_chain ''SELL'' (10 ^ 18)") auto
qed

lemma sample_capture: "\<exists>capture. capture_dex (node sample_chain) ''SELL'' (10 ^ 18) = Inr capture"
proof -
  obtain v where "out_for sample_chain ''SELL'' (10 ^ 18) = Inr v" using sample_chain_ok(3) by blast
  then show ?thesis by (intro capture_honest [OF sample_chain_ok(1) _ _ _ sample_chain_ok(2)]) simp_all
qed

lemma verified_capture_quote_exact_witness:
  "\<exists>capture r. capture_dex (node sample_chain) ''SELL'' (10 ^ 18) = Inr capture \<and> verify_capture capture = Inr r
     \<and> vd_side r = ''SELL'' \<and> dq_amount_in (vd_quote r) = 10 ^ 18"
proof -
  obtain c where c: "capture_dex (node sample_chain) ''SELL'' (10 ^ 18) = Inr c" using sample_capture by blast
  then show ?thesis using verified_capture_quote_exact [OF c] by auto
qed

text \<open>
  C26. An honest node is accepted: whenever the reserves and fee of its pool allow the wanted quote
  within the limits of the contract, capturing from it succeeds, for either side. The strict
  decoding rejects nothing that is genuine.
\<close>

theorem honest_capture_succeeds:
  assumes "chain_ok s" and "0 < w" "w < 2 ^ 256" and "side = ''BUY'' \<or> side = ''SELL''"
    and "amount_for s side w = Inr a" "out_for s side a = Inr v"
  shows "\<exists>capture. capture_dex (node s) side w = Inr capture"
  using capture_honest [OF assms(1-3) _ assms(5,6)] assms(4) by blast

lemma honest_capture_succeeds_witness:
  "\<exists>capture. capture_dex (node sample_chain) ''SELL'' (10 ^ 18) = Inr capture"
proof -
  obtain v where v: "out_for sample_chain ''SELL'' (10 ^ 18) = Inr v" using sample_chain_ok(3) by blast
  show ?thesis by (rule honest_capture_succeeds [OF sample_chain_ok(1) _ _ _ sample_chain_ok(2) v]) simp_all
qed

text \<open>
  C27. The report of a verified capture agrees with it. For a matching request the report is built
  with the input and output of the capture, or fails because the pool is too small for a size
  or a size exceeds the contract's arithmetic; the formula mismatch the code guards against
  cannot occur, nor can a division by zero or a value that cannot be rendered.
\<close>

theorem dex_report_agrees:
  assumes "verify_capture capture = Inr r" and "fraction_of_str text = Inr f" and "f * 10 ^ 18 = of_int (vd_quantity_wei r)"
  shows "case build_dex_report capture (vd_side r) text of
      Inl e \<Rightarrow> e \<in> {CodedValueError ''INSUFFICIENT_LIQUIDITY'', CodedValueError ''MEZO_DEX_ARITHMETIC_OVERFLOW'',
               CodedValueError ''MEZO_DEX_INVALID_INPUT''}
    | Inr rep \<Rightarrow> \<exists>d. rep = JObj d \<and> jget d ''amount_in'' = JStr (int_str (dq_amount_in (vd_quote r)))
        \<and> jget d ''amount_out'' = JStr (int_str (dq_router_amount_out (vd_quote r)))"
  using build_dex_report_outcomes [OF assms] by (simp only: dex_failures_def)

lemma dex_report_agrees_witness:
  "\<exists>capture r. verify_capture capture = Inr r \<and> (case build_dex_report capture (vd_side r) ''1'' of
      Inl e \<Rightarrow> e \<in> {CodedValueError ''INSUFFICIENT_LIQUIDITY'', CodedValueError ''MEZO_DEX_ARITHMETIC_OVERFLOW'',
               CodedValueError ''MEZO_DEX_INVALID_INPUT''}
    | Inr rep \<Rightarrow> \<exists>d. rep = JObj d \<and> jget d ''amount_in'' = JStr (int_str (dq_amount_in (vd_quote r)))
        \<and> jget d ''amount_out'' = JStr (int_str (dq_router_amount_out (vd_quote r))))"
proof -
  obtain c where c: "capture_dex (node sample_chain) ''SELL'' (10 ^ 18) = Inr c" using sample_capture by blast
  obtain r where r: "verify_capture c = Inr r" "vd_quantity_wei r = 10 ^ 18" using capture_dex_verified [OF c] by blast
  have "fraction_of_str ''1'' = Inr 1" by code_simp
  then show ?thesis using dex_report_agrees [OF r(1), of "''1''" 1] r by auto
qed

end
