(* ===== verification/SealedInput.thy ===== *)
theory SealedInput
  imports Bundle MezoDex
begin

section \<open>Inspection of sealed inputs (\<open>sealed_input.py\<close>)\<close>

text \<open>
  A captured package is inspected before anything is computed from it: its manifest has to bind every
  member, the recorded responses have to agree with the stored payloads and with the clock, the book
  has to be sorted and not crossed, and the identity of the instrument has to be the reviewed one.
  The order of the checks is that of the code, since a rejection carries the code of the first one
  that fails. Where the code reads several keys of a decoded object before a check, a missing key
  raises \<open>KeyError\<close>, which becomes the same rejection as the check.
\<close>

definition IDENTITY :: "(string \<times> json) list" where
  "IDENTITY = [(''base_asset'', JStr ''BTC''), (''quote_asset'', JStr ''USD''), (''settlement_asset'', JStr ''USDC''),
     (''product_kind'', JStr ''perp''), (''payoff_kind'', JStr ''linear'')]"

definition FIXTURE_REFERENCE :: string where
  "FIXTURE_REFERENCE = ''https://schemas.liqvera.invalid/fixture/btc-perpetual/v1''"

definition LIVE_REFERENCE :: string where
  "LIVE_REFERENCE = ''https://schemas.liqvera.invalid/hyperliquid/btc-linear-perpetual/v1''"

definition MAPPING_KEYS :: "string list" where
  "MAPPING_KEYS = [''mapping_id'', ''mapping_version'', ''decision'', ''venue'', ''symbol'', ''identity'',
     ''evidence_sha256'', ''evidence_reference'', ''valid_from_ms'', ''valid_until_ms'',
     ''reviewed_contract_multiplier'', ''displayed_size_unit'', ''quantity_step'', ''price_tick'',
     ''price_decimals'', ''max_price_significant_digits'', ''min_quantity'', ''min_notional'']"

record InspectedInput =
  ii_members :: members
  ii_capture :: json
  ii_book :: ReconstructedBook
  ii_stage_a :: json
  ii_package_sha256 :: string

text \<open>\<open>v == n\<close> and the use of \<open>v\<close> as a number, for a decoded value; comparisons of texts and lists are outside the model.\<close>

definition equals_int :: "json \<Rightarrow> int \<Rightarrow> bool" where
  "equals_int v n \<longleftrightarrow> (case v of JInt i \<Rightarrow> i = n | JBool b \<Rightarrow> (if b then 1 else 0) = n | _ \<Rightarrow> False)"

definition json_number :: "json \<Rightarrow> int res" where
  "json_number v =
     (case v of JInt i \<Rightarrow> Inr i | JBool b \<Rightarrow> Inr (if b then 1 else 0) | JNull \<Rightarrow> Inl TypeError | JObj d \<Rightarrow> Inl TypeError | _ \<Rightarrow> Inl NotModelled)"

definition number_at :: "json \<Rightarrow> string \<Rightarrow> int res" where
  "number_at v k = rbind (item v k) json_number"

definition json_member :: "members \<Rightarrow> string \<Rightarrow> json res" where
  "json_member ms name = rbind (member_bytes_of ms name) strict_json"

subsection \<open>The manifest\<close>

definition inspect_names :: "members \<Rightarrow> unit res" where
  "inspect_names ms =
     rbind (if map_of ms ''source/mezo-dex.json'' \<noteq> None
            then rbind (json_member ms ''source/mezo-dex.json'') (\<lambda>c. rbind (verify_capture c) (\<lambda>_. Inr [''source/mezo-dex.json'']))
            else Inr []) (\<lambda>extra.
     require (\<not> fst ` set ms \<noteq> set (BASE_MEMBERS @ [''source/mapping-evidence.json''] @ extra)) rejected_dataset (Inr ()))"

definition inspect_manifest :: "members \<Rightarrow> json \<Rightarrow> (string \<times> json) list res" where
  "inspect_manifest ms capture =
     rbind (json_member ms ''manifest.json'') (\<lambda>m.
     rbind (object_keys m [''schema'', ''capture_run_id'', ''started_at_ms'', ''venue_set'', ''members'', ''manifest_sha256'']) (\<lambda>manifest.
     require (\<not> (jget manifest ''schema'' \<noteq> JStr ''liqvera-readonly-frozen-package/v1''
                 \<or> jget manifest ''venue_set'' \<noteq> JList [JStr ''hyperliquid''])) rejected_dataset (
     rbind (evidence_identifier (jget manifest ''capture_run_id'')) (\<lambda>run.
     rbind (item capture ''capture_id'') (\<lambda>capture_id.
     require (\<not> JStr run \<noteq> capture_id) rejected_dataset (
     rbind (canonical_json_bytes (JObj (filter (\<lambda>(k, v). k \<noteq> ''manifest_sha256'') manifest))) (\<lambda>unsigned.
     require (\<not> JStr (digest unsigned) \<noteq> jget manifest ''manifest_sha256'') rejected_dataset (
     rbind (canonical_json_bytes m) (\<lambda>again.
     rbind (member_bytes_of ms ''manifest.json'') (\<lambda>raw.
     require (\<not> again \<noteq> raw) rejected_dataset (Inr manifest)))))))))))"

definition inspect_declaration :: "members \<Rightarrow> string list \<Rightarrow> json \<Rightarrow> string list res" where
  "inspect_declaration ms seen entry =
     rbind (object_keys entry [''path'', ''sha256'', ''length'']) (\<lambda>e.
     rbind (safe_member (jget e ''path'')) (\<lambda>path.
     require (\<not> (path \<in> set seen \<or> path = ''manifest.json'' \<or> map_of ms path = None)) rejected_dataset (
     rbind (integer (jget e ''length'') 0) (\<lambda>n.
     rbind (member_bytes_of ms path) (\<lambda>raw.
     require (\<not> (n \<noteq> int (length raw) \<or> jget e ''sha256'' \<noteq> JStr (digest raw))) rejected_dataset
       (Inr (path # seen)))))))"

definition inspect_declarations :: "members \<Rightarrow> (string \<times> json) list \<Rightarrow> unit res" where
  "inspect_declarations ms manifest =
     (case jget manifest ''members'' of
        JList declarations \<Rightarrow>
          require (\<not> int (length declarations) \<noteq> int (length ms) - 1) rejected_dataset (
          rbind (rfold (inspect_declaration ms) [] declarations) (\<lambda>seen.
          require (\<not> set seen \<noteq> fst ` set ms - {''manifest.json''}) rejected_dataset (Inr ())))
      | _ \<Rightarrow> Inl rejected_dataset)"

subsection \<open>The recorded responses\<close>

record ResponseTimes =
  rt_started :: int
  rt_received :: int
  rt_elapsed :: int

definition inspect_response :: "members \<Rightarrow> json \<Rightarrow> string \<times> string \<Rightarrow> json \<Rightarrow> ResponseTimes res" where
  "inspect_response ms mode expected r =
     (case expected of (kind, request_body) \<Rightarrow>
        let path = ''source/'' @ kind @ ''.bin'' in
        rbind (rmap (item r) [''kind'', ''request_body'', ''source_mode'', ''payload_path'', ''payload_sha256'', ''payload_length'']) (\<lambda>v.
        require (\<not> (v ! 0 \<noteq> JStr kind \<or> v ! 1 \<noteq> JStr request_body \<or> v ! 2 \<noteq> mode \<or> v ! 3 \<noteq> JStr path)) rejected_dataset (
        rbind (member_bytes_of ms path) (\<lambda>payload.
        require (\<not> (v ! 4 \<noteq> JStr (digest payload) \<or> \<not> equals_int (v ! 5) (int (length payload)))) rejected_dataset (
        rbind (number_at r ''received_at_ms'') (\<lambda>received.
        rbind (number_at r ''started_at_ms'') (\<lambda>started.
        require (\<not> received < started) (EvidenceRejected ''CLOCK_SKEW'') (
        rbind (number_at r ''elapsed_ns'') (\<lambda>elapsed.
        require (\<not> elapsed > 12000000000) (EvidenceRejected ''SOURCE_UNAVAILABLE'')
          (Inr \<lparr>rt_started = started, rt_received = received, rt_elapsed = elapsed\<rparr>))))))))))"

definition two_responses :: "json \<Rightarrow> (json \<times> json) res" where
  "two_responses v = (case v of JList [a, b] \<Rightarrow> Inr (a, b) | JList _ \<Rightarrow> Inl ValueError | _ \<Rightarrow> Inl TypeError)"

definition inspect_responses :: "members \<Rightarrow> json \<Rightarrow> json \<Rightarrow> (string \<times> json) list \<Rightarrow> (ResponseTimes \<times> ResponseTimes) res" where
  "inspect_responses ms capture mode manifest =
     rbind (rbind (item capture ''responses'') two_responses) (\<lambda>(m, b).
     rbind (inspect_response ms mode (''metadata'', ''{\"type\":\"meta\"}'') m) (\<lambda>metadata.
     rbind (inspect_response ms mode (''book'', ''{\"type\":\"l2Book\",\"coin\":\"BTC\"}'') b) (\<lambda>response.
     require (\<not> (rt_received metadata > rt_started response \<or> \<not> equals_int (jget manifest ''started_at_ms'') (rt_started metadata))) rejected_dataset (
     require (\<not> (mode = JStr ''fixture'' \<and> (rt_elapsed metadata \<noteq> 0 \<or> rt_elapsed response \<noteq> 0))) rejected_dataset (
     require (\<not> rt_received response - rt_received metadata > 86400000) (EvidenceRejected ''IDENTITY_UNVERIFIED'')
       (Inr (metadata, response)))))))"

definition clock_agrees :: "ResponseTimes \<Rightarrow> bool" where
  "clock_agrees t \<longleftrightarrow> \<bar>rt_elapsed t div 1000000 - (rt_received t - rt_started t)\<bar> \<le> 1000"

definition inspect_live_clock :: "json \<Rightarrow> json \<Rightarrow> ResponseTimes \<Rightarrow> ResponseTimes \<Rightarrow> unit res" where
  "inspect_live_clock capture mode metadata response =
     (if mode = JStr ''live-public'' then
        require (\<not> rt_received response - rt_started metadata > 12000) rejected_dataset (
        rbind (item capture ''identity_status'') (\<lambda>s.
        require (\<not> s \<noteq> JStr ''UNVERIFIED'') rejected_dataset (
        require (clock_agrees metadata \<and> clock_agrees response) (EvidenceRejected ''CLOCK_SKEW'') (Inr ()))))
      else Inr ())"

subsection \<open>The book\<close>

definition book_text :: "(string \<times> json) list \<Rightarrow> string \<Rightarrow> string res" where
  "book_text d name =
     (case jget d name of
        JStr t \<Rightarrow> require (\<not> (length t > 32 \<or> \<not> list_all (\<lambda>c. code c < 128) t)) rejected_dataset (Inr t)
      | _ \<Rightarrow> Inl rejected_dataset)"

text \<open>One level of a side: \<open>bid\<close> tells the side, the last price seen is threaded.\<close>

definition inspect_level :: "bool \<Rightarrow> int option \<Rightarrow> json \<Rightarrow> int option res" where
  "inspect_level bid previous level =
     (case level of
        JObj d \<Rightarrow>
          require (\<not> (\<not> {''px'', ''sz''} \<subseteq> fst ` set d \<or> \<not> fst ` set d \<subseteq> {''px'', ''sz'', ''n''})) rejected_dataset (
          rbind (book_text d ''px'') (\<lambda>px.
          rbind (book_text d ''sz'') (\<lambda>sz.
          rbind (exact_parse px) (\<lambda>level_price.
          rbind (exact_parse sz) (\<lambda>level_size.
          require (\<not> (scaled level_price \<le> 0 \<or> scaled level_size \<le> 0)) rejected_dataset (
          rbind (if map_of d ''n'' \<noteq> None then integer (jget d ''n'') 0 else Inr 0) (\<lambda>_.
          require (case previous of None \<Rightarrow> True
                   | Some p \<Rightarrow> \<not> ((bid \<and> scaled level_price \<ge> p) \<or> (\<not> bid \<and> scaled level_price \<le> p))) rejected_dataset
            (Inr (Some (scaled level_price))))))))))
      | _ \<Rightarrow> Inl rejected_dataset)"

definition inspect_side :: "bool \<Rightarrow> json \<Rightarrow> unit res" where
  "inspect_side bid side =
     (case side of
        JList levels \<Rightarrow>
          require (\<not> \<not> (1 \<le> length levels \<and> length levels \<le> 20)) rejected_dataset (
          rbind (rfold (inspect_level bid) None levels) (\<lambda>_. Inr ()))
      | _ \<Rightarrow> Inl rejected_dataset)"

definition best_price :: "json \<Rightarrow> ExactDecimal res" where
  "best_price side =
     (case side of
        JList (level # _) \<Rightarrow> rbind (item level ''px'') (\<lambda>v. case v of JStr t \<Rightarrow> exact_parse t | _ \<Rightarrow> Inl ExactError)
      | _ \<Rightarrow> Inl IndexError)"

definition inspect_book :: "json \<Rightarrow> int \<Rightarrow> string \<Rightarrow> unit res" where
  "inspect_book mode received raw =
     rbind (strict_json raw) (\<lambda>book_doc.
     case book_doc of
       JObj d \<Rightarrow>
         require (\<not> jget d ''coin'' \<noteq> JStr ''BTC'') (EvidenceRejected ''IDENTITY_MISMATCH'') (
         rbind (integer (jget d ''time'') 0) (\<lambda>source_at.
         require (\<not> (mode = JStr ''live-public'' \<and> received - source_at > 5000)) (EvidenceRejected ''STALE_SOURCE'') (
         require (\<not> (mode = JStr ''live-public'' \<and> source_at - received > 1000)) (EvidenceRejected ''CLOCK_SKEW'') (
         case jget d ''levels'' of
           JList [bids_doc, asks_doc] \<Rightarrow>
             rbind (inspect_side True bids_doc) (\<lambda>_.
             rbind (inspect_side False asks_doc) (\<lambda>_.
             rbind (best_price bids_doc) (\<lambda>best_bid_price.
             rbind (best_price asks_doc) (\<lambda>best_ask_price.
             require (\<not> scaled best_bid_price \<ge> scaled best_ask_price) (EvidenceRejected ''CROSSED_BOOK'') (Inr ())))))
         | _ \<Rightarrow> Inl rejected_dataset))))
     | _ \<Rightarrow> Inl rejected_dataset)"

subsection \<open>The identity\<close>

definition is_btc :: "json \<Rightarrow> bool" where
  "is_btc v \<longleftrightarrow> (case v of JObj d \<Rightarrow> jget d ''name'' = JStr ''BTC'' | _ \<Rightarrow> False)"

definition inspect_metadata :: "string \<Rightarrow> int res" where
  "inspect_metadata raw =
     rbind (strict_json raw) (\<lambda>meta.
     case meta of
       JObj d \<Rightarrow>
         (case jget d ''universe'' of
            JList universe \<Rightarrow>
              (case filter is_btc universe of
                 [JObj c] \<Rightarrow>
                   (case jget c ''szDecimals'' of
                      JInt n \<Rightarrow>
                        require (\<not> (\<not> (0 \<le> n \<and> n \<le> 8) \<or> \<not> (map_of c ''isDelisted'' = None \<or> jget c ''isDelisted'' = JBool False)))
                          (EvidenceRejected ''UNSUPPORTED_INSTRUMENT'') (Inr n)
                    | _ \<Rightarrow> Inl (EvidenceRejected ''IDENTITY_UNVERIFIED''))
               | _ \<Rightarrow> Inl (EvidenceRejected ''IDENTITY_UNVERIFIED''))
          | _ \<Rightarrow> Inl (EvidenceRejected ''IDENTITY_UNVERIFIED''))
     | _ \<Rightarrow> Inl (EvidenceRejected ''IDENTITY_UNVERIFIED''))"

definition quantity_step_text :: "int \<Rightarrow> string" where
  "quantity_step_text n = (if n = 0 then ''1'' else ''0.'' @ replicate (nat (n - 1)) CHR ''0'' @ ''1'')"

definition live_source :: "members \<Rightarrow> string \<Rightarrow> int \<Rightarrow> json res" where
  "live_source ms raw n =
     rbind (member_bytes_of ms ''source/metadata.bin'') (\<lambda>metadata.
     Inr (JObj ([(''schema'', JStr ''liqvera-hyperliquid-btc-identity/v1''), (''source_mode'', JStr ''live-public''),
       (''policy_version'', JStr ''hyperliquid-btc-linear-perpetual/v1''), (''reference'', JStr LIVE_REFERENCE),
       (''metadata_sha256'', JStr (digest metadata)), (''book_sha256'', JStr (digest raw))] @ IDENTITY
       @ [(''displayed_size_unit'', JStr ''coin''), (''contract_multiplier'', JStr ''1''), (''quantity_step'', JStr (quantity_step_text n)),
          (''maximum_price_significant_digits'', JInt 5), (''minimum_notional_usd'', JStr ''10''),
          (''limitation'', JStr ''Snapshot identity only; no funding, fee, execution, or trading authority claim.'')])))"

definition fixture_source :: json where
  "fixture_source =
     JObj ([(''schema'', JStr ''liqvera-fixture-identity/v1''), (''source_mode'', JStr ''fixture''), (''reference'', JStr FIXTURE_REFERENCE)]
       @ IDENTITY @ [(''displayed_size_unit'', JStr ''coin''), (''contract_multiplier'', JStr ''1''),
          (''limitation'', JStr ''Synthetic mapping for simulation only; no live identity approval.'')])"

definition expected_mapping :: "bool \<Rightarrow> string \<Rightarrow> int \<Rightarrow> json" where
  "expected_mapping live evidence n =
     JObj [(''mapping_id'', JStr (if live then ''hyperliquid-btc-perpetual'' else ''fixture-btc-perpetual'')),
       (''mapping_version'', JStr (if live then ''hyperliquid-btc-linear-perpetual/v1'' else ''fixture/v1'')),
       (''decision'', JStr ''APPROVED''), (''venue'', JStr ''hyperliquid''), (''symbol'', JStr ''BTC''), (''identity'', JObj IDENTITY),
       (''evidence_sha256'', JStr evidence), (''evidence_reference'', JStr (if live then LIVE_REFERENCE else FIXTURE_REFERENCE)),
       (''valid_from_ms'', JInt 0), (''valid_until_ms'', JNull), (''reviewed_contract_multiplier'', JStr ''1''),
       (''displayed_size_unit'', JStr ''coin''), (''quantity_step'', JStr (if live then quantity_step_text n else ''0.00001'')),
       (''price_tick'', if live then JNull else JStr ''0.1''), (''price_decimals'', JNull),
       (''max_price_significant_digits'', if live then JInt 5 else JNull), (''min_quantity'', JNull), (''min_notional'', JStr ''10'')]"

text \<open>
  The mapping and its evidence. Two decoded documents are equal when they agree up to the order of
  keys. In live mode the code compares the three documents twice, with the same outcome.
\<close>

definition inspect_mapping :: "members \<Rightarrow> json \<Rightarrow> json \<Rightarrow> string \<Rightarrow> int \<Rightarrow> unit res" where
  "inspect_mapping ms capture mode raw n =
     (let live = (mode = JStr ''live-public''); unverified = EvidenceRejected ''IDENTITY_UNVERIFIED'' in
      rbind (json_member ms ''mapping_snapshot.json'') (\<lambda>doc.
      rbind (object_keys doc [''mappings'']) (\<lambda>d.
      rbind (case jget d ''mappings'' of JList [m] \<Rightarrow> Inr m | _ \<Rightarrow> Inl unverified) (\<lambda>mapping.
      rbind (object_keys mapping MAPPING_KEYS) (\<lambda>_.
      rbind (member_bytes_of ms ''source/mapping-evidence.json'') (\<lambda>evidence.
      rbind (strict_json evidence) (\<lambda>source.
      rbind (if live then Inr () else rbind (item capture ''identity_status'') (\<lambda>s. require (\<not> s \<noteq> JStr ''SIMULATED'') unverified (Inr ()))) (\<lambda>_.
      rbind (if live then live_source ms raw n else Inr fixture_source) (\<lambda>expected_source.
      require (\<not> canon source \<noteq> canon expected_source) unverified (
      rbind (canonical_json_bytes source) (\<lambda>again.
      require (\<not> again \<noteq> evidence) unverified (
      rbind (canonical_json_bytes mapping) (\<lambda>found.
      rbind (canonical_json_bytes (expected_mapping live (digest evidence) n)) (\<lambda>wanted.
      require (\<not> found \<noteq> wanted) unverified (Inr ())))))))))))))))"

subsection \<open>The inherited records\<close>

definition same_record :: "members \<Rightarrow> string \<times> json \<Rightarrow> unit res" where
  "same_record ms expected =
     (case expected of (name, wanted) \<Rightarrow>
        rbind (rbind (json_member ms name) canonical_json_bytes) (\<lambda>a.
        rbind (canonical_json_bytes wanted) (\<lambda>b. require (\<not> a \<noteq> b) rejected_dataset (Inr ()))))"

definition inspect_records :: "members \<Rightarrow> string \<Rightarrow> int \<Rightarrow> unit res" where
  "inspect_records ms raw received =
     rbind (member_bytes_of ms ''raw_batches/0.bin'') (\<lambda>batch.
     require (\<not> batch \<noteq> raw) rejected_dataset (
     rbind (json_member ms ''raw_envelopes/records.ndjson'') (\<lambda>env.
     rbind (object_keys env [''envelope_index'', ''observed_at_ms'', ''venue'', ''payload_hex'']) (\<lambda>e.
     require (\<not> (jget e ''envelope_index'' \<noteq> JInt 0 \<or> jget e ''observed_at_ms'' \<noteq> JInt received
                 \<or> jget e ''venue'' \<noteq> JStr ''hyperliquid'' \<or> jget e ''payload_hex'' \<noteq> JStr (bytes_hex raw))) rejected_dataset (
     rbind (rmap (same_record ms)
       [(''terminal.json'', JObj [(''terminated_at_ms'', JInt received), (''status'', JStr ''sealed'')]),
        (''control_evidence/records.ndjson'', JObj [(''recorded_at_ms'', JInt received), (''kind'', JStr ''epoch''), (''payload_sha256'', JStr (digest raw))]),
        (''quality_minutes/records.ndjson'', JObj [(''minute_start_ms'', JInt (received - received mod 60000)), (''venue'', JStr ''hyperliquid''),
           (''accepted'', JInt 1), (''rejected'', JInt 0)])]) (\<lambda>_. Inr ()))))))"

text \<open>The private directory of the members, and what the analyzer makes of it.\<close>

definition private_package :: "members \<Rightarrow> package_dir res" where
  "private_package ms = rbind (rfold put_member [] ms) (\<lambda>t. Inr \<lparr>root_entry = Some Directory, tree = t\<rparr>)"

definition stage_document :: "StageADecision \<Rightarrow> json" where
  "stage_document stage =
     JObj [(''schema'', JStr (sd_schema stage)), (''package_schema'', JStr (sd_package_schema stage)),
       (''capture_run_id'', case sd_capture_run_id stage of None \<Rightarrow> JNull | Some u \<Rightarrow> JStr (uuid_str u)),
       (''decision'', JStr (decision_value (sd_decision stage))), (''reasons'', JList (map (\<lambda>r. JStr (reason_value r)) (sd_reasons stage)))]"

definition analyze_members :: "members \<Rightarrow> (ReconstructedBook list \<times> StageADecision) res" where
  "analyze_members ms =
     rbind (private_package ms) (\<lambda>pkg.
     rbind (reader_init pkg) (\<lambda>reader.
     rbind (read_mapping_snapshot reader (run_id reader)) (\<lambda>ms_snapshot.
     rbind (iter_raw_envelopes reader (run_id reader)) (\<lambda>envelopes.
     rbind (reconstruct_books envelopes (mappings ms_snapshot)) (\<lambda>bks.
     rbind (bind_reconstructed_books bks (mappings ms_snapshot)) (\<lambda>bound.
     rbind (evaluate_frozen_package pkg) (\<lambda>stage. Inr (bound, stage))))))))"

definition inspect :: "Resources \<Rightarrow> members \<Rightarrow> InspectedInput res" where
  "inspect res ms =
     rbind (json_member ms ''source/capture.json'') (\<lambda>capture.
     rbind (validate res ''capture-evidence.schema.json'' capture) (\<lambda>_.
     rbind (item capture ''source_mode'') (\<lambda>mode.
     rbind (inspect_names ms) (\<lambda>_.
     rbind (inspect_manifest ms capture) (\<lambda>manifest.
     rbind (inspect_declarations ms manifest) (\<lambda>_.
     rbind (inspect_responses ms capture mode manifest) (\<lambda>(metadata, response).
     rbind (inspect_live_clock capture mode metadata response) (\<lambda>_.
     rbind (member_bytes_of ms ''source/book.bin'') (\<lambda>raw.
     rbind (inspect_book mode (rt_received response) raw) (\<lambda>_.
     rbind (rbind (member_bytes_of ms ''source/metadata.bin'') inspect_metadata) (\<lambda>n.
     rbind (inspect_records ms raw (rt_received response)) (\<lambda>_.
     rbind (inspect_mapping ms capture mode raw n) (\<lambda>_.
     rbind (analyze_members ms) (\<lambda>(bks, stage).
     rbind (case bks of [b] \<Rightarrow> Inr b | _ \<Rightarrow> Inl rejected_dataset) (\<lambda>book.
     rbind (member_bytes_of ms ''manifest.json'') (\<lambda>manifest_bytes.
     Inr \<lparr>ii_members = ms, ii_capture = capture, ii_book = book, ii_stage_a = stage_document stage,
          ii_package_sha256 = digest manifest_bytes\<rparr>))))))))))))))))"

definition inspect_caught :: "py_exc \<Rightarrow> bool" where
  "inspect_caught e \<longleftrightarrow> e \<in> {KeyError, TypeError, OSError, FileExistsError, OverflowError} \<or> is_value_error e"

text \<open>\<open>except EvidenceRejected: raise\<close> before a handler that turns other exceptions into a rejection.\<close>

definition keep_rejections :: "(py_exc \<Rightarrow> bool) \<Rightarrow> 'a res \<Rightarrow> 'a res" where
  "keep_rejections p m =
     (case m of
        Inr x \<Rightarrow> Inr x
      | Inl e \<Rightarrow> (case e of EvidenceRejected c \<Rightarrow> Inl e | _ \<Rightarrow> Inl (if p e then rejected_dataset else e)))"

definition inspect_members :: "Resources \<Rightarrow> members \<Rightarrow> InspectedInput res" where
  "inspect_members res ms = keep_rejections inspect_caught (inspect res ms)"

definition inspect_package :: "Resources \<Rightarrow> disk \<Rightarrow> InspectedInput res" where
  "inspect_package res dir = rbind (read_tree dir) (inspect_members res)"

end
