(* ===== verification/MezoTroves.thy ===== *)
theory MezoTroves
  imports MezoDex
begin

section \<open>Mezo trove evidence (\<open>public_adapters/mezo_troves.py\<close>)\<close>

text \<open>
  A trove capture holds the raw reads of one block that describe a borrower's trove and the
  sorted list of all troves, a doubly linked list in contract storage. Verification decodes the
  reads, walks the list from its last element and computes the borrower's place in the
  redemption queue. The set \<open>used\<close> of reads that took part is threaded through the decoding
  as a list, because at the end it has to be all of them.
\<close>

definition TROVE_MANAGER :: string where
  "TROVE_MANAGER = ''0xE47c80e8c23f6B4A1aE41c34837a0599D5D16bb0''"

definition SORTED_TROVES :: string where
  "SORTED_TROVES = ''0x722E4D24FD6Ff8b0AC679450F3D91294607268fA''"

definition PRICE_FEED :: string where
  "PRICE_FEED = ''0x86bCF0841622a5dAC14A313a15f96A95421b9366''"

definition ZERO :: string where
  "ZERO = ''0x'' @ replicate 40 CHR ''0''"

definition QUEUE_LIMIT :: int where
  "QUEUE_LIMIT = 500"

definition MANAGER_SELECTORS :: "(string \<times> nat) list" where
  "MANAGER_SELECTORS = [(''0x794e5724'', 0), (''0x5733d58f'', 0), (''0xa20baee6'', 0), (''0x7af110ba'', 0), (''0x49eefeee'', 0),
     (''0xd9a72444'', 1), (''0xb91af97c'', 1), (''0x21e37801'', 1), (''0xd293c710'', 2), (''0xb82f263d'', 1),
     (''0x795d26c3'', 0), (''0x887105d3'', 0)]"

definition SORTED_SELECTORS :: "(string \<times> nat) list" where
  "SORTED_SELECTORS = [(''0xde8fa431'', 0), (''0x4d622831'', 0), (''0x1e223143'', 0), (''0xb72703ac'', 1), (''0x765e0159'', 1),
     (''0x5dbe47e8'', 1)]"

abbreviation trove_invalid :: py_exc where
  "trove_invalid \<equiv> CodedValueError ''MEZO_TROVE_INVALID_EVIDENCE''"

definition trove_address :: "json \<Rightarrow> string res" where
  "trove_address v =
     (case v of
        JStr s \<Rightarrow>
          require (take 2 s = ''0x'' \<and> length s = 42 \<and> list_all is_hex (drop 2 s)) trove_invalid (
          require (lower s \<noteq> ZERO) trove_invalid (Inr (lower s)))
      | _ \<Rightarrow> Inl trove_invalid)"

definition checked_icr :: "int \<Rightarrow> int \<Rightarrow> int \<Rightarrow> int res" where
  "checked_icr collateral debt oracle_price =
     require (debt \<le> MAXIMUM) trove_invalid (
     if debt = 0 then Inr MAXIMUM
     else require (collateral * oracle_price \<le> MAXIMUM) trove_invalid (Inr (collateral * oracle_price div debt)))"

subsection \<open>The recorded reads\<close>

type_synonym read_key = "string \<times> string"
type_synonym reads = "(read_key \<times> json) list"

definition allowed_selectors :: "string \<Rightarrow> (string \<times> nat) list option" where
  "allowed_selectors target = map_of [(lower TROVE_MANAGER, MANAGER_SELECTORS), (lower SORTED_TROVES, SORTED_SELECTORS),
     (lower PRICE_FEED, [(''0x0fdb11cf'', 0)])] target"

definition add_read :: "string \<Rightarrow> reads \<Rightarrow> json \<Rightarrow> reads res" where
  "add_read block calls call =
     (case call of
        JObj d \<Rightarrow>
          require (set (map fst d) = {''to'', ''data'', ''block'', ''response''}) trove_invalid (
          rbind (rbind (jindex d ''to'') trove_address) (\<lambda>target.
          rbind (item_lower call ''data'') (\<lambda>data.
          require (jget d ''block'' = JStr block) trove_invalid (
          case allowed_selectors target of
            None \<Rightarrow> Inl trove_invalid
          | Some selectors \<Rightarrow>
              (case map_of selectors (take 10 data) of
                 None \<Rightarrow> Inl trove_invalid
               | Some arity \<Rightarrow>
                   require (length data = 10 + 64 * arity \<and> take 2 data = ''0x'' \<and> list_all is_hex_lower (drop 2 data)) trove_invalid (
                   require (map_of calls (target, data) = None) trove_invalid (
                   case jget d ''response'' of
                     JObj r \<Rightarrow>
                       require (jget r ''jsonrpc'' = JStr ''2.0'' \<and> \<not> has_key ''error'' r \<and> has_key ''result'' r) trove_invalid (
                       Inr (calls @ [((target, data), jget r ''result'')]))
                   | _ \<Rightarrow> Inl trove_invalid)))))))
      | _ \<Rightarrow> Inl trove_invalid)"

text \<open>A decoding step: reads the table, extends the list of used reads, may raise.\<close>

type_synonym 'a decoder = "read_key list \<Rightarrow> ('a \<times> read_key list) res"

definition dbind :: "'a decoder \<Rightarrow> ('a \<Rightarrow> 'b decoder) \<Rightarrow> 'b decoder" where
  "dbind m f u = rbind (m u) (\<lambda>(x, u'). f x u')"

definition dreturn :: "'a res \<Rightarrow> 'a decoder" where
  "dreturn r u = rbind r (\<lambda>x. Inr (x, u))"

definition dcheck :: "bool \<Rightarrow> 'a decoder \<Rightarrow> 'a decoder" where
  "dcheck b m u = require b trove_invalid (m u)"

primrec dmap :: "('a \<Rightarrow> 'b decoder) \<Rightarrow> 'a list \<Rightarrow> 'b list decoder" where
  "dmap f [] = dreturn (Inr [])"
| "dmap f (x # xs) = dbind (f x) (\<lambda>y. dbind (dmap f xs) (\<lambda>ys. dreturn (Inr (y # ys))))"

definition read_words :: "reads \<Rightarrow> string \<Rightarrow> string \<Rightarrow> string \<Rightarrow> nat \<Rightarrow> int list decoder" where
  "read_words calls to selector args count u =
     (let key = (lower to, selector @ args)
      in rbind (case map_of calls key of None \<Rightarrow> Inl KeyError | Some raw \<Rightarrow> abi_words raw count) (\<lambda>ws.
         Inr (ws, key # u)))"

definition read_uint :: "reads \<Rightarrow> string \<Rightarrow> string \<Rightarrow> string \<Rightarrow> int decoder" where
  "read_uint calls to selector args = dbind (read_words calls to selector args 1) (\<lambda>ws. dreturn (Inr (ws ! 0)))"

definition read_address :: "reads \<Rightarrow> string \<Rightarrow> string \<Rightarrow> string \<Rightarrow> string decoder" where
  "read_address calls to selector args =
     dbind (read_uint calls to selector args) (\<lambda>value.
     dcheck (value < 2 ^ 160) (dreturn (Inr (''0x'' @ hex_width 40 value))))"

subsection \<open>One trove\<close>

record Trove =
  tv_collateral :: int
  tv_principal :: int
  tv_interest :: int
  tv_status :: int
  tv_icr :: int
  tv_debt :: int

definition decode_trove :: "reads \<Rightarrow> int \<Rightarrow> int \<Rightarrow> string \<Rightarrow> Trove decoder" where
  "decode_trove calls oracle_price gas owner =
     (let arg = address_word owner in
      dbind (read_words calls TROVE_MANAGER ''0xb91af97c'' arg 6) (\<lambda>ws.
      let coll = ws ! 0; principal_debt = ws ! 1; interest = ws ! 2;
          pending_coll = ws ! 3; pending_principal = ws ! 4; pending_interest = ws ! 5
      in dbind (read_uint calls TROVE_MANAGER ''0x21e37801'' arg) (\<lambda>status_code.
         dbind (read_uint calls TROVE_MANAGER ''0xd293c710'' (arg @ hex_width 64 oracle_price)) (\<lambda>ratio.
         dcheck (0 \<le> status_code \<and> status_code \<le> 4 \<and> pending_coll \<le> coll \<and> pending_principal \<le> principal_debt
                 \<and> pending_interest \<le> interest) (
         let debt = principal_debt + interest
         in dbind (dreturn (checked_icr coll debt oracle_price)) (\<lambda>icr.
            dcheck (ratio = icr) (
            dcheck (status_code \<noteq> 1 \<or> debt \<ge> gas) (
            dreturn (Inr \<lparr>tv_collateral = coll, tv_principal = principal_debt, tv_interest = interest,
              tv_status = status_code, tv_icr = ratio, tv_debt = debt\<rparr>)))))))))"

subsection \<open>The walk over the sorted list\<close>

text \<open>
  The state of the loop: the nodes seen, the previous and the current node, the rank and the
  debts ahead so far, and what \<open>result.update\<close> has recorded for the borrower. Every turn sees
  a new owner, so the loop ends.
\<close>

record Queue =
  q_position :: "int option"
  q_debt_ahead :: "int option"
  q_redeemable_ahead :: "int option"
  q_status :: string

record Walk =
  w_seen :: "string list"
  w_previous :: string
  w_current :: string
  w_rank :: int
  w_debt_ahead :: int
  w_net_ahead :: int
  w_queue :: Queue

definition walk_node :: "reads \<Rightarrow> int \<Rightarrow> int \<Rightarrow> int \<Rightarrow> string \<Rightarrow> Walk \<Rightarrow> Walk decoder" where
  "walk_node calls oracle_price gas mcr borrower w =
     (let current = w_current w; arg = address_word current in
      dbind (read_address calls SORTED_TROVES ''0x765e0159'' arg) (\<lambda>before_node.
      dcheck (before_node = w_previous w) (
      dbind (decode_trove calls oracle_price gas current) (\<lambda>node.
      dcheck (tv_status node = 1) (
      let redeemable = tv_icr node \<ge> mcr;
          rank = (if redeemable then w_rank w + 1 else w_rank w);
          queue = (if redeemable \<and> current = borrower
                   then \<lparr>q_position = Some rank, q_debt_ahead = Some (w_debt_ahead w),
                         q_redeemable_ahead = Some (w_net_ahead w), q_status = ''PROVEN''\<rparr>
                   else w_queue w)
      in dbind (read_address calls SORTED_TROVES ''0xb72703ac'' arg) (\<lambda>after.
         dreturn (Inr \<lparr>w_seen = current # w_seen w, w_previous = current, w_current = after, w_rank = rank,
           w_debt_ahead = (if redeemable then w_debt_ahead w + tv_debt node else w_debt_ahead w),
           w_net_ahead = (if redeemable then w_net_ahead w + (tv_debt node - gas) else w_net_ahead w),
           w_queue = queue\<rparr>)))))))"

function walk :: "reads \<Rightarrow> int \<Rightarrow> int \<Rightarrow> int \<Rightarrow> string \<Rightarrow> string list \<Rightarrow> Walk \<Rightarrow> Walk decoder" where
  "walk calls oracle_price gas mcr borrower owners w u =
     (if w_current w = ZERO then Inr (w, u)
      else if \<not> (w_current w \<in> set owners \<and> w_current w \<notin> set (w_seen w)) then Inl trove_invalid
      else (case walk_node calls oracle_price gas mcr borrower w u of
          Inl e \<Rightarrow> Inl e
        | Inr (w', u') \<Rightarrow> walk calls oracle_price gas mcr borrower owners (w'\<lparr>w_seen := w_current w # w_seen w\<rparr>) u'))"
  by pat_completeness auto
termination
proof (relation "measure (\<lambda>(calls, p, g, m, b, owners, w, u). card (set owners - set (w_seen w)))", goal_cases)
  case (2 calls p g m b owners w u res w' u')
  then have "w_current w \<in> set owners - set (w_seen w)" by simp
  then have "card (set owners - set (w_current w # w_seen w)) < card (set owners - set (w_seen w))"
    by (intro psubset_card_mono) auto
  then show ?case by simp
qed simp

declare walk.simps [simp del]

subsection \<open>Verification\<close>

record TroveEvidence =
  te_trove :: Trove
  te_borrower :: string
  te_price :: int
  te_mcr :: int
  te_ccr :: int
  te_tcr :: int
  te_gas_compensation :: int
  te_sorted_troves_size :: int
  te_block_number :: string
  te_block_hash :: string
  te_block_timestamp :: int
  te_queue :: Queue

text \<open>The header, its confirmation after the reads, and the table of reads.\<close>

definition trove_header :: "(string \<times> json) list \<Rightarrow> (string \<times> string \<times> int) res" where
  "trove_header d =
     rbind (rbind (jindex d ''block'') (\<lambda>b. item b ''result'')) (\<lambda>header.
     rbind (item header ''number'') (\<lambda>number.
     case number of
       JStr block \<Rightarrow>
         require (is_block_number block) trove_invalid (
         rbind (item header ''hash'') (\<lambda>h.
         case h of
           JStr hash \<Rightarrow>
             require (is_hash hash) trove_invalid (
             rbind (rbind (jindex d ''block_after'') (\<lambda>b. item b ''result'')) (\<lambda>after.
             rbind (item after ''number'') (\<lambda>n'.
             require (n' = number) trove_invalid (
             rbind (item after ''hash'') (\<lambda>h'.
             require (h' = h) trove_invalid (
             rbind (item after ''timestamp'') (\<lambda>t'.
             rbind (item header ''timestamp'') (\<lambda>t.
             require (t' = t) trove_invalid (
             case t of
               JStr ts \<Rightarrow>
                 rbind (int_of_hex ts) (\<lambda>timestamp.
                 require (timestamp \<ge> 0) trove_invalid (Inr (block, hash, timestamp)))
             | _ \<Rightarrow> Inl TypeError)))))))))
         | _ \<Rightarrow> Inl trove_invalid))
     | _ \<Rightarrow> Inl trove_invalid))"

definition trove_reads :: "(string \<times> json) list \<Rightarrow> string \<Rightarrow> reads res" where
  "trove_reads d block =
     rbind (jindex d ''calls'') (\<lambda>cs.
     case cs of
       JList items \<Rightarrow>
         require (15 \<le> length items \<and> int (length items) \<le> 6 * QUEUE_LIMIT + 32) trove_invalid (rfold (add_read block) [] items)
     | _ \<Rightarrow> Inl trove_invalid)"

record SystemState =
  ss_price :: int
  ss_mcr :: int
  ss_ccr :: int
  ss_gas :: int
  ss_tcr :: int
  ss_size :: int
  ss_first :: string
  ss_last :: string

definition system_state :: "reads \<Rightarrow> SystemState decoder" where
  "system_state calls =
     dbind (read_uint calls PRICE_FEED ''0x0fdb11cf'' []) (\<lambda>oracle_price.
     dbind (read_uint calls TROVE_MANAGER ''0xa20baee6'' []) (\<lambda>precision.
     dbind (read_uint calls TROVE_MANAGER ''0x794e5724'' []) (\<lambda>mcr.
     dbind (read_uint calls TROVE_MANAGER ''0x5733d58f'' []) (\<lambda>ccr.
     dbind (read_uint calls TROVE_MANAGER ''0x7af110ba'' []) (\<lambda>gas.
     dcheck (oracle_price > 0 \<and> precision = UNIT \<and> 0 < mcr \<and> mcr \<le> ccr \<and> gas > 0) (
     dbind (read_uint calls TROVE_MANAGER ''0x795d26c3'' []) (\<lambda>system_debt.
     dbind (read_uint calls TROVE_MANAGER ''0x887105d3'' []) (\<lambda>system_coll.
     dbind (read_uint calls TROVE_MANAGER ''0xb82f263d'' (hex_width 64 oracle_price)) (\<lambda>tcr.
     dbind (dreturn (checked_icr system_coll system_debt oracle_price)) (\<lambda>icr.
     dcheck (tcr = icr) (
     dbind (read_uint calls SORTED_TROVES ''0xde8fa431'' []) (\<lambda>sz.
     dbind (read_uint calls TROVE_MANAGER ''0x49eefeee'' []) (\<lambda>owners_count.
     dcheck (sz = owners_count) (
     dbind (read_address calls SORTED_TROVES ''0x1e223143'' []) (\<lambda>first.
     dbind (read_address calls SORTED_TROVES ''0x4d622831'' []) (\<lambda>last_node.
     dcheck (if sz = 0 then first = ZERO \<and> last_node = ZERO else first \<noteq> ZERO \<and> last_node \<noteq> ZERO) (
     dreturn (Inr \<lparr>ss_price = oracle_price, ss_mcr = mcr, ss_ccr = ccr, ss_gas = gas, ss_tcr = tcr, ss_size = sz,
       ss_first = first, ss_last = last_node\<rparr>))))))))))))))))))"

text \<open>The owners, the walk from the last node, and the place in the queue.\<close>

definition read_owners :: "reads \<Rightarrow> int \<Rightarrow> string list decoder" where
  "read_owners calls sz = dmap (\<lambda>i. read_address calls TROVE_MANAGER ''0xd9a72444'' (hex_width 64 i)) [0..sz - 1]"

definition start_walk :: "string \<Rightarrow> Queue \<Rightarrow> Walk" where
  "start_walk last_node queue = \<lparr>w_seen = [], w_previous = ZERO, w_current = last_node, w_rank = 0, w_debt_ahead = 0,
     w_net_ahead = 0, w_queue = queue\<rparr>"

definition queue_position :: "reads \<Rightarrow> SystemState \<Rightarrow> string \<Rightarrow> Trove \<Rightarrow> Queue \<Rightarrow> Queue decoder" where
  "queue_position calls ss borrower target queue =
     dbind (read_owners calls (ss_size ss)) (\<lambda>owners.
     dcheck (distinct owners \<and> ZERO \<notin> set owners) (
     dcheck ((borrower \<in> set owners) = (tv_status target = 1)) (
     dbind (walk calls (ss_price ss) (ss_gas ss) (ss_mcr ss) borrower owners (start_walk (ss_last ss) queue)) (\<lambda>w.
     dcheck (set (w_seen w) = set owners \<and> w_previous w = ss_first ss) (
     let q = (if tv_status target = 1 \<and> tv_icr target < ss_mcr ss then (w_queue w)\<lparr>q_status := ''BELOW_MCR''\<rparr> else w_queue w)
     in dreturn (Inr (if ss_tcr ss < ss_mcr ss
          then \<lparr>q_position = None, q_debt_ahead = None, q_redeemable_ahead = None, q_status = ''SYSTEM_PAUSED''\<rparr> else q)))))))"

definition trove_decision :: "reads \<Rightarrow> string \<Rightarrow> (SystemState \<times> Trove \<times> Queue) decoder" where
  "trove_decision calls borrower =
     dbind (system_state calls) (\<lambda>ss.
     dbind (decode_trove calls (ss_price ss) (ss_gas ss) borrower) (\<lambda>target.
     let queue = \<lparr>q_position = None, q_debt_ahead = None, q_redeemable_ahead = None,
           q_status = (if tv_status target \<noteq> 1 then ''NOT_ACTIVE'' else ''TRAVERSAL_LIMIT'')\<rparr>
     in dbind (if ss_size ss > QUEUE_LIMIT then dreturn (Inr queue) else queue_position calls ss borrower target queue) (\<lambda>q.
        dreturn (Inr (ss, target, q)))))"

definition verify_troves :: "json \<Rightarrow> TroveEvidence res" where
  "verify_troves capture =
     (case capture of
        JObj d \<Rightarrow>
          require (set (map fst d) = {''schema'', ''source'', ''borrower'', ''rpc_url'', ''chain'', ''block'', ''block_after'', ''calls''}) trove_invalid (
          require (jget d ''schema'' = JStr ''liqvera-mezo-trove-capture/v1'' \<and> jget d ''source'' = JStr ''mezo-troves:MUSD:testnet''
                   \<and> jget d ''rpc_url'' = JStr RPC_URL) trove_invalid (
          rbind (item (jget d ''chain'') ''result'') (\<lambda>chain.
          require (chain = JStr ''0x7b7b'') trove_invalid (
          rbind (trove_address (jget d ''borrower'')) (\<lambda>borrower.
          rbind (trove_header d) (\<lambda>(block, hash, timestamp).
          rbind (trove_reads d block) (\<lambda>calls.
          rbind (trove_decision calls borrower []) (\<lambda>((ss, target, q), used).
          require (set (map fst calls) = set used) trove_invalid (
          rbind (int_of_hex block) (\<lambda>number.
          Inr \<lparr>te_trove = target, te_borrower = (case jget d ''borrower'' of JStr b \<Rightarrow> b | _ \<Rightarrow> []), te_price = ss_price ss,
               te_mcr = ss_mcr ss, te_ccr = ss_ccr ss, te_tcr = ss_tcr ss, te_gas_compensation = ss_gas ss,
               te_sorted_troves_size = ss_size ss, te_block_number = int_str number, te_block_hash = hash,
               te_block_timestamp = timestamp, te_queue = q\<rparr>))))))))))
      | _ \<Rightarrow> Inl trove_invalid)"

definition verify_trove_capture :: "json \<Rightarrow> TroveEvidence res" where
  "verify_trove_capture capture = reraise dex_caught trove_invalid (verify_troves capture)"

subsection \<open>Capturing\<close>

text \<open>
  The node is two arguments: \<open>rpc\<close> as for the exchange and \<open>rpc_many\<close>, which answers a batch of
  reads at a block. The state of the capture: the reads made and the result of each key.
\<close>

type_synonym rpc_many = "nat \<Rightarrow> (string \<times> string) list \<Rightarrow> string \<Rightarrow> json res"

record Collected =
  co_calls :: "json list"
  co_results :: reads

fun missing_queries :: "reads \<Rightarrow> (string \<times> string) list \<Rightarrow> (string \<times> string) list \<Rightarrow> (string \<times> string) list" where
  "missing_queries results [] missing = missing"
| "missing_queries results (q # qs) missing =
     missing_queries results qs
       (if map_of results (lower (fst q), lower (snd q)) = None \<and> q \<notin> set missing then missing @ [q] else missing)"

fun record_responses :: "string \<Rightarrow> (string \<times> string) list \<Rightarrow> json list \<Rightarrow> Collected \<Rightarrow> Collected res" where
  "record_responses block ((to, data) # qs) (response # rs) c =
     (case response of
        JObj r \<Rightarrow>
          require (jget r ''jsonrpc'' = JStr ''2.0'' \<and> \<not> has_key ''error'' r \<and> has_key ''result'' r) trove_invalid (
          record_responses block qs rs
            (c\<lparr>co_results := AList.update (lower to, lower data) (jget r ''result'') (co_results c),
               co_calls := co_calls c @ [JObj [(''to'', JStr to), (''data'', JStr data), (''block'', JStr block), (''response'', response)]]\<rparr>))
      | _ \<Rightarrow> Inl trove_invalid)"
| "record_responses block qs rs c = Inr c"

definition collect :: "rpc_many \<Rightarrow> nat \<Rightarrow> string \<Rightarrow> (string \<times> string) list \<Rightarrow> Collected \<Rightarrow> Collected res" where
  "collect rpc_many i block queries c =
     (let missing = missing_queries (co_results c) queries [] in
      if missing = [] then Inr c
      else rbind (rpc_many i missing block) (\<lambda>responses.
        case responses of
          JList rs \<Rightarrow> require (length rs = length missing) trove_invalid (record_responses block missing rs c)
        | _ \<Rightarrow> Inl trove_invalid))"

definition collected_uint :: "Collected \<Rightarrow> string \<Rightarrow> string \<Rightarrow> int res" where
  "collected_uint c to data =
     (case map_of (co_results c) (lower to, lower data) of
        None \<Rightarrow> Inl KeyError
      | Some raw \<Rightarrow> rbind (abi_words raw 1) (\<lambda>ws. Inr (ws ! 0)))"

definition first_queries :: "(string \<times> string) list" where
  "first_queries = (PRICE_FEED, ''0x0fdb11cf'')
     # map (Pair TROVE_MANAGER) [''0x794e5724'', ''0x5733d58f'', ''0xa20baee6'', ''0x7af110ba'', ''0x49eefeee'', ''0x795d26c3'', ''0x887105d3'']
     @ map (Pair SORTED_TROVES) [''0xde8fa431'', ''0x4d622831'', ''0x1e223143'']"

definition owner_queries :: "int \<Rightarrow> (string \<times> string) list" where
  "owner_queries sz = (if sz \<le> QUEUE_LIMIT then map (\<lambda>i. (TROVE_MANAGER, ''0xd9a72444'' @ hex_width 64 i)) [0..sz - 1] else [])"

definition borrower_queries :: "string \<Rightarrow> string \<Rightarrow> (string \<times> string) list" where
  "borrower_queries arg price_arg = [(TROVE_MANAGER, ''0xb82f263d'' @ price_arg), (TROVE_MANAGER, ''0xb91af97c'' @ arg),
     (TROVE_MANAGER, ''0x21e37801'' @ arg), (TROVE_MANAGER, ''0xd293c710'' @ arg @ price_arg)]"

definition node_queries :: "string \<Rightarrow> string \<Rightarrow> (string \<times> string) list" where
  "node_queries price_arg owner =
     (let arg = address_word owner
      in [(SORTED_TROVES, ''0xb72703ac'' @ arg), (SORTED_TROVES, ''0x765e0159'' @ arg), (TROVE_MANAGER, ''0xb91af97c'' @ arg),
          (TROVE_MANAGER, ''0x21e37801'' @ arg), (TROVE_MANAGER, ''0xd293c710'' @ arg @ price_arg)])"

definition trove_calls :: "rpc_many \<Rightarrow> string \<Rightarrow> string \<Rightarrow> json list res" where
  "trove_calls rpc_many block borrower =
     rbind (collect rpc_many 0 block first_queries \<lparr>co_calls = [], co_results = []\<rparr>) (\<lambda>c1.
     rbind (collected_uint c1 PRICE_FEED ''0x0fdb11cf'') (\<lambda>oracle_price.
     rbind (collected_uint c1 SORTED_TROVES ''0xde8fa431'') (\<lambda>sz.
     rbind (if oracle_price > 0 then rbind (collected_uint c1 TROVE_MANAGER ''0x49eefeee'') (\<lambda>n. Inr (sz = n)) else Inr False) (\<lambda>ok.
     require ok trove_invalid (
     let price_arg = hex_width 64 oracle_price
     in rbind (collect rpc_many 1 block (owner_queries sz @ borrower_queries (address_word borrower) price_arg) c1) (\<lambda>c2.
        rbind (rmap (\<lambda>(to, data). rbind (collected_uint c2 to data) (\<lambda>value.
                 require (0 < value \<and> value < 2 ^ 160) trove_invalid (Inr (''0x'' @ hex_width 40 value)))) (owner_queries sz)) (\<lambda>owners.
        rbind (collect rpc_many 2 block (concat (map (node_queries price_arg) owners)) c2) (\<lambda>c3.
        Inr (co_calls c3)))))))))"

definition capture_trove :: "rpc \<Rightarrow> rpc_many \<Rightarrow> string \<Rightarrow> json res" where
  "capture_trove rpc rpc_many requested =
     rbind (trove_address (JStr requested)) (\<lambda>borrower.
     reraise source_caught (CodedValueError ''MEZO_TROVE_SOURCE_UNAVAILABLE'') (
       rbind (rbind (rpc 0 ''eth_blockNumber'' []) (\<lambda>r. item r ''result'')) (\<lambda>number.
       case number of
         JStr block \<Rightarrow>
           require (is_block_number block) trove_invalid (
           rbind (rpc 1 ''eth_chainId'' []) (\<lambda>chain.
           case chain of
             JObj cd \<Rightarrow>
               require (jget cd ''result'' = JStr ''0x7b7b'') trove_invalid (
               rbind (rpc 2 ''eth_getBlockByNumber'' [JStr block, JBool False]) (\<lambda>header.
               rbind (rbind (item header ''result'') (\<lambda>h. item h ''number'')) (\<lambda>n.
               require (n = JStr block) trove_invalid (
               rbind (trove_calls rpc_many block borrower) (\<lambda>calls.
               rbind (rpc 3 ''eth_getBlockByNumber'' [JStr block, JBool False]) (\<lambda>after.
               let capture = JObj [(''schema'', JStr ''liqvera-mezo-trove-capture/v1''), (''source'', JStr ''mezo-troves:MUSD:testnet''),
                     (''borrower'', JStr requested), (''rpc_url'', JStr RPC_URL), (''chain'', chain), (''block'', header),
                     (''block_after'', after), (''calls'', JList calls)]
               in rbind (verify_trove_capture capture) (\<lambda>_. Inr capture)))))))
           | _ \<Rightarrow> Inl AttributeError))
       | _ \<Rightarrow> Inl trove_invalid)))"

subsection \<open>Decoders do not depend on the used reads\<close>

definition dvalue :: "'a decoder \<Rightarrow> 'a res" where
  "dvalue m = rbind (m []) (\<lambda>(x, u). Inr x)"

definition stable :: "'a decoder \<Rightarrow> bool" where
  "stable m \<longleftrightarrow> (\<forall>u. rbind (m u) (\<lambda>(x, u'). Inr x) = dvalue m)"

named_theorems stable_intros

lemma stable_value: "stable m \<Longrightarrow> m u = Inr (x, u') \<Longrightarrow> dvalue m = Inr x"
  unfolding stable_def by (metis (mono_tags, lifting) case_prod_conv rbind_simps(2))

lemma stable_dreturn [stable_intros]: "stable (dreturn r)"
  by (cases r) (simp_all add: stable_def dvalue_def dreturn_def)

lemma stable_dcheck [stable_intros]: "(b \<Longrightarrow> stable m) \<Longrightarrow> stable (dcheck b m)"
  by (cases b) (simp_all add: stable_def dvalue_def dcheck_def)

lemma stable_dbind [stable_intros]:
  assumes "stable m" and "\<And>x. stable (f x)"
  shows "stable (dbind m f)"
proof -
  have "rbind (dbind m f u) (\<lambda>(x, u'). Inr x) = rbind (dvalue m) (\<lambda>x. dvalue (f x))" for u
  proof (cases "m u")
    case (Inl e)
    have "dvalue m = rbind (m u) (\<lambda>(x, u'). Inr x)" using assms(1) by (simp add: stable_def)
    then have "dvalue m = Inl e" unfolding Inl by simp
    then show ?thesis by (simp add: dbind_def Inl)
  next
    case (Inr p)
    obtain x u' where p: "p = (x, u')" by (cases p)
    have "dvalue m = Inr x" by (rule stable_value [OF assms(1) Inr [unfolded p]])
    moreover have "rbind (f x u') (\<lambda>(x, u'). Inr x) = dvalue (f x)" using assms(2) by (simp add: stable_def)
    ultimately show ?thesis using Inr p by (simp add: dbind_def)
  qed
  then show ?thesis by (simp add: stable_def dvalue_def)
qed

lemma stable_Let [stable_intros]: "stable (f x) \<Longrightarrow> stable (let y = x in f y)"
  by simp

lemma stable_read_words [stable_intros]: "stable (read_words calls to sel args n)"
  by (auto simp: stable_def dvalue_def read_words_def Let_def rbind_def split: option.split sum.split)

lemma stable_read_uint [stable_intros]: "stable (read_uint calls to sel args)"
  unfolding read_uint_def by (intro stable_intros)

lemma stable_read_address [stable_intros]: "stable (read_address calls to sel args)"
  unfolding read_address_def by (intro stable_intros)

lemma stable_decode_trove [stable_intros]: "stable (decode_trove calls p g a)"
  unfolding decode_trove_def by (intro stable_intros)

subsection \<open>The sorted list as a sequence of troves\<close>

definition before_of :: "reads \<Rightarrow> string \<Rightarrow> string res" where
  "before_of calls a = dvalue (read_address calls SORTED_TROVES ''0x765e0159'' (address_word a))"

definition after_of :: "reads \<Rightarrow> string \<Rightarrow> string res" where
  "after_of calls a = dvalue (read_address calls SORTED_TROVES ''0xb72703ac'' (address_word a))"

definition trove_of :: "reads \<Rightarrow> int \<Rightarrow> int \<Rightarrow> string \<Rightarrow> Trove res" where
  "trove_of calls p g a = dvalue (decode_trove calls p g a)"

fun linked :: "reads \<Rightarrow> int \<Rightarrow> int \<Rightarrow> string \<Rightarrow> string \<Rightarrow> (string \<times> Trove) list \<Rightarrow> string \<Rightarrow> bool" where
  "linked calls p g prev cur [] end_node \<longleftrightarrow> cur = ZERO \<and> end_node = prev"
| "linked calls p g prev cur ((a, t) # ns) end_node \<longleftrightarrow>
     cur = a \<and> a \<noteq> ZERO \<and> before_of calls a = Inr prev \<and> trove_of calls p g a = Inr t \<and> tv_status t = 1
     \<and> (\<exists>b. after_of calls a = Inr b \<and> linked calls p g a b ns end_node)"

definition redeemable :: "int \<Rightarrow> (string \<times> Trove) list \<Rightarrow> (string \<times> Trove) list" where
  "redeemable mcr ns = filter (\<lambda>n. mcr \<le> tv_icr (snd n)) ns"

definition ahead :: "int \<Rightarrow> string \<Rightarrow> (string \<times> Trove) list \<Rightarrow> (string \<times> Trove) list" where
  "ahead mcr b ns = takeWhile (\<lambda>n. fst n \<noteq> b) (redeemable mcr ns)"

definition debt_sum :: "(string \<times> Trove) list \<Rightarrow> int" where
  "debt_sum ns = sum_list (map (\<lambda>n. tv_debt (snd n)) ns)"

text \<open>The place of a borrower, with what lies ahead of the part that is walked.\<close>

definition queue_at :: "int \<Rightarrow> int \<Rightarrow> string \<Rightarrow> int \<Rightarrow> int \<Rightarrow> int \<Rightarrow> (string \<times> Trove) list \<Rightarrow> Queue \<Rightarrow> Queue" where
  "queue_at mcr gas b rank debt net ns q =
     (if b \<in> fst ` set (redeemable mcr ns)
      then \<lparr>q_position = Some (rank + int (length (ahead mcr b ns)) + 1), q_debt_ahead = Some (debt + debt_sum (ahead mcr b ns)),
            q_redeemable_ahead = Some (net + debt_sum (ahead mcr b ns) - gas * int (length (ahead mcr b ns))), q_status = ''PROVEN''\<rparr>
      else q)"

lemma dbind_Inr: "dbind m f u = Inr y \<Longrightarrow> \<exists>x u'. m u = Inr (x, u') \<and> f x u' = Inr y"
  by (auto simp: dbind_def rbind_eq_Inr)

lemma dcheck_Inr: "dcheck b m u = Inr y \<longleftrightarrow> b \<and> m u = Inr y"
  by (simp add: dcheck_def require_eq_Inr)

lemma dreturn_Inr: "dreturn (Inr x) u = Inr y \<longleftrightarrow> y = (x, u)"
  by (auto simp: dreturn_def)

lemma walk_node_Inr:
  assumes "walk_node calls p g mcr b w u = Inr (w', u')"
  shows "\<exists>t after. before_of calls (w_current w) = Inr (w_previous w) \<and> trove_of calls p g (w_current w) = Inr t \<and> tv_status t = 1
    \<and> after_of calls (w_current w) = Inr after
    \<and> w' = (if mcr \<le> tv_icr t
        then \<lparr>w_seen = w_current w # w_seen w, w_previous = w_current w, w_current = after, w_rank = w_rank w + 1,
              w_debt_ahead = w_debt_ahead w + tv_debt t, w_net_ahead = w_net_ahead w + (tv_debt t - g),
              w_queue = (if w_current w = b then \<lparr>q_position = Some (w_rank w + 1), q_debt_ahead = Some (w_debt_ahead w),
                         q_redeemable_ahead = Some (w_net_ahead w), q_status = ''PROVEN''\<rparr> else w_queue w)\<rparr>
        else w\<lparr>w_seen := w_current w # w_seen w, w_previous := w_current w, w_current := after\<rparr>)"
proof -
  obtain b0 u1 t u2 a u3 where s: "read_address calls SORTED_TROVES ''0x765e0159'' (address_word (w_current w)) u = Inr (b0, u1)"
      "b0 = w_previous w" "decode_trove calls p g (w_current w) u1 = Inr (t, u2)" "tv_status t = 1"
      "read_address calls SORTED_TROVES ''0xb72703ac'' (address_word (w_current w)) u2 = Inr (a, u3)"
      "w' = \<lparr>w_seen = w_current w # w_seen w, w_previous = w_current w, w_current = a,
           w_rank = (if tv_icr t \<ge> mcr then w_rank w + 1 else w_rank w),
           w_debt_ahead = (if tv_icr t \<ge> mcr then w_debt_ahead w + tv_debt t else w_debt_ahead w),
           w_net_ahead = (if tv_icr t \<ge> mcr then w_net_ahead w + (tv_debt t - g) else w_net_ahead w),
           w_queue = (if tv_icr t \<ge> mcr \<and> w_current w = b
                   then \<lparr>q_position = Some (if tv_icr t \<ge> mcr then w_rank w + 1 else w_rank w), q_debt_ahead = Some (w_debt_ahead w),
                         q_redeemable_ahead = Some (w_net_ahead w), q_status = ''PROVEN''\<rparr>
                   else w_queue w)\<rparr>"
    using assms unfolding walk_node_def Let_def by (fastforce dest!: dbind_Inr simp: dcheck_Inr dreturn_Inr)
  have "before_of calls (w_current w) = Inr (w_previous w)" "trove_of calls p g (w_current w) = Inr t" "after_of calls (w_current w) = Inr a"
    using stable_value [OF stable_read_address s(1)] stable_value [OF stable_decode_trove s(3)] stable_value [OF stable_read_address s(5)] s(2)
    by (simp_all add: before_of_def after_of_def trove_of_def)
  then show ?thesis using s(4,6) by (intro exI [of _ t] exI [of _ a]) auto
qed

lemma queue_at_skip:
  "\<not> mcr \<le> tv_icr t \<Longrightarrow> queue_at mcr gas b r d n ((a, t) # ns) q = queue_at mcr gas b r d n ns q"
  by (simp add: queue_at_def redeemable_def ahead_def)

lemma queue_at_found:
  "mcr \<le> tv_icr t \<Longrightarrow> queue_at mcr gas b r d n ((b, t) # ns) q
     = \<lparr>q_position = Some (r + 1), q_debt_ahead = Some d, q_redeemable_ahead = Some n, q_status = ''PROVEN''\<rparr>"
  by (simp add: queue_at_def redeemable_def ahead_def debt_sum_def)

lemma queue_at_pass:
  "mcr \<le> tv_icr t \<Longrightarrow> a \<noteq> b \<Longrightarrow> queue_at mcr gas b r d n ((a, t) # ns) q = queue_at mcr gas b (r + 1) (d + tv_debt t) (n + (tv_debt t - gas)) ns q"
  by (auto simp: queue_at_def redeemable_def ahead_def debt_sum_def algebra_simps)

lemma queue_at_absent: "b \<notin> fst ` set ns \<Longrightarrow> queue_at mcr gas b r d n ns q = q"
  by (auto simp: queue_at_def redeemable_def)

lemma walk_linked:
  assumes "walk calls p g mcr b owners w u = Inr (w', u')"
  shows "\<exists>ns. linked calls p g (w_previous w) (w_current w) ns (w_previous w') \<and> w_seen w' = rev (map fst ns) @ w_seen w
    \<and> distinct (map fst ns) \<and> fst ` set ns \<inter> set (w_seen w) = {} \<and> fst ` set ns \<subseteq> set owners
    \<and> w_queue w' = queue_at mcr g b (w_rank w) (w_debt_ahead w) (w_net_ahead w) ns (w_queue w)"
  using assms
proof (induction calls p g mcr b owners w u rule: walk.induct)
  case (1 calls p g mcr b owners w u)
  show ?case
  proof (cases "w_current w = ZERO")
    case True
    then have "w' = w" using 1(2) by (simp add: walk.simps)
    then show ?thesis using True by (intro exI [of _ "[]"]) (simp add: queue_at_absent)
  next
    case False
    have own: "w_current w \<in> set owners" "w_current w \<notin> set (w_seen w)"
      using 1(2) False by (subst (asm) walk.simps, auto split: if_splits)+
    obtain w1 u1 where n: "walk_node calls p g mcr b w u = Inr (w1, u1)"
        "walk calls p g mcr b owners (w1\<lparr>w_seen := w_current w # w_seen w\<rparr>) u1 = Inr (w', u')"
      using 1(2) False own by (subst (asm) walk.simps) (auto split: sum.splits)
    obtain t a where t: "before_of calls (w_current w) = Inr (w_previous w)" "trove_of calls p g (w_current w) = Inr t" "tv_status t = 1"
        "after_of calls (w_current w) = Inr a" and w1: "w_seen w1 = w_current w # w_seen w" "w_previous w1 = w_current w" "w_current w1 = a"
        "w_rank w1 = (if mcr \<le> tv_icr t then w_rank w + 1 else w_rank w)"
        "w_debt_ahead w1 = (if mcr \<le> tv_icr t then w_debt_ahead w + tv_debt t else w_debt_ahead w)"
        "w_net_ahead w1 = (if mcr \<le> tv_icr t then w_net_ahead w + (tv_debt t - g) else w_net_ahead w)"
        "w_queue w1 = (if mcr \<le> tv_icr t \<and> w_current w = b then \<lparr>q_position = Some (w_rank w + 1), q_debt_ahead = Some (w_debt_ahead w),
                         q_redeemable_ahead = Some (w_net_ahead w), q_status = ''PROVEN''\<rparr> else w_queue w)"
    proof -
      obtain t a where k: "before_of calls (w_current w) = Inr (w_previous w)" "trove_of calls p g (w_current w) = Inr t" "tv_status t = 1"
        "after_of calls (w_current w) = Inr a" and w1: "w1 = (if mcr \<le> tv_icr t
        then \<lparr>w_seen = w_current w # w_seen w, w_previous = w_current w, w_current = a, w_rank = w_rank w + 1,
              w_debt_ahead = w_debt_ahead w + tv_debt t, w_net_ahead = w_net_ahead w + (tv_debt t - g),
              w_queue = (if w_current w = b then \<lparr>q_position = Some (w_rank w + 1), q_debt_ahead = Some (w_debt_ahead w),
                         q_redeemable_ahead = Some (w_net_ahead w), q_status = ''PROVEN''\<rparr> else w_queue w)\<rparr>
        else w\<lparr>w_seen := w_current w # w_seen w, w_previous := w_current w, w_current := a\<rparr>)"
        using walk_node_Inr [OF n(1)] by (elim exE conjE)
      show thesis by (rule that [OF k]) (simp_all add: w1)
    qed
    obtain ns where ns: "linked calls p g (w_current w) a ns (w_previous w')" "w_seen w' = rev (map fst ns) @ (w_current w # w_seen w)"
        "distinct (map fst ns)" "fst ` set ns \<inter> set (w_current w # w_seen w) = {}" "fst ` set ns \<subseteq> set owners"
        "w_queue w' = queue_at mcr g b (w_rank w1) (w_debt_ahead w1) (w_net_ahead w1) ns (w_queue w1)"
      using 1(1) [OF False _ n(1) refl] own n(2) w1 by auto
    have "w_queue w' = queue_at mcr g b (w_rank w) (w_debt_ahead w) (w_net_ahead w) ((w_current w, t) # ns) (w_queue w)"
    proof (cases "mcr \<le> tv_icr t")
      case True
      show ?thesis
      proof (cases "w_current w = b")
        case b: True
        then have "b \<notin> fst ` set ns" using ns(4) by auto
        then show ?thesis using ns(6) w1(7) True b queue_at_found queue_at_absent by simp
      next
        case nb: False
        then show ?thesis using ns(6) w1 True queue_at_pass [OF True nb] by simp
      qed
    next
      case skip: False
      then show ?thesis using ns(6) w1 queue_at_skip [OF skip] by simp
    qed
    then show ?thesis using ns t False own by (intro exI [of _ "(w_current w, t) # ns"]) auto
  qed
qed

subsection \<open>What verification establishes\<close>

lemma dmap_values:
  assumes "\<And>x. stable (f x)" and "dmap f xs u = Inr (ys, u')"
  shows "list_all2 (\<lambda>x y. dvalue (f x) = Inr y) xs ys"
  using assms(2)
proof (induction xs arbitrary: ys u u')
  case (Cons x xs)
  obtain y u1 zs u2 where s: "f x u = Inr (y, u1)" "dmap f xs u1 = Inr (zs, u2)" "ys = y # zs"
    using Cons.prems by (auto dest!: dbind_Inr simp: dreturn_Inr)
  then show ?case using Cons.IH stable_value [OF assms(1)] by auto
qed (simp add: dreturn_Inr)

definition queue_spec :: "int \<Rightarrow> int \<Rightarrow> int \<Rightarrow> string \<Rightarrow> Trove \<Rightarrow> (string \<times> Trove) list \<Rightarrow> Queue" where
  "queue_spec tcr mcr gas b t ns =
     (if tcr < mcr then \<lparr>q_position = None, q_debt_ahead = None, q_redeemable_ahead = None, q_status = ''SYSTEM_PAUSED''\<rparr>
      else if tv_status t \<noteq> 1 then \<lparr>q_position = None, q_debt_ahead = None, q_redeemable_ahead = None, q_status = ''NOT_ACTIVE''\<rparr>
      else if tv_icr t < mcr then \<lparr>q_position = None, q_debt_ahead = None, q_redeemable_ahead = None, q_status = ''BELOW_MCR''\<rparr>
      else let front = ahead mcr b ns in
        \<lparr>q_position = Some (1 + int (length front)), q_debt_ahead = Some (debt_sum front),
         q_redeemable_ahead = Some (debt_sum front - gas * int (length front)), q_status = ''PROVEN''\<rparr>)"

lemma linked_troves: "linked calls p g prev cur ns e \<Longrightarrow> (a, t) \<in> set ns \<Longrightarrow> trove_of calls p g a = Inr t \<and> tv_status t = 1"
  by (induction calls p g prev cur ns e rule: linked.induct) auto

lemma redeemable_iff:
  assumes "linked calls p g prev cur ns e" and "trove_of calls p g b = Inr t"
  shows "b \<in> fst ` set (redeemable mcr ns) \<longleftrightarrow> b \<in> fst ` set ns \<and> mcr \<le> tv_icr t"
proof
  assume "b \<in> fst ` set (redeemable mcr ns)"
  then obtain t' where t': "(b, t') \<in> set ns" "mcr \<le> tv_icr t'" by (auto simp: redeemable_def)
  then have "t' = t" using linked_troves [OF assms(1) t'(1)] assms(2) by simp
  then show "b \<in> fst ` set ns \<and> mcr \<le> tv_icr t" using t' by force
next
  assume b: "b \<in> fst ` set ns \<and> mcr \<le> tv_icr t"
  then obtain t' where t': "(b, t') \<in> set ns" by auto
  then have "t' = t" using linked_troves [OF assms(1) t'] assms(2) by simp
  then show "b \<in> fst ` set (redeemable mcr ns)" using t' b by (force simp: redeemable_def)
qed

lemma queue_position_steps:
  assumes "queue_position calls ss b t q0 u = Inr (q, u')"
  shows "\<exists>owners u1 w u2. read_owners calls (ss_size ss) u = Inr (owners, u1) \<and> distinct owners \<and> (b \<in> set owners) = (tv_status t = 1)
    \<and> walk calls (ss_price ss) (ss_gas ss) (ss_mcr ss) b owners (start_walk (ss_last ss) q0) u1 = Inr (w, u2)
    \<and> set (w_seen w) = set owners \<and> w_previous w = ss_first ss
    \<and> q = (if ss_tcr ss < ss_mcr ss then \<lparr>q_position = None, q_debt_ahead = None, q_redeemable_ahead = None, q_status = ''SYSTEM_PAUSED''\<rparr>
           else if tv_status t = 1 \<and> tv_icr t < ss_mcr ss then (w_queue w)\<lparr>q_status := ''BELOW_MCR''\<rparr> else w_queue w)"
proof -
  obtain owners u1 where o: "read_owners calls (ss_size ss) u = Inr (owners, u1)" and
    r: "dcheck (distinct owners \<and> ZERO \<notin> set owners) (
     dcheck ((b \<in> set owners) = (tv_status t = 1)) (
     dbind (walk calls (ss_price ss) (ss_gas ss) (ss_mcr ss) b owners (start_walk (ss_last ss) q0)) (\<lambda>w.
     dcheck (set (w_seen w) = set owners \<and> w_previous w = ss_first ss) (
     let q = (if tv_status t = 1 \<and> tv_icr t < ss_mcr ss then (w_queue w)\<lparr>q_status := ''BELOW_MCR''\<rparr> else w_queue w)
     in dreturn (Inr (if ss_tcr ss < ss_mcr ss
          then \<lparr>q_position = None, q_debt_ahead = None, q_redeemable_ahead = None, q_status = ''SYSTEM_PAUSED''\<rparr> else q)))))) u1 = Inr (q, u')"
    using dbind_Inr [OF assms [unfolded queue_position_def]] by (elim exE conjE)
  obtain w u2 where w: "walk calls (ss_price ss) (ss_gas ss) (ss_mcr ss) b owners (start_walk (ss_last ss) q0) u1 = Inr (w, u2)"
    and r2: "set (w_seen w) = set owners" "w_previous w = ss_first ss"
     "q = (if ss_tcr ss < ss_mcr ss then \<lparr>q_position = None, q_debt_ahead = None, q_redeemable_ahead = None, q_status = ''SYSTEM_PAUSED''\<rparr>
           else if tv_status t = 1 \<and> tv_icr t < ss_mcr ss then (w_queue w)\<lparr>q_status := ''BELOW_MCR''\<rparr> else w_queue w)"
    using r unfolding dcheck_Inr by (elim conjE, drule_tac dbind_Inr) (simp add: dcheck_Inr dreturn_Inr Let_def, blast)
  show ?thesis using o w r2 r [unfolded dcheck_Inr] by (intro exI conjI) (assumption | simp)+
qed

lemma read_owners_length: "read_owners calls n u = Inr (owners, u') \<Longrightarrow> 0 \<le> n \<Longrightarrow> int (length owners) = n"
  using dmap_values [of "\<lambda>i. read_address calls TROVE_MANAGER ''0xd9a72444'' (hex_width 64 i)", OF stable_read_address]
  by (fastforce simp: read_owners_def dest: list_all2_lengthD)

lemma queue_position_spec:
  assumes "queue_position calls ss b t q0 u = Inr (q, u')" and "trove_of calls (ss_price ss) (ss_gas ss) b = Inr t" and "0 \<le> ss_size ss"
    and q0: "q0 = \<lparr>q_position = None, q_debt_ahead = None, q_redeemable_ahead = None,
        q_status = (if tv_status t \<noteq> 1 then ''NOT_ACTIVE'' else ''TRAVERSAL_LIMIT'')\<rparr>"
  shows "\<exists>ns. linked calls (ss_price ss) (ss_gas ss) ZERO (ss_last ss) ns (ss_first ss) \<and> distinct (map fst ns) \<and> int (length ns) = ss_size ss
    \<and> (b \<in> fst ` set ns \<longleftrightarrow> tv_status t = 1) \<and> q = queue_spec (ss_tcr ss) (ss_mcr ss) (ss_gas ss) b t ns"
proof -
  obtain owners u1 w u2 where o: "read_owners calls (ss_size ss) u = Inr (owners, u1)" "distinct owners" "(b \<in> set owners) = (tv_status t = 1)"
    and w: "walk calls (ss_price ss) (ss_gas ss) (ss_mcr ss) b owners (start_walk (ss_last ss) q0) u1 = Inr (w, u2)"
      "set (w_seen w) = set owners" "w_previous w = ss_first ss"
    and q: "q = (if ss_tcr ss < ss_mcr ss then \<lparr>q_position = None, q_debt_ahead = None, q_redeemable_ahead = None, q_status = ''SYSTEM_PAUSED''\<rparr>
           else if tv_status t = 1 \<and> tv_icr t < ss_mcr ss then (w_queue w)\<lparr>q_status := ''BELOW_MCR''\<rparr> else w_queue w)"
    using queue_position_steps [OF assms(1)] by (elim exE conjE)
  obtain ns where ns: "linked calls (ss_price ss) (ss_gas ss) ZERO (ss_last ss) ns (ss_first ss)" "w_seen w = rev (map fst ns)"
      "distinct (map fst ns)" "w_queue w = queue_at (ss_mcr ss) (ss_gas ss) b 0 0 0 ns q0"
    using walk_linked [OF w(1)] w(3) by (auto simp: start_walk_def)
  have own: "fst ` set ns = set owners" using ns(2) w(2) by simp
  then have len: "length ns = length owners" using ns(3) o(2) by (metis distinct_card length_map list.set_map)
  have act: "b \<in> fst ` set ns \<longleftrightarrow> tv_status t = 1" using own o(3) by simp
  have red: "b \<in> fst ` set (redeemable (ss_mcr ss) ns) \<longleftrightarrow> tv_status t = 1 \<and> ss_mcr ss \<le> tv_icr t"
    using redeemable_iff [OF ns(1) assms(2)] act by simp
  have "q = queue_spec (ss_tcr ss) (ss_mcr ss) (ss_gas ss) b t ns"
  proof (cases "tv_status t = 1 \<and> ss_mcr ss \<le> tv_icr t")
    case True
    then show ?thesis using q ns(4) red by (simp add: queue_spec_def queue_at_def Let_def)
  next
    case False
    then have "w_queue w = q0" using ns(4) red by (auto simp: queue_at_def)
    then show ?thesis using q False by (auto simp: queue_spec_def q0)
  qed
  moreover have "int (length ns) = ss_size ss" using len read_owners_length [OF o(1) assms(3)] by simp
  ultimately show ?thesis using ns(1,3) act by (intro exI [of _ ns] conjI)
qed

lemma verify_troves_steps:
  assumes "verify_troves capture = Inr r"
  shows "\<exists>d b block calls ss u. capture = JObj d \<and> jget d ''borrower'' = JStr (te_borrower r) \<and> b = lower (te_borrower r)
    \<and> trove_header d = Inr (block, te_block_hash r, te_block_timestamp r) \<and> trove_reads d block = Inr calls
    \<and> trove_decision calls b [] = Inr ((ss, te_trove r, te_queue r), u) \<and> set (map fst calls) = set u
    \<and> te_price r = ss_price ss \<and> te_mcr r = ss_mcr ss \<and> te_tcr r = ss_tcr ss \<and> te_gas_compensation r = ss_gas ss
    \<and> te_sorted_troves_size r = ss_size ss"
proof -
  obtain d where d: "capture = JObj d" using assms by (cases capture) (auto simp: verify_troves_def)
  obtain b hdr calls res number where s: "trove_address (jget d ''borrower'') = Inr b" "trove_header d = Inr hdr"
      "trove_reads d (fst hdr) = Inr calls" "trove_decision calls b [] = Inr res" "set (map fst calls) = set (snd res)"
    and r: "(Inr \<lparr>te_trove = fst (snd (fst res)), te_borrower = (case jget d ''borrower'' of JStr b \<Rightarrow> b | _ \<Rightarrow> []), te_price = ss_price (fst (fst res)),
               te_mcr = ss_mcr (fst (fst res)), te_ccr = ss_ccr (fst (fst res)), te_tcr = ss_tcr (fst (fst res)),
               te_gas_compensation = ss_gas (fst (fst res)), te_sorted_troves_size = ss_size (fst (fst res)),
               te_block_number = int_str number, te_block_hash = fst (snd hdr), te_block_timestamp = snd (snd hdr),
               te_queue = snd (snd (fst res))\<rparr> :: TroveEvidence res) = Inr r"
  proof -
    show thesis
      using assms [unfolded verify_troves_def d json.case case_prod_beta] by (elim rbind_InrE require_InrE) (rule that, assumption+)
  qed
  obtain t where t: "jget d ''borrower'' = JStr t" "b = lower t"
    using s(1) unfolding trove_address_def case_json_Inr by (elim exE conjE require_InrE) (simp add: eq_commute)
  show ?thesis
    by (rule exI [of _ d], rule exI [of _ b], rule exI [of _ "fst hdr"], rule exI [of _ calls], rule exI [of _ "fst (fst res)"],
        rule exI [of _ "snd res"]) (use s d t r [THEN sum.inject(2) [THEN iffD1], symmetric] in simp)
qed

lemma read_uint_nonneg: "read_uint calls to sel args u = Inr (v, u') \<Longrightarrow> 0 \<le> v"
  unfolding read_uint_def
  by (drule dbind_Inr) (auto simp: dreturn_Inr read_words_def Let_def rbind_eq_Inr list_all_length word_range_def
        split: option.splits dest!: abi_words_range)

lemma trove_decision_steps:
  assumes "trove_decision calls b [] = Inr ((ss, t, q), u)"
  shows "0 \<le> ss_size ss \<and> trove_of calls (ss_price ss) (ss_gas ss) b = Inr t
    \<and> (\<exists>u1 u2. (if ss_size ss > QUEUE_LIMIT then dreturn (Inr \<lparr>q_position = None, q_debt_ahead = None, q_redeemable_ahead = None,
           q_status = (if tv_status t \<noteq> 1 then ''NOT_ACTIVE'' else ''TRAVERSAL_LIMIT'')\<rparr>)
        else queue_position calls ss b t \<lparr>q_position = None, q_debt_ahead = None, q_redeemable_ahead = None,
           q_status = (if tv_status t \<noteq> 1 then ''NOT_ACTIVE'' else ''TRAVERSAL_LIMIT'')\<rparr>) u1 = Inr (q, u2))"
proof -
  obtain ss' u1 where s1: "system_state calls [] = Inr (ss', u1)" and k: "dbind (decode_trove calls (ss_price ss') (ss_gas ss') b) (\<lambda>target.
     let queue = \<lparr>q_position = None, q_debt_ahead = None, q_redeemable_ahead = None,
           q_status = (if tv_status target \<noteq> 1 then ''NOT_ACTIVE'' else ''TRAVERSAL_LIMIT'')\<rparr>
     in dbind (if ss_size ss' > QUEUE_LIMIT then dreturn (Inr queue) else queue_position calls ss' b target queue) (\<lambda>q.
        dreturn (Inr (ss', target, q)))) u1 = Inr ((ss, t, q), u)"
    using dbind_Inr [OF assms [unfolded trove_decision_def]] by (elim exE conjE)
  obtain t' u2 where t: "decode_trove calls (ss_price ss') (ss_gas ss') b u1 = Inr (t', u2)" and k2: "dbind (if ss_size ss' > QUEUE_LIMIT
       then dreturn (Inr \<lparr>q_position = None, q_debt_ahead = None, q_redeemable_ahead = None,
           q_status = (if tv_status t' \<noteq> 1 then ''NOT_ACTIVE'' else ''TRAVERSAL_LIMIT'')\<rparr>)
       else queue_position calls ss' b t' \<lparr>q_position = None, q_debt_ahead = None, q_redeemable_ahead = None,
           q_status = (if tv_status t' \<noteq> 1 then ''NOT_ACTIVE'' else ''TRAVERSAL_LIMIT'')\<rparr>) (\<lambda>q.
        dreturn (Inr (ss', t', q))) u2 = Inr ((ss, t, q), u)"
    using dbind_Inr [OF k [unfolded Let_def]] by (elim exE conjE)
  have eq: "ss' = ss" "t' = t" using dbind_Inr [OF k2] by (auto simp: dreturn_Inr)
  have "0 \<le> ss_size ss'"
    using s1 unfolding system_state_def
    by (auto dest!: dbind_Inr simp: dcheck_Inr dreturn_Inr) (rule read_uint_nonneg)
  moreover have "trove_of calls (ss_price ss') (ss_gas ss') b = Inr t'"
    unfolding trove_of_def by (rule stable_value [OF stable_decode_trove t])
  moreover obtain q' u3 where "(if ss_size ss' > QUEUE_LIMIT
       then dreturn (Inr \<lparr>q_position = None, q_debt_ahead = None, q_redeemable_ahead = None,
           q_status = (if tv_status t' \<noteq> 1 then ''NOT_ACTIVE'' else ''TRAVERSAL_LIMIT'')\<rparr>)
       else queue_position calls ss' b t' \<lparr>q_position = None, q_debt_ahead = None, q_redeemable_ahead = None,
           q_status = (if tv_status t' \<noteq> 1 then ''NOT_ACTIVE'' else ''TRAVERSAL_LIMIT'')\<rparr>) u2 = Inr (q', u3)" "q' = q"
    using dbind_Inr [OF k2] by (elim exE conjE) (simp add: dreturn_Inr)
  ultimately show ?thesis unfolding eq by (intro conjI exI) simp_all
qed

text \<open>
  C28. The redemption queue. When a trove capture verifies and the list has at most 500 troves, its
  reads describe a doubly linked list of distinct active troves from the last to the first node,
  as long as the contract says, with the borrower on it exactly when its trove is active; and
  the queue reported for the borrower is the one of that list: paused when the system is below
  the minimum ratio, none for an inactive or undercollateralised trove, and otherwise one more
  than the number of redeemable troves before it, with the sum of their debts and the part
  of it that can be redeemed.
\<close>

theorem redemption_queue_correct:
  assumes "verify_trove_capture capture = Inr r" and "te_sorted_troves_size r \<le> 500"
  shows "\<exists>d block calls first last_node ns. capture = JObj d \<and> trove_reads d block = Inr calls
    \<and> linked calls (te_price r) (te_gas_compensation r) ZERO last_node ns first \<and> distinct (map fst ns)
    \<and> int (length ns) = te_sorted_troves_size r \<and> (lower (te_borrower r) \<in> fst ` set ns \<longleftrightarrow> tv_status (te_trove r) = 1)
    \<and> te_queue r = queue_spec (te_tcr r) (te_mcr r) (te_gas_compensation r) (lower (te_borrower r)) (te_trove r) ns"
proof -
  have "verify_troves capture = Inr r" using assms(1) by (simp add: verify_trove_capture_def)
  then obtain d block calls ss u where d: "capture = JObj d" "trove_reads d block = Inr calls"
      "trove_decision calls (lower (te_borrower r)) [] = Inr ((ss, te_trove r, te_queue r), u)"
    and r: "te_price r = ss_price ss" "te_mcr r = ss_mcr ss" "te_tcr r = ss_tcr ss" "te_gas_compensation r = ss_gas ss"
      "te_sorted_troves_size r = ss_size ss"
    using verify_troves_steps by blast
  have "\<not> ss_size ss > QUEUE_LIMIT" using assms(2) r(5) by (simp add: QUEUE_LIMIT_def)
  then obtain u1 u2 where p: "0 \<le> ss_size ss" "trove_of calls (ss_price ss) (ss_gas ss) (lower (te_borrower r)) = Inr (te_trove r)"
     "queue_position calls ss (lower (te_borrower r)) (te_trove r) \<lparr>q_position = None, q_debt_ahead = None, q_redeemable_ahead = None,
           q_status = (if tv_status (te_trove r) \<noteq> 1 then ''NOT_ACTIVE'' else ''TRAVERSAL_LIMIT'')\<rparr> u1 = Inr (te_queue r, u2)"
    using trove_decision_steps [OF d(3)] by (elim conjE exE) (simp only: if_False)
  obtain ns where "linked calls (ss_price ss) (ss_gas ss) ZERO (ss_last ss) ns (ss_first ss)" "distinct (map fst ns)" "int (length ns) = ss_size ss"
    "lower (te_borrower r) \<in> fst ` set ns \<longleftrightarrow> tv_status (te_trove r) = 1"
    "te_queue r = queue_spec (ss_tcr ss) (ss_mcr ss) (ss_gas ss) (lower (te_borrower r)) (te_trove r) ns"
    using queue_position_spec [OF p(3,2,1) refl] by (elim exE conjE)
  then show ?thesis unfolding r using d(1,2) by (intro exI conjI)
qed

subsection \<open>Encoded reads\<close>

text \<open>
  Reads as a node answers them: the target, the selector, the argument words and the answer words.
  Every list of permitted reads with distinct selectors is accepted, and its decoding returns the
  words that were encoded.
\<close>

type_synonym query = "string \<times> string \<times> int list \<times> int list"

definition word_text :: "int list \<Rightarrow> string" where
  "word_text ws = concat (map (hex_width 64) ws)"

definition encoded_call :: "string \<Rightarrow> query \<Rightarrow> json" where
  "encoded_call block = (\<lambda>(to, sel, args, ws). JObj [(''to'', JStr to), (''data'', JStr (sel @ word_text args)), (''block'', JStr block),
     (''response'', JObj [(''jsonrpc'', JStr ''2.0''), (''result'', JStr (encode_words ws))])])"

definition table_entry :: "query \<Rightarrow> read_key \<times> json" where
  "table_entry = (\<lambda>(to, sel, args, ws). ((lower to, sel @ word_text args), JStr (encode_words ws)))"

definition selector_ok :: "string \<Rightarrow> bool" where
  "selector_ok sel \<longleftrightarrow> length sel = 10 \<and> take 2 sel = ''0x'' \<and> list_all is_hex_lower (drop 2 sel)"

definition query_ok :: "query \<Rightarrow> bool" where
  "query_ok = (\<lambda>(to, sel, args, ws). trove_address (JStr to) = Inr (lower to) \<and> selector_ok sel
     \<and> (case allowed_selectors (lower to) of None \<Rightarrow> False | Some sels \<Rightarrow> map_of sels sel = Some (length args))
     \<and> list_all word_range args \<and> list_all word_range ws \<and> ws \<noteq> [])"

lemma lower_hex_lower: "list_all is_hex_lower s \<Longrightarrow> lower s = s"
proof -
  have "list_all (\<lambda>c. lower_char c = c) ''0123456789abcdef''" by code_simp
  then have "is_hex_lower c \<Longrightarrow> lower_char c = c" for c unfolding is_hex_lower_def list_all_iff by (rule bspec)
  then show "list_all is_hex_lower s \<Longrightarrow> lower s = s" by (auto simp: lower_def list_all_iff intro: map_idI)
qed

lemma hex_str_lower: "0 \<le> n \<Longrightarrow> list_all is_hex_lower (hex_str n)"
proof (induction n rule: hex_str.induct)
  case (1 n)
  have d: "is_hex_lower (hex_digit (nat (n mod 16)))" by (rule hex_digit_chars) simp
  show ?case
  proof (cases "n < 16")
    case True
    then show ?thesis using d 1(2) by (subst hex_str.simps) simp
  next
    case False
    then show ?thesis using d 1 by (subst hex_str.simps) simp
  qed
qed

lemma word_text_lower: "list_all word_range ws \<Longrightarrow> list_all is_hex_lower (word_text ws) \<and> length (word_text ws) = 64 * length ws"
proof (induction ws)
  case (Cons w ws)
  have "is_hex_lower CHR ''0''" by code_simp
  then have "list_all is_hex_lower (hex_width 64 w)" using Cons.prems hex_str_lower [of w]
    by (auto simp: hex_width_def zfill_def word_range_def list_all_iff)
  moreover have "length (hex_width 64 w) = 64" using Cons.prems by (intro length_hex_width) (simp_all add: word_range_def)
  ultimately show ?case using Cons by (simp add: word_text_def)
qed (simp add: word_text_def)

lemma selector_chars: "selector_ok sel \<Longrightarrow> \<exists>t. sel = ''0x'' @ t \<and> list_all is_hex_lower t"
  unfolding selector_ok_def by (metis append_take_drop_id)

lemma lower_0x: "lower (''0x'' @ t) = ''0x'' @ lower t"
proof -
  have "lower ''0x'' = ''0x''" by code_simp
  then show ?thesis by (simp add: lower_def)
qed

lemma add_read_encoded:
  assumes "query_ok q" and "map_of calls (fst (table_entry q)) = None"
  shows "add_read block calls (encoded_call block q) = Inr (calls @ [table_entry q])"
proof -
  obtain to sel args ws where q: "q = (to, sel, args, ws)" by (cases q)
  obtain sels where k: "trove_address (JStr to) = Inr (lower to)" "selector_ok sel" "allowed_selectors (lower to) = Some sels"
      "map_of sels sel = Some (length args)" "list_all word_range args"
    using assms(1) by (auto simp: query_ok_def q split: option.splits)
  let ?data = "sel @ word_text args"
  obtain t where t: "sel = ''0x'' @ t" "list_all is_hex_lower t" using selector_chars [OF k(2)] by blast
  have sl: "length sel = 10" using k(2) by (simp add: selector_ok_def)
  have w: "list_all is_hex_lower (word_text args)" "length (word_text args) = 64 * length args" using word_text_lower [OF k(5)] by simp_all
  have h: "list_all is_hex_lower (t @ word_text args)" using t w by simp
  then have "lower (t @ word_text args) = t @ word_text args" by (rule lower_hex_lower)
  then have low: "lower ?data = ?data" unfolding t append_assoc lower_0x by simp
  have data: "take 10 ?data = sel" "length ?data = 10 + 64 * length args" "take 2 ?data = ''0x''" "list_all is_hex_lower (drop 2 ?data)"
    using sl w h t by simp_all
  have 1: "jindex [(''to'', JStr to), (''data'', JStr ?data), (''block'', JStr block), (''response'', r)] ''to'' = Inr (JStr to)" for r
    by (simp add: jindex_def)
  have 2: "item_lower (JObj [(''to'', JStr to), (''data'', JStr ?data), (''block'', JStr block), (''response'', r)]) ''data'' = Inr ?data" for r
    using low by (simp add: item_lower_def item_def jindex_def)
  have 3: "map_of calls (lower to, ?data) = None" using assms(2) by (simp add: table_entry_def q)
  have 4: "allowed_selectors (lower to) = Some sels" "map_of sels (take 10 ?data) = Some (length args)" using k(3,4) data(1) by simp_all
  have 5: "set (map fst [(''to'', JStr to), (''data'', JStr ?data), (''block'', JStr block), (''response'', r)]) = {''to'', ''data'', ''block'', ''response''}" for r
    by simp
  show ?thesis unfolding add_read_def q encoded_call_def prod.case json.case 1 2 rbind_simps k(1) 4 option.case
    using 3 5 data(2-4) by (simp add: jget_def has_key_def table_entry_def)
qed

lemma rfold_encoded:
  assumes "list_all query_ok qs" and "distinct (map (fst \<circ> table_entry) qs)" and "set (map fst calls) \<inter> set (map (fst \<circ> table_entry) qs) = {}"
  shows "rfold (add_read block) calls (map (encoded_call block) qs) = Inr (calls @ map table_entry qs)"
  using assms
proof (induction qs arbitrary: calls)
  case (Cons q qs)
  have "map_of calls (fst (table_entry q)) = None" using Cons.prems(3) by (auto simp: map_of_eq_None_iff)
  then have "add_read block calls (encoded_call block q) = Inr (calls @ [table_entry q])" using Cons.prems(1) by (intro add_read_encoded) simp_all
  then show ?case using Cons.IH [of "calls @ [table_entry q]"] Cons.prems by (simp add: disjoint_iff)
qed simp

lemma distinct_selectors:
  assumes "list_all query_ok qs" and "distinct (map (\<lambda>q. fst (snd q)) qs)"
  shows "distinct (map (fst \<circ> table_entry) qs)"
proof -
  have sel: "take 10 (snd (fst (table_entry q))) = fst (snd q)" if "q \<in> set qs" for q
    using assms(1) that by (cases q) (auto simp: list_all_iff query_ok_def selector_ok_def table_entry_def)
  have "map (take 10 \<circ> snd) (map (fst \<circ> table_entry) qs) = map (\<lambda>q. fst (snd q)) qs" using sel by simp
  then have "distinct (map (take 10 \<circ> snd) (map (fst \<circ> table_entry) qs))" using assms(2) by (rule ssubst)
  then show ?thesis unfolding distinct_map [of "take 10 \<circ> snd"] by (rule conjunct1)
qed

lemma trove_reads_encoded:
  assumes "jindex d ''calls'' = Inr (JList (map (encoded_call block) qs))" and "15 \<le> length qs" "length qs \<le> 3032"
    and "list_all query_ok qs" and "distinct (map (\<lambda>q. fst (snd q)) qs)"
  shows "trove_reads d block = Inr (map table_entry qs)"
  using assms rfold_encoded [OF assms(4) distinct_selectors [OF assms(4,5)], of "[]" block] by (simp add: trove_reads_def QUEUE_LIMIT_def)

text \<open>The answer to a query of the list.\<close>

lemma encoded_lookup:
  assumes "list_all query_ok qs" and "distinct (map (\<lambda>q. fst (snd q)) qs)" and "(to, sel, args, ws) \<in> set qs"
  shows "map_of (map table_entry qs) (lower to, sel @ word_text args) = Some (JStr (encode_words ws))"
proof (rule map_of_is_SomeI)
  show "distinct (map fst (map table_entry qs))" using distinct_selectors [OF assms(1,2)] by simp
  show "((lower to, sel @ word_text args), JStr (encode_words ws)) \<in> set (map table_entry qs)"
    using assms(3) by (force simp: table_entry_def)
qed

lemma read_words_encoded:
  assumes "map_of calls (lower to, sel @ args) = Some (JStr (encode_words ws))" and "list_all word_range ws" "ws \<noteq> []" "length ws = n"
  shows "read_words calls to sel args n u = Inr (ws, (lower to, sel @ args) # u)"
  using assms abi_words_encode [OF assms(2,3)] by (simp add: read_words_def Let_def)

lemma read_uint_encoded:
  assumes "map_of calls (lower to, sel @ args) = Some (JStr (encode_words [v]))" and "word_range v"
  shows "read_uint calls to sel args u = Inr (v, (lower to, sel @ args) # u)"
  using read_words_encoded [OF assms(1)] assms(2) by (simp add: read_uint_def dbind_def dreturn_def)

lemma read_address_encoded:
  assumes "map_of calls (lower to, sel @ args) = Some (JStr (encode_words [v]))" and "0 \<le> v" "v < 2 ^ 160"
  shows "read_address calls to sel args u = Inr (''0x'' @ hex_width 40 v, (lower to, sel @ args) # u)"
proof -
  have "(2::int) ^ 160 \<le> 2 ^ 256" by (rule power_increasing) simp_all
  then have "word_range v" using assms(2,3) by (simp add: word_range_def)
  then show ?thesis using read_uint_encoded [OF assms(1)] assms(3) by (simp add: read_address_def dbind_def dreturn_def dcheck_def)
qed

subsection \<open>A sample capture\<close>

text \<open>A list of one trove, which is the borrower's.\<close>

definition sample_owner :: string where
  "sample_owner = ''0x'' @ hex_width 40 1"

definition sample_queries :: "query list" where
  "sample_queries =
     [(PRICE_FEED, ''0x0fdb11cf'', [], [2]), (TROVE_MANAGER, ''0xa20baee6'', [], [UNIT]), (TROVE_MANAGER, ''0x794e5724'', [], [1]),
      (TROVE_MANAGER, ''0x5733d58f'', [], [2]), (TROVE_MANAGER, ''0x7af110ba'', [], [5]), (TROVE_MANAGER, ''0x795d26c3'', [], [10]),
      (TROVE_MANAGER, ''0x887105d3'', [], [30]), (TROVE_MANAGER, ''0xb82f263d'', [2], [6]), (SORTED_TROVES, ''0xde8fa431'', [], [1]),
      (TROVE_MANAGER, ''0x49eefeee'', [], [1]), (SORTED_TROVES, ''0x1e223143'', [], [1]), (SORTED_TROVES, ''0x4d622831'', [], [1]),
      (TROVE_MANAGER, ''0xb91af97c'', [1], [30, 9, 1, 0, 0, 0]), (TROVE_MANAGER, ''0x21e37801'', [1], [1]),
      (TROVE_MANAGER, ''0xd293c710'', [1, 2], [6]), (TROVE_MANAGER, ''0xd9a72444'', [0], [1]),
      (SORTED_TROVES, ''0x765e0159'', [1], [0]), (SORTED_TROVES, ''0xb72703ac'', [1], [0])]"

definition sample_header :: json where
  "sample_header = JObj [(''result'', JObj [(''number'', JStr ''0x1''), (''hash'', JStr (''0x'' @ hex_width 64 1)),
     (''timestamp'', JStr ''0x1'')])]"

definition sample_fields :: "(string \<times> json) list" where
  "sample_fields = [(''schema'', JStr ''liqvera-mezo-trove-capture/v1''), (''source'', JStr ''mezo-troves:MUSD:testnet''),
     (''borrower'', JStr sample_owner), (''rpc_url'', JStr RPC_URL), (''chain'', JObj [(''result'', JStr ''0x7b7b'')]),
     (''block'', sample_header), (''block_after'', sample_header), (''calls'', JList (map (encoded_call ''0x1'') sample_queries))]"

definition sample_table :: reads where
  "sample_table = map table_entry sample_queries"

lemma contract_addresses: "trove_address (JStr PRICE_FEED) = Inr (lower PRICE_FEED)" "trove_address (JStr TROVE_MANAGER) = Inr (lower TROVE_MANAGER)"
  "trove_address (JStr SORTED_TROVES) = Inr (lower SORTED_TROVES)"
  by code_simp+

lemma contract_selectors: "allowed_selectors (lower PRICE_FEED) = Some [(''0x0fdb11cf'', 0)]" "allowed_selectors (lower TROVE_MANAGER) = Some MANAGER_SELECTORS"
  "allowed_selectors (lower SORTED_TROVES) = Some SORTED_SELECTORS"
  by code_simp+

lemma sample_query_data: "list_all (\<lambda>(to, sel, args, ws). selector_ok sel \<and> list_all word_range args \<and> list_all word_range ws \<and> ws \<noteq> []) sample_queries"
  "distinct (map (\<lambda>q. fst (snd q)) sample_queries)" "length sample_queries = 18"
  by code_simp+

lemma sample_query_ok: "list_all query_ok sample_queries"
  using sample_query_data(1)
  by (simp add: sample_queries_def query_ok_def contract_addresses contract_selectors MANAGER_SELECTORS_def SORTED_SELECTORS_def)

lemma sample_reads: "trove_reads sample_fields ''0x1'' = Inr sample_table"
  unfolding sample_table_def by (rule trove_reads_encoded) (simp_all add: sample_query_ok sample_query_data jindex_def, simp add: sample_fields_def)

lemma sample_hash: "is_hash (''0x'' @ hex_width 64 1)" "is_block_number ''0x1''" "int_of_hex ''0x1'' = Inr 1" by code_simp+

lemma sample_header_ok: "trove_header sample_fields = Inr (''0x1'', ''0x'' @ hex_width 64 1, 1)"
  using sample_hash by (simp add: trove_header_def sample_fields_def sample_header_def item_def jindex_def)

lemma sample_owner_ok: "trove_address (JStr sample_owner) = Inr sample_owner" "sample_owner \<noteq> ZERO" "''0x'' @ hex_width 40 0 = ZERO"
  "address_word sample_owner = word_text [1]"
  by code_simp+

lemmas sample_lookup = encoded_lookup [OF sample_query_ok sample_query_data(2), folded sample_table_def]

lemma word_range_small: "word_range 0" "word_range 1" "word_range 2" "word_range (numeral k) \<longleftrightarrow> (numeral k :: int) < 2 ^ 256" "word_range UNIT"
  by (simp_all add: word_range_def UNIT_def)

definition used_read :: "query \<Rightarrow> read_key" where
  "used_read q = fst (table_entry q)"

lemma sample_uint:
  assumes "(to, sel, args, [v]) \<in> set sample_queries"
  shows "read_uint sample_table to sel (word_text args) u = Inr (v, used_read (to, sel, args, [v]) # u)"
proof -
  have "word_range v" using sample_query_data(1) assms by (force simp: list_all_iff)
  then show ?thesis using read_uint_encoded [OF sample_lookup [OF assms]] by (simp add: used_read_def table_entry_def)
qed

lemma sample_address:
  assumes "(to, sel, args, [v]) \<in> set sample_queries" and "v < 2 ^ 160"
  shows "read_address sample_table to sel (word_text args) u = Inr (''0x'' @ hex_width 40 v, used_read (to, sel, args, [v]) # u)"
proof -
  have "0 \<le> v" using sample_query_data(1) assms(1) by (force simp: list_all_iff word_range_def)
  then show ?thesis using read_address_encoded [OF sample_lookup [OF assms(1)] _ assms(2)] by (simp add: used_read_def table_entry_def)
qed

lemma word_text_simps: "word_text [] = []" "hex_width 64 n = word_text [n]" "word_text [n] @ word_text [m] = word_text [n, m]"
  by (simp_all add: word_text_def)

lemmas sample_uint_0 = sample_uint [where args = "[]", unfolded word_text_simps(1)]
lemmas sample_address_0 = sample_address [where args = "[]", unfolded word_text_simps(1)]

definition sample_system :: SystemState where
  "sample_system = \<lparr>ss_price = 2, ss_mcr = 1, ss_ccr = 2, ss_gas = 5, ss_tcr = 6, ss_size = 1, ss_first = sample_owner, ss_last = sample_owner\<rparr>"

definition sample_trove :: Trove where
  "sample_trove = \<lparr>tv_collateral = 30, tv_principal = 9, tv_interest = 1, tv_status = 1, tv_icr = 6, tv_debt = 10\<rparr>"

lemma MAXIMUM_large: "10 \<le> MAXIMUM" "60 \<le> MAXIMUM"
  by (simp_all add: MAXIMUM_def)

lemma sample_system_state:
  "system_state sample_table [] = Inr (sample_system, rev (map used_read (take 12 sample_queries)))"
proof -
  have 1: "read_uint sample_table PRICE_FEED ''0x0fdb11cf'' [] u = Inr (2, used_read (PRICE_FEED, ''0x0fdb11cf'', [], [2]) # u)"
    "read_uint sample_table TROVE_MANAGER ''0xa20baee6'' [] u = Inr (UNIT, used_read (TROVE_MANAGER, ''0xa20baee6'', [], [UNIT]) # u)"
    "read_uint sample_table TROVE_MANAGER ''0x794e5724'' [] u = Inr (1, used_read (TROVE_MANAGER, ''0x794e5724'', [], [1]) # u)"
    "read_uint sample_table TROVE_MANAGER ''0x5733d58f'' [] u = Inr (2, used_read (TROVE_MANAGER, ''0x5733d58f'', [], [2]) # u)"
    "read_uint sample_table TROVE_MANAGER ''0x7af110ba'' [] u = Inr (5, used_read (TROVE_MANAGER, ''0x7af110ba'', [], [5]) # u)"
    "read_uint sample_table TROVE_MANAGER ''0x795d26c3'' [] u = Inr (10, used_read (TROVE_MANAGER, ''0x795d26c3'', [], [10]) # u)"
    "read_uint sample_table TROVE_MANAGER ''0x887105d3'' [] u = Inr (30, used_read (TROVE_MANAGER, ''0x887105d3'', [], [30]) # u)"
    "read_uint sample_table TROVE_MANAGER ''0xb82f263d'' (word_text [2]) u = Inr (6, used_read (TROVE_MANAGER, ''0xb82f263d'', [2], [6]) # u)"
    "read_uint sample_table SORTED_TROVES ''0xde8fa431'' [] u = Inr (1, used_read (SORTED_TROVES, ''0xde8fa431'', [], [1]) # u)"
    "read_uint sample_table TROVE_MANAGER ''0x49eefeee'' [] u = Inr (1, used_read (TROVE_MANAGER, ''0x49eefeee'', [], [1]) # u)"
    "read_address sample_table SORTED_TROVES ''0x1e223143'' [] u = Inr (sample_owner, used_read (SORTED_TROVES, ''0x1e223143'', [], [1]) # u)"
    "read_address sample_table SORTED_TROVES ''0x4d622831'' [] u = Inr (sample_owner, used_read (SORTED_TROVES, ''0x4d622831'', [], [1]) # u)" for u
    unfolding sample_owner_def by (rule sample_uint_0 sample_address_0 sample_uint; simp add: sample_queries_def)+
  have 2: "checked_icr 30 10 2 = Inr 6" using MAXIMUM_large by (simp add: checked_icr_def)
  have 3: "rev (map used_read (take 12 sample_queries)) = map used_read (rev (take 12 sample_queries))" by (simp only: rev_map)
  show ?thesis
    unfolding system_state_def 3
    by (simp add: dbind_def dcheck_def dreturn_def 1 2 word_text_simps(2) sample_owner_ok(2) sample_system_def)
      (simp add: sample_queries_def)
qed

lemma sample_decode_trove:
  "decode_trove sample_table 2 5 sample_owner u = Inr (sample_trove, used_read (TROVE_MANAGER, ''0xd293c710'', [1, 2], [6])
     # used_read (TROVE_MANAGER, ''0x21e37801'', [1], [1]) # used_read (TROVE_MANAGER, ''0xb91af97c'', [1], [30, 9, 1, 0, 0, 0]) # u)"
proof -
  have 1: "read_uint sample_table TROVE_MANAGER ''0x21e37801'' (word_text [1]) u = Inr (1, used_read (TROVE_MANAGER, ''0x21e37801'', [1], [1]) # u)"
    "read_uint sample_table TROVE_MANAGER ''0xd293c710'' (word_text [1, 2]) u = Inr (6, used_read (TROVE_MANAGER, ''0xd293c710'', [1, 2], [6]) # u)" for u
    by (rule sample_uint; simp add: sample_queries_def)+
  have 2: "read_words sample_table TROVE_MANAGER ''0xb91af97c'' (word_text [1]) 6 u
      = Inr ([30, 9, 1, 0, 0, 0], used_read (TROVE_MANAGER, ''0xb91af97c'', [1], [30, 9, 1, 0, 0, 0]) # u)" for u
    using read_words_encoded [OF sample_lookup, of TROVE_MANAGER "''0xb91af97c''" "[1]" "[30, 9, 1, 0, 0, 0]" 6 u]
    by (simp add: sample_queries_def used_read_def table_entry_def word_range_small)
  have 3: "checked_icr 30 10 2 = Inr 6" using MAXIMUM_large by (simp add: checked_icr_def)
  show ?thesis
    unfolding decode_trove_def sample_owner_ok(4) word_text_simps(2,3) Let_def
    by (simp add: dbind_def dcheck_def dreturn_def 1 2 3 word_text_simps(3) sample_trove_def)
qed

definition sample_place :: Queue where
  "sample_place = \<lparr>q_position = Some 1, q_debt_ahead = Some 0, q_redeemable_ahead = Some 0, q_status = ''PROVEN''\<rparr>"

definition node_reads :: "query set" where
  "node_reads = {(SORTED_TROVES, ''0x765e0159'', [1], [0]), (SORTED_TROVES, ''0xb72703ac'', [1], [0]),
         (TROVE_MANAGER, ''0xd293c710'', [1, 2], [6]), (TROVE_MANAGER, ''0x21e37801'', [1], [1]),
         (TROVE_MANAGER, ''0xb91af97c'', [1], [30, 9, 1, 0, 0, 0])}"

lemma sample_node_reads:
  "read_address sample_table TROVE_MANAGER ''0xd9a72444'' (word_text [0]) u = Inr (sample_owner, used_read (TROVE_MANAGER, ''0xd9a72444'', [0], [1]) # u)"
  "read_address sample_table SORTED_TROVES ''0x765e0159'' (word_text [1]) u = Inr (ZERO, used_read (SORTED_TROVES, ''0x765e0159'', [1], [0]) # u)"
  "read_address sample_table SORTED_TROVES ''0xb72703ac'' (word_text [1]) u = Inr (ZERO, used_read (SORTED_TROVES, ''0xb72703ac'', [1], [0]) # u)"
  unfolding sample_owner_def sample_owner_ok(3) [symmetric] by (rule sample_address; simp add: sample_queries_def)+

lemma sample_walk_node:
  assumes "w_current w = sample_owner" "w_previous w = ZERO" "w_rank w = 0" "w_debt_ahead w = 0" "w_net_ahead w = 0"
  shows "\<exists>u'. walk_node sample_table 2 5 1 sample_owner w u = Inr (\<lparr>w_seen = sample_owner # w_seen w, w_previous = sample_owner,
       w_current = ZERO, w_rank = 1, w_debt_ahead = 10, w_net_ahead = 5, w_queue = sample_place\<rparr>, u')
     \<and> set u' = set u \<union> used_read ` node_reads"
proof -
  have "walk_node sample_table 2 5 1 sample_owner w u = Inr (\<lparr>w_seen = sample_owner # w_seen w, w_previous = sample_owner,
       w_current = ZERO, w_rank = 1, w_debt_ahead = 10, w_net_ahead = 5, w_queue = sample_place\<rparr>,
      used_read (SORTED_TROVES, ''0xb72703ac'', [1], [0]) # used_read (TROVE_MANAGER, ''0xd293c710'', [1, 2], [6])
     # used_read (TROVE_MANAGER, ''0x21e37801'', [1], [1]) # used_read (TROVE_MANAGER, ''0xb91af97c'', [1], [30, 9, 1, 0, 0, 0])
     # used_read (SORTED_TROVES, ''0x765e0159'', [1], [0]) # u)"
    unfolding walk_node_def Let_def
    by (simp add: assms sample_owner_ok(4) sample_node_reads sample_decode_trove dbind_def dcheck_def dreturn_def)
      (simp add: sample_trove_def sample_place_def)
  then show ?thesis by (intro exI conjI) (assumption, simp only: list.set node_reads_def image_insert image_empty Un_insert_right Un_empty_right, blast)
qed

lemma sample_walk:
  assumes "w = start_walk sample_owner q0"
  shows "\<exists>w' u'. walk sample_table 2 5 1 sample_owner [sample_owner] w u = Inr (w', u')
    \<and> w_seen w' = [sample_owner] \<and> w_previous w' = sample_owner \<and> w_queue w' = sample_place
    \<and> set u' = set u \<union> used_read ` node_reads"
proof -
  have s: "w_current w = sample_owner" "w_previous w = ZERO" "w_rank w = 0" "w_debt_ahead w = 0" "w_net_ahead w = 0" "w_seen w = []"
    by (simp_all add: assms start_walk_def)
  obtain u' where n: "walk_node sample_table 2 5 1 sample_owner w u = Inr (\<lparr>w_seen = sample_owner # w_seen w, w_previous = sample_owner,
       w_current = ZERO, w_rank = 1, w_debt_ahead = 10, w_net_ahead = 5, w_queue = sample_place\<rparr>, u')"
    and u: "set u' = set u \<union> used_read ` node_reads"
    using sample_walk_node [OF s(1-5), of u] by (elim exE conjE)
  have "walk sample_table 2 5 1 sample_owner [sample_owner] w u = Inr (\<lparr>w_seen = [sample_owner], w_previous = sample_owner,
       w_current = ZERO, w_rank = 1, w_debt_ahead = 10, w_net_ahead = 5, w_queue = sample_place\<rparr>, u')"
    by (subst walk.simps) (simp add: s n sample_owner_ok(2), subst walk.simps, simp)
  then show ?thesis using u by (intro exI conjI) (assumption, simp_all only: Walk.simps)
qed

lemma sample_queue_position:
  "\<exists>u'. queue_position sample_table sample_system sample_owner sample_trove q0 u = Inr (sample_place, u')
    \<and> set u' = set u \<union> used_read ` (insert (TROVE_MANAGER, ''0xd9a72444'', [0], [1]) node_reads)"
proof -
  let ?u = "used_read (TROVE_MANAGER, ''0xd9a72444'', [0], [1]) # u"
  have o: "read_owners sample_table 1 u = Inr ([sample_owner], ?u)"
    by (simp add: read_owners_def sample_node_reads word_text_simps(2) dbind_def dreturn_def)
  obtain w u' where w: "walk sample_table 2 5 1 sample_owner [sample_owner] (start_walk sample_owner q0) ?u = Inr (w, u')"
      "w_seen w = [sample_owner]" "w_previous w = sample_owner" "w_queue w = sample_place"
    and u: "set u' = set ?u \<union> used_read ` node_reads"
    using sample_walk [OF refl, of q0 ?u] by (elim exE conjE)
  have "queue_position sample_table sample_system sample_owner sample_trove q0 u = Inr (sample_place, u')"
    using sample_owner_ok(2)
    by (simp add: queue_position_def sample_system_def o w dbind_def dcheck_def dreturn_def sample_trove_def)
  then show ?thesis using u
    by (intro exI conjI) (assumption, simp only: list.set image_insert Un_insert_right Un_insert_left)
qed

lemma sample_decision: "\<exists>u. trove_decision sample_table sample_owner [] = Inr ((sample_system, sample_trove, sample_place), u)
    \<and> set (map fst sample_table) = set u"
proof -
  let ?u = "rev (map used_read (take 12 sample_queries))"
  let ?v = "used_read (TROVE_MANAGER, ''0xd293c710'', [1, 2], [6])
     # used_read (TROVE_MANAGER, ''0x21e37801'', [1], [1]) # used_read (TROVE_MANAGER, ''0xb91af97c'', [1], [30, 9, 1, 0, 0, 0]) # ?u"
  obtain u' where q: "queue_position sample_table sample_system sample_owner sample_trove \<lparr>q_position = None, q_debt_ahead = None,
        q_redeemable_ahead = None, q_status = ''TRAVERSAL_LIMIT''\<rparr> ?v = Inr (sample_place, u')"
    and u: "set u' = set ?v \<union> used_read ` (insert (TROVE_MANAGER, ''0xd9a72444'', [0], [1]) node_reads)"
    using sample_queue_position [of "\<lparr>q_position = None, q_debt_ahead = None,
        q_redeemable_ahead = None, q_status = ''TRAVERSAL_LIMIT''\<rparr>" ?v] by (elim exE conjE)
  have st: "ss_price sample_system = 2" "ss_gas sample_system = 5" "ss_size sample_system = 1" "tv_status sample_trove = 1"
    by (simp_all add: sample_system_def sample_trove_def)
  have "trove_decision sample_table sample_owner [] = Inr ((sample_system, sample_trove, sample_place), u')"
    by (simp add: trove_decision_def Let_def dbind_def dreturn_def sample_system_state st sample_decode_trove q QUEUE_LIMIT_def)
  moreover have "set (map fst sample_table) = used_read ` set sample_queries"
    unfolding sample_table_def by (simp add: image_image used_read_def)
  moreover have "used_read ` set sample_queries = set u'"
  proof -
    have "set sample_queries = set (take 12 sample_queries) \<union> set (drop 12 sample_queries)" by (metis append_take_drop_id set_append)
    moreover have "set (drop 12 sample_queries) = {(TROVE_MANAGER, ''0xb91af97c'', [1], [30, 9, 1, 0, 0, 0]), (TROVE_MANAGER, ''0x21e37801'', [1], [1]),
      (TROVE_MANAGER, ''0xd293c710'', [1, 2], [6]), (TROVE_MANAGER, ''0xd9a72444'', [0], [1]),
      (SORTED_TROVES, ''0x765e0159'', [1], [0]), (SORTED_TROVES, ''0xb72703ac'', [1], [0])}"
      unfolding sample_queries_def by simp
    ultimately show ?thesis unfolding u node_reads_def
      by (simp only: list.set set_rev set_map image_Un image_insert image_empty Un_insert_right Un_insert_left Un_empty_right) blast
  qed
  ultimately show ?thesis by (intro exI [of _ u'] conjI) simp_all
qed

lemma sample_verifies: "\<exists>r. verify_trove_capture (JObj sample_fields) = Inr r \<and> te_sorted_troves_size r = 1 \<and> te_queue r = sample_place"
proof -
  obtain u where d: "trove_decision sample_table sample_owner [] = Inr ((sample_system, sample_trove, sample_place), u)"
      "set (map fst sample_table) = set u" using sample_decision by (elim exE conjE)
  have keys: "set (map fst sample_fields) = {''schema'', ''source'', ''borrower'', ''rpc_url'', ''chain'', ''block'', ''block_after'', ''calls''}"
    by (simp add: sample_fields_def)
  have f: "jget sample_fields ''schema'' = JStr ''liqvera-mezo-trove-capture/v1''" "jget sample_fields ''source'' = JStr ''mezo-troves:MUSD:testnet''"
    "jget sample_fields ''rpc_url'' = JStr RPC_URL" "item (jget sample_fields ''chain'') ''result'' = Inr (JStr ''0x7b7b'')"
    "jget sample_fields ''borrower'' = JStr sample_owner"
    by (simp_all add: sample_fields_def jget_def item_def jindex_def)
  show ?thesis
    unfolding verify_trove_capture_def verify_troves_def json.case f rbind_simps sample_owner_ok(1) sample_header_ok prod.case sample_reads d(1)
      sample_hash(3)
    using keys d(2) by (simp add: sample_system_def)
qed

lemma redemption_queue_correct_witness:
  "\<exists>capture r d block calls first last_node ns. verify_trove_capture capture = Inr r \<and> te_sorted_troves_size r = 1 \<and> te_queue r = sample_place
    \<and> capture = JObj d \<and> trove_reads d block = Inr calls
    \<and> linked calls (te_price r) (te_gas_compensation r) ZERO last_node ns first \<and> distinct (map fst ns) \<and> length ns = 1
    \<and> te_queue r = queue_spec (te_tcr r) (te_mcr r) (te_gas_compensation r) (lower (te_borrower r)) (te_trove r) ns"
proof -
  obtain r where r: "verify_trove_capture (JObj sample_fields) = Inr r" "te_sorted_troves_size r = 1" "te_queue r = sample_place"
    using sample_verifies by (elim exE conjE)
  have "te_sorted_troves_size r \<le> 500" using r(2) by simp
  from redemption_queue_correct [OF r(1) this] r show ?thesis
    by (elim exE conjE) (intro exI conjI, assumption+, simp)
qed

lemma trove_header_block:
  assumes "trove_header d = Inr (bl, h, t)"
  shows "rbind (rbind (jindex d ''block'') (\<lambda>b. item b ''result'')) (\<lambda>h. item h ''number'') = Inr (JStr bl)"
  using assms unfolding trove_header_def case_json_Inr
  by (elim rbind_InrE [of _ _ "(bl, h, t)"] require_InrE exE conjE) (auto simp: case_json_Inr rbind_eq_Inr require_eq_Inr)

text \<open>
  What the capture returns is evidence: whatever the node answers, a capture that is returned
  verifies, names the requested borrower, and every read in it was made at one block whose header
  was the same before and after.
\<close>

lemma capture_trove_verified:
  assumes "capture_trove rpc rpc_many requested = Inr capture"
  shows "\<exists>r d block hash t. verify_trove_capture capture = Inr r \<and> te_borrower r = requested \<and> capture = JObj d
    \<and> rbind (rpc 0 ''eth_blockNumber'' []) (\<lambda>v. item v ''result'') = Inr (JStr block)
    \<and> rpc 2 ''eth_getBlockByNumber'' [JStr block, JBool False] = Inr (jget d ''block'')
    \<and> rpc 3 ''eth_getBlockByNumber'' [JStr block, JBool False] = Inr (jget d ''block_after'')
    \<and> trove_header d = Inr (block, hash, t)"
proof -
  obtain b where b: "trove_address (JStr requested) = Inr b" using assms unfolding capture_trove_def by (elim rbind_InrE)
  obtain block where n: "rbind (rpc 0 ''eth_blockNumber'' []) (\<lambda>r. item r ''result'') = Inr (JStr block)"
    and k: "require (is_block_number block) trove_invalid (
           rbind (rpc 1 ''eth_chainId'' []) (\<lambda>chain.
           case chain of
             JObj cd \<Rightarrow>
               require (jget cd ''result'' = JStr ''0x7b7b'') trove_invalid (
               rbind (rpc 2 ''eth_getBlockByNumber'' [JStr block, JBool False]) (\<lambda>header.
               rbind (rbind (item header ''result'') (\<lambda>h. item h ''number'')) (\<lambda>n.
               require (n = JStr block) trove_invalid (
               rbind (trove_calls rpc_many block b) (\<lambda>calls.
               rbind (rpc 3 ''eth_getBlockByNumber'' [JStr block, JBool False]) (\<lambda>after.
               let capture = JObj [(''schema'', JStr ''liqvera-mezo-trove-capture/v1''), (''source'', JStr ''mezo-troves:MUSD:testnet''),
                     (''borrower'', JStr requested), (''rpc_url'', JStr RPC_URL), (''chain'', chain), (''block'', header),
                     (''block_after'', after), (''calls'', JList calls)]
               in rbind (verify_trove_capture capture) (\<lambda>_. Inr capture)))))))
           | _ \<Rightarrow> Inl AttributeError)) = Inr capture"
    using assms unfolding capture_trove_def b rbind_simps(2) reraise_eq_Inr by (elim rbind_InrE [of _ _ capture]) (simp only: case_json_Inr, blast)
  obtain chain header after calls r where h: "rpc 2 ''eth_getBlockByNumber'' [JStr block, JBool False] = Inr header"
      "rbind (item header ''result'') (\<lambda>h. item h ''number'') = Inr (JStr block)" 
      "rpc 3 ''eth_getBlockByNumber'' [JStr block, JBool False] = Inr after"
    and c: "(Inr (JObj [(''schema'', JStr ''liqvera-mezo-trove-capture/v1''), (''source'', JStr ''mezo-troves:MUSD:testnet''),
                     (''borrower'', JStr requested), (''rpc_url'', JStr RPC_URL), (''chain'', chain), (''block'', header),
                     (''block_after'', after), (''calls'', JList calls)]) :: json res) = Inr capture" (is "(Inr (JObj ?d) :: json res) = _")
    and r: "verify_trove_capture (JObj [(''schema'', JStr ''liqvera-mezo-trove-capture/v1''), (''source'', JStr ''mezo-troves:MUSD:testnet''),
                     (''borrower'', JStr requested), (''rpc_url'', JStr RPC_URL), (''chain'', chain), (''block'', header),
                     (''block_after'', after), (''calls'', JList calls)]) = Inr r"
  proof -
    show thesis using k unfolding case_json_Inr Let_def
      by (elim require_InrE rbind_InrE [of _ _ capture] exE conjE) (unfold case_json_Inr, elim exE conjE require_InrE rbind_InrE [of _ _ capture],
          hypsubst, rule that, assumption+)
  qed
  have cap: "capture = JObj ?d" using c by simp
  have "verify_troves (JObj ?d) = Inr r" using r by (simp add: verify_trove_capture_def)
  then obtain d' block' where d: "JObj ?d = JObj d'" "jget d' ''borrower'' = JStr (te_borrower r)"
      "trove_header d' = Inr (block', te_block_hash r, te_block_timestamp r)"
    using verify_troves_steps [of "JObj ?d" r] by blast
  have g: "jindex d' ''block'' = Inr header" "jget d' ''block'' = header" "jget d' ''block_after'' = after" "jget d' ''borrower'' = JStr requested"
    using d(1) by (auto simp: jindex_def jget_def)
  have "Inr (JStr block') = (Inr (JStr block) :: json res)"
    using trove_header_block [OF d(3)] unfolding g(1) rbind_simps h(2) by (rule sym)
  then have "block' = block" by simp
  then show ?thesis using cap r d n h(1,3) g(2-4)
    by (intro exI [of _ r] exI [of _ d'] exI [of _ block] exI [of _ "te_block_hash r"] exI [of _ "te_block_timestamp r"]) simp
qed

end
