(* ===== verification/TroveReport.thy ===== *)
theory TroveReport
  imports Bundle MezoTroves
begin

section \<open>Trove reports (\<open>trove_report.py\<close>, \<open>trove_capture.py\<close>)\<close>

text \<open>
  A report on the risk of one borrower's trove, computed from a verified capture. The request holds
  everything of the report that is not in the capture, so that the report can be built again from
  the members of its bundle.
\<close>

subsection \<open>Requests\<close>

record TroveReportRequest =
  tq_report_id :: uuid
  tq_borrower :: string
  tq_engine_commit :: string
  tq_created_at_ms :: int
  tq_source_mode :: string

definition is_commit :: "string \<Rightarrow> bool" where
  "is_commit s \<longleftrightarrow> length s = 40 \<and> list_all is_hex_lower s"

definition MAX_INSTANT :: int where
  "MAX_INSTANT = 253402300799999"

text \<open>The checks of \<open>__post_init__\<close>; the arguments may be decoded values of any type.\<close>

definition trove_report_request :: "uuid \<Rightarrow> json \<Rightarrow> json \<Rightarrow> json \<Rightarrow> json \<Rightarrow> TroveReportRequest res" where
  "trove_report_request report_id borrower engine_commit created_at_ms source_mode =
     (case (borrower, engine_commit, created_at_ms, source_mode) of
        (JStr b, JStr e, JInt c, JStr m) \<Rightarrow>
          require (\<not> (\<not> (take 2 b = ''0x'' \<and> length b = 42 \<and> list_all is_hex (drop 2 b)) \<or> int_of_hex b = Inr 0
                      \<or> \<not> is_commit e \<or> \<not> (0 \<le> c \<and> c \<le> MAX_INSTANT) \<or> m \<notin> {''fixture'', ''live-public''})) rejected_input
            (Inr \<lparr>tq_report_id = report_id, tq_borrower = b, tq_engine_commit = e, tq_created_at_ms = c, tq_source_mode = m\<rparr>)
      | _ \<Rightarrow> Inl rejected_input)"

text \<open>\<open>UUID(v)\<close> of a decoded value.\<close>

definition uuid_of_json :: "json \<Rightarrow> uuid res" where
  "uuid_of_json v = (case v of JStr s \<Rightarrow> uuid_of_str s | JNull \<Rightarrow> Inl TypeError | _ \<Rightarrow> Inl AttributeError)"

subsection \<open>The report\<close>

definition opt_int :: "int option \<Rightarrow> json" where
  "opt_int x = (case x of None \<Rightarrow> JNull | Some i \<Rightarrow> JInt i)"

definition musd :: "int option \<Rightarrow> json res" where
  "musd x = (case x of None \<Rightarrow> Inr JNull | Some v \<Rightarrow> rbind (display (of_int v / of_int (10 ^ 18))) (\<lambda>s. Inr (JStr s)))"

definition trove_caveats :: "string list" where
  "trove_caveats =
     [''Mezo Testnet snapshot; read only, not financial advice.'',
      ''Debt and collateral already include pending rewards; principal and interest are not counted twice.'',
      ''Interest accrual and future oracle changes alter these snapshot quantities.'',
      ''The MCR crossing assumes constant debt and collateral; recovery-mode liquidation rules also apply.'',
      ''Redemption rank skips positions below MCR; redeemable debt ahead excludes each eligible position liquidation reserve.'',
      ''RPC observations and a block hash do not prove chain inclusion or oracle authenticity.'']"

definition report_caught :: "py_exc \<Rightarrow> bool" where
  "report_caught e \<longleftrightarrow> e \<in> {KeyError, TypeError} \<or> is_value_error e"

text \<open>The guarded part: the capture is verified and the risk is computed.\<close>

definition trove_evidence :: "json \<Rightarrow> TroveReportRequest \<Rightarrow> (TroveEvidence \<times> (string \<times> json) list) res" where
  "trove_evidence capture request =
     reraise report_caught rejected_dataset (
       rbind (verify_trove_capture capture) (\<lambda>raw.
       require (\<not> lower (te_borrower raw) \<noteq> lower (tq_borrower request)) ValueError (
       let t = te_trove raw in
       rbind (trove_risk (tv_collateral t) (tv_principal t) (tv_interest t) (te_price raw) (te_mcr raw) (te_ccr raw) (te_tcr raw) (tv_status t)) (\<lambda>risk.
       case risk of
         JObj r \<Rightarrow> rbind (rbind (jindex r ''icr_atomic'') py_int) (\<lambda>icr. require (\<not> icr \<noteq> tv_icr t) ValueError (Inr (raw, r)))
       | _ \<Rightarrow> Inl TypeError))))"

definition explorer_links :: "string \<Rightarrow> json" where
  "explorer_links block =
     JObj [(''block'', JStr (''https://explorer.test.mezo.org/block/'' @ block)),
       (''trove_manager'', JStr (''https://explorer.test.mezo.org/address/'' @ TROVE_MANAGER)),
       (''sorted_troves'', JStr (''https://explorer.test.mezo.org/address/'' @ SORTED_TROVES)),
       (''price_feed'', JStr (''https://explorer.test.mezo.org/address/'' @ PRICE_FEED))]"

definition trove_section :: "TroveEvidence \<Rightarrow> TroveReportRequest \<Rightarrow> (string \<times> json) list \<Rightarrow> (string \<times> json) list res" where
  "trove_section raw request risk =
     (let q = te_queue raw; t = te_trove raw;
          risk = dict_update risk [(''borrower'', JStr (te_borrower raw)), (''block_number'', JStr (te_block_number raw)),
            (''block_hash'', JStr (te_block_hash raw)), (''redemption_position'', opt_int (q_position q)),
            (''sorted_troves_size'', JInt (te_sorted_troves_size raw)), (''queue_status'', JStr (q_status q))];
          risk = AList.update ''borrower'' (JStr (tq_borrower request)) risk
      in rbind (musd (q_debt_ahead q)) (\<lambda>ahead.
         rbind (musd (q_redeemable_ahead q)) (\<lambda>redeemable.
         rbind (musd (Some (tv_principal t))) (\<lambda>principal_musd.
         rbind (musd (Some (tv_interest t))) (\<lambda>interest_musd.
         rbind (musd (Some (te_gas_compensation raw))) (\<lambda>reserve.
         Inr (dict_update risk [(''price_source'', JStr ''PriceFeed.fetchPrice()''), (''debt_ahead_musd'', ahead),
            (''redeemable_debt_ahead_musd'', redeemable), (''principal_musd'', principal_musd), (''interest_musd'', interest_musd),
            (''liquidation_reserve_musd'', reserve), (''explorer_links'', explorer_links (te_block_number raw)),
            (''caveats'', JList (map JStr trove_caveats))])))))))"

definition trove_algorithm :: "Resources \<Rightarrow> TroveReportRequest \<Rightarrow> json" where
  "trove_algorithm res request =
     JObj [(''schema'', JStr ''liqvera-trove-risk-algorithm/v1''), (''calculation_version'', JStr ''mezo-trove-risk/v1''),
       (''engine_commit'', JStr (tq_engine_commit request)), (''source_mode'', JStr (tq_source_mode request)),
       (''created_at_ms'', JInt (tq_created_at_ms request)), (''maximum_source_age_ms'', JInt 30000), (''queue_limit'', JInt 500),
       (''display_precision'', JInt 28), (''display_rounding'', JStr ''ROUND_HALF_EVEN''),
       (''dependency_lock_sha256'', JStr (digest (runtime_dependencies res)))]"

definition snapshot_status :: "TroveReportRequest \<Rightarrow> int \<Rightarrow> string" where
  "snapshot_status request source_ms =
     (if tq_source_mode request = ''fixture'' then ''SIMULATED''
      else if tq_created_at_ms request - source_ms > 30000 then ''HISTORICAL_SNAPSHOT''
      else ''VALID_FOR_SNAPSHOT_CALCULATION'')"

definition trove_document :: "Resources \<Rightarrow> TroveReportRequest \<Rightarrow> string \<Rightarrow> (string \<times> json) list \<Rightarrow> string \<Rightarrow> string \<Rightarrow> string \<Rightarrow> json" where
  "trove_document res request state risk source_at created_at algorithm_bytes =
     JObj [(''schema'', JStr ''liqvera-trove-risk-report/v1''), (''report_id'', JStr (uuid_str (tq_report_id request))),
       (''request'', JObj [(''product_id'', JStr ''trove_risk''), (''borrower'', JStr (tq_borrower request))]),
       (''source'', JObj [(''source_mode'', JStr (tq_source_mode request)), (''source_at'', JStr source_at), (''created_at'', JStr created_at)]),
       (''trove_risk'', JObj risk),
       (''quality'', JObj [(''snapshot_status'', JStr state), (''limitations'', JList (map JStr trove_caveats)),
          (''reason_codes'', JList (if state = ''SIMULATED'' then [JStr ''SIMULATED_SOURCE'']
             else if state = ''HISTORICAL_SNAPSHOT'' then [JStr ''STALE_SOURCE''] else [])),
          (''checks'', JList (map (\<lambda>name. JObj [(''name'', JStr name), (''result'', JStr ''PASS'')])
             [''RAW_CALL_RECALCULATION'', ''CONTRACT_ICR_AGREEMENT'', ''QUEUE_EVIDENCE_POLICY'']))]),
       (''reproducibility'', JObj [(''engine_commit'', JStr (tq_engine_commit request)), (''algorithm_sha256'', JStr (digest algorithm_bytes)),
          (''dependency_lock_sha256'', JStr (digest (runtime_dependencies res)))]),
       (''boundaries'', JObj [(''execution_authority'', JStr ''NONE''), (''execution_promise'', JBool False)])]"

definition trove_extras :: "Resources \<Rightarrow> json \<Rightarrow> members res" where
  "trove_extras res capture =
     rbind (canonical_json_bytes capture) (\<lambda>c.
     rbind (rbind (item capture ''calls'') canonical_json_bytes) (\<lambda>calls.
     Inr ([(''mezo-troves/capture.json'', c), (''mezo-troves/calls.json'', calls)]
          @ map (\<lambda>n. (''mezo-troves/'' @ n, abi_resource res n)) TROVE_ABIS)))"

definition build_trove_report :: "Resources \<Rightarrow> json \<Rightarrow> TroveReportRequest \<Rightarrow> BuiltReport res" where
  "build_trove_report res capture request =
     rbind (trove_evidence capture request) (\<lambda>(raw, risk).
     let source_ms = te_block_timestamp raw * 1000 in
     require (\<not> source_ms > MAX_INSTANT) rejected_dataset (
     require (\<not> tq_created_at_ms request + 1000 < source_ms) (EvidenceRejected ''CLOCK_SKEW'') (
     rbind (trove_section raw request risk) (\<lambda>risk.
     rbind (canonical_json_bytes (trove_algorithm res request)) (\<lambda>algorithm_bytes.
     rbind (timestamp source_ms) (\<lambda>source_at.
     rbind (timestamp (tq_created_at_ms request)) (\<lambda>created_at.
     let document = trove_document res request (snapshot_status request source_ms) risk source_at created_at algorithm_bytes in
     rbind (validate res ''trove-risk-report.schema.json'' document) (\<lambda>_.
     rbind (canonical_json_bytes document) (\<lambda>report_bytes.
     rbind (trove_extras res capture) (\<lambda>extras.
     Inr \<lparr>br_document = document, br_report_bytes = report_bytes, br_report_sha256 = digest report_bytes,
          br_input_members = [], br_algorithm_bytes = algorithm_bytes, br_dependency_bytes = runtime_dependencies res,
          br_extra_members = extras\<rparr>))))))))))"

definition rebuild_trove_members :: "Resources \<Rightarrow> members \<Rightarrow> BuiltReport res" where
  "rebuild_trove_members res ms =
     rbind (rbind (member_bytes_of ms ''report.json'') strict_json) (\<lambda>report.
     rbind (validate res ''trove-risk-report.schema.json'' report) (\<lambda>_.
     rbind (rbind (member_bytes_of ms ''algorithm.json'') strict_json) (\<lambda>algorithm.
     rbind (rbind (item report ''report_id'') uuid_of_json) (\<lambda>report_id.
     rbind (rbind (item report ''request'') (\<lambda>r. item r ''borrower'')) (\<lambda>borrower.
     rbind (item algorithm ''engine_commit'') (\<lambda>engine_commit.
     rbind (item algorithm ''created_at_ms'') (\<lambda>created_at_ms.
     rbind (item algorithm ''source_mode'') (\<lambda>source_mode.
     rbind (trove_report_request report_id borrower engine_commit created_at_ms source_mode) (\<lambda>request.
     rbind (rbind (member_bytes_of ms ''mezo-troves/capture.json'') strict_json) (\<lambda>capture.
     build_trove_report res capture request))))))))))"

subsection \<open>The private handoff (\<open>trove_capture.py\<close>)\<close>

definition read_trove_package :: "disk \<Rightarrow> string \<Rightarrow> json res" where
  "read_trove_package dir capture_id =
     rbind (read_tree dir) (\<lambda>ms.
     require (\<not> fst ` set ms \<noteq> {''manifest.json'', ''trove-capture.json''}) rejected_dataset (
     rbind (member_bytes_of ms ''trove-capture.json'') (\<lambda>raw.
     rbind (canonical_json_bytes (JObj [(''schema'', JStr ''liqvera-trove-capture-package/v1''), (''capture_id'', JStr capture_id),
        (''source_mode'', JStr ''live-public''), (''capture_sha256'', JStr (digest raw)), (''capture_length'', JInt (int (length raw)))])) (\<lambda>expected.
     rbind (member_bytes_of ms ''manifest.json'') (\<lambda>manifest.
     require (\<not> manifest \<noteq> expected) rejected_dataset (
     rbind (strict_json raw) (\<lambda>capture.
     rbind (reraise report_caught rejected_dataset (verify_trove_capture capture)) (\<lambda>_. Inr capture))))))))"

subsection \<open>Documents without repeated keys\<close>

lemma AList_update_set: "set (AList.update k v d) \<subseteq> insert (k, v) (set d)"
  by (induction d) auto

lemma update_keys_ok: "keys_ok (JObj d) \<Longrightarrow> keys_ok v \<Longrightarrow> keys_ok (JObj (AList.update k v d))"
  using AList_update_set [of k v d] by (auto simp: list_all_iff distinct_update)

lemma dict_update_keys_ok:
  "keys_ok (JObj d) \<Longrightarrow> list_all (\<lambda>(k, v). keys_ok v) kvs \<Longrightarrow> keys_ok (JObj (dict_update d kvs))"
proof (induction kvs arbitrary: d)
  case (Cons kv kvs)
  obtain k v where kv: "kv = (k, v)" by fastforce
  have "keys_ok (JObj (AList.update k v d))" using Cons.prems kv by (intro update_keys_ok) auto
  then show ?case using Cons kv by (simp add: dict_update_def)
qed (simp add: dict_update_def)

lemma keys_ok_strings [simp]: "list_all keys_ok (map JStr xs)" "list_all (keys_ok \<circ> JStr) xs"
  by (simp_all add: list_all_iff)

lemma canonical_json_ok:
  assumes "canonical_json_bytes v = Inr b" and "keys_ok v"
  shows "json_ok v"
  using assms dumps_json_ok [of False v] by (auto simp: canonical_json_bytes_def rbind_eq_Inr)

lemma display_if_keys: "display_if b v = Inr j \<Longrightarrow> keys_ok j"
  by (auto simp: display_if_def rbind_eq_Inr split: if_splits)

lemma scenario_keys: "trove_scenario c d p m a r = Inr j \<Longrightarrow> keys_ok j"
  by (auto simp: trove_scenario_def Let_def rbind_eq_Inr dest: display_if_keys)

definition gives_keys :: "json res \<Rightarrow> bool" where
  "gives_keys m \<longleftrightarrow> (\<forall>j. m = Inr j \<longrightarrow> keys_ok j)"

lemma gives_keys_intros:
  "(\<And>x. m = Inr x \<Longrightarrow> gives_keys (f x)) \<Longrightarrow> gives_keys (rbind m f)"
  "gives_keys r \<Longrightarrow> gives_keys (require b e r)"
  "keys_ok j \<Longrightarrow> gives_keys (Inr j)"
  by (auto simp: gives_keys_def rbind_eq_Inr require_eq_Inr)

lemma display_option_keys: "(case t of Some t \<Rightarrow> display_if True t | None \<Rightarrow> Inr JNull) = Inr x \<Longrightarrow> keys_ok x"
  by (auto split: option.splits dest: display_if_keys)

lemma scenarios_keys: "rmap (trove_scenario c d p m a) rs = Inr js \<Longrightarrow> list_all keys_ok js"
  using rmap_Inr_set scenario_keys by (fastforce simp: list_all_iff)

lemma trove_risk_keys: "gives_keys (trove_risk c pr i p m cc tc st)"
  unfolding trove_risk_def Let_def
  by (intro gives_keys_intros, drule scenarios_keys) (simp add: display_if_keys display_option_keys)

lemma musd_keys: "musd x = Inr j \<Longrightarrow> keys_ok j"
  by (auto simp: musd_def rbind_eq_Inr split: option.splits)

lemma opt_int_keys [simp]: "keys_ok (opt_int x)"
  by (simp add: opt_int_def split: option.splits)

lemma trove_evidence_keys:
  assumes "trove_evidence capture request = Inr (raw, risk)"
  shows "keys_ok (JObj risk)"
proof -
  obtain x j where risk: "trove_risk (tv_collateral (te_trove x)) (tv_principal (te_trove x)) (tv_interest (te_trove x)) (te_price x)
      (te_mcr x) (te_ccr x) (te_tcr x) (tv_status (te_trove x)) = Inr j"
    and k: "(case j of JObj r \<Rightarrow> rbind (rbind (jindex r ''icr_atomic'') py_int) (\<lambda>icr. require (\<not> icr \<noteq> tv_icr (te_trove x)) ValueError (Inr (x, r)))
       | _ \<Rightarrow> Inl TypeError) = Inr (raw, risk)"
    using assms unfolding trove_evidence_def Let_def reraise_eq_Inr rbind_eq_Inr require_eq_Inr by blast
  have "j = JObj risk" using k by (cases j) (auto simp: rbind_eq_Inr require_eq_Inr)
  then show ?thesis using trove_risk_keys risk unfolding gives_keys_def by blast
qed

lemma trove_section_keys:
  assumes "trove_section raw request risk = Inr r" and "keys_ok (JObj risk)"
  shows "keys_ok (JObj r)"
proof -
  obtain a b c d e where j: "keys_ok a" "keys_ok b" "keys_ok c" "keys_ok d" "keys_ok e"
    and r: "r = dict_update (AList.update ''borrower'' (JStr (tq_borrower request)) (dict_update risk [(''borrower'', JStr (te_borrower raw)), (''block_number'', JStr (te_block_number raw)),
            (''block_hash'', JStr (te_block_hash raw)), (''redemption_position'', opt_int (q_position (te_queue raw))),
            (''sorted_troves_size'', JInt (te_sorted_troves_size raw)), (''queue_status'', JStr (q_status (te_queue raw)))]))
          [(''price_source'', JStr ''PriceFeed.fetchPrice()''), (''debt_ahead_musd'', a),
            (''redeemable_debt_ahead_musd'', b), (''principal_musd'', c), (''interest_musd'', d),
            (''liquidation_reserve_musd'', e), (''explorer_links'', explorer_links (te_block_number raw)),
            (''caveats'', JList (map JStr trove_caveats))]"
    using assms(1) musd_keys unfolding trove_section_def Let_def rbind_eq_Inr by blast
  show ?thesis unfolding r by (intro dict_update_keys_ok update_keys_ok assms(2)) (simp_all add: j explorer_links_def)
qed

lemma trove_document_keys: "keys_ok (JObj risk) \<Longrightarrow> keys_ok (trove_document res request state risk s c a)"
  by (simp add: trove_document_def)

subsection \<open>Building again\<close>

lemma jindex_canon:
  assumes "distinct (map fst d)"
  shows "item (canon (JObj d)) k = rbind (jindex d k) (\<lambda>v. Inr (canon v))"
proof -
  have "distinct (map fst (map (\<lambda>(k, v). (k, canon v)) d))" using assms by (simp add: comp_def case_prod_beta)
  moreover have "jindex (map (\<lambda>(k, v). (k, canon v)) d) k = rbind (jindex d k) (\<lambda>v. Inr (canon v))"
    by (induction d) (auto simp: jindex_def)
  ultimately show ?thesis by (simp add: item_def)
qed

definition trove_request_ok :: "TroveReportRequest \<Rightarrow> bool" where
  "trove_request_ok request \<longleftrightarrow> uuid_int (tq_report_id request) < 2 ^ 128
     \<and> trove_report_request (tq_report_id request) (JStr (tq_borrower request)) (JStr (tq_engine_commit request))
         (JInt (tq_created_at_ms request)) (JStr (tq_source_mode request)) = Inr request"

lemma trove_request_ok:
  assumes "trove_report_request u b e c m = Inr request" and "uuid_int u < 2 ^ 128"
  shows "trove_request_ok request"
  using assms by (auto simp: trove_request_ok_def trove_report_request_def require_eq_Inr split: json.splits)

lemma rebuild_trove:
  assumes built: "build_trove_report res capture request = Inr built" and "canonical_json capture"
    and req: "trove_request_ok request" and res: "resources_ok res"
    and m: "map_of ms ''report.json'' = Some (br_report_bytes built)" "map_of ms ''algorithm.json'' = Some (br_algorithm_bytes built)"
      "map_of ms ''mezo-troves/capture.json'' = map_of (br_extra_members built) ''mezo-troves/capture.json''"
  shows "rebuild_trove_members res ms = Inr built"
proof -
  obtain raw risk0 risk alg s c bytes extras where ev: "trove_evidence capture request = Inr (raw, risk0)"
    and sec: "trove_section raw request risk0 = Inr risk" and alg: "canonical_json_bytes (trove_algorithm res request) = Inr alg"
    and doc: "canonical_json_bytes (trove_document res request (snapshot_status request (te_block_timestamp raw * 1000)) risk s c alg) = Inr bytes"
    and val: "validate res ''trove-risk-report.schema.json'' (trove_document res request (snapshot_status request (te_block_timestamp raw * 1000)) risk s c alg) = Inr ()"
    and ex: "trove_extras res capture = Inr extras"
    and b: "br_report_bytes built = bytes" "br_algorithm_bytes built = alg" "br_extra_members built = extras"
    using built unfolding build_trove_report_def Let_def rbind_eq_Inr require_eq_Inr by (auto simp: rbind_eq_Inr require_eq_Inr)
  let ?doc = "trove_document res request (snapshot_status request (te_block_timestamp raw * 1000)) risk s c alg"
  have ok: "json_ok ?doc"
    by (rule canonical_json_ok [OF doc trove_document_keys [OF trove_section_keys [OF sec trove_evidence_keys [OF ev]]]])
  have aok: "json_ok (trove_algorithm res request)"
    by (rule canonical_json_ok [OF alg]) (simp add: trove_algorithm_def)
  have v: "validate res ''trove-risk-report.schema.json'' (canon ?doc) = Inr ()"
    using val res ok by (simp add: validate_def resources_ok_def require_eq_Inr)
  obtain cb where cb: "canonical_json_bytes capture = Inr cb" "map_of extras ''mezo-troves/capture.json'' = Some cb"
    using ex by (auto simp: trove_extras_def rbind_eq_Inr)
  have cap: "strict_json cb = Inr capture"
    using strict_json_canonical [OF _ cb(1)] assms(2) by (simp add: canonical_json_def)
  have rid: "item (canon ?doc) ''report_id'' = Inr (JStr (uuid_str (tq_report_id request)))"
    unfolding trove_document_def by (subst jindex_canon) (simp_all add: jindex_def)
  have bor: "rbind (item (canon ?doc) ''request'') (\<lambda>r. item r ''borrower'') = Inr (JStr (tq_borrower request))"
    unfolding trove_document_def by (subst jindex_canon) (simp_all add: jindex_def jindex_canon del: canon.simps, simp_all)
  have ai: "item (canon (trove_algorithm res request)) ''engine_commit'' = Inr (JStr (tq_engine_commit request))"
    "item (canon (trove_algorithm res request)) ''created_at_ms'' = Inr (JInt (tq_created_at_ms request))"
    "item (canon (trove_algorithm res request)) ''source_mode'' = Inr (JStr (tq_source_mode request))"
    unfolding trove_algorithm_def by (subst jindex_canon; simp add: jindex_def)+
  show ?thesis
    unfolding rebuild_trove_members_def member_bytes_of_def m b cb(2) option.case rbind_simps
      strict_json_canonical [OF ok doc] strict_json_canonical [OF aok alg] v rid bor ai cap
    using req built uuid_roundtrip [of "tq_report_id request"]
    by (simp add: trove_request_ok_def uuid_of_json_def)
qed

end
