(* ===== verification/MarketReport.thy ===== *)
theory MarketReport
  imports SealedInput TroveReport
begin

section \<open>Market reports (\<open>report.py\<close>, \<open>product_request.py\<close>)\<close>

text \<open>
  The report of one hypothetical sweep over an inspected book, and the requests of both products as
  the service parses them.
\<close>

subsection \<open>Requests\<close>

record ReportRequest =
  rq_report_id :: uuid
  rq_side :: Side
  rq_quantity_base :: ExactDecimal
  rq_engine_commit :: string
  rq_created_at_ms :: "int option"

definition side_value :: "Side \<Rightarrow> string" where
  "side_value s = (case s of BUY \<Rightarrow> ''BUY'' | SELL \<Rightarrow> ''SELL'')"

text \<open>\<open>Side(v)\<close> of a decoded value.\<close>

definition side_of_json :: "json \<Rightarrow> Side res" where
  "side_of_json v = (if v = JStr ''BUY'' then Inr BUY else if v = JStr ''SELL'' then Inr SELL else Inl ValueError)"

definition report_request :: "uuid \<Rightarrow> Side \<Rightarrow> ExactDecimal \<Rightarrow> json \<Rightarrow> int option \<Rightarrow> ReportRequest res" where
  "report_request report_id side q engine_commit created_at_ms =
     require (\<not> scaled q \<le> 0) rejected_input (
     case engine_commit of
       JStr e \<Rightarrow>
         require (is_commit e) rejected_input (
         require (case created_at_ms of None \<Rightarrow> True | Some c \<Rightarrow> \<not> c < 0) rejected_input
           (Inr \<lparr>rq_report_id = report_id, rq_side = side, rq_quantity_base = q, rq_engine_commit = e, rq_created_at_ms = created_at_ms\<rparr>))
     | _ \<Rightarrow> Inl rejected_input)"

text \<open>The pattern \<open>[+]?[0-9]+(?:\.[0-9]{1,8})?\<close>.\<close>

definition quantity_text :: "string \<Rightarrow> bool" where
  "quantity_text t \<longleftrightarrow>
     (let u = (if t \<noteq> [] \<and> hd t = CHR ''+'' then tl t else t) in
      case split_on CHR ''.'' u of
        [whole] \<Rightarrow> whole \<noteq> [] \<and> list_all is_ascii_digit whole
      | [whole, fraction] \<Rightarrow> whole \<noteq> [] \<and> list_all is_ascii_digit whole \<and> 1 \<le> length fraction \<and> length fraction \<le> 8
                            \<and> list_all is_ascii_digit fraction
      | _ \<Rightarrow> False)"

definition parse_request :: "json \<Rightarrow> string \<Rightarrow> ReportRequest res" where
  "parse_request body engine_commit =
     (case body of
        JObj d \<Rightarrow>
          require (\<not> fst ` set d \<noteq> {''report_id'', ''instrument_id'', ''side'', ''quantity_base''}) rejected_input (
          require (\<not> jget d ''instrument_id'' \<noteq> JStr ''hyperliquid:BTC:perpetual'') (EvidenceRejected ''UNSUPPORTED_INSTRUMENT'') (
          case jget d ''quantity_base'' of
            JStr t \<Rightarrow>
              require (\<not> (length t > 32 \<or> \<not> quantity_text t)) rejected_input (
              reraise (\<lambda>e. is_value_error e \<or> e = TypeError) rejected_input (
                rbind (evidence_identifier (jget d ''report_id'')) (\<lambda>i.
                rbind (uuid_of_str i) (\<lambda>u.
                rbind (side_of_json (jget d ''side'')) (\<lambda>s.
                rbind (exact_parse t) (\<lambda>q. report_request u s q (JStr engine_commit) None))))))
          | _ \<Rightarrow> Inl rejected_input))
      | _ \<Rightarrow> Inl rejected_input)"

datatype product_request = MarketProduct ReportRequest | TroveProduct TroveReportRequest

definition parse_product_request :: "json \<Rightarrow> string \<Rightarrow> int \<Rightarrow> product_request res" where
  "parse_product_request body engine_commit created_at_ms =
     (case body of
        JObj d \<Rightarrow>
          if jget d ''product_id'' = JStr ''trove_risk'' then
            require (\<not> fst ` set d \<noteq> {''report_id'', ''product_id'', ''borrower''}) rejected_input (
            rbind (evidence_identifier (jget d ''report_id'')) (\<lambda>i.
            rbind (uuid_of_str i) (\<lambda>u.
            rbind (trove_report_request u (jget d ''borrower'') (JStr engine_commit) (JInt created_at_ms) (JStr ''live-public'')) (\<lambda>r.
            Inr (TroveProduct r)))))
          else rbind (parse_request body engine_commit) (\<lambda>r. Inr (MarketProduct r))
      | _ \<Rightarrow> rbind (parse_request body engine_commit) (\<lambda>r. Inr (MarketProduct r)))"

definition product_report_id :: "product_request \<Rightarrow> uuid" where
  "product_report_id p = (case p of MarketProduct r \<Rightarrow> rq_report_id r | TroveProduct r \<Rightarrow> tq_report_id r)"

definition request_identity :: "product_request \<Rightarrow> json" where
  "request_identity p =
     (case p of
        TroveProduct r \<Rightarrow> JObj [(''product_id'', JStr ''trove_risk''), (''borrower'', JStr (tq_borrower r))]
      | MarketProduct r \<Rightarrow> JObj [(''side'', JStr (side_value (rq_side r))), (''quantity_base'', JStr (exact_str (rq_quantity_base r)))])"

subsection \<open>The report\<close>

definition package_version :: "string \<times> string \<Rightarrow> json" where
  "package_version nv = JObj [(''name'', JStr (fst nv)), (''version'', JStr (snd nv))]"

definition VERSIONS :: json where
  "VERSIONS = JList (map package_version
     [(''liqvera-contracts'', ''0.2.0''), (''liqvera-readonly-analyzer'', ''0.2.0''), (''liqvera-public-capture'', ''0.2.0''),
      (''liqvera-evidence-report'', ''0.2.0''), (''jsonschema'', ''4.23.0''), (''referencing'', ''0.35.1'')])"

definition algorithm_document :: "string \<Rightarrow> string \<Rightarrow> bool \<Rightarrow> json" where
  "algorithm_document engine_commit dependencies live_identity_approved =
     JObj [(''schema'', JStr ''liqvera-evidence-algorithm/v1''), (''calculation_version'', JStr ''snapshot-sweep/v1''),
       (''policy_version'', JStr ''snapshot-policy/v1''), (''serialization_version'', JStr ''canonical-json/v1''),
       (''engine_commit'', JStr engine_commit), (''package_versions'', VERSIONS),
       (''dependency_lock_sha256'', JStr (digest dependencies)), (''maximum_source_age_ms'', JInt 5000),
       (''maximum_future_skew_ms'', JInt 1000), (''maximum_metadata_age_ms'', JInt 86400000),
       (''live_identity_approved'', JBool live_identity_approved), (''display_precision'', JInt 28), (''display_rounding'', JStr ''ROUND_HALF_EVEN''),
       (''boundary'', JStr ''Integrity and recalculation do not authenticate the exchange or promise execution.'')]"

definition input_file :: "string \<times> string \<Rightarrow> json" where
  "input_file m = JObj [(''path'', JStr (fst m)), (''sha256'', JStr (digest (snd m)))]"

definition input_files :: "members \<Rightarrow> json" where
  "input_files inputs = JList (map input_file (sort_key fst inputs))"

definition report_identity :: "MarketMappingEvidence \<Rightarrow> json" where
  "report_identity m =
     JObj [(''venue'', JStr ''hyperliquid''), (''instrument_id'', JStr ''hyperliquid:BTC:perpetual''),
       (''product_kind'', JStr ''perpetual''), (''payoff_kind'', JStr ''linear''), (''base_asset'', JStr ''BTC''),
       (''quote_asset'', JStr ''USD''), (''settlement_asset'', JStr (settlement_asset (me_identity m))),
       (''quantity_unit'', JStr ''BTC''), (''displayed_size_unit'', JStr ''coin''), (''contract_multiplier'', JStr ''1''),
       (''mapping_version'', JStr (mapping_version m)),
       (''evidence'', JList [JObj [(''reference'', JStr (evidence_reference m)), (''sha256'', JStr (evidence_sha256 m))]])]"

definition report_source :: "InspectedInput \<Rightarrow> ExecutableFill \<Rightarrow> json \<Rightarrow> int \<Rightarrow> json res" where
  "report_source evidence fill mode created =
     (let b = snapshot (ii_book evidence); received = received_timestamp_ms b; source_at = exchange_timestamp_ms b in
      rbind (rbind (rbind (item (ii_capture evidence) ''responses'') two_responses) (\<lambda>(m, r). number_at m ''started_at_ms'')) (\<lambda>started.
      rbind (timestamp started) (\<lambda>s.
      rbind (timestamp received) (\<lambda>o_at.
      rbind (timestamp source_at) (\<lambda>src.
      rbind (timestamp created) (\<lambda>c.
      Inr (JObj [(''source_mode'', mode), (''started_at'', JStr s), (''observed_at'', JStr o_at), (''source_at'', JStr src),
        (''created_at'', JStr c), (''build_age_ms'', JInt (created - source_at)), (''payload_sha256'', JStr (ef_payload_sha256 fill)),
        (''package_sha256'', JStr (ii_package_sha256 evidence)), (''available_bid_levels'', JInt (int (length (bids b)))),
        (''available_ask_levels'', JInt (int (length (asks b))))])))))))"

definition report_calculation :: "ReportRequest \<Rightarrow> ExecutableFill \<Rightarrow> rat \<Rightarrow> json res" where
  "report_calculation request fill impact =
     (let quantities = [(''notional_quote'', notional_quote fill), (''vwap'', vwap fill), (''worst_price'', worst_price fill), (''price_impact_bps'', impact)];
          q = JStr (exact_str (rq_quantity_base request)) in
      rbind (rmap (\<lambda>(k, v). rbind (display v) (\<lambda>d. Inr (k, JStr d))) quantities) (\<lambda>shown.
      Inr (JObj ([(''requested_quantity'', q), (''filled_quantity'', q)] @ map (\<lambda>(k, v). (k, rational v)) quantities
        @ [(''consumed_levels'', JInt (consumed_levels fill)), (''display'', JObj shown), (''display_precision'', JInt 28),
           (''display_rounding'', JStr ''ROUND_HALF_EVEN'')]))))"

definition report_quality :: "json \<Rightarrow> json \<Rightarrow> json" where
  "report_quality mode stage =
     (let fixture = (mode = JStr ''fixture''); live = (mode = JStr ''live-public'') in
      JObj [(''snapshot_status'', JStr (if fixture then ''SIMULATED'' else ''VALID_FOR_SNAPSHOT_CALCULATION'')),
        (''reason_codes'', JList (if fixture then [JStr ''SIMULATED_SOURCE''] else [])),
        (''checks'', JList (map (\<lambda>n. JObj [(''name'', JStr n), (''result'', JStr ''PASS'')]) [''sealed bytes and source bindings'', ''exact snapshot sweep'']
           @ [JObj [(''name'', JStr ''live identity approval''), (''result'', JStr (if live then ''PASS'' else ''UNCERTAIN''))]])),
        (''limitations'', JList (map JStr ((if fixture then [''SIMULATED fixture input and timestamps; never eligible for a chargeable quote.'']
              else [''Public snapshot identity is policy-validated; exchange authenticity is not independently attested.''])
           @ [''Calculation over the available snapshot depth, at most 20 levels per side.'',
              ''Hypothetical snapshot sweep; no fees, funding, net PnL, or execution guarantee.'',
              ''Hashes establish integrity relative to the bundle, not exchange authenticity.'']))),
        (''stage_a'', stage)])"

definition report_reproducibility :: "Resources \<Rightarrow> ReportRequest \<Rightarrow> members \<Rightarrow> json" where
  "report_reproducibility res request inputs =
     JObj [(''engine_commit'', JStr (rq_engine_commit request)), (''package_versions'', VERSIONS),
       (''lockfile_digests'', JList [JObj [(''path'', JStr ''runtime-dependencies.txt''), (''sha256'', JStr (digest (runtime_dependencies res)))]]),
       (''calculation_version'', JStr ''snapshot-sweep/v1''), (''policy_version'', JStr ''snapshot-policy/v1''),
       (''serialization_version'', JStr ''canonical-json/v1''), (''input_files'', input_files inputs)]"

definition report_boundaries :: json where
  "report_boundaries =
     JObj [(''execution_authority'', JStr ''NONE''), (''fees_calculated'', JBool False), (''funding_calculated'', JBool False),
       (''net_pnl_calculated'', JBool False), (''execution_promise'', JBool False), (''calculation_label'', JStr ''hypothetical snapshot sweep'')]"

text \<open>The exchange part, present when a capture of the pool was sealed or is supplied.\<close>

definition dex_members :: "Resources \<Rightarrow> json \<Rightarrow> members res" where
  "dex_members res capture =
     rbind (canonical_json_bytes capture) (\<lambda>c.
     rbind (rbind (rbind (item capture ''probe'') (\<lambda>p. item p ''calls'')) canonical_json_bytes) (\<lambda>calls.
     Inr ([(''mezo-dex/capture.json'', c), (''mezo-dex/calls.json'', calls)]
          @ map (\<lambda>n. (''mezo-dex/'' @ n, abi_resource res n)) [''Pool.testnet.json'', ''Router.testnet.json'', ''PoolFactory.testnet.json''])))"

definition mezo_source :: "InspectedInput \<Rightarrow> json option \<Rightarrow> json option res" where
  "mezo_source evidence mezo_capture =
     (if map_of (ii_members evidence) ''source/mezo-dex.json'' = None then Inr mezo_capture
      else rbind (json_member (ii_members evidence) ''source/mezo-dex.json'') (\<lambda>sealed.
        require (\<not> (mezo_capture \<noteq> None \<and> map_option canon mezo_capture \<noteq> Some (canon sealed))) (EvidenceRejected ''MEZO_DEX_INVALID_EVIDENCE'')
          (Inr (Some sealed))))"

definition mezo_sections :: "Resources \<Rightarrow> ReportRequest \<Rightarrow> rat \<Rightarrow> json \<Rightarrow> (members \<times> (string \<times> json) list) res" where
  "mezo_sections res request average capture =
     rbind (reraise is_value_error (EvidenceRejected ''MEZO_DEX_INVALID_EVIDENCE'') (
        rbind (build_dex_report capture (side_value (rq_side request)) (exact_str (rq_quantity_base request))) (\<lambda>dex.
        rbind (dex_members res capture) (\<lambda>extras. Inr (dex, extras))))) (\<lambda>(dex, extras).
     rbind (rbind (item dex ''amount_in'') py_int) (\<lambda>amount_in.
     rbind (rbind (item dex ''amount_out'') py_int) (\<lambda>amount_out.
     rbind (venue_comparison amount_in amount_out average (side_value (rq_side request))) (\<lambda>comparison.
     Inr (extras, [(''mezo_dex'', dex), (''venue_comparison'', comparison)])))))"

definition created_at :: "InspectedInput \<Rightarrow> ReportRequest \<Rightarrow> int" where
  "created_at evidence request =
     (case rq_created_at_ms request of None \<Rightarrow> received_timestamp_ms (snapshot (ii_book evidence)) | Some c \<Rightarrow> c)"

definition market_document ::
  "Resources \<Rightarrow> ReportRequest \<Rightarrow> MarketMappingEvidence \<Rightarrow> json \<Rightarrow> json \<Rightarrow> json \<Rightarrow> json \<Rightarrow> members \<Rightarrow> (string \<times> json) list \<Rightarrow> json" where
  "market_document res request mapping mode stage source calculation inputs sections =
     JObj ([(''schema'', JStr ''liqvera-evidence-report/v1''), (''report_id'', JStr (uuid_str (rq_report_id request))),
       (''identity'', report_identity mapping),
       (''request'', JObj [(''side'', JStr (side_value (rq_side request))), (''quantity_base'', JStr (exact_str (rq_quantity_base request)))]),
       (''source'', source), (''calculation'', calculation), (''quality'', report_quality mode stage),
       (''reproducibility'', report_reproducibility res request inputs), (''boundaries'', report_boundaries)] @ sections)"

definition build_inspected_report :: "Resources \<Rightarrow> InspectedInput \<Rightarrow> ReportRequest \<Rightarrow> json option \<Rightarrow> BuiltReport res" where
  "build_inspected_report res evidence request mezo_capture =
     (let book = ii_book evidence; source_at = exchange_timestamp_ms (snapshot book);
          received = received_timestamp_ms (snapshot book); created = created_at evidence request in
      rbind (item (ii_capture evidence) ''source_mode'') (\<lambda>mode.
      require (\<not> (created < received \<or> source_at - created > 1000)) (EvidenceRejected ''CLOCK_SKEW'') (
      require (\<not> created - source_at > 5000) (EvidenceRejected ''STALE_SOURCE'') (
      rbind (reraise (\<lambda>e. e = DepthRejected) (EvidenceRejected ''DEPTH_INSUFFICIENT'') (sweep_depth book (rq_side request) (rq_quantity_base request))) (\<lambda>fill.
      case rk_mapping book of
        None \<Rightarrow> Inl (EvidenceRejected ''IDENTITY_UNVERIFIED'')
      | Some mapping \<Rightarrow>
        (let algorithm = algorithm_document (rq_engine_commit request) (runtime_dependencies res) (mode = JStr ''live-public'') in
         rbind (validate res ''algorithm.schema.json'' algorithm) (\<lambda>_.
         rbind (canonical_json_bytes algorithm) (\<lambda>algorithm_bytes.
         let inputs = dict_update (map (\<lambda>(name, raw). (''sealed-input/'' @ name, raw)) (ii_members evidence))
               [(''algorithm.json'', algorithm_bytes), (''runtime-dependencies.txt'', runtime_dependencies res)] in
         rbind (price_impact_bps book (rq_side request) (vwap fill)) (\<lambda>impact.
         rbind (report_source evidence fill mode created) (\<lambda>source.
         rbind (report_calculation request fill impact) (\<lambda>calculation.
         rbind (mezo_source evidence mezo_capture) (\<lambda>mezo.
         rbind (case mezo of None \<Rightarrow> Inr ([], []) | Some c \<Rightarrow> mezo_sections res request (vwap fill) c) (\<lambda>(extras, sections).
         let document = market_document res request mapping mode (ii_stage_a evidence) source calculation (dict_update inputs extras) sections in
         rbind (validate res ''report.schema.json'' document) (\<lambda>_.
         rbind (canonical_json_bytes document) (\<lambda>raw.
         Inr \<lparr>br_document = document, br_report_bytes = raw, br_report_sha256 = digest raw, br_input_members = ii_members evidence,
              br_algorithm_bytes = algorithm_bytes, br_dependency_bytes = runtime_dependencies res, br_extra_members = extras\<rparr>)))))))))))))))"

definition build_report :: "Resources \<Rightarrow> disk \<Rightarrow> ReportRequest \<Rightarrow> json option \<Rightarrow> BuiltReport res" where
  "build_report res dir request mezo_capture =
     rbind (inspect_package res dir) (\<lambda>evidence. build_inspected_report res evidence request mezo_capture)"

subsection \<open>Documents without repeated keys\<close>

lemma item_keys: "item v k = Inr w \<Longrightarrow> keys_ok v \<Longrightarrow> keys_ok w"
  by (cases v) (auto simp: item_def jindex_def list_all_iff dest!: map_of_SomeD split: option.splits)

lemma rational_keys [simp]: "keys_ok (rational v)"
  by (simp add: rational_def)

lemma dex_quote_keys: "dex_quote side m b fee q = Inr (x, y, row) \<Longrightarrow>
    \<exists>dq da di. row = [(''quantity_btc'', JStr dq), (''amount_in'', JStr (int_str x)), (''amount_out'', JStr (int_str y)),
      (''avg_price_musd'', JStr da), (''price_impact_bps'', JStr di)]"
  by (auto simp: dex_quote_def rbind_eq_Inr)

lemma ladder_row_keys: "ladder_row side m b fee q = Inr j \<Longrightarrow> keys_ok j"
  by (auto simp: ladder_row_def rbind_eq_Inr split: sum.splits if_splits prod.splits dest!: dex_quote_keys)

lemma dex_report_keys:
  assumes "build_dex_report capture side q = Inr j"
  shows "keys_ok j"
proof -
  have l: "list_all keys_ok ladder" if "rmap (ladder_row s m b f) qs = Inr ladder" for s m b f qs ladder
    using that rmap_Inr_set ladder_row_keys by (fastforce simp: list_all_iff)
  have "gives_keys (build_dex_report capture side q)"
    unfolding build_dex_report_def Let_def
    by (intro gives_keys_intros) (auto intro!: gives_keys_intros simp: l dest!: dex_quote_keys)
  then show ?thesis using assms by (simp add: gives_keys_def)
qed

lemma comparison_keys: "venue_comparison x y a s = Inr j \<Longrightarrow> keys_ok j"
  by (auto simp: venue_comparison_def Let_def rbind_eq_Inr require_eq_Inr)

lemma mezo_sections_keys:
  assumes "mezo_sections res request average capture = Inr (extras, sections)"
  shows "\<exists>dex comparison. sections = [(''mezo_dex'', dex), (''venue_comparison'', comparison)] \<and> keys_ok dex \<and> keys_ok comparison"
  using assms dex_report_keys comparison_keys by (auto simp: mezo_sections_def rbind_eq_Inr reraise_eq_Inr)

lemma report_source_keys: "report_source evidence fill mode created = Inr j \<Longrightarrow> keys_ok mode \<Longrightarrow> keys_ok j"
  by (auto simp: report_source_def Let_def rbind_eq_Inr)

lemma report_calculation_keys: "report_calculation request fill impact = Inr j \<Longrightarrow> keys_ok j"
  by (auto simp: report_calculation_def Let_def rbind_eq_Inr)

lemma report_parts_keys [simp]:
  "keys_ok VERSIONS" "keys_ok (report_identity m)" "keys_ok report_boundaries" "keys_ok (input_files ms)"
  "keys_ok (report_reproducibility res request ms)" "keys_ok stage \<Longrightarrow> keys_ok (report_quality mode stage)"
  by (simp_all add: VERSIONS_def package_version_def report_identity_def report_boundaries_def input_files_def input_file_def
      report_reproducibility_def report_quality_def list_all_iff Let_def)

text \<open>A built report holds its document and the canonical bytes of that document.\<close>

definition report_wf :: "BuiltReport \<Rightarrow> bool" where
  "report_wf built \<longleftrightarrow> keys_ok (br_document built) \<and> canonical_json_bytes (br_document built) = Inr (br_report_bytes built)"

lemma trove_report_wf:
  assumes "build_trove_report res capture request = Inr built"
  shows "report_wf built"
proof -
  have "\<exists>ev risk0 risk state s c alg. trove_evidence capture request = Inr (ev, risk0) \<and> trove_section ev request risk0 = Inr risk
      \<and> br_document built = trove_document res request state risk s c alg
      \<and> canonical_json_bytes (br_document built) = Inr (br_report_bytes built)"
    using assms unfolding build_trove_report_def Let_def rbind_eq_Inr require_eq_Inr by (fastforce simp: rbind_eq_Inr require_eq_Inr)
  then show ?thesis using trove_document_keys trove_section_keys trove_evidence_keys unfolding report_wf_def by metis
qed

lemma market_document_keys:
  assumes "keys_ok stage" "keys_ok source" "keys_ok calculation"
    and "sections = [] \<or> (\<exists>dex comparison. sections = [(''mezo_dex'', dex), (''venue_comparison'', comparison)] \<and> keys_ok dex \<and> keys_ok comparison)"
  shows "keys_ok (market_document res request mapping mode stage source calculation inputs sections)"
  using assms by (auto simp: market_document_def)

definition gives_wf :: "BuiltReport res \<Rightarrow> bool" where
  "gives_wf m \<longleftrightarrow> (\<forall>b. m = Inr b \<longrightarrow> report_wf b)"

lemma gives_wf_intros:
  "(\<And>x. m = Inr x \<Longrightarrow> gives_wf (f x)) \<Longrightarrow> gives_wf (rbind m f)"
  "gives_wf r \<Longrightarrow> gives_wf (require b e r)"
  "(\<And>x. v = Some x \<Longrightarrow> gives_wf (g x)) \<Longrightarrow> gives_wf (case v of None \<Rightarrow> Inl e | Some x \<Rightarrow> g x)"
  "(\<And>x y. p = (x, y) \<Longrightarrow> gives_wf (h x y)) \<Longrightarrow> gives_wf (case p of (x, y) \<Rightarrow> h x y)"
  "report_wf built \<Longrightarrow> gives_wf (Inr built)"
  by (auto simp: gives_wf_def rbind_eq_Inr require_eq_Inr split: option.splits prod.splits)

lemma sections_keys:
  assumes "(case mezo of None \<Rightarrow> Inr ([], []) | Some c \<Rightarrow> mezo_sections res request average c) = Inr (extras, sections)"
  shows "sections = [] \<or> (\<exists>dex comparison. sections = [(''mezo_dex'', dex), (''venue_comparison'', comparison)] \<and> keys_ok dex \<and> keys_ok comparison)"
  using assms mezo_sections_keys by (auto split: option.splits)

lemma market_report_wf:
  assumes "build_inspected_report res evidence request mezo = Inr built"
    and capture: "keys_ok (ii_capture evidence)" and stage: "keys_ok (ii_stage_a evidence)"
  shows "report_wf built"
proof -
  have "gives_wf (build_inspected_report res evidence request mezo)"
    unfolding build_inspected_report_def Let_def
    by (intro gives_wf_intros) (auto simp: report_wf_def intro!: market_document_keys stage sections_keys
        dest: item_keys [OF _ capture] report_source_keys report_calculation_keys)
  then show ?thesis using assms(1) by (simp add: gives_wf_def)
qed

lemma json_ok_keys: "json_ok v \<Longrightarrow> keys_ok v"
  by (induction v) (auto simp: list_all_iff snds.simps)

lemma inspect_members_keys:
  assumes "inspect_members res ms = Inr evidence"
  shows "keys_ok (ii_capture evidence)" "keys_ok (ii_stage_a evidence)"
proof -
  have i: "inspect res ms = Inr evidence" using assms by (auto simp: inspect_members_def keep_rejections_def split: sum.splits py_exc.splits)
  then obtain stage where "json_member ms ''source/capture.json'' = Inr (ii_capture evidence)" "ii_stage_a evidence = stage_document stage"
    unfolding inspect_def rbind_eq_Inr by (fastforce simp: rbind_eq_Inr)
  then show "keys_ok (ii_capture evidence)" "keys_ok (ii_stage_a evidence)"
    using strict_json_ok json_ok_keys by (auto simp: json_member_def rbind_eq_Inr stage_document_def list_all_iff split: option.splits)
qed

text \<open>\<open>document["report_id"]\<close> is the identity of the request.\<close>

lemma report_wf_same_document:
  assumes "report_wf a" "report_wf b" "br_report_bytes a = br_report_bytes b"
  shows "canon (br_document a) = canon (br_document b)"
  using assms strict_json_canonical canonical_json_ok unfolding report_wf_def by (metis sum.inject(2))

end
