(* ===== verification/VerifyBundle.thy ===== *)
theory VerifyBundle
  imports MarketReport "HOL-Library.Multiset"
begin

section \<open>Verifying bundles (\<open>verify_bundle_bytes\<close> of \<open>evidence_bundle.py\<close>)\<close>

text \<open>
  The offline verifier: the archive is opened, the manifest binds its members, and the report is
  built again from them. A bundle is accepted only when the rebuilt report, algorithm, dependencies
  and the bundle made of them are byte for byte those of the archive.
\<close>

definition bundle_item_ok :: "members \<Rightarrow> json \<Rightarrow> unit res" where
  "bundle_item_ok ms entry =
     rbind (item entry ''path'') (\<lambda>p.
     rbind (case p of JStr path \<Rightarrow> member_bytes_of ms path | _ \<Rightarrow> Inl KeyError) (\<lambda>content.
     rbind (item entry ''length'') (\<lambda>n.
     rbind (item entry ''sha256'') (\<lambda>h.
     require (\<not> (\<not> equals_int n (int (length content)) \<or> h \<noteq> JStr (digest content))) rejected_dataset (Inr ())))))"

definition verify_manifest_members :: "members \<Rightarrow> json \<Rightarrow> unit res" where
  "verify_manifest_members ms manifest =
     rbind (item manifest ''members'') (\<lambda>declared.
     case declared of
       JList items \<Rightarrow>
         rbind (rmap (\<lambda>i. item i ''path'') items) (\<lambda>paths.
         require (\<not> paths \<noteq> map JStr (sort (filter (\<lambda>n. n \<noteq> ''manifest.json'') (map fst ms)))) rejected_dataset (
         rbind (rmap (bundle_item_ok ms) items) (\<lambda>_. Inr ())))
     | _ \<Rightarrow> Inl TypeError)"

definition verify_report_bytes :: "members \<Rightarrow> json \<Rightarrow> string option \<Rightarrow> (string \<times> json) list res" where
  "verify_report_bytes ms manifest expected =
     rbind (member_bytes_of ms ''report.json'') (\<lambda>raw.
     rbind (strict_json raw) (\<lambda>report.
     case report of
       JObj d \<Rightarrow>
         rbind (item manifest ''report_sha256'') (\<lambda>h.
         require (\<not> (h \<noteq> JStr (digest raw) \<or> (expected \<noteq> None \<and> expected \<noteq> Some (digest raw)))) rejected_dataset (
         rbind (canonical_json_bytes report) (\<lambda>again.
         require (\<not> again \<noteq> raw) rejected_dataset (Inr d))))
     | _ \<Rightarrow> Inl rejected_dataset))"

text \<open>The rebuilt report has to give the same bytes everywhere.\<close>

definition same_bytes :: "Resources \<Rightarrow> members \<Rightarrow> string \<Rightarrow> BuiltReport \<Rightarrow> BuiltReport res" where
  "same_bytes res ms raw rebuilt =
     rbind (rmap (member_bytes_of ms) [''report.json'', ''algorithm.json'', ''runtime-dependencies.txt'']) (\<lambda>bs.
     require (\<not> (br_report_bytes rebuilt \<noteq> bs ! 0 \<or> br_algorithm_bytes rebuilt \<noteq> bs ! 1 \<or> br_dependency_bytes rebuilt \<noteq> bs ! 2)) rejected_dataset (
     rbind (build_bundle res rebuilt) (\<lambda>again.
     require (\<not> again \<noteq> raw) rejected_dataset (Inr rebuilt))))"

definition request_of_report :: "json \<Rightarrow> ReportRequest res" where
  "request_of_report report =
     rbind (rbind (rbind (item report ''report_id'') evidence_identifier) uuid_of_str) (\<lambda>u.
     rbind (rbind (rbind (item report ''request'') (\<lambda>r. item r ''side'')) side_of_json) (\<lambda>s.
     rbind (rbind (item report ''request'') (\<lambda>r. item r ''quantity_base'')) (\<lambda>qv.
     rbind (case qv of JStr t \<Rightarrow> exact_parse t | _ \<Rightarrow> Inl ExactError) (\<lambda>q.
     rbind (rbind (item report ''reproducibility'') (\<lambda>r. item r ''engine_commit'')) (\<lambda>e.
     rbind (rbind (rbind (item report ''source'') (\<lambda>r. item r ''created_at'')) timestamp_ms) (\<lambda>c.
     report_request u s q e (Some c)))))))"

text \<open>The members below \<open>sealed-input/\<close>, without that prefix, and those of the exchange.\<close>

definition sealed_inputs :: "members \<Rightarrow> members" where
  "sealed_inputs ms = map (\<lambda>(n, raw). (drop (length ''sealed-input/'') n, raw)) (filter (\<lambda>(n, raw). prefix ''sealed-input/'' n) ms)"

definition dex_extras :: "members \<Rightarrow> members" where
  "dex_extras ms = filter (\<lambda>(n, raw). n \<in> set DEX_NAMES) ms"

definition rebuild_market_members :: "Resources \<Rightarrow> members \<Rightarrow> json \<Rightarrow> BuiltReport res" where
  "rebuild_market_members res ms report =
     rbind (validate res ''report.schema.json'' report) (\<lambda>_.
     rbind (json_member ms ''algorithm.json'') (\<lambda>algorithm.
     rbind (validate res ''algorithm.schema.json'' algorithm) (\<lambda>_.
     rbind (inspect_members res (sealed_inputs ms)) (\<lambda>inspected.
     rbind (request_of_report report) (\<lambda>request.
     let extras = dex_extras ms in
     require (\<not> (extras \<noteq> [] \<and> fst ` set extras \<noteq> set DEX_NAMES)) (EvidenceRejected ''MEZO_DEX_INVALID_EVIDENCE'') (
     rbind (if extras = [] then Inr None
            else rbind (json_member extras ''mezo-dex/capture.json'') (\<lambda>c. Inr (Some c))) (\<lambda>mezo_capture.
     build_inspected_report res inspected request mezo_capture)))))))"

definition bundle_caught :: "py_exc \<Rightarrow> bool" where
  "bundle_caught e \<longleftrightarrow> e \<in> {BadZipFile, OSError, FileExistsError, TypeError, KeyError, RuntimeError} \<or> is_value_error e"

definition verify_bundle_bytes :: "Resources \<Rightarrow> string \<Rightarrow> string option \<Rightarrow> BuiltReport res" where
  "verify_bundle_bytes res raw expected =
     keep_rejections bundle_caught (
       rbind (read_archive raw) (\<lambda>ms.
       rbind (json_member ms ''manifest.json'') (\<lambda>manifest.
       rbind (validate res ''bundle-manifest.schema.json'' manifest) (\<lambda>_.
       rbind (canonical_json_bytes manifest) (\<lambda>again.
       rbind (member_bytes_of ms ''manifest.json'') (\<lambda>manifest_bytes.
       require (\<not> again \<noteq> manifest_bytes) rejected_dataset (
       rbind (verify_manifest_members ms manifest) (\<lambda>_.
       rbind (verify_report_bytes ms manifest expected) (\<lambda>report.
       if jget report ''schema'' = JStr ''liqvera-trove-risk-report/v1''
       then rbind (rebuild_trove_members res ms) (same_bytes res ms raw)
       else rbind (rebuild_market_members res ms (JObj report)) (same_bytes res ms raw))))))))))"

subsection \<open>What an accepted bundle guarantees\<close>

lemma keep_rejections_Inr [simp]: "keep_rejections p m = Inr x \<longleftrightarrow> m = Inr x"
  by (cases m) (auto simp: keep_rejections_def split: py_exc.splits)

lemma same_bytes_Inr:
  assumes "same_bytes res ms raw rebuilt = Inr b"
  shows "b = rebuilt" "build_bundle res rebuilt = Inr raw"
  using assms by (auto simp: same_bytes_def rbind_eq_Inr require_eq_Inr)

lemma verify_report_bytes_Inr:
  assumes "verify_report_bytes ms manifest expected = Inr d"
  shows "\<exists>raw. member_bytes_of ms ''report.json'' = Inr raw \<and> (expected = None \<or> expected = Some (digest raw))"
proof -
  obtain raw v where raw: "member_bytes_of ms ''report.json'' = Inr raw" "strict_json raw = Inr v"
    using assms unfolding verify_report_bytes_def rbind_eq_Inr by blast
  then show ?thesis using assms by (cases v) (auto simp: verify_report_bytes_def rbind_eq_Inr require_eq_Inr)
qed

lemma verified_bundle:
  assumes "verify_bundle_bytes res raw expected = Inr b"
  shows "build_bundle res b = Inr raw" "digest (br_report_bytes b) = br_report_sha256 b"
    and "case expected of None \<Rightarrow> True | Some h \<Rightarrow> h = br_report_sha256 b"
    and "\<exists>ms. read_archive raw = Inr ms \<and> (rebuild_trove_members res ms = Inr b \<or> (\<exists>report. rebuild_market_members res ms report = Inr b))"
proof -
  obtain ms manifest report where ms: "read_archive raw = Inr ms" and rep: "verify_report_bytes ms manifest expected = Inr report"
    and r: "(if jget report ''schema'' = JStr ''liqvera-trove-risk-report/v1'' then rbind (rebuild_trove_members res ms) (same_bytes res ms raw)
       else rbind (rebuild_market_members res ms (JObj report)) (same_bytes res ms raw)) = Inr b"
    using assms unfolding verify_bundle_bytes_def keep_rejections_Inr rbind_eq_Inr require_eq_Inr by blast
  obtain rebuilt where rb: "rebuild_trove_members res ms = Inr rebuilt \<or> rebuild_market_members res ms (JObj report) = Inr rebuilt"
    and sb: "same_bytes res ms raw rebuilt = Inr b"
    using r by (auto simp: rbind_eq_Inr split: if_splits)
  show bb: "build_bundle res b = Inr raw" using same_bytes_Inr [OF sb] by simp
  then show dg: "digest (br_report_bytes b) = br_report_sha256 b" by (simp add: build_bundle_def require_eq_Inr)
  obtain rb0 where m: "member_bytes_of ms ''report.json'' = Inr rb0" "expected = None \<or> expected = Some (digest rb0)"
    using verify_report_bytes_Inr [OF rep] by blast
  moreover have "br_report_bytes b = rb0" using sb m(1) same_bytes_Inr [OF sb] by (auto simp: same_bytes_def rbind_eq_Inr require_eq_Inr)
  ultimately show "case expected of None \<Rightarrow> True | Some h \<Rightarrow> h = br_report_sha256 b" using dg by auto
  show "\<exists>ms. read_archive raw = Inr ms \<and> (rebuild_trove_members res ms = Inr b \<or> (\<exists>report. rebuild_market_members res ms report = Inr b))"
    using ms rb same_bytes_Inr(1) [OF sb] by blast
qed

subsection \<open>Every bundle that is built is accepted\<close>

lemma map_fst_sort_key: "map fst (sort_key fst xs) = sort (map fst xs)"
  by (rule sym, rule properties_for_sort) simp_all

lemma map_of_sort_key: "distinct (map fst xs) \<Longrightarrow> map_of (sort_key fst xs) = map_of xs"
  by (rule map_of_inject_set [THEN iffD2]) (simp_all add: map_fst_sort_key)

lemma zip_members_sort: "zip_members (sort_key fst ms) = zip_members ms"
proof -
  have "mset (map (\<lambda>(n, raw). length raw) (sort_key fst ms)) = mset (map (\<lambda>(n, raw). length raw) ms)" by simp
  then have "sum_list (map (\<lambda>(n, raw). length raw) (sort_key fst ms)) = sum_list (map (\<lambda>(n, raw). length raw) ms)"
    by (metis sum_mset_sum_list)
  moreover have "sort_key fst (sort_key fst ms) = sort_key fst ms" by (rule sort_key_id_if_sorted) simp
  ultimately show ?thesis by (simp add: zip_members_def)
qed

text \<open>An archive determines its members, even those that the reader refuses.\<close>

definition archived :: "string \<Rightarrow> members res" where
  "archived raw =
     (let e = drop (length raw - 22) raw
      in rbind (infolist (take (le_at e 12 4) (drop (le_at e 16 4) raw))) (rmap (read_body raw)))"

lemma archived_zip:
  assumes "zip_members ms = Inr raw"
  shows "archived raw = Inr (sort_key fst ms)"
proof -
  define xs where "xs = sort_key fst ms"
  have zip: "zip_members xs = Inr raw" and srt: "sorted (map fst xs)"
    using assms zip_members_sort [of ms] by (simp_all add: xs_def)
  note z = zip_sorted [OF zip srt]
  have small: "list_all small_member xs"
    using z(5) allowed_names_safe by (auto simp: list_all_iff small_member_def MAX_MEMBER_BYTES_def dest!: bspec)
  let ?L = "local_part xs" and ?C = "central_part 0 xs"
  let ?E = "end_record (length xs) (length ?C) (length ?L)"
  have raw: "raw = ?L @ ?C @ ?E" using z(1) archive_layout by simp
  have lens: "length xs < 65536" "length ?C < 4294967296" "length ?L < 4294967296"
    using z(2,4) raw by (auto simp: MAX_MEMBERS_def MAX_BUNDLE_BYTES_def)
  have tail: "drop (length raw - 22) raw = ?E" using raw by simp
  have "infolist (take (length ?C) (drop (length ?L) raw)) = Inr (infos_of 0 xs)"
    using infolist_central [OF small, of 0] lens(3) raw by simp
  moreover have "rmap (read_body raw) (infos_of 0 xs) = Inr xs"
    using read_bodies_written [of raw "[]" xs] raw by simp
  ultimately show ?thesis unfolding archived_def Let_def tail end_fields [OF lens] by (simp add: xs_def)
qed

lemma bundle_archive:
  assumes "build_bundle res built = Inr raw" and "read_archive raw = Inr ms" and "k \<noteq> ''manifest.json''"
  shows "map_of ms k = map_of (bundle_members built) k"
proof -
  obtain mb where zip: "zip_members (AList.update ''manifest.json'' mb (bundle_members built)) = Inr raw"
    using assms(1) by (auto simp: build_bundle_def require_eq_Inr rbind_eq_Inr)
  have ar: "zip_members ms = Inr raw" "archivable ms" using assms(2) by (simp_all add: ar.accepted)
  then have "sort_key fst ms = ms" by (intro sort_key_id_if_sorted) (simp add: archivable_def)
  then have ms: "ms = sort_key fst (AList.update ''manifest.json'' mb (bundle_members built))"
    using archived_zip [OF zip] archived_zip [OF ar(1)] by simp
  have "distinct (map fst ms)" using ar(2) by (simp add: archivable_def)
  then have "distinct (map fst (AList.update ''manifest.json'' mb (bundle_members built)))"
    unfolding ms by (simp add: map_fst_sort_key)
  then show ?thesis using assms(3) by (simp add: ms map_of_sort_key update_conv')
qed

lemma canonical_json_bytes_canon:
  "json_ok v \<Longrightarrow> canonical_json_bytes (canon v) = canonical_json_bytes v"
  using dumps_canon [of v False] require_json_ok canon_idem by (simp add: canonical_json_bytes_def)

lemma canonical_json_bytes_nonempty: "canonical_json_bytes v = Inr b \<Longrightarrow> b \<noteq> []"
proof
  assume b: "canonical_json_bytes v = Inr b" "b = []"
  then obtain t where "utf8_encode (t @ [CHR 0x0A]) = []" by (auto simp: canonical_json_bytes_def rbind_eq_Inr)
  then show False using utf8_roundtrip [of "t @ [CHR 0x0A]"] by simp
qed

lemma bundle_manifest_keys: "keys_ok (bundle_manifest built)"
  by (auto simp: bundle_manifest_def bundle_entry_def list_all_iff)

lemma bundle_entry_items [simp]:
  "item (canon (bundle_entry m)) ''path'' = Inr (JStr (fst m))"
  "item (canon (bundle_entry m)) ''length'' = Inr (JInt (int (length (snd m))))"
  "item (canon (bundle_entry m)) ''sha256'' = Inr (JStr (digest (snd m)))"
  unfolding bundle_entry_def by (subst jindex_canon; simp add: jindex_def)+

lemma bundle_manifest_items:
  "item (canon (bundle_manifest built)) ''members'' = Inr (JList (map (canon \<circ> bundle_entry) (sort_key fst (bundle_members built))))"
  "item (canon (bundle_manifest built)) ''report_sha256'' = Inr (JStr (br_report_sha256 built))"
  unfolding bundle_manifest_def by (subst jindex_canon; simp add: jindex_def)+

text \<open>The members of a bundle that the archive can hold.\<close>

definition bundle_ok :: "BuiltReport \<Rightarrow> bool" where
  "bundle_ok built \<longleftrightarrow>
     (let bm = bundle_members built
      in distinct (map fst bm) \<and> ''manifest.json'' \<notin> fst ` set bm \<and> list_all (\<lambda>(n, raw). raw \<noteq> []) bm
         \<and> map_of bm ''report.json'' = Some (br_report_bytes built) \<and> map_of bm ''algorithm.json'' = Some (br_algorithm_bytes built)
         \<and> map_of bm ''runtime-dependencies.txt'' = Some (br_dependency_bytes built))"

lemma bundle_item_accepted:
  assumes "map_of ms (fst m) = Some (snd m)"
  shows "bundle_item_ok ms (canon (bundle_entry m)) = Inr ()"
  using assms by (simp add: bundle_item_ok_def member_bytes_of_def equals_int_def)

lemma bundle_read:
  assumes build: "build_bundle res built = Inr raw" and ok: "bundle_ok built" and res: "resources_ok res"
  obtains ms mb where "read_archive raw = Inr ms" "canonical_json_bytes (bundle_manifest built) = Inr mb"
    "map_of ms = (map_of (bundle_members built))(''manifest.json'' \<mapsto> mb)"
    "verify_manifest_members ms (canon (bundle_manifest built)) = Inr ()"
    "validate res ''bundle-manifest.schema.json'' (canon (bundle_manifest built)) = Inr ()"
proof -
  let ?bm = "bundle_members built" and ?man = "bundle_manifest built"
  obtain mb where mb: "canonical_json_bytes ?man = Inr mb" and zip: "zip_members (AList.update ''manifest.json'' mb ?bm) = Inr raw"
    and val: "validate res ''bundle-manifest.schema.json'' ?man = Inr ()"
    using build by (auto simp: build_bundle_def require_eq_Inr rbind_eq_Inr)
  have jok: "json_ok ?man" by (rule canonical_json_ok [OF mb bundle_manifest_keys])
  note b = ok [unfolded bundle_ok_def Let_def]
  have d: "distinct (map fst ?bm)" "''manifest.json'' \<notin> fst ` set ?bm" "list_all (\<lambda>(n, raw). raw \<noteq> []) ?bm"
    using b by blast+
  have "n \<in> dom (map_of ?bm)" if "n \<in> set OUTER_NAMES" "n \<noteq> ''manifest.json''" for n
    using b that by (auto simp: OUTER_NAMES_def)
  then have outer: "set OUTER_NAMES - {''manifest.json''} \<subseteq> fst ` set ?bm"
    unfolding dom_map_of_conv_image_fst by blast
  define all where "all = ?bm @ [(''manifest.json'', mb)]"
  have upd: "AList.update ''manifest.json'' mb ?bm = all" using d(2) by (simp add: all_def AList_update_new)
  have da: "distinct (map fst all)" using d by (simp add: all_def)
  define ms where "ms = sort_key fst all"
  have "archivable ms"
    using da d(3) outer canonical_json_bytes_nonempty [OF mb]
    by (auto simp: archivable_def ms_def map_fst_sort_key list_all_iff all_def)
  moreover have "zip_members ms = Inr raw" using zip by (simp add: ms_def upd zip_members_sort)
  ultimately have read: "read_archive raw = Inr ms" by (intro ar.decode_encode)
  have mo: "map_of ms = (map_of ?bm)(''manifest.json'' \<mapsto> mb)"
    using map_of_sort_key [OF da] AList.update_conv' [of "''manifest.json''" mb ?bm] by (simp add: ms_def upd)
  have "map fst (sort_key fst ?bm) = sort (filter (\<lambda>n. n \<noteq> ''manifest.json'') (map fst ms))"
  proof -
    have "filter (\<lambda>n. n \<noteq> ''manifest.json'') (map fst all) = map fst ?bm"
      using d(2) by (simp add: all_def filter_id_conv image_iff) metis
    then show ?thesis by (simp add: ms_def map_fst_sort_key filter_sort sort_key_id_if_sorted)
  qed
  moreover have "map_of ms (fst m) = Some (snd m)" if "m \<in> set ?bm" for m
    using that d(1,2) by (auto simp: mo rev_image_eqI)
  then have "rmap (bundle_item_ok ms) (map (canon \<circ> bundle_entry) (sort_key fst ?bm)) = Inr (map (\<lambda>_. ()) (sort_key fst ?bm))"
    by (auto simp: rmap_map intro!: rmap_total bundle_item_accepted)
  moreover have "rmap (\<lambda>i. item i ''path'') (map (canon \<circ> bundle_entry) (sort_key fst ?bm)) = Inr (map JStr (map fst (sort_key fst ?bm)))"
    unfolding rmap_map map_map by (rule rmap_total) simp
  ultimately have "verify_manifest_members ms (canon ?man) = Inr ()"
    by (simp add: verify_manifest_members_def bundle_manifest_items)
  moreover have "validate res ''bundle-manifest.schema.json'' (canon ?man) = Inr ()"
    using val res jok by (simp add: validate_def resources_ok_def require_eq_Inr)
  ultimately show ?thesis using that read mb mo by blast
qed

text \<open>What the verifier reads back of a report whose document is written canonically.\<close>

lemma report_read:
  assumes "canonical_json_bytes doc = Inr (br_report_bytes built)" and "json_ok doc" and "doc = JObj d"
    and "br_report_sha256 built = digest (br_report_bytes built)" and "map_of ms ''report.json'' = Some (br_report_bytes built)"
  shows "\<exists>report. canon doc = JObj report \<and> jget report k = (case map_of d k of None \<Rightarrow> JNull | Some v \<Rightarrow> canon v)
    \<and> verify_report_bytes ms (canon (bundle_manifest built)) (Some (br_report_sha256 built)) = Inr report"
proof -
  obtain report where c: "canon doc = JObj report" using assms(3) by simp
  have "distinct (map fst d)" using assms(2,3) by simp
  then have "item (JObj report) k = rbind (jindex d k) (\<lambda>v. Inr (canon v))" using jindex_canon [of d k] c assms(3) by simp
  then have "jget report k = (case map_of d k of None \<Rightarrow> JNull | Some v \<Rightarrow> canon v)"
    by (auto simp: item_def jindex_def jget_def split: option.splits)
  moreover have "verify_report_bytes ms (canon (bundle_manifest built)) (Some (br_report_sha256 built)) = Inr report"
    using assms(1,4,5) strict_json_canonical [OF assms(2,1)] canonical_json_bytes_canon [OF assms(2)] c
    by (simp add: verify_report_bytes_def member_bytes_of_def bundle_manifest_items)
  ultimately show ?thesis using c by blast
qed

lemma same_bytes_rebuilt:
  assumes "build_bundle res built = Inr raw" and "bundle_ok built" and "map_of ms = (map_of (bundle_members built))(''manifest.json'' \<mapsto> mb)"
  shows "same_bytes res ms raw built = Inr built"
proof -
  note b = assms(2) [unfolded bundle_ok_def Let_def]
  have "rmap (member_bytes_of ms) [''report.json'', ''algorithm.json'', ''runtime-dependencies.txt'']
      = Inr [br_report_bytes built, br_algorithm_bytes built, br_dependency_bytes built]"
    using b by (simp add: member_bytes_of_def assms(3))
  then show ?thesis using assms(1) by (simp add: same_bytes_def)
qed

text \<open>The step of the proof that no kind of report repeats: all but the rebuilding is accepted.\<close>

lemma built_bundle_verified:
  assumes build: "build_bundle res built = Inr raw" and ok: "bundle_ok built" and res: "resources_ok res"
    and doc: "canonical_json_bytes (JObj d) = Inr (br_report_bytes built)" "json_ok (JObj d)"
    and rebuild: "\<And>ms mb report. map_of ms = (map_of (bundle_members built))(''manifest.json'' \<mapsto> mb) \<Longrightarrow> canon (JObj d) = JObj report \<Longrightarrow>
      (if map_of d ''schema'' = Some (JStr ''liqvera-trove-risk-report/v1'') then rebuild_trove_members res ms
       else rebuild_market_members res ms (JObj report)) = Inr built"
  shows "verify_bundle_bytes res raw (Some (br_report_sha256 built)) = Inr built"
proof -
  obtain ms mb where ms: "read_archive raw = Inr ms" "canonical_json_bytes (bundle_manifest built) = Inr mb"
    "map_of ms = (map_of (bundle_members built))(''manifest.json'' \<mapsto> mb)"
    "verify_manifest_members ms (canon (bundle_manifest built)) = Inr ()"
    "validate res ''bundle-manifest.schema.json'' (canon (bundle_manifest built)) = Inr ()"
    using bundle_read [OF build ok res] by blast
  have jok: "json_ok (bundle_manifest built)" by (rule canonical_json_ok [OF ms(2) bundle_manifest_keys])
  have man: "map_of ms ''manifest.json'' = Some mb" "strict_json mb = Inr (canon (bundle_manifest built))"
    "canonical_json_bytes (canon (bundle_manifest built)) = Inr mb"
    using ms(2,3) strict_json_canonical [OF jok] canonical_json_bytes_canon [OF jok] by simp_all
  have sha: "br_report_sha256 built = digest (br_report_bytes built)" using build by (simp add: build_bundle_def require_eq_Inr)
  have "map_of ms ''report.json'' = Some (br_report_bytes built)" using ok by (simp add: ms(3) bundle_ok_def Let_def)
  then obtain report where rep: "canon (JObj d) = JObj report"
    "jget report ''schema'' = (case map_of d ''schema'' of None \<Rightarrow> JNull | Some v \<Rightarrow> canon v)"
    "verify_report_bytes ms (canon (bundle_manifest built)) (Some (br_report_sha256 built)) = Inr report"
    using report_read [OF doc refl sha, of ms "''schema''"] by blast
  have "canon v = JStr t \<longleftrightarrow> v = JStr t" for v t by (cases v) auto
  then have "jget report ''schema'' = JStr t \<longleftrightarrow> map_of d ''schema'' = Some (JStr t)" for t
    using rep(2) by (auto split: option.splits)
  then show ?thesis
    using rebuild [OF ms(3) rep(1)] same_bytes_rebuilt [OF build ok ms(3)] ms man rep(3)
    by (auto simp: verify_bundle_bytes_def json_member_def member_bytes_of_def split: if_splits)
qed

lemma trove_members:
  assumes "trove_extras res capture = Inr extras"
  shows "\<exists>c calls. canonical_json_bytes capture = Inr c \<and> c \<noteq> [] \<and> calls \<noteq> []
    \<and> extras = [(''mezo-troves/capture.json'', c), (''mezo-troves/calls.json'', calls)]
        @ map (\<lambda>n. (''mezo-troves/'' @ n, abi_resource res n)) TROVE_ABIS"
proof -
  obtain v c calls where "canonical_json_bytes capture = Inr c" "canonical_json_bytes v = Inr calls"
    "extras = [(''mezo-troves/capture.json'', c), (''mezo-troves/calls.json'', calls)]
        @ map (\<lambda>n. (''mezo-troves/'' @ n, abi_resource res n)) TROVE_ABIS"
    using assms unfolding trove_extras_def rbind_eq_Inr by blast
  then show ?thesis using canonical_json_bytes_nonempty by blast
qed

lemma trove_bundle_ok:
  assumes ex: "trove_extras res capture = Inr (br_extra_members built)" and res: "resources_ok res"
    and b: "br_input_members built = []" "br_dependency_bytes built = runtime_dependencies res"
      "br_report_bytes built \<noteq> []" "br_algorithm_bytes built \<noteq> []"
  shows "bundle_ok built"
    and "map_of (bundle_members built) ''mezo-troves/capture.json'' = map_of (br_extra_members built) ''mezo-troves/capture.json''"
proof -
  obtain c calls where e: "c \<noteq> []" "calls \<noteq> []" "br_extra_members built = [(''mezo-troves/capture.json'', c), (''mezo-troves/calls.json'', calls)]
        @ map (\<lambda>n. (''mezo-troves/'' @ n, abi_resource res n)) TROVE_ABIS"
    using trove_members [OF ex] by blast
  have m: "bundle_members built = [(''report.json'', br_report_bytes built), (''algorithm.json'', br_algorithm_bytes built),
      (''runtime-dependencies.txt'', runtime_dependencies res)] @ br_extra_members built"
    by (simp add: bundle_members_def dict_update_def b e(3) TROVE_ABIS_def)
  show "bundle_ok built" using res b e(1,2) by (simp add: bundle_ok_def Let_def m e(3) TROVE_ABIS_def resources_ok_def)
  show "map_of (bundle_members built) ''mezo-troves/capture.json'' = map_of (br_extra_members built) ''mezo-troves/capture.json''"
    by (simp add: m)
qed

lemma trove_bundle_accepted:
  assumes built: "build_trove_report res capture request = Inr built" and cap: "canonical_json capture"
    and req: "trove_request_ok request" and res: "resources_ok res" and build: "build_bundle res built = Inr raw"
  shows "verify_bundle_bytes res raw (Some (br_report_sha256 built)) = Inr built"
proof -
  obtain ev risk0 risk alg s c doc extras where ev: "trove_evidence capture request = Inr (ev, risk0)"
    and sec: "trove_section ev request risk0 = Inr risk" and alg: "canonical_json_bytes (trove_algorithm res request) = Inr alg"
    and d: "doc = trove_document res request (snapshot_status request (te_block_timestamp ev * 1000)) risk s c alg"
      "canonical_json_bytes doc = Inr (br_report_bytes built)"
    and ex: "trove_extras res capture = Inr (br_extra_members built)"
    and b: "br_input_members built = []" "br_dependency_bytes built = runtime_dependencies res" "br_algorithm_bytes built = alg"
    using built unfolding build_trove_report_def Let_def rbind_eq_Inr require_eq_Inr by (auto simp: rbind_eq_Inr require_eq_Inr)
  have jok: "json_ok doc"
    using canonical_json_ok [OF d(2)] trove_document_keys [OF trove_section_keys [OF sec trove_evidence_keys [OF ev]]] d(1) by simp
  obtain fs where fs: "doc = JObj fs" "map_of fs ''schema'' = Some (JStr ''liqvera-trove-risk-report/v1'')"
    using d(1) by (simp add: trove_document_def)
  note ok = trove_bundle_ok [OF ex res b(1,2) canonical_json_bytes_nonempty [OF d(2)]]
  have ne: "br_algorithm_bytes built \<noteq> []" using canonical_json_bytes_nonempty [OF alg] b(3) by simp
  note m = ok(1) [OF ne, unfolded bundle_ok_def Let_def]
  show ?thesis
  proof (rule built_bundle_verified [OF build ok(1) [OF ne] res])
    fix ms mb report
    assume ms: "map_of ms = (map_of (bundle_members built))(''manifest.json'' \<mapsto> mb)"
    have "rebuild_trove_members res ms = Inr built"
      by (rule rebuild_trove [OF built cap req res]) (use m ok(2) [OF ne] in \<open>simp_all add: ms\<close>)
    then show "(if map_of fs ''schema'' = Some (JStr ''liqvera-trove-risk-report/v1'') then rebuild_trove_members res ms
       else rebuild_market_members res ms (JObj report)) = Inr built" using fs(2) by simp
  qed (use d(2) jok fs(1) in simp_all)
qed

lemma uuid_of_json_bound: "uuid_of_json v = Inr u \<Longrightarrow> uuid_int u < 2 ^ 128"
  by (cases v) (auto simp: uuid_of_json_def uuid_of_str_def Let_def rbind_eq_Inr require_eq_Inr)

subsection \<open>The properties of the verifier\<close>

text \<open>
  C4. A bundle that the offline verifier accepts is exactly the bundle of the report that it returns,
  byte for byte; the digest of the report is that of its bytes and, when the caller expects one, the
  expected one; and the report was computed again from nothing but the members of the archive, either
  as a trove report or as a market report.
\<close>

theorem verified_bundle_sound:
  "case verify_bundle_bytes res raw expected of
     Inl _ \<Rightarrow> True
   | Inr b \<Rightarrow> build_bundle res b = Inr raw \<and> digest (br_report_bytes b) = br_report_sha256 b
       \<and> (case expected of None \<Rightarrow> True | Some h \<Rightarrow> h = br_report_sha256 b)
       \<and> (\<exists>ms. read_archive raw = Inr ms \<and> zip_members ms = Inr raw
            \<and> (rebuild_trove_members res ms = Inr b \<or> (\<exists>report. rebuild_market_members res ms report = Inr b)))"
proof (cases "verify_bundle_bytes res raw expected")
  case (Inr b)
  note v = verified_bundle [OF Inr]
  then obtain ms where "read_archive raw = Inr ms" "zip_members ms = Inr raw"
    "rebuild_trove_members res ms = Inr b \<or> (\<exists>report. rebuild_market_members res ms report = Inr b)"
    using ar.encode_decode by blast
  then show ?thesis using v(1,2,3) Inr by auto
qed simp



end
