(* ===== verification/Artifacts.thy ===== *)
theory Artifacts
  imports VerifyBundle
begin

section \<open>Published artifacts (\<open>evidence_bundle.py\<close>)\<close>

text \<open>
  A finished report is published as a directory under its identity that holds the report and the
  bundle. It is written next to its place, verified, and renamed into it; it is never changed
  afterwards, only deleted. All operations on one identity exclude each other by a lock file that is
  never removed.

  The root directory is a value: the operations of one call see no other change of it, and the system
  calls that the code does not expect to fail do not fail. What other processes do is seen through
  the locks that they hold. Inode numbers do not change within a call, so the comparisons of device
  and inode hold.
\<close>

datatype dir_entry =
    ArtFile string nat
  | ArtDir "(string \<times> dir_entry) list"
  | ArtLink
  | ArtSpecial

text \<open>The number of a file is the count of its hard links; \<open>ArtSpecial\<close> is a pipe or a device.\<close>

record ArtifactRoot =
  ar_absolute :: bool
  ar_symlink :: bool
  ar_is_dir :: bool
  ar_entries :: "(string \<times> dir_entry) list"
  ar_held :: "string list"

record PublishedArtifact =
  pa_report_id :: string
  pa_report_sha256 :: string
  pa_bundle_sha256 :: string
  pa_report_size_bytes :: nat
  pa_bundle_size_bytes :: nat

abbreviation integrity_failed :: py_exc where
  "integrity_failed \<equiv> EvidenceRejected ''ARTIFACT_INTEGRITY_FAILED''"

definition lock_name :: "string \<Rightarrow> string" where
  "lock_name report_id = ''.'' @ report_id @ ''.lock''"

subsection \<open>Operations\<close>

text \<open>Opening creates the lock file when it is absent; links and directories cannot be opened.\<close>

definition open_report_lock :: "string \<Rightarrow> ArtifactRoot \<Rightarrow> ArtifactRoot \<times> unit res" where
  "open_report_lock name dir =
     (let flock = require (name \<notin> set (ar_held dir)) FileExistsError (Inr ()) in
      case map_of (ar_entries dir) name of
        None \<Rightarrow> (dir\<lparr>ar_entries := AList.update name (ArtFile [] 1) (ar_entries dir)\<rparr>, flock)
      | Some (ArtFile raw links) \<Rightarrow> (dir, require (\<not> links \<noteq> 1) integrity_failed flock)
      | Some ArtSpecial \<Rightarrow> (dir, Inl integrity_failed)
      | Some _ \<Rightarrow> (dir, Inl OSError))"

definition verify_bundle :: "Resources \<Rightarrow> dir_entry option \<Rightarrow> string option \<Rightarrow> BuiltReport res" where
  "verify_bundle res entry expected =
     (case entry of
        Some (ArtFile raw links) \<Rightarrow> verify_bundle_bytes res (take (MAX_BUNDLE_BYTES + 1) raw) expected
      | _ \<Rightarrow> Inl rejected_dataset)"

text \<open>One file of the staging directory: created exclusively, written, and read back.\<close>

definition stage_file :: "(string \<times> dir_entry) list \<Rightarrow> string \<times> string \<Rightarrow> (string \<times> dir_entry) list res" where
  "stage_file staging file =
     (case file of (name, content) \<Rightarrow>
        require (map_of staging name = None) FileExistsError (
        let staging = staging @ [(name, ArtFile content 1)] in
        case map_of staging name of
          Some (ArtFile back links) \<Rightarrow> require (\<not> digest back \<noteq> digest content) integrity_failed (Inr staging)
        | _ \<Rightarrow> Inl OSError))"

text \<open>What happens under the lock; the staging directory is removed when anything fails.\<close>

definition publish_locked :: "Resources \<Rightarrow> ArtifactRoot \<Rightarrow> string \<Rightarrow> BuiltReport \<Rightarrow> ((string \<times> dir_entry) list \<times> PublishedArtifact) res" where
  "publish_locked res dir report_id built =
     require (map_of (ar_entries dir) report_id = None) FileExistsError (
     rbind (build_bundle res built) (\<lambda>bundle.
     rbind (rfold stage_file [] [(''report.json'', br_report_bytes built), (''evidence.zip'', bundle)]) (\<lambda>staging.
     rbind (verify_bundle res (map_of staging ''evidence.zip'') (Some (br_report_sha256 built))) (\<lambda>_.
     require (map_of (ar_entries dir) report_id = None) FileExistsError (
     Inr (staging, \<lparr>pa_report_id = report_id, pa_report_sha256 = br_report_sha256 built, pa_bundle_sha256 = digest bundle,
        pa_report_size_bytes = length (br_report_bytes built), pa_bundle_size_bytes = length bundle\<rparr>))))))"

definition publish_artifact :: "Resources \<Rightarrow> ArtifactRoot \<Rightarrow> BuiltReport \<Rightarrow> ArtifactRoot \<times> PublishedArtifact res" where
  "publish_artifact res dir built =
     (case rbind (item (br_document built) ''report_id'') evidence_identifier of
        Inl e \<Rightarrow> (dir, Inl e)
      | Inr report_id \<Rightarrow>
          if \<not> ar_absolute dir \<or> ar_symlink dir \<or> \<not> ar_is_dir dir then (dir, Inl (EvidenceRejected ''STORAGE_UNAVAILABLE''))
          else case open_report_lock (lock_name report_id) dir of
            (dir, Inl e) \<Rightarrow> (dir, Inl e)
          | (dir, Inr _) \<Rightarrow>
              (case publish_locked res dir report_id built of
                 Inl e \<Rightarrow> (dir, Inl e)
               | Inr (staging, artifact) \<Rightarrow>
                   (dir\<lparr>ar_entries := AList.update report_id (ArtDir staging) (ar_entries dir)\<rparr>, Inr artifact)))"

definition read_published :: "Resources \<Rightarrow> ArtifactRoot \<Rightarrow> string \<Rightarrow> (BuiltReport \<times> PublishedArtifact) res" where
  "read_published res dir report_id =
     rbind (evidence_identifier (JStr report_id)) (\<lambda>_.
     case (if ar_is_dir dir then map_of (ar_entries dir) report_id else None) of
       Some (ArtDir files) \<Rightarrow>
         require (\<not> fst ` set files \<noteq> {''report.json'', ''evidence.zip''}) integrity_failed (
         rbind (verify_bundle res (map_of files ''evidence.zip'') None) (\<lambda>built.
         rbind (case map_of files ''report.json'' of
                  Some (ArtFile raw links) \<Rightarrow> Inr (take (MAX_MEMBER_BYTES + 1) raw)
                | Some ArtSpecial \<Rightarrow> Inl integrity_failed
                | _ \<Rightarrow> Inl OSError) (\<lambda>report_bytes.
         rbind (item (br_document built) ''report_id'') (\<lambda>i.
         require (\<not> (i \<noteq> JStr report_id \<or> report_bytes \<noteq> br_report_bytes built)) integrity_failed (
         rbind (build_bundle res built) (\<lambda>bundle.
         Inr (built, \<lparr>pa_report_id = report_id, pa_report_sha256 = br_report_sha256 built, pa_bundle_sha256 = digest bundle,
           pa_report_size_bytes = length report_bytes, pa_bundle_size_bytes = length bundle\<rparr>)))))))
     | _ \<Rightarrow> Inl integrity_failed)"

fun is_regular :: "dir_entry \<Rightarrow> bool" where
  "is_regular (ArtFile raw links) = True"
| "is_regular e = False"

text \<open>
  The whole directory is checked before the first file is removed. Each file is looked at again
  right before it is unlinked; the directory is removed last.
\<close>

definition unlink_file :: "(string \<times> dir_entry) list \<Rightarrow> string \<Rightarrow> (string \<times> dir_entry) list res" where
  "unlink_file files name =
     (case map_of files name of
        None \<Rightarrow> Inl OSError
      | Some e \<Rightarrow> require (is_regular e) integrity_failed (Inr (AList.delete name files)))"

definition delete_locked :: "ArtifactRoot \<Rightarrow> string \<Rightarrow> bool res" where
  "delete_locked dir report_id =
     (case map_of (ar_entries dir) report_id of
        None \<Rightarrow> Inr False
      | Some (ArtDir files) \<Rightarrow>
          require (fst ` set files \<subseteq> {''report.json'', ''evidence.zip''}) integrity_failed (
          require (list_all (\<lambda>(name, e). is_regular e) files) integrity_failed (
          rbind (rfold unlink_file files (sort (map fst files))) (\<lambda>left.
          require (left = []) OSError (Inr True))))
      | Some _ \<Rightarrow> Inl integrity_failed)"

definition delete_published :: "ArtifactRoot \<Rightarrow> string \<Rightarrow> ArtifactRoot \<times> bool res" where
  "delete_published dir report_id =
     (case evidence_identifier (JStr report_id) of
        Inl e \<Rightarrow> (dir, Inl e)
      | Inr _ \<Rightarrow>
          if \<not> ar_absolute dir then (dir, Inl (EvidenceRejected ''STORAGE_UNAVAILABLE''))
          else if ar_symlink dir \<or> \<not> ar_is_dir dir then (dir, Inl OSError)
          else case open_report_lock (lock_name report_id) dir of
            (dir, Inl e) \<Rightarrow> (dir, Inl e)
          | (dir, Inr _) \<Rightarrow>
              (case delete_locked dir report_id of
                 Inr True \<Rightarrow> (dir\<lparr>ar_entries := AList.delete report_id (ar_entries dir)\<rparr>, Inr True)
               | r \<Rightarrow> (dir, r)))"

subsection \<open>The store that the root directory stands for\<close>

text \<open>
  Abstractly the root is a finite map from identities to a report and its bundle. An entry counts when
  it is a directory with exactly the two files.
\<close>

definition artifact_of :: "dir_entry \<Rightarrow> (string \<times> string) option" where
  "artifact_of e =
     (case e of
        ArtDir files \<Rightarrow>
          if fst ` set files \<noteq> {''report.json'', ''evidence.zip''} then None
          else (case (map_of files ''report.json'', map_of files ''evidence.zip'') of
                  (Some (ArtFile report _), Some (ArtFile bundle _)) \<Rightarrow> Some (report, bundle)
                | _ \<Rightarrow> None)
      | _ \<Rightarrow> None)"

definition published :: "ArtifactRoot \<Rightarrow> string \<rightharpoonup> string \<times> string" where
  "published dir report_id = Option.bind (map_of (ar_entries dir) report_id) artifact_of"

lemma artifact_of_Some:
  assumes "artifact_of e = Some (report, zb)"
  obtains files l1 l2 where "e = ArtDir files" "fst ` set files = {''report.json'', ''evidence.zip''}"
    "map_of files ''report.json'' = Some (ArtFile report l1)" "map_of files ''evidence.zip'' = Some (ArtFile zb l2)"
proof (cases e)
  case (ArtDir files)
  then show ?thesis
    using assms that by (cases "map_of files ''report.json''"; cases "map_of files ''evidence.zip''")
      (auto simp: artifact_of_def split: if_splits dir_entry.splits)
qed (use assms in \<open>simp_all add: artifact_of_def\<close>)

lemma identifier_Inr: "evidence_identifier v = Inr i \<Longrightarrow> v = JStr i"
  by (cases v) (auto simp: evidence_identifier_def reraise_eq_Inr rbind_eq_Inr require_eq_Inr)

lemma published_update:
  "published (dir\<lparr>ar_entries := AList.update i e (ar_entries dir)\<rparr>) = (published dir)(i := artifact_of e)"
  by (auto simp: published_def update_conv' fun_eq_iff)

lemma published_delete:
  "published (dir\<lparr>ar_entries := AList.delete i (ar_entries dir)\<rparr>) = (published dir)(i := None)"
  by (auto simp: published_def delete_conv' fun_eq_iff)

lemma published_locks [simp]: "published (dir\<lparr>ar_held := h\<rparr>) = published dir"
  by (simp add: published_def fun_eq_iff)

text \<open>The lock file never hides or changes a report.\<close>

lemma open_report_lock_published:
  assumes "open_report_lock name dir = (dir', r)"
  shows "published dir' = published dir" "ar_absolute dir' = ar_absolute dir" "ar_symlink dir' = ar_symlink dir" "ar_is_dir dir' = ar_is_dir dir"
    and "ar_held dir' = ar_held dir"
proof -
  have "published dir name = None" if "map_of (ar_entries dir) name = None" using that by (simp add: published_def)
  then show "published dir' = published dir"
    using assms by (auto simp: open_report_lock_def Let_def published_update artifact_of_def split: option.splits dir_entry.splits)
qed (use assms in \<open>auto simp: open_report_lock_def Let_def split: option.splits dir_entry.splits\<close>)

lemma open_report_lock_keeps:
  assumes "open_report_lock name dir = (dir', r)" and "name \<noteq> i"
  shows "map_of (ar_entries dir') i = map_of (ar_entries dir) i"
  using assms by (auto simp: open_report_lock_def Let_def update_conv' split: option.splits dir_entry.splits)

lemma lock_name_differs: "lock_name i \<noteq> i"
proof
  assume "lock_name i = i"
  then have "length (lock_name i) = length i" by simp
  then show False by (simp add: lock_name_def)
qed

lemma stage_files:
  "rfold stage_file [] [(''report.json'', report), (''evidence.zip'', zb)] =
     Inr [(''report.json'', ArtFile report 1), (''evidence.zip'', ArtFile zb 1)]"
  by (simp add: stage_file_def)

text \<open>What a successful publication has checked and returned.\<close>

lemma publish_locked_Inr:
  assumes "publish_locked res dir i built = Inr (staging, artifact)"
  obtains zb b where "map_of (ar_entries dir) i = None" "build_bundle res built = Inr zb"
    "staging = [(''report.json'', ArtFile (br_report_bytes built) 1), (''evidence.zip'', ArtFile zb 1)]"
    "verify_bundle_bytes res (take (MAX_BUNDLE_BYTES + 1) zb) (Some (br_report_sha256 built)) = Inr b"
    "artifact = \<lparr>pa_report_id = i, pa_report_sha256 = br_report_sha256 built, pa_bundle_sha256 = digest zb,
        pa_report_size_bytes = length (br_report_bytes built), pa_bundle_size_bytes = length zb\<rparr>"
proof -
  obtain zb b where "map_of (ar_entries dir) i = None" "build_bundle res built = Inr zb"
    "verify_bundle res (Some (ArtFile zb 1)) (Some (br_report_sha256 built)) = Inr b"
    "staging = [(''report.json'', ArtFile (br_report_bytes built) 1), (''evidence.zip'', ArtFile zb 1)]"
    "artifact = \<lparr>pa_report_id = i, pa_report_sha256 = br_report_sha256 built, pa_bundle_sha256 = digest zb,
        pa_report_size_bytes = length (br_report_bytes built), pa_bundle_size_bytes = length zb\<rparr>"
    using assms unfolding publish_locked_def stage_files rbind_eq_Inr require_eq_Inr by auto
  then show ?thesis using that by (simp add: verify_bundle_def)
qed

lemma bundle_length: "build_bundle res built = Inr zb \<Longrightarrow> length zb \<le> MAX_BUNDLE_BYTES"
  by (auto simp: build_bundle_def zip_members_def rbind_eq_Inr require_eq_Inr Let_def)

lemma publish_failed:
  assumes "publish_artifact res dir built = (dir', Inl e)"
  shows "published dir' = published dir"
  using assms by (auto simp: publish_artifact_def split: sum.splits if_splits prod.splits dest: open_report_lock_published(1))

lemma publish_done:
  assumes "publish_artifact res dir built = (dir', Inr artifact)"
  obtains i zb b where "item (br_document built) ''report_id'' = Inr (JStr i)" "evidence_identifier (JStr i) = Inr i"
      "artifact = \<lparr>pa_report_id = i, pa_report_sha256 = br_report_sha256 built, pa_bundle_sha256 = digest zb,
        pa_report_size_bytes = length (br_report_bytes built), pa_bundle_size_bytes = length zb\<rparr>"
      "build_bundle res built = Inr zb" "verify_bundle_bytes res zb (Some (br_report_sha256 built)) = Inr b"
      "map_of (ar_entries dir) i = None" "published dir' = (published dir)(i \<mapsto> (br_report_bytes built, zb))"
      "map_of (ar_entries dir') i = Some (ArtDir [(''report.json'', ArtFile (br_report_bytes built) 1), (''evidence.zip'', ArtFile zb 1)])"
      "ar_is_dir dir'"
proof -
  obtain i v dl staging where v: "item (br_document built) ''report_id'' = Inr v" "evidence_identifier v = Inr i"
    and lock: "open_report_lock (lock_name i) dir = (dl, Inr ())" and is_dir: "ar_is_dir dir"
    and pub: "publish_locked res dl i built = Inr (staging, artifact)"
    and d: "dir' = dl\<lparr>ar_entries := AList.update i (ArtDir staging) (ar_entries dl)\<rparr>"
    using assms by (auto simp: publish_artifact_def rbind_eq_Inr split: sum.splits if_splits prod.splits)
  note pl = open_report_lock_published [OF lock]
  obtain zb b where p: "map_of (ar_entries dl) i = None" "build_bundle res built = Inr zb"
    "staging = [(''report.json'', ArtFile (br_report_bytes built) 1), (''evidence.zip'', ArtFile zb 1)]"
    "verify_bundle_bytes res (take (MAX_BUNDLE_BYTES + 1) zb) (Some (br_report_sha256 built)) = Inr b"
    "artifact = \<lparr>pa_report_id = i, pa_report_sha256 = br_report_sha256 built, pa_bundle_sha256 = digest zb,
      pa_report_size_bytes = length (br_report_bytes built), pa_bundle_size_bytes = length zb\<rparr>"
    using publish_locked_Inr [OF pub] by blast
  have "artifact_of (ArtDir staging) = Some (br_report_bytes built, zb)" by (simp add: artifact_of_def p(3) insert_commute)
  then show ?thesis
    using that [of i zb b] identifier_Inr [OF v(2)] v p d pl is_dir bundle_length [OF p(2)] open_report_lock_keeps [OF lock lock_name_differs]
    by (simp add: published_update update_conv')
qed

lemma delete_changes:
  assumes "delete_published dir i = (dir', r)"
  shows "published dir' = (if r = Inr True then (published dir)(i := None) else published dir)"
  using assms by (auto simp: delete_published_def published_delete split: sum.splits if_splits prod.splits bool.splits
      dest: open_report_lock_published(1))

text \<open>A report that is there can be deleted: the files are removed one by one and nothing is left.\<close>

lemma unlink_all:
  assumes "list_all (\<lambda>(name, e). is_regular e) files" and "distinct (map fst files)" and "set names = fst ` set files" and "distinct names"
  shows "rfold unlink_file files names = Inr []"
  using assms
proof (induction names arbitrary: files)
  case (Cons n names)
  obtain e where e: "map_of files n = Some e" "is_regular e"
    using Cons.prems by (metis (mono_tags, lifting) case_prodD eq_key_imp_eq_value insertI1 list.set(2) list_all_iff map_of_eq_Some_iff image_iff prod.collapse)
  have "fst ` set (AList.delete n files) = fst ` set files - {n}" by (force simp: AList.delete_eq)
  then have "rfold unlink_file (AList.delete n files) names = Inr []"
    using Cons.prems by (intro Cons.IH) (auto simp: list_all_iff AList.delete_eq distinct_map_filter)
  moreover have "unlink_file files n = Inr (AList.delete n files)" using e by (simp add: unlink_file_def)
  ultimately show ?case by simp
qed simp

lemma delete_done:
  assumes "map_of (ar_entries dir) i = Some (ArtDir files)" and "fst ` set files \<subseteq> {''report.json'', ''evidence.zip''}"
    and "list_all (\<lambda>(name, e). is_regular e) files" and "distinct (map fst files)"
  shows "delete_locked dir i = Inr True"
  using assms unlink_all [of files "sort (map fst files)"] by (simp add: delete_locked_def)

subsection \<open>Reports that the program produces\<close>

inductive produced :: "Resources \<Rightarrow> BuiltReport \<Rightarrow> bool" for res where
  market: "inspect_members res ms = Inr evidence \<Longrightarrow> build_inspected_report res evidence request mezo = Inr built \<Longrightarrow> produced res built"
| trove: "build_trove_report res capture request = Inr built \<Longrightarrow> produced res built"

lemma build_report_produced: "build_report res input request mezo = Inr built \<Longrightarrow> produced res built"
  by (auto simp: build_report_def inspect_package_def rbind_eq_Inr intro: produced.market)

lemma produced_wf: "produced res built \<Longrightarrow> report_wf built"
  by (induction rule: produced.induct) (auto intro: market_report_wf trove_report_wf dest: inspect_members_keys)

lemma verified_produced: "verify_bundle_bytes res raw expected = Inr b \<Longrightarrow> produced res b"
  using verified_bundle(4) [of res raw expected b]
  by (auto simp: rebuild_trove_members_def rebuild_market_members_def rbind_eq_Inr require_eq_Inr Let_def
      intro: produced.intros)

lemma map_of_dict_update: "k \<notin> fst ` set kvs \<Longrightarrow> map_of (dict_update d kvs) k = map_of d k"
  by (induction kvs arbitrary: d) (auto simp: dict_update_def update_conv' case_prod_beta)

lemma bundle_report_member:
  assumes "''report.json'' \<notin> fst ` set (br_extra_members built)"
  shows "map_of (bundle_members built) ''report.json'' = Some (br_report_bytes built)"
  using assms by (simp add: bundle_members_def map_of_dict_update) (simp add: dict_update_def update_conv')

lemma produced_extras:
  assumes "produced res built"
  shows "''report.json'' \<notin> fst ` set (br_extra_members built)"
  using assms
proof cases
  case (market ms evidence request mezo)
  then have "br_extra_members built = [] \<or> (\<exists>capture. dex_members res capture = Inr (br_extra_members built))"
    unfolding build_inspected_report_def Let_def
    by (auto simp: rbind_eq_Inr require_eq_Inr mezo_sections_def reraise_eq_Inr split: option.splits)
  moreover have "''report.json'' \<notin> fst ` set extras" if "dex_members res capture = Inr extras" for capture extras
    using that by (auto simp: dex_members_def rbind_eq_Inr)
  ultimately show ?thesis by auto
next
  case (trove capture request)
  then obtain extras where "trove_extras res capture = Inr (br_extra_members built)"
    unfolding build_trove_report_def Let_def by (auto simp: rbind_eq_Inr require_eq_Inr)
  then show ?thesis using trove_members by (fastforce simp: TROVE_ABIS_def)
qed

subsection \<open>Write once\<close>

text \<open>
  The contract of a store whose values are written once: a step never replaces a value, it can only
  remove it, and a value that appears is good. So every value of every reachable state is good.
\<close>

locale write_once =
  fixes view :: "'s \<Rightarrow> 'k \<rightharpoonup> 'v" and step :: "'s \<Rightarrow> 's \<Rightarrow> bool" and good_value :: "'k \<Rightarrow> 'v \<Rightarrow> bool"
  assumes keeps: "step s s' \<Longrightarrow> view s k = Some v \<Longrightarrow> view s' k \<noteq> Some v \<Longrightarrow> view s' k = None"
    and fresh: "step s s' \<Longrightarrow> view s k = None \<Longrightarrow> view s' k = Some v \<Longrightarrow> good_value k v"
begin

lemma step_good:
  assumes "step s s'" and "\<forall>k v. view s k = Some v \<longrightarrow> good_value k v" and "view s' k = Some v"
  shows "good_value k v"
proof (cases "view s k")
  case (Some w)
  then show ?thesis using keeps [OF assms(1) Some] assms by force
qed (use fresh assms in blast)

lemma run_good:
  assumes "step\<^sup>*\<^sup>* s s'" and "\<forall>k v. view s k = Some v \<longrightarrow> good_value k v"
  shows "\<forall>k v. view s' k = Some v \<longrightarrow> good_value k v"
  using assms by (induction rule: rtranclp_induct) (use step_good in blast)+

text \<open>A value that is still there at the end of a run in which it was never absent is the old value.\<close>

lemma run_unchanged:
  assumes "(\<lambda>s s'. step s s' \<and> view s' k \<noteq> None)\<^sup>*\<^sup>* s s'" and "view s k = Some v"
  shows "view s' k = Some v"
  using assms by (induction rule: rtranclp_induct) (simp, metis keeps)

end

text \<open>The operations that processes perform on the root, one after the other.\<close>

datatype store_op =
    PublishMarket disk ReportRequest "json option"
  | PublishTrove json TroveReportRequest
  | DeleteReport string
  | LocksChange "string list"

definition publish_result :: "Resources \<Rightarrow> ArtifactRoot \<Rightarrow> BuiltReport res \<Rightarrow> ArtifactRoot" where
  "publish_result res dir built = (case built of Inl _ \<Rightarrow> dir | Inr b \<Rightarrow> fst (publish_artifact res dir b))"

fun apply_op :: "Resources \<Rightarrow> store_op \<Rightarrow> ArtifactRoot \<Rightarrow> ArtifactRoot" where
  "apply_op res (PublishMarket input request mezo) dir = publish_result res dir (build_report res input request mezo)"
| "apply_op res (PublishTrove capture request) dir = publish_result res dir (build_trove_report res capture request)"
| "apply_op res (DeleteReport i) dir = fst (delete_published dir i)"
| "apply_op res (LocksChange held) dir = dir\<lparr>ar_held := held\<rparr>"

definition empty_root :: ArtifactRoot where
  "empty_root = \<lparr>ar_absolute = True, ar_symlink = False, ar_is_dir = True, ar_entries = [], ar_held = []\<rparr>"

definition run_ops :: "Resources \<Rightarrow> store_op list \<Rightarrow> ArtifactRoot \<Rightarrow> ArtifactRoot" where
  "run_ops res ops dir = foldl (\<lambda>d op. apply_op res op d) dir ops"

definition store_step :: "Resources \<Rightarrow> ArtifactRoot \<Rightarrow> ArtifactRoot \<Rightarrow> bool" where
  "store_step res dir dir' \<longleftrightarrow> (\<exists>op. dir' = apply_op res op dir)"

definition sealed_artifact :: "Resources \<Rightarrow> string \<Rightarrow> string \<times> string \<Rightarrow> bool" where
  "sealed_artifact res i v \<longleftrightarrow>
     (case v of (report, zb) \<Rightarrow> evidence_identifier (JStr i) = Inr i \<and> length report \<le> MAX_MEMBER_BYTES \<and> length zb \<le> MAX_BUNDLE_BYTES
        \<and> (\<exists>b. verify_bundle_bytes res zb None = Inr b \<and> br_report_bytes b = report \<and> item (br_document b) ''report_id'' = Inr (JStr i)))"

lemma verify_unexpected:
  assumes "verify_bundle_bytes res raw (Some h) = Inr b"
  shows "verify_bundle_bytes res raw None = Inr b"
proof -
  have "verify_report_bytes ms manifest None = Inr d" if r: "verify_report_bytes ms manifest (Some h) = Inr d" for ms manifest d
  proof -
    obtain raw v where "member_bytes_of ms ''report.json'' = Inr raw" "strict_json raw = Inr v"
      using r unfolding verify_report_bytes_def rbind_eq_Inr by blast
    then show ?thesis using r by (cases v) (auto simp: verify_report_bytes_def rbind_eq_Inr require_eq_Inr)
  qed
  note weaker = this
  obtain ms manifest u again mb w report where
    "read_archive raw = Inr ms" "json_member ms ''manifest.json'' = Inr manifest" "validate res ''bundle-manifest.schema.json'' manifest = Inr u"
    "canonical_json_bytes manifest = Inr again" "member_bytes_of ms ''manifest.json'' = Inr mb" "\<not> again \<noteq> mb"
    "verify_manifest_members ms manifest = Inr w" "verify_report_bytes ms manifest (Some h) = Inr report"
    "(if jget report ''schema'' = JStr ''liqvera-trove-risk-report/v1'' then rbind (rebuild_trove_members res ms) (same_bytes res ms raw)
       else rbind (rebuild_market_members res ms (JObj report)) (same_bytes res ms raw)) = Inr b"
    using assms unfolding verify_bundle_bytes_def keep_rejections_Inr rbind_eq_Inr require_eq_Inr by blast
  then show ?thesis using weaker by (simp add: verify_bundle_bytes_def)
qed

lemma text_item_canon:
  assumes "report_wf x"
  shows "item (canon (br_document x)) k = Inr (JStr i) \<longleftrightarrow> item (br_document x) k = Inr (JStr i)"
proof (cases "br_document x")
  case (JObj fs)
  then have "distinct (map fst fs)" using assms by (simp add: report_wf_def)
  then have "item (canon (br_document x)) k = rbind (item (br_document x) k) (\<lambda>v. Inr (canon v))"
    using jindex_canon [of fs k] JObj by (simp add: item_def)
  moreover have "canon v = JStr t \<longleftrightarrow> v = JStr t" for v t by (cases v) auto
  ultimately show ?thesis by (auto simp: rbind_eq_Inr)
qed (simp_all add: item_def)

lemma verified_lengths:
  assumes v: "verify_bundle_bytes res raw h = Inr b"
  shows "length raw \<le> MAX_BUNDLE_BYTES" "length (br_report_bytes b) \<le> MAX_MEMBER_BYTES"
proof -
  obtain ms where ms: "read_archive raw = Inr ms" using verified_bundle(4) [OF v] by blast
  have zip: "zip_members ms = Inr raw" "sorted (map fst ms)" using ms by (auto simp: ar.accepted archivable_def)
  show "length raw \<le> MAX_BUNDLE_BYTES" by (rule zip_sorted(4) [OF zip])
  have "map_of ms ''report.json'' = Some (br_report_bytes b)"
    using bundle_archive [OF verified_bundle(1) [OF v] ms] bundle_report_member [OF produced_extras [OF verified_produced [OF v]]] by simp
  then show "length (br_report_bytes b) \<le> MAX_MEMBER_BYTES"
    using zip_sorted(5) [OF zip] map_of_SomeD by (fastforce simp: list_all_iff)
qed

lemma published_is_sealed:
  assumes made: "produced res built" and build: "build_bundle res built = Inr zb" and v: "verify_bundle_bytes res zb (Some h) = Inr b"
    and i: "item (br_document built) ''report_id'' = Inr (JStr i)" "evidence_identifier (JStr i) = Inr i"
  shows "sealed_artifact res i (br_report_bytes built, zb)"
proof -
  obtain ms where ms: "read_archive zb = Inr ms" using verified_bundle(4) [OF v] by blast
  have k: "''report.json'' \<noteq> ''manifest.json''" by simp
  have m: "map_of ms ''report.json'' = Some (br_report_bytes built)"
    using bundle_archive [OF build ms k] bundle_report_member [OF produced_extras [OF made]] by simp
  have b: "map_of ms ''report.json'' = Some (br_report_bytes b)"
    using bundle_archive [OF verified_bundle(1) [OF v] ms k] bundle_report_member [OF produced_extras [OF verified_produced [OF v]]] by simp
  have same: "br_report_bytes b = br_report_bytes built" using m b by simp
  have "canon (br_document b) = canon (br_document built)"
    by (rule report_wf_same_document [OF produced_wf [OF verified_produced [OF v]] produced_wf [OF made] same])
  then have "item (br_document b) ''report_id'' = Inr (JStr i)"
    using text_item_canon [OF produced_wf [OF made]] text_item_canon [OF produced_wf [OF verified_produced [OF v]]] i(1) by metis
  moreover have "length (br_report_bytes built) \<le> MAX_MEMBER_BYTES" using verified_lengths(2) [OF v] same by simp
  ultimately show ?thesis
    using verify_unexpected [OF v] m b i(2) bundle_length [OF build] by (auto simp: sealed_artifact_def)
qed

lemma publish_result_changes:
  assumes "\<And>b. built = Inr b \<Longrightarrow> produced res b"
  shows "published (publish_result res dir built) = published dir
    \<or> (\<exists>i v. published dir i = None \<and> published (publish_result res dir built) = (published dir)(i \<mapsto> v) \<and> sealed_artifact res i v)"
proof (cases built)
  case (Inr b)
  obtain dir' r where p: "publish_artifact res dir b = (dir', r)" by fastforce
  show ?thesis
  proof (cases r)
    case (Inl e)
    then show ?thesis using publish_failed p Inr by (simp add: publish_result_def)
  next
    case pub: (Inr artifact)
    obtain i zb c where i: "item (br_document b) ''report_id'' = Inr (JStr i)" "evidence_identifier (JStr i) = Inr i"
      and zb: "build_bundle res b = Inr zb" "verify_bundle_bytes res zb (Some (br_report_sha256 b)) = Inr c"
      and d: "map_of (ar_entries dir) i = None" "published dir' = (published dir)(i \<mapsto> (br_report_bytes b, zb))"
      using publish_done p pub by metis
    have "sealed_artifact res i (br_report_bytes b, zb)" by (rule published_is_sealed [OF assms [OF Inr] zb i])
    moreover have "published dir i = None" using d(1) by (simp add: published_def)
    moreover have "publish_result res dir built = dir'" using p Inr by (simp add: publish_result_def)
    ultimately show ?thesis using d(2) by blast
  qed
qed (simp add: publish_result_def)

lemma apply_op_changes:
  "published (apply_op res op dir) = published dir \<or> (\<exists>i. published (apply_op res op dir) = (published dir)(i := None))
   \<or> (\<exists>i v. published dir i = None \<and> published (apply_op res op dir) = (published dir)(i \<mapsto> v) \<and> sealed_artifact res i v)"
proof (cases op)
  case (PublishMarket input request mezo)
  then show ?thesis using publish_result_changes [of "build_report res input request mezo" res dir] build_report_produced by auto
next
  case (PublishTrove capture request)
  then show ?thesis using publish_result_changes [of "build_trove_report res capture request" res dir] produced.trove by auto
next
  case (DeleteReport i)
  obtain dir' r where "delete_published dir i = (dir', r)" by fastforce
  then show ?thesis using delete_changes [of dir i dir' r] DeleteReport by auto
qed simp

interpretation st: write_once published "store_step res" "sealed_artifact res" for res
proof unfold_locales
  fix s s' k v assume "store_step res s s'"
  then obtain op where "s' = apply_op res op s" by (auto simp: store_step_def)
  then show "published s k = Some v \<Longrightarrow> published s' k \<noteq> Some v \<Longrightarrow> published s' k = None"
    and "published s k = None \<Longrightarrow> published s' k = Some v \<Longrightarrow> sealed_artifact res k v"
    using apply_op_changes [of res op s] by (auto split: if_splits)
qed

lemma run_ops_steps: "(store_step res)\<^sup>*\<^sup>* dir (run_ops res ops dir)"
proof (induction ops arbitrary: dir)
  case (Cons op ops)
  have "store_step res dir (apply_op res op dir)" by (auto simp: store_step_def)
  then show ?case using Cons [of "apply_op res op dir"] by (simp add: run_ops_def converse_rtranclp_into_rtranclp)
qed (simp add: run_ops_def)

lemma apply_op_is_dir: "ar_is_dir (apply_op res op dir) = ar_is_dir dir"
  by (cases op) (auto simp: publish_result_def publish_artifact_def delete_published_def split: sum.splits prod.splits bool.splits
      dest: open_report_lock_published(4))

lemma run_ops_is_dir: "ar_is_dir (run_ops res ops dir) = ar_is_dir dir"
  unfolding run_ops_def by (induction ops arbitrary: dir) (simp_all add: apply_op_is_dir)

lemma read_sealed:
  assumes "published dir i = Some (report, zb)" and "sealed_artifact res i (report, zb)" and "ar_is_dir dir"
  shows "\<exists>b artifact. read_published res dir i = Inr (b, artifact) \<and> br_report_bytes b = report \<and> build_bundle res b = Inr zb
    \<and> pa_report_sha256 artifact = digest report \<and> pa_bundle_sha256 artifact = digest zb"
proof -
  obtain e where e: "map_of (ar_entries dir) i = Some e" "artifact_of e = Some (report, zb)"
    using assms(1) by (auto simp: published_def bind_eq_Some_conv)
  obtain files l1 l2 where f: "map_of (ar_entries dir) i = Some (ArtDir files)" "fst ` set files = {''report.json'', ''evidence.zip''}"
    "map_of files ''report.json'' = Some (ArtFile report l1)" "map_of files ''evidence.zip'' = Some (ArtFile zb l2)"
    using artifact_of_Some [OF e(2)] e(1) by metis
  obtain b where b: "evidence_identifier (JStr i) = Inr i" "length report \<le> MAX_MEMBER_BYTES" "length zb \<le> MAX_BUNDLE_BYTES"
    "verify_bundle_bytes res zb None = Inr b" "br_report_bytes b = report" "item (br_document b) ''report_id'' = Inr (JStr i)"
    using assms(2) by (auto simp: sealed_artifact_def)
  have "build_bundle res b = Inr zb" "br_report_sha256 b = digest report" using verified_bundle(1,2) [OF b(4)] b(5) by simp_all
  then show ?thesis using f b assms(3) by (simp add: read_published_def verify_bundle_def)
qed

text \<open>A report that is read was stored as it is returned: nothing is cut off by the bounded reads.\<close>

lemma take_all: "length (take (n + 1) xs) \<le> n \<Longrightarrow> take (n + 1) xs = xs"
  by simp

lemma read_published_stored:
  assumes "read_published res dir i = Inr (b, artifact)"
  shows "\<exists>zb. published dir i = Some (br_report_bytes b, zb) \<and> build_bundle res b = Inr zb \<and> pa_report_id artifact = i
    \<and> pa_report_sha256 artifact = digest (br_report_bytes b) \<and> pa_bundle_sha256 artifact = digest zb"
proof -
  obtain files raw l where f: "map_of (ar_entries dir) i = Some (ArtDir files)" "fst ` set files = {''report.json'', ''evidence.zip''}"
    "verify_bundle res (map_of files ''evidence.zip'') None = Inr b" "map_of files ''report.json'' = Some (ArtFile raw l)"
    "take (MAX_MEMBER_BYTES + 1) raw = br_report_bytes b"
    and a: "\<exists>zb. build_bundle res b = Inr zb \<and> pa_report_id artifact = i \<and> pa_report_sha256 artifact = br_report_sha256 b \<and> pa_bundle_sha256 artifact = digest zb"
    using assms by (auto simp: read_published_def rbind_eq_Inr require_eq_Inr split: option.splits dir_entry.splits if_splits)
  then obtain z k where z: "map_of files ''evidence.zip'' = Some (ArtFile z k)" "verify_bundle_bytes res (take (MAX_BUNDLE_BYTES + 1) z) None = Inr b"
    by (auto simp: verify_bundle_def split: option.splits dir_entry.splits)
  note len = verified_lengths [OF z(2)]
  have "take (MAX_BUNDLE_BYTES + 1) z = z" "raw = br_report_bytes b" using take_all len f(5) by metis+
  moreover have "published dir i = Some (raw, z)" using f z(1) by (simp add: published_def artifact_of_def)
  ultimately show ?thesis using verified_bundle(1,2) [OF z(2)] a by auto
qed

subsection \<open>The properties of the artifact store\<close>

text \<open>
  C5. Integrity of everything that is ever published: after any sequence of publications, deletions
  and changes of the locks that other processes hold, started on an empty root, every report that is
  present passes the full verification again; reading it returns the very bytes that are stored, and
  the bundle of the recomputed report is byte for byte the stored bundle.
\<close>

theorem published_reports_verify:
  "case published (run_ops res ops empty_root) i of
     None \<Rightarrow> True
   | Some (report, zb) \<Rightarrow>
       (\<exists>b artifact. read_published res (run_ops res ops empty_root) i = Inr (b, artifact) \<and> br_report_bytes b = report
          \<and> build_bundle res b = Inr zb \<and> pa_report_sha256 artifact = digest report \<and> pa_bundle_sha256 artifact = digest zb)"
proof (cases "published (run_ops res ops empty_root) i")
  case (Some v)
  obtain report zb where v: "v = (report, zb)" by fastforce
  have "\<forall>k w. published empty_root k = Some w \<longrightarrow> sealed_artifact res k w" by (simp add: published_def empty_root_def)
  then have "sealed_artifact res i v" using st.run_good [OF run_ops_steps] Some by blast
  moreover have "ar_is_dir (run_ops res ops empty_root)" by (simp add: run_ops_is_dir) (simp add: empty_root_def)
  ultimately show ?thesis using read_sealed Some v by simp
qed simp

lemma delete_after_publish:
  assumes "publish_artifact res dir built = (dir', Inr artifact)" and root: "ar_absolute dir'" "\<not> ar_symlink dir'" "ar_is_dir dir'"
    and lock: "open_report_lock (lock_name (pa_report_id artifact)) dir' = (dir', Inr ())"
  shows "snd (delete_published dir' (pa_report_id artifact)) = Inr True"
proof -
  obtain i zb where a: "evidence_identifier (JStr i) = Inr i" "pa_report_id artifact = i"
    "map_of (ar_entries dir') i = Some (ArtDir [(''report.json'', ArtFile (br_report_bytes built) 1), (''evidence.zip'', ArtFile zb 1)])"
    using publish_done [OF assms(1)] by (metis PublishedArtifact.select_convs(1))
  have "delete_locked dir' i = Inr True" by (rule delete_done [OF a(3)]) simp_all
  then show ?thesis using a root lock by (simp add: delete_published_def)
qed

lemma publish_keeps_lock:
  assumes "publish_artifact res dir built = (dir', Inr artifact)"
  shows "ar_absolute dir'" "\<not> ar_symlink dir'" "ar_is_dir dir'"
    and "open_report_lock (lock_name (pa_report_id artifact)) dir' = (dir', Inr ())"
proof -
  obtain i dl staging where ok: "ar_absolute dir" "\<not> ar_symlink dir" "ar_is_dir dir"
    and lock: "open_report_lock (lock_name i) dir = (dl, Inr ())"
    and pub: "publish_locked res dl i built = Inr (staging, artifact)"
    and d: "dir' = dl\<lparr>ar_entries := AList.update i (ArtDir staging) (ar_entries dl)\<rparr>"
    using assms by (auto simp: publish_artifact_def split: sum.splits if_splits prod.splits)
  show "ar_absolute dir'" "\<not> ar_symlink dir'" "ar_is_dir dir'"
    using ok open_report_lock_published [OF lock] by (simp_all add: d)
  have i: "pa_report_id artifact = i" using publish_locked_Inr [OF pub] by (metis PublishedArtifact.select_convs(1))
  have "lock_name i \<notin> set (ar_held dl) \<and> (\<exists>raw. map_of (ar_entries dl) (lock_name i) = Some (ArtFile raw 1))"
    using lock by (auto simp: open_report_lock_def Let_def update_conv' require_eq_Inr split: option.splits dir_entry.splits)
  then show "open_report_lock (lock_name (pa_report_id artifact)) dir' = (dir', Inr ())"
    using lock_name_differs [of i] by (auto simp: i d open_report_lock_def Let_def update_conv' split: option.splits dir_entry.splits)
qed

lemma publish_refines:
  "case publish_artifact res dir built of (dir', r) \<Rightarrow>
     (case r of
        Inl _ \<Rightarrow> published dir' = published dir
      | Inr artifact \<Rightarrow>
          \<exists>zb b. let i = pa_report_id artifact in
            build_bundle res built = Inr zb \<and> verify_bundle_bytes res zb (Some (br_report_sha256 built)) = Inr b
            \<and> published dir i = None \<and> published dir' = (published dir)(i \<mapsto> (br_report_bytes built, zb))
            \<and> pa_report_sha256 artifact = digest (br_report_bytes built) \<and> pa_bundle_sha256 artifact = digest zb
            \<and> snd (delete_published dir' i) = Inr True)"
proof -
  obtain dir' r where p: "publish_artifact res dir built = (dir', r)" by fastforce
  show ?thesis
  proof (cases r)
    case (Inl e)
    then show ?thesis using publish_failed p by simp
  next
    case (Inr artifact)
    note k = publish_keeps_lock [OF p [unfolded Inr]]
    obtain i zb b where x: "artifact = \<lparr>pa_report_id = i, pa_report_sha256 = br_report_sha256 built, pa_bundle_sha256 = digest zb,
        pa_report_size_bytes = length (br_report_bytes built), pa_bundle_size_bytes = length zb\<rparr>"
      "build_bundle res built = Inr zb" "verify_bundle_bytes res zb (Some (br_report_sha256 built)) = Inr b"
      "map_of (ar_entries dir) i = None" "published dir' = (published dir)(i \<mapsto> (br_report_bytes built, zb))"
      using publish_done [OF p [unfolded Inr]] by metis
    have "br_report_sha256 built = digest (br_report_bytes built)" using x(2) by (simp add: build_bundle_def require_eq_Inr)
    moreover have "published dir i = None" using x(4) by (simp add: published_def)
    moreover have "snd (delete_published dir' (pa_report_id artifact)) = Inr True" by (rule delete_after_publish [OF p [unfolded Inr] k])
    ultimately show ?thesis using x p Inr by (auto simp: Let_def)
  qed
qed

text \<open>
  C10. Publication and deletion are the operations of a write-once map from identities to reports. A
  publication that succeeds needs a free identity and adds exactly the verified report with its
  bundle, and the result can be deleted at once; one that fails changes no report. A deletion removes
  exactly the report it names, or nothing.
\<close>

theorem artifact_operations_refine:
  "(case publish_artifact res dir built of (dir', r) \<Rightarrow>
     (case r of
        Inl _ \<Rightarrow> published dir' = published dir
      | Inr artifact \<Rightarrow>
          \<exists>zb b. let i = pa_report_id artifact in
            build_bundle res built = Inr zb \<and> verify_bundle_bytes res zb (Some (br_report_sha256 built)) = Inr b
            \<and> published dir i = None \<and> published dir' = (published dir)(i \<mapsto> (br_report_bytes built, zb))
            \<and> pa_report_sha256 artifact = digest (br_report_bytes built) \<and> pa_bundle_sha256 artifact = digest zb
            \<and> snd (delete_published dir' i) = Inr True))
   \<and> (case delete_published dir j of (dir', r) \<Rightarrow>
        published dir' = (if r = Inr True then (published dir)(j := None) else published dir))"
proof
  show "case delete_published dir j of (dir', r) \<Rightarrow>
     published dir' = (if r = Inr True then (published dir)(j := None) else published dir)"
    using delete_changes [of dir j] by (auto split: prod.split)
qed (rule publish_refines)

end
