(* ===== verification/ReportService.thy ===== *)
theory ReportService
  imports Artifacts
begin

section \<open>The report service (\<open>service.py\<close>)\<close>

text \<open>
  The private HTTP service: an authorised request names a report, the service captures the market,
  builds the report, publishes it and answers with its digests; a repeated request is answered from
  the published artifact. Each connection has its own thread; at most four run at a time, and a set
  of identities in work keeps two threads from working on the same report.

  What a handler reads of the outside is an argument: the parsed headers and the body of the request,
  the parsed URL of the capture service and its answer, the directories that it writes, the fresh
  capture identity, and the readings of the clocks. An answer is a status and a document; an
  exception that no handler catches ends the thread without an answer.
\<close>

record HttpRequest =
  hr_path :: string
  hr_authorization :: "string list"
  hr_lengths :: "string list"
  hr_transfer_encoding :: "string option"
  hr_content_type :: string
  hr_body :: string

record SplitUrl =
  url_scheme :: string
  url_hostname :: string
  url_path :: string
  url_query :: string
  url_fragment :: string
  url_username :: string
  url_password :: string
  url_port :: "int option"

record ServiceConfig =
  sc_token :: string
  sc_engine_commit :: string
  sc_mode :: string
  sc_capture_url :: SplitUrl
  sc_dex_enabled :: string
  sc_troves_enabled :: string

record PostEnv =
  pe_capture_id :: string
  pe_transport :: "string \<Rightarrow> (int \<times> string) res"
  pe_captures :: "string \<Rightarrow> disk"
  pe_now_ms :: int
  pe_started :: rat
  pe_built :: rat
  pe_finished :: rat

type_synonym reply = "int \<times> json"

definition error_reply :: "int \<Rightarrow> string \<Rightarrow> bool \<Rightarrow> reply" where
  "error_reply n code_text retryable = (n, JObj [(''code'', JStr code_text), (''retryable'', JBool retryable)])"

definition PUBLIC_CODES :: "string list" where
  "PUBLIC_CODES = [''MEZO_SOURCE_UNAVAILABLE'', ''MEZO_DEX_INVALID_EVIDENCE'', ''INVALID_INPUT'', ''INVALID_DATASET'', ''SOURCE_UNAVAILABLE'', ''STALE_SOURCE'',
     ''CLOCK_SKEW'', ''IDENTITY_UNVERIFIED'', ''IDENTITY_MISMATCH'', ''CROSSED_BOOK'', ''DEPTH_INSUFFICIENT'', ''UNSUPPORTED_INSTRUMENT'',
     ''ARTIFACT_INTEGRITY_FAILED'', ''STORAGE_UNAVAILABLE'', ''REPORT_ALREADY_EXISTS'']"

subsection \<open>Configuration\<close>

definition internal_token :: "bool \<Rightarrow> dir_entry option \<Rightarrow> string res" where
  "internal_token absolute file =
     (case file of
        Some (ArtFile raw links) \<Rightarrow>
          (let raw = take 258 raw;
               token = (if raw \<noteq> [] \<and> last raw = CHR 0x0A then butlast raw else raw)
           in require (absolute \<and> \<not> (\<not> (32 \<le> length token \<and> length token \<le> 256) \<or> list_ex (\<lambda>c. code c < 33 \<or> code c > 126) token)) ValueError (Inr token))
      | _ \<Rightarrow> Inl ValueError)"

definition SERVICE_FORBIDDEN :: "string list" where
  "SERVICE_FORBIDDEN = [''SECRET'', ''TOKEN'', ''PASSWORD'', ''PRIVATE'', ''WALLET'', ''SIGNER'', ''API_KEY'', ''APIKEY'', ''DATABASE'', ''PAY_TO'',
     ''FACILITATOR'', ''RPC_URL'']"

definition environ_ok :: "string list \<Rightarrow> bool" where
  "environ_ok keys \<longleftrightarrow>
     list_all (\<lambda>key. key = ''LIQVERA_INTERNAL_TOKEN_FILE'' \<or> \<not> list_ex (\<lambda>marker. has_substring marker (upper key)) SERVICE_FORBIDDEN) keys"

definition switch_ok :: "string \<Rightarrow> string \<Rightarrow> bool" where
  "switch_ok v mode \<longleftrightarrow> v \<in> {''true'', ''false''} \<and> \<not> (v = ''true'' \<and> mode \<noteq> ''live-public'')"

text \<open>The checks of \<open>main\<close> on the environment, and the configuration that the handlers close over.\<close>

definition service_config :: "(string \<times> string) list \<Rightarrow> string res \<Rightarrow> bool \<Rightarrow> SplitUrl \<Rightarrow> ServiceConfig res" where
  "service_config env token roots_ok url =
     (let get = (\<lambda>k d. case map_of env k of None \<Rightarrow> d | Some v \<Rightarrow> v);
          mode = get ''LIQVERA_SOURCE_MODE'' ''fixture''; commit = get ''LIQVERA_ENGINE_COMMIT'' [];
          dex = get ''LIQVERA_MEZO_DEX_ENABLED'' ''false''; troves = get ''LIQVERA_MEZO_TROVES_ENABLED'' ''false''
      in require (environ_ok (map fst env)) ValueError (
         rbind token (\<lambda>token.
         require (\<not> (\<not> is_commit commit \<or> mode \<notin> {''fixture'', ''live-public''} \<or> \<not> roots_ok)) ValueError (
         require (switch_ok dex mode) ValueError (
         require (switch_ok troves mode) ValueError (
         Inr \<lparr>sc_token = token, sc_engine_commit = commit, sc_mode = mode, sc_capture_url = url, sc_dex_enabled = dex, sc_troves_enabled = troves\<rparr>))))))"

subsection \<open>Requests\<close>

definition authorized :: "ServiceConfig \<Rightarrow> HttpRequest \<Rightarrow> bool" where
  "authorized cfg req \<longleftrightarrow>
     (case hr_authorization req of
        [v] \<Rightarrow> list_all (\<lambda>c. code c < 128) v \<and> v = ''Bearer '' @ sc_token cfg
      | _ \<Rightarrow> False)"

definition unauthorized :: reply where
  "unauthorized = error_reply 401 ''UNAUTHORIZED'' False"

definition not_found :: reply where
  "not_found = error_reply 404 ''NOT_FOUND'' False"

definition build_in_progress :: reply where
  "build_in_progress = error_reply 409 ''BUILD_IN_PROGRESS'' True"

definition do_GET :: "ServiceConfig \<Rightarrow> bool \<Rightarrow> HttpRequest \<Rightarrow> reply" where
  "do_GET cfg ready req =
     (if hr_path req = ''/healthz'' then (200, JObj [(''status'', JStr ''ok'')])
      else if hr_path req = ''/readyz'' then
        (if ready then 200 else 503, JObj [(''ready'', JBool ready), (''source_mode'', JStr (sc_mode cfg)),
           (''payment_ready'', JBool False), (''live_identity_approved'', JBool False),
           (''blockers'', JList [JStr (if sc_mode cfg = ''live-public'' then ''IDENTITY_UNVERIFIED'' else ''SIMULATED_SOURCE'')])])
      else not_found)"

text \<open>The bounded body of a request; both services read it in the same way.\<close>

definition http_body :: "py_exc \<Rightarrow> HttpRequest \<Rightarrow> string res" where
  "http_body refusal req =
     (case hr_lengths req of
        [l] \<Rightarrow>
          require (\<not> (\<not> list_all (\<lambda>c. code c < 128) l \<or> \<not> isdigit l \<or> hr_transfer_encoding req \<noteq> None
                      \<or> hr_content_type req \<noteq> ''application/json'')) refusal (
          rbind (int_of_digits l) (\<lambda>n.
          require (1 \<le> n \<and> n \<le> 16384) refusal (
          let raw = take (nat n) (hr_body req) in
          require (\<not> int (length raw) \<noteq> n) refusal (Inr raw))))
      | _ \<Rightarrow> Inl refusal)"

definition post_request :: "ServiceConfig \<Rightarrow> HttpRequest \<Rightarrow> int \<Rightarrow> product_request res" where
  "post_request cfg req now_ms =
     rbind (http_body rejected_input req) (\<lambda>raw.
     rbind (strict_json raw) (\<lambda>body. parse_product_request body (sc_engine_commit cfg) now_ms))"

text \<open>The exception handlers of \<open>do_POST\<close>; an exception that they do not name goes through.\<close>

definition post_failure :: "py_exc \<Rightarrow> reply res" where
  "post_failure e =
     (case e of
        EvidenceRejected c \<Rightarrow>
          (let code_text = (if c \<in> set PUBLIC_CODES then c else ''INVALID_DATASET'')
           in Inr (error_reply (if code_text \<in> {''MEZO_SOURCE_UNAVAILABLE'', ''SOURCE_UNAVAILABLE'', ''STORAGE_UNAVAILABLE'', ''ARTIFACT_INTEGRITY_FAILED''} then 503 else 422)
                 code_text False))
      | FileExistsError \<Rightarrow> Inr (error_reply 409 ''REPORT_ALREADY_EXISTS'' False)
      | _ \<Rightarrow> if e \<in> {OSError, TypeError, KeyError} \<or> is_value_error e then Inr (error_reply 503 ''STORAGE_UNAVAILABLE'' False) else Inl e)"

subsection \<open>Fresh reports\<close>

text \<open>The call of the capture service; \<open>extra\<close> is the part of the request that names the product.\<close>

definition capture_call :: "SplitUrl \<Rightarrow> (string \<Rightarrow> (int \<times> string) res) \<Rightarrow> string \<Rightarrow> (string \<times> json) list \<Rightarrow> (string \<times> json) list res" where
  "capture_call url transport capture_id extra =
     require (\<not> (url_scheme url \<noteq> ''http'' \<or> url_hostname url \<notin> {''evidence-capture'', ''127.0.0.1'', ''localhost''} \<or> url_path url \<notin> {[], ''/''}
                 \<or> url_query url \<noteq> [] \<or> url_fragment url \<noteq> [] \<or> url_username url \<noteq> [] \<or> url_password url \<noteq> []
                 \<or> url_port url \<notin> {None, Some 8081})) (EvidenceRejected ''SOURCE_UNAVAILABLE'') (
     reraise (\<lambda>e. e \<in> {OSError, FileExistsError}) (EvidenceRejected ''SOURCE_UNAVAILABLE'') (
       rbind (canonical_json_bytes (JObj ((''capture_id'', JStr capture_id) # extra))) (\<lambda>body.
       rbind (transport body) (\<lambda>(http_status, content).
       let raw = take 16385 content in
       if length raw > 16384 \<or> http_status \<noteq> 201 then
         (if length raw \<le> 16384
          then rbind (strict_json raw) (\<lambda>failure.
            case failure of
              JObj d \<Rightarrow> Inl (EvidenceRejected (if jget d ''code'' = JStr ''MEZO_SOURCE_UNAVAILABLE'' then ''MEZO_SOURCE_UNAVAILABLE'' else ''SOURCE_UNAVAILABLE''))
            | _ \<Rightarrow> Inl (EvidenceRejected ''SOURCE_UNAVAILABLE''))
          else Inl (EvidenceRejected ''SOURCE_UNAVAILABLE''))
       else
         rbind (strict_json raw) (\<lambda>answer.
         case answer of
           JObj d \<Rightarrow>
             require (\<not> (fst ` set d \<noteq> {''capture_id'', ''source_mode'', ''identity_status''} \<or> jget d ''capture_id'' \<noteq> JStr capture_id))
               (EvidenceRejected ''SOURCE_UNAVAILABLE'') (Inr d)
         | _ \<Rightarrow> Inl (EvidenceRejected ''SOURCE_UNAVAILABLE''))))))"

definition require_mezo_source :: "BuiltReport \<Rightarrow> unit res" where
  "require_mezo_source built =
     require (\<not> (map_of (br_input_members built) ''source/mezo-dex.json'' = None \<or> map_of (br_extra_members built) ''mezo-dex/capture.json'' = None
                 \<or> (case br_document built of JObj d \<Rightarrow> \<not> has_key ''mezo_dex'' d | _ \<Rightarrow> True))) (EvidenceRejected ''MEZO_SOURCE_UNAVAILABLE'') (Inr ())"

definition build_trove_product :: "Resources \<Rightarrow> disk \<Rightarrow> string \<Rightarrow> TroveReportRequest \<Rightarrow> int \<Rightarrow> BuiltReport res" where
  "build_trove_product res dir name request created_at_ms =
     rbind (read_trove_package dir name) (\<lambda>capture.
     rbind (trove_report_request (tq_report_id request) (JStr (tq_borrower request)) (JStr (tq_engine_commit request)) (JInt created_at_ms)
              (JStr (tq_source_mode request))) (\<lambda>request.
     rbind (build_trove_report res capture request) (\<lambda>built.
     rbind (rbind (item (br_document built) ''quality'') (\<lambda>q. item q ''snapshot_status'')) (\<lambda>state.
     require (\<not> state \<noteq> JStr ''VALID_FOR_SNAPSHOT_CALCULATION'') (EvidenceRejected ''STALE_SOURCE'') (Inr built)))))"

definition document_mode :: "BuiltReport \<Rightarrow> json res" where
  "document_mode built = rbind (item (br_document built) ''source'') (\<lambda>s. item s ''source_mode'')"

text \<open>The quantity of a market request in wei: \<open>(Fraction(str(q)) * 10**18).numerator\<close>.\<close>

definition capture_extra :: "ServiceConfig \<Rightarrow> product_request \<Rightarrow> (string \<times> json) list res" where
  "capture_extra cfg request =
     (case request of
        TroveProduct r \<Rightarrow>
          require (\<not> sc_troves_enabled cfg \<noteq> ''true'') (EvidenceRejected ''UNSUPPORTED_INSTRUMENT'')
            (Inr [(''trove_risk'', JObj [(''borrower'', JStr (tq_borrower r))])])
      | MarketProduct r \<Rightarrow>
          if sc_dex_enabled cfg = ''true'' then
            rbind (fraction_of_str (exact_str (rq_quantity_base r))) (\<lambda>f.
            Inr [(''mezo_dex'', JObj [(''side'', JStr (side_value (rq_side r))), (''quantity_wei'', JStr (int_str (numer (f * 10 ^ 18))))])])
          else Inr [])"

definition fresh_report :: "Resources \<Rightarrow> ServiceConfig \<Rightarrow> PostEnv \<Rightarrow> product_request \<Rightarrow> BuiltReport res" where
  "fresh_report res cfg env request =
     rbind (capture_extra cfg request) (\<lambda>extra.
     rbind (capture_call (sc_capture_url cfg) (pe_transport env) (pe_capture_id env) extra) (\<lambda>capture.
     require (\<not> jget capture ''source_mode'' \<noteq> JStr (sc_mode cfg)) rejected_dataset (
     let dir = pe_captures env (pe_capture_id env) in
     rbind (case request of
              TroveProduct r \<Rightarrow> build_trove_product res dir (pe_capture_id env) r (pe_now_ms env)
            | MarketProduct r \<Rightarrow> build_report res dir r None) (\<lambda>built.
     rbind (case request of
              MarketProduct r \<Rightarrow> if sc_dex_enabled cfg = ''true'' then require_mezo_source built else Inr ()
            | TroveProduct r \<Rightarrow> Inr ()) (\<lambda>_.
     rbind (document_mode built) (\<lambda>mode.
     require (\<not> mode \<noteq> JStr (sc_mode cfg)) rejected_dataset (
     require (\<not> pe_built env \<ge> pe_started env + 15) (EvidenceRejected ''SOURCE_UNAVAILABLE'') (Inr built))))))))"

subsection \<open>The handlers\<close>

text \<open>The artifact of a request: the published one when the identity is taken, else a fresh one.\<close>

definition stored_artifact :: "Resources \<Rightarrow> ServiceConfig \<Rightarrow> ArtifactRoot \<Rightarrow> string \<Rightarrow> product_request \<Rightarrow> (BuiltReport \<times> PublishedArtifact) res" where
  "stored_artifact res cfg dir report_id request =
     rbind (read_published res dir report_id) (\<lambda>(built, artifact).
     rbind (item (br_document built) ''request'') (\<lambda>r.
     require (\<not> canon r \<noteq> canon (request_identity request)) (EvidenceRejected ''REPORT_ALREADY_EXISTS'') (
     rbind (document_mode built) (\<lambda>mode.
     require (\<not> mode \<noteq> JStr (sc_mode cfg)) rejected_dataset (Inr (built, artifact))))))"

definition post_artifact :: "Resources \<Rightarrow> ServiceConfig \<Rightarrow> PostEnv \<Rightarrow> ArtifactRoot \<Rightarrow> string \<Rightarrow> product_request \<Rightarrow>
    ArtifactRoot \<times> (BuiltReport \<times> PublishedArtifact) res" where
  "post_artifact res cfg env dir report_id request =
     (if ar_is_dir dir \<and> map_of (ar_entries dir) report_id \<noteq> None then (dir, stored_artifact res cfg dir report_id request)
      else case fresh_report res cfg env request of
        Inl e \<Rightarrow> (dir, Inl e)
      | Inr built \<Rightarrow> (case publish_artifact res dir built of (dir, r) \<Rightarrow> (dir, rbind r (\<lambda>artifact. Inr (built, artifact)))))"

definition success_reply :: "BuiltReport \<Rightarrow> PublishedArtifact \<Rightarrow> reply res" where
  "success_reply built artifact =
     rbind (item (br_document built) ''source'') (\<lambda>source.
     rbind (item source ''source_at'') (\<lambda>source_at.
     rbind (item source ''created_at'') (\<lambda>created.
     rbind (item source ''source_mode'') (\<lambda>mode.
     rbind (item (br_document built) ''quality'') (\<lambda>quality.
     rbind (item quality ''snapshot_status'') (\<lambda>state.
     rbind (item quality ''limitations'') (\<lambda>limitations.
     Inr (200, JObj [(''report_id'', JStr (pa_report_id artifact)), (''report_sha256'', JStr (pa_report_sha256 artifact)),
       (''bundle_sha256'', JStr (pa_bundle_sha256 artifact)), (''report_size_bytes'', JInt (int (pa_report_size_bytes artifact))),
       (''bundle_size_bytes'', JInt (int (pa_bundle_size_bytes artifact))), (''snapshot_at'', source_at), (''created_at'', created),
       (''source_mode'', mode), (''snapshot_status'', state), (''limitations'', limitations)]))))))))"

definition catch_post :: "reply res \<Rightarrow> reply res" where
  "catch_post r = (case r of Inl e \<Rightarrow> post_failure e | Inr x \<Rightarrow> Inr x)"

definition post_work :: "Resources \<Rightarrow> ServiceConfig \<Rightarrow> PostEnv \<Rightarrow> ArtifactRoot \<Rightarrow> product_request \<Rightarrow> ArtifactRoot \<times> reply res" where
  "post_work res cfg env dir request =
     (case post_artifact res cfg env dir (uuid_str (product_report_id request)) request of
        (dir, r) \<Rightarrow>
          (dir, catch_post (rbind r (\<lambda>(built, artifact).
             require (\<not> pe_finished env \<ge> pe_started env + 15) (EvidenceRejected ''SOURCE_UNAVAILABLE'') (success_reply built artifact)))))"

text \<open>
  Up to the entry in the set of identities in work a handler has no effect; what it returns is an
  answer (or an uncaught exception), or the identity with the work that it claims.
\<close>

datatype 'w begun = Ended "reply res" | Claims string 'w

definition post_begin :: "ServiceConfig \<Rightarrow> string list \<Rightarrow> HttpRequest \<Rightarrow> int \<Rightarrow> product_request begun" where
  "post_begin cfg active req now_ms =
     (if hr_path req \<noteq> ''/internal/v1/reports'' then Ended (Inr not_found)
      else if \<not> authorized cfg req then Ended (Inr unauthorized)
      else case post_request cfg req now_ms of
        Inl e \<Rightarrow> Ended (post_failure e)
      | Inr request \<Rightarrow>
          (let report_id = uuid_str (product_report_id request)
           in if report_id \<in> set active then Ended (Inr build_in_progress) else Claims report_id request))"

definition delete_failure :: "py_exc \<Rightarrow> reply res" where
  "delete_failure e =
     (case e of
        EvidenceRejected c \<Rightarrow> Inr (error_reply (if c = ''INVALID_INPUT'' then 400 else 409) c False)
      | FileExistsError \<Rightarrow> Inr build_in_progress
      | OSError \<Rightarrow> Inr (error_reply 503 ''STORAGE_UNAVAILABLE'' False)
      | _ \<Rightarrow> Inl e)"

definition REPORTS_PREFIX :: string where
  "REPORTS_PREFIX = ''/internal/v1/reports/''"

definition delete_begin :: "ServiceConfig \<Rightarrow> string list \<Rightarrow> HttpRequest \<Rightarrow> unit begun" where
  "delete_begin cfg active req =
     (if \<not> authorized cfg req then Ended (Inr unauthorized)
      else if take (length REPORTS_PREFIX) (hr_path req) \<noteq> REPORTS_PREFIX then Ended (Inr not_found)
      else case evidence_identifier (JStr (drop (length REPORTS_PREFIX) (hr_path req))) of
        Inl e \<Rightarrow> Ended (delete_failure e)
      | Inr report_id \<Rightarrow>
          if hr_transfer_encoding req \<noteq> None \<or> hr_lengths req \<notin> {[], [''0'']} then Ended (delete_failure rejected_input)
          else if report_id \<in> set active then Ended (Inr build_in_progress)
          else Claims report_id ())"

definition delete_work :: "ArtifactRoot \<Rightarrow> string \<Rightarrow> ArtifactRoot \<times> reply res" where
  "delete_work dir report_id =
     (case delete_published dir report_id of
        (dir, Inr deleted) \<Rightarrow> (dir, Inr (200, JObj [(''report_id'', JStr report_id), (''deleted'', JBool deleted)]))
      | (dir, Inl e) \<Rightarrow> (dir, delete_failure e))"

text \<open>A handler that runs without interruption: claim, work, release.\<close>

definition do_POST :: "Resources \<Rightarrow> ServiceConfig \<Rightarrow> PostEnv \<Rightarrow> string list \<Rightarrow> ArtifactRoot \<Rightarrow> HttpRequest \<Rightarrow> int \<Rightarrow> ArtifactRoot \<times> reply res" where
  "do_POST res cfg env active dir req now_ms =
     (case post_begin cfg active req now_ms of
        Ended r \<Rightarrow> (dir, r)
      | Claims report_id request \<Rightarrow> post_work res cfg env dir request)"

definition do_DELETE :: "ServiceConfig \<Rightarrow> string list \<Rightarrow> ArtifactRoot \<Rightarrow> HttpRequest \<Rightarrow> ArtifactRoot \<times> reply res" where
  "do_DELETE cfg active dir req =
     (case delete_begin cfg active req of
        Ended r \<Rightarrow> (dir, r)
      | Claims report_id _ \<Rightarrow> delete_work dir report_id)"

subsection \<open>Threads\<close>

text \<open>
  Connections are accepted while one of the four slots is free and refused otherwise. A thread claims
  an identity under the lock, works, and releases it in its \<open>finally\<close> block, whatever the work
  returned; its slot is free again when it ends.
\<close>

datatype job = PostJob product_request | DeleteJob

datatype thread = Connected | Working string job | Finished

record Service =
  sv_free :: nat
  sv_threads :: "(nat \<times> thread) list"
  sv_active :: "string list"
  sv_dir :: ArtifactRoot

definition service_start :: "ArtifactRoot \<Rightarrow> Service" where
  "service_start dir = \<lparr>sv_free = 4, sv_threads = [], sv_active = [], sv_dir = dir\<rparr>"

abbreviation set_thread :: "nat \<Rightarrow> thread \<Rightarrow> Service \<Rightarrow> Service" where
  "set_thread t th s \<equiv> s\<lparr>sv_threads := AList.update t th (sv_threads s)\<rparr>"

definition release :: "string \<Rightarrow> string list \<Rightarrow> string list" where
  "release report_id active = filter (\<lambda>i. i \<noteq> report_id) active"

inductive service_step :: "Resources \<Rightarrow> ServiceConfig \<Rightarrow> Service \<Rightarrow> Service \<Rightarrow> bool" for res cfg where
  connect: "sv_free s > 0 \<Longrightarrow> t \<notin> fst ` set (sv_threads s) \<Longrightarrow>
    service_step res cfg s (set_thread t Connected (s\<lparr>sv_free := sv_free s - 1\<rparr>))"
| ends: "map_of (sv_threads s) t = Some Connected \<Longrightarrow> service_step res cfg s (set_thread t Finished s)"
| post_ends: "map_of (sv_threads s) t = Some Connected \<Longrightarrow> post_begin cfg (sv_active s) req now_ms = Ended r \<Longrightarrow>
    service_step res cfg s (set_thread t Finished s)"
| post_claims: "map_of (sv_threads s) t = Some Connected \<Longrightarrow> post_begin cfg (sv_active s) req now_ms = Claims i request \<Longrightarrow>
    service_step res cfg s (set_thread t (Working i (PostJob request)) (s\<lparr>sv_active := i # sv_active s\<rparr>))"
| post_works: "map_of (sv_threads s) t = Some (Working i (PostJob request)) \<Longrightarrow> post_work res cfg env (sv_dir s) request = (dir, r) \<Longrightarrow>
    service_step res cfg s (set_thread t Finished (s\<lparr>sv_dir := dir, sv_active := release i (sv_active s)\<rparr>))"
| delete_ends: "map_of (sv_threads s) t = Some Connected \<Longrightarrow> delete_begin cfg (sv_active s) req = Ended r \<Longrightarrow>
    service_step res cfg s (set_thread t Finished s)"
| delete_claims: "map_of (sv_threads s) t = Some Connected \<Longrightarrow> delete_begin cfg (sv_active s) req = Claims i u \<Longrightarrow>
    service_step res cfg s (set_thread t (Working i DeleteJob) (s\<lparr>sv_active := i # sv_active s\<rparr>))"
| delete_works: "map_of (sv_threads s) t = Some (Working i DeleteJob) \<Longrightarrow> delete_work (sv_dir s) i = (dir, r) \<Longrightarrow>
    service_step res cfg s (set_thread t Finished (s\<lparr>sv_dir := dir, sv_active := release i (sv_active s)\<rparr>))"
| disconnect: "map_of (sv_threads s) t = Some Finished \<Longrightarrow>
    service_step res cfg s (s\<lparr>sv_free := sv_free s + 1, sv_threads := AList.delete t (sv_threads s)\<rparr>)"
| locks: "service_step res cfg s (s\<lparr>sv_dir := (sv_dir s)\<lparr>ar_held := held\<rparr>\<rparr>)"

text \<open>The identity that a thread works on.\<close>

fun works_on :: "thread \<Rightarrow> string option" where
  "works_on (Working i j) = Some i"
| "works_on th = None"

definition jobs :: "(nat \<times> thread) list \<Rightarrow> nat \<rightharpoonup> string" where
  "jobs ths t = Option.bind (map_of ths t) works_on"

text \<open>
  The invariant: slots and threads add up, the identities in work are exactly those that the working
  threads claimed, and no two threads work on the same one.
\<close>

definition owner_ok :: "Service \<Rightarrow> bool" where
  "owner_ok s \<longleftrightarrow> distinct (map fst (sv_threads s)) \<and> sv_free s + length (sv_threads s) = 4
     \<and> set (sv_active s) = ran (jobs (sv_threads s)) \<and> inj_on (jobs (sv_threads s)) (dom (jobs (sv_threads s)))"

lemma claims_fresh:
  "post_begin cfg active req now_ms = Claims i request \<Longrightarrow> i \<notin> set active \<and> i = uuid_str (product_report_id request)"
  "delete_begin cfg active req = Claims i u \<Longrightarrow> i \<notin> set active"
  by (auto simp: post_begin_def delete_begin_def Let_def split: if_splits sum.splits)

lemma update_present: "k \<in> fst ` set d \<Longrightarrow> map fst (AList.update k v d) = map fst d"
  by (induction d) auto

lemma length_update: "k \<in> fst ` set d \<Longrightarrow> length (AList.update k v d) = length d"
  using arg_cong [OF update_present, of k d length v] by simp

lemma length_delete: "distinct (map fst d) \<Longrightarrow> k \<in> fst ` set d \<Longrightarrow> Suc (length (AList.delete k d)) = length d"
  by (induction d) (auto simp: delete_idem)

lemma thread_present: "map_of ths t = Some th \<Longrightarrow> t \<in> fst ` set ths"
  by (auto dest!: map_of_SomeD intro: rev_image_eqI)

lemma jobs_update [simp]: "jobs (AList.update t th ths) = (jobs ths)(t := works_on th)"
  by (auto simp: jobs_def update_conv' fun_eq_iff)

lemma ran_release: "inj_on m (dom m) \<Longrightarrow> m t = Some i \<Longrightarrow> ran (m(t := None)) = ran m - {i}"
  by (auto simp: ran_def inj_on_def dom_def split: if_splits) fastforce

lemma inj_claim: "inj_on m (dom m) \<Longrightarrow> i \<notin> ran m \<Longrightarrow> inj_on (m(t \<mapsto> i)) (dom (m(t \<mapsto> i)))"
  by (auto simp: inj_on_def ran_def dom_def split: if_splits)

lemma inj_release: "inj_on m (dom m) \<Longrightarrow> inj_on (m(t := None)) (dom (m(t := None)))"
  by (auto simp: inj_on_def dom_def)

text \<open>One lemma per kind of change: a thread ends without work, claims, or releases.\<close>

lemma owner_idle:
  assumes "owner_ok s" and "map_of (sv_threads s) t = Some th" and "works_on th = None" and "works_on th' = None"
  shows "owner_ok (set_thread t th' s)"
proof -
  have "(jobs (sv_threads s))(t := None) = jobs (sv_threads s)" using assms(2,3) by (auto simp: jobs_def fun_eq_iff)
  then show ?thesis using assms thread_present [OF assms(2)] by (simp add: owner_ok_def update_present length_update)
qed

lemma owner_claim:
  assumes "owner_ok s" and "map_of (sv_threads s) t = Some th" and "works_on th = None" and "i \<notin> set (sv_active s)"
  shows "owner_ok (set_thread t (Working i j) (s\<lparr>sv_active := i # sv_active s\<rparr>))"
proof -
  have "jobs (sv_threads s) t = None" using assms(2,3) by (simp add: jobs_def)
  then show ?thesis
    using assms thread_present [OF assms(2)] inj_claim [of "jobs (sv_threads s)" i t] by (simp add: owner_ok_def update_present length_update ran_map_upd)
qed

lemma owner_release:
  assumes "owner_ok s" and "map_of (sv_threads s) t = Some (Working i j)"
  shows "owner_ok (set_thread t Finished (s\<lparr>sv_dir := dir, sv_active := release i (sv_active s)\<rparr>))"
proof -
  have "jobs (sv_threads s) t = Some i" using assms(2) by (simp add: jobs_def)
  then show ?thesis
    using assms thread_present [OF assms(2)] ran_release [of "jobs (sv_threads s)" t i] inj_release [of "jobs (sv_threads s)" t]
    by (auto simp: owner_ok_def update_present length_update release_def)
qed

lemma owner_connect:
  assumes "owner_ok s" and "sv_free s > 0" and "t \<notin> fst ` set (sv_threads s)"
  shows "owner_ok (set_thread t Connected (s\<lparr>sv_free := sv_free s - 1\<rparr>))"
proof -
  have "(jobs (sv_threads s))(t := None) = jobs (sv_threads s)" using assms(3) by (auto simp: jobs_def fun_eq_iff map_of_eq_None_iff [THEN iffD2])
  moreover have "length (AList.update t Connected (sv_threads s)) = Suc (length (sv_threads s))" using assms(3) by (simp add: AList_update_new)
  ultimately show ?thesis using assms by (auto simp: owner_ok_def distinct_update)
qed

lemma owner_disconnect:
  assumes "owner_ok s" and "map_of (sv_threads s) t = Some Finished"
  shows "owner_ok (s\<lparr>sv_free := sv_free s + 1, sv_threads := AList.delete t (sv_threads s)\<rparr>)"
proof -
  have "jobs (AList.delete t (sv_threads s)) = jobs (sv_threads s)"
    using assms(2) by (auto simp: jobs_def fun_eq_iff delete_conv')
  moreover have "Suc (length (AList.delete t (sv_threads s))) = length (sv_threads s)"
    using length_delete [of "sv_threads s" t] assms thread_present [OF assms(2)] by (simp add: owner_ok_def)
  ultimately show ?thesis using assms by (simp add: owner_ok_def distinct_delete)
qed

lemmas owner_end = owner_idle [OF _ _ works_on.simps(2) works_on.simps(3)]
lemmas owner_start_work = owner_claim [OF _ _ works_on.simps(2)]

lemma owner_start: "owner_ok (service_start dir)"
  by (simp add: owner_ok_def service_start_def jobs_def ran_def inj_on_def dom_def)

lemma owner_step: "service_step res cfg s s' \<Longrightarrow> owner_ok s \<Longrightarrow> owner_ok s'"
proof (induction rule: service_step.induct)
  case (locks s held)
  then show ?case by (simp add: owner_ok_def)
qed (blast intro: owner_connect owner_end owner_start_work owner_release owner_disconnect dest: claims_fresh)+

subsection \<open>The artifacts of a running service\<close>

lemma report_id_trove:
  assumes "build_trove_report res capture request = Inr built"
  shows "item (br_document built) ''report_id'' = Inr (JStr (uuid_str (tq_report_id request)))"
  using assms by (auto simp: build_trove_report_def Let_def rbind_eq_Inr require_eq_Inr trove_document_def item_def jindex_def)

lemma report_id_market:
  assumes "build_report res dir request mezo = Inr built"
  shows "item (br_document built) ''report_id'' = Inr (JStr (uuid_str (rq_report_id request)))"
  using assms by (auto simp: build_report_def build_inspected_report_def Let_def rbind_eq_Inr require_eq_Inr market_document_def
      item_def jindex_def split: option.splits)

lemma trove_product_report:
  assumes "build_trove_product res dir name request now_ms = Inr built"
  shows "\<exists>capture r. build_trove_report res capture r = Inr built \<and> tq_report_id r = tq_report_id request"
proof -
  obtain capture r where r: "trove_report_request (tq_report_id request) (JStr (tq_borrower request)) (JStr (tq_engine_commit request)) (JInt now_ms)
      (JStr (tq_source_mode request)) = Inr r" "build_trove_report res capture r = Inr built"
    using assms by (auto simp: build_trove_product_def rbind_eq_Inr require_eq_Inr)
  then have "tq_report_id r = tq_report_id request" by (auto simp: trove_report_request_def require_eq_Inr)
  then show ?thesis using r(2) by blast
qed

lemma fresh_report_produced:
  assumes "fresh_report res cfg env request = Inr built"
  shows "produced res built" "item (br_document built) ''report_id'' = Inr (JStr (uuid_str (product_report_id request)))"
proof -
  have "produced res built \<and> item (br_document built) ''report_id'' = Inr (JStr (uuid_str (product_report_id request)))"
  proof (cases request)
    case (MarketProduct r)
    then obtain dir where "build_report res dir r None = Inr built"
      using assms unfolding fresh_report_def Let_def rbind_eq_Inr require_eq_Inr by auto
    then show ?thesis using build_report_produced report_id_market MarketProduct by (fastforce simp: product_report_id_def)
  next
    case (TroveProduct r)
    then obtain dir where "build_trove_product res dir (pe_capture_id env) r (pe_now_ms env) = Inr built"
      using assms unfolding fresh_report_def Let_def rbind_eq_Inr require_eq_Inr by auto
    from trove_product_report [OF this] show ?thesis
      using produced.trove report_id_trove TroveProduct by (fastforce simp: product_report_id_def)
  qed
  then show "produced res built" "item (br_document built) ''report_id'' = Inr (JStr (uuid_str (product_report_id request)))" by blast+
qed

lemma post_work_changes:
  assumes "post_work res cfg env dir request = (dir', r)"
  shows "dir' = dir \<or> (\<exists>built. produced res built \<and> dir' = fst (publish_artifact res dir built))"
  using assms by (auto simp: post_work_def post_artifact_def split: if_splits sum.splits prod.splits)
    (metis fresh_report_produced(1) fst_conv)+

text \<open>What one step of the service does to the store: nothing, one deletion, or one sealed report.\<close>

definition store_change :: "Resources \<Rightarrow> ArtifactRoot \<Rightarrow> ArtifactRoot \<Rightarrow> bool" where
  "store_change res dir dir' \<longleftrightarrow> ar_is_dir dir' = ar_is_dir dir \<and>
     (published dir' = published dir \<or> (\<exists>i. published dir' = (published dir)(i := None))
      \<or> (\<exists>i v. published dir i = None \<and> published dir' = (published dir)(i \<mapsto> v) \<and> sealed_artifact res i v))"

lemma publish_is_dir: "ar_is_dir (fst (publish_artifact res dir built)) = ar_is_dir dir"
  by (auto simp: publish_artifact_def split: sum.splits prod.splits dest: open_report_lock_published(4))

lemma delete_is_dir: "ar_is_dir (fst (delete_published dir i)) = ar_is_dir dir"
  by (auto simp: delete_published_def split: sum.splits prod.splits bool.splits dest: open_report_lock_published(4))

lemma post_work_store: "post_work res cfg env dir request = (dir', r) \<Longrightarrow> store_change res dir dir'"
  using post_work_changes [of res cfg env dir request dir' r] publish_result_changes [of "Inr _" res dir]
  by (auto simp: store_change_def publish_result_def publish_is_dir)

lemma delete_work_store:
  assumes "delete_work dir i = (dir', r)"
  shows "store_change res dir dir'"
proof -
  obtain d where d: "delete_published dir i = (dir', d)"
    using assms by (auto simp: delete_work_def split: prod.splits sum.splits)
  then show ?thesis using delete_changes [OF d] delete_is_dir [of dir i] by (auto simp: store_change_def)
qed

lemma service_step_store: "service_step res cfg s s' \<Longrightarrow> store_change res (sv_dir s) (sv_dir s')"
  by (induction rule: service_step.induct) (auto intro: post_work_store delete_work_store, simp_all add: store_change_def)

interpretation sv: write_once "\<lambda>s. published (sv_dir s)" "service_step res cfg" "sealed_artifact res" for res cfg
proof unfold_locales
  fix s s' k v assume "service_step res cfg s s'"
  then have "store_change res (sv_dir s) (sv_dir s')" by (rule service_step_store)
  then show "published (sv_dir s) k = Some v \<Longrightarrow> published (sv_dir s') k \<noteq> Some v \<Longrightarrow> published (sv_dir s') k = None"
    and "published (sv_dir s) k = None \<Longrightarrow> published (sv_dir s') k = Some v \<Longrightarrow> sealed_artifact res k v"
    by (auto simp: store_change_def split: if_splits)
qed

lemma service_run_is_dir: "(service_step res cfg)\<^sup>*\<^sup>* s s' \<Longrightarrow> ar_is_dir (sv_dir s') = ar_is_dir (sv_dir s)"
  by (induction rule: rtranclp_induct) (use service_step_store in \<open>auto simp: store_change_def\<close>)

lemma service_run_owner: "(service_step res cfg)\<^sup>*\<^sup>* s s' \<Longrightarrow> owner_ok s \<Longrightarrow> owner_ok s'"
  by (induction rule: rtranclp_induct) (use owner_step in blast)+

subsection \<open>The properties of the service\<close>



lemma error_status: "catch_post (Inl e) = Inr (n, doc) \<Longrightarrow> n \<noteq> 200"
  by (auto simp: catch_post_def post_failure_def error_reply_def Let_def split: py_exc.splits if_splits)

lemma success_reply_Inr:
  assumes "success_reply built artifact = Inr (n, doc)"
  shows "n = 200" "item doc ''report_id'' = Inr (JStr (pa_report_id artifact))"
    "item doc ''report_sha256'' = Inr (JStr (pa_report_sha256 artifact))" "item doc ''bundle_sha256'' = Inr (JStr (pa_bundle_sha256 artifact))"
  using assms by (auto simp: success_reply_def rbind_eq_Inr item_def jindex_def)

lemma post_artifact_stored:
  assumes "post_artifact res cfg env dir (uuid_str (product_report_id request)) request = (dir', Inr (built, artifact))"
  shows "\<exists>zb. published dir' = (published dir)(pa_report_id artifact \<mapsto> (br_report_bytes built, zb)) \<and> build_bundle res built = Inr zb
    \<and> pa_report_id artifact = uuid_str (product_report_id request)
    \<and> pa_report_sha256 artifact = digest (br_report_bytes built) \<and> pa_bundle_sha256 artifact = digest zb"
proof (cases "ar_is_dir dir \<and> map_of (ar_entries dir) (uuid_str (product_report_id request)) \<noteq> None")
  case True
  then have "dir' = dir" "read_published res dir (uuid_str (product_report_id request)) = Inr (built, artifact)"
    using assms by (auto simp: post_artifact_def stored_artifact_def rbind_eq_Inr require_eq_Inr)
  then show ?thesis using read_published_stored by fastforce
next
  case False
  then have f: "fresh_report res cfg env request = Inr built" and p: "publish_artifact res dir built = (dir', Inr artifact)"
    using assms by (auto simp: post_artifact_def rbind_eq_Inr split: if_splits sum.splits prod.splits)
  obtain i zb where "item (br_document built) ''report_id'' = Inr (JStr i)" "pa_report_id artifact = i" "build_bundle res built = Inr zb"
    "pa_report_sha256 artifact = br_report_sha256 built" "pa_bundle_sha256 artifact = digest zb"
    "published dir' = (published dir)(i \<mapsto> (br_report_bytes built, zb))"
    using publish_done [OF p] by (metis PublishedArtifact.select_convs(1,2,3))
  moreover have "br_report_sha256 built = digest (br_report_bytes built)" if "build_bundle res built = Inr zb" for zb
    using that by (simp add: build_bundle_def require_eq_Inr)
  ultimately show ?thesis using fresh_report_produced(2) [OF f] by auto
qed


end
