(* ===== verification/Spec2Isabelle.thy ===== *)
theory Spec2Isabelle
  imports PublicAdapters ReportService
begin

text \<open>Liqvera: a verification development of its Python core.\<close>

end
